(* ===== verification/Prelude.thy ===== *)
theory Prelude
  imports Main "HOL-Library.Word" "HOL-Library.Signed_Division" "HOL-Library.AList"
begin

text \<open>
  Shared material: Go's 64-bit integers as integers with the wrap-around written out,
  the theorem collections the components extend, and generic facts on association
  lists and sums that several components use.
\<close>

section \<open>Collections\<close>

named_theorems i64_arith \<open>results of 64-bit arithmetic that stay in range\<close>
named_theorems op_defs \<open>definitions of the operations of a component\<close>
named_theorems frame \<open>fields an operation leaves unchanged\<close>

section \<open>Go's int64 and uint64\<close>

text \<open>
  A Go \<^verbatim>\<open>int64\<close> is an integer in \<open>[-2^63, 2^63)\<close>; every addition,
  subtraction and multiplication of the source goes through \<open>i64\<close>, which wraps as
  two's complement does. \<open>i64_sint\<close> ties it to the library's 64-bit words.
\<close>

definition i64 :: "int \<Rightarrow> int" where
  "i64 x = (x + 9223372036854775808) mod 18446744073709551616 - 9223372036854775808"

definition is_i64 :: "int \<Rightarrow> bool" where
  "is_i64 x \<longleftrightarrow> - 9223372036854775808 \<le> x \<and> x \<le> 9223372036854775807"

definition MaxInt64 :: int where
  "MaxInt64 = 9223372036854775807"

definition u64 :: "int \<Rightarrow> int" where
  "u64 x = x mod 18446744073709551616"

lemma is_i64_i64 [simp]: "is_i64 (i64 x)"
  unfolding is_i64_def i64_def
  using pos_mod_bound [of 18446744073709551616 "x + 9223372036854775808"]
    pos_mod_sign [of 18446744073709551616 "x + 9223372036854775808"] by linarith

lemma i64_id [i64_arith]: "is_i64 x \<Longrightarrow> i64 x = x"
  by (simp add: is_i64_def i64_def)

lemma i64_idem [simp]: "i64 (i64 x) = i64 x"
  by (simp add: i64_id)

lemma i64_in_range [i64_arith]:
  "- 9223372036854775808 \<le> x \<Longrightarrow> x \<le> 9223372036854775807 \<Longrightarrow> i64 x = x"
  by (simp add: i64_id is_i64_def)

lemma i64_sint: "i64 x = sint (word_of_int x :: 64 word)"
proof -
  have "sint (word_of_int x :: 64 word) = signed_take_bit 63 x"
    by (simp add: sint_sbintrunc')
  also have "\<dots> = (x + 2 ^ 63) mod 2 ^ 64 - 2 ^ 63"
    by (simp add: signed_take_bit_eq_take_bit_shift take_bit_eq_mod)
  finally show ?thesis by (simp add: i64_def)
qed

lemma i64_wraps: "i64 (MaxInt64 + 1) = - 9223372036854775808"
  by (simp add: i64_def MaxInt64_def)

lemma u64_add_left: "u64 (u64 x + y) = u64 (x + y)"
  by (simp add: u64_def mod_add_left_eq)

lemma u64_idem [simp]: "u64 (u64 x) = u64 x"
  by (simp add: u64_def)

section \<open>Results\<close>

text \<open>A Go pair \<^verbatim>\<open>(value, error)\<close> is a sum: \<open>Inl\<close> the error, \<open>Inr\<close> the value.\<close>

fun is_err :: "'e + 'a \<Rightarrow> bool" where
  "is_err (Inl e) = True"
| "is_err (Inr a) = False"

section \<open>Association lists and sums\<close>

lemma sum_list_remove1:
  fixes f :: "'a \<Rightarrow> int"
  shows "x \<in> set xs \<Longrightarrow> sum_list (map f (remove1 x xs)) = sum_list (map f xs) - f x"
  by (induction xs) auto

lemma sum_list_nonneg_map:
  fixes f :: "'a \<Rightarrow> int"
  shows "(\<And>x. x \<in> set xs \<Longrightarrow> 0 \<le> f x) \<Longrightarrow> 0 \<le> sum_list (map f xs)"
  by (induction xs) auto

lemma member_le_sum_list_map:
  fixes f :: "'a \<Rightarrow> int"
  assumes "\<And>x. x \<in> set xs \<Longrightarrow> 0 \<le> f x" and "x \<in> set xs"
  shows "f x \<le> sum_list (map f xs)"
  using assms
proof (induction xs)
  case (Cons y ys)
  have "0 \<le> sum_list (map f ys)"
    using Cons.prems(1) by (intro sum_list_nonneg_map) simp
  with Cons show ?case by (fastforce simp: add_increasing add_increasing2)
qed simp

section \<open>Reachable states\<close>

text \<open>
  Concurrent components are step relations whose steps are the critical sections of the
  source; a safety property is an invariant of the reachable states.
\<close>

inductive reach :: "('s \<Rightarrow> bool) \<Rightarrow> ('s \<Rightarrow> 's \<Rightarrow> bool) \<Rightarrow> 's \<Rightarrow> bool"
  for initial and step where
  reach_start: "initial s \<Longrightarrow> reach initial step s"
| reach_step: "reach initial step s \<Longrightarrow> step s t \<Longrightarrow> reach initial step t"

lemma reach_invariant [consumes 1, case_names start step]:
  assumes "reach initial step s"
    and "\<And>s. initial s \<Longrightarrow> keeps s"
    and "\<And>s t. reach initial step s \<Longrightarrow> keeps s \<Longrightarrow> step s t \<Longrightarrow> keeps t"
  shows "keeps s"
  using assms by (induction rule: reach.induct) blast+

end
