(* ===== verification/Keyed_Lock.thy ===== *)
theory Keyed_Lock
  imports Prelude
begin

text \<open>
  The \<^verbatim>\<open>keyedLocker\<close> that coalesces concurrent requests for one cache key. The
  three proxies carry the same code; the model follows
  \<^verbatim>\<open>src/internal/npmproxy/proxy.go\<close>. The map goes from keys to lock objects,
  which live in a heap, because a waiter keeps its pointer while the map entry may be
  deleted and created again. Each step is one critical section of the locker's mutex, or
  one operation on the mutex of a lock object. The reference counter, an \<^verbatim>\<open>int\<close> in
  the code, is an unbounded integer: it counts the requests inside, so it could wrap only
  with \<open>2\<^sup>6\<^sup>3\<close> concurrent requests for one key.
\<close>

section \<open>Data\<close>

record lockRef =
  mu :: bool
  refs :: int

record locker =
  items :: "string \<Rightarrow> nat option"
  objs :: "lockRef list"

definition new_locker :: locker where
  "new_locker = \<lparr>items = Map.empty, objs = []\<rparr>"

section \<open>Operations\<close>

text \<open>The part of \<^verbatim>\<open>lock\<close> under the locker's mutex: find or create the object, count a
  reference, and keep the pointer.\<close>

definition lock_enter :: "string \<Rightarrow> locker \<Rightarrow> nat \<times> locker" where
  "lock_enter key l =
     (let (a, l1) = (case items l key of
            Some a \<Rightarrow> (a, l)
          | None \<Rightarrow> (length (objs l),
                     l\<lparr>objs := objs l @ [\<lparr>mu = False, refs = 0\<rparr>],
                       items := (items l)(key \<mapsto> length (objs l))\<rparr>))
      in (a, l1\<lparr>objs := (objs l1)[a := (objs l1 ! a)\<lparr>refs := refs (objs l1 ! a) + 1\<rparr>]\<rparr>))"

text \<open>\<^verbatim>\<open>item.mu.Lock()\<close>: it blocks (\<open>None\<close>) while the mutex is held.\<close>

definition item_Lock :: "nat \<Rightarrow> locker \<Rightarrow> locker option" where
  "item_Lock a l =
     (if mu (objs l ! a) then None
      else Some (l\<lparr>objs := (objs l)[a := (objs l ! a)\<lparr>mu := True\<rparr>]\<rparr>))"

definition item_Unlock :: "nat \<Rightarrow> locker \<Rightarrow> locker" where
  "item_Unlock a l = l\<lparr>objs := (objs l)[a := (objs l ! a)\<lparr>mu := False\<rparr>]\<rparr>"

text \<open>The part of the returned function under the locker's mutex.\<close>

definition lock_leave :: "string \<Rightarrow> nat \<Rightarrow> locker \<Rightarrow> locker" where
  "lock_leave key a l =
     (let r = (objs l ! a)\<lparr>refs := refs (objs l ! a) - 1\<rparr>;
          l1 = l\<lparr>objs := (objs l)[a := r]\<rparr>
      in if refs r = 0 then l1\<lparr>items := (items l1)(key := None)\<rparr> else l1)"

section \<open>Concurrent requests\<close>

datatype phase =
    Away
  | Waiting string nat
  | Holding string nat
  | Leaving string nat

fun slot :: "phase \<Rightarrow> (string \<times> nat) option" where
  "slot Away = None"
| "slot (Waiting k a) = Some (k, a)"
| "slot (Holding k a) = Some (k, a)"
| "slot (Leaving k a) = Some (k, a)"

type_synonym lsys = "locker \<times> (nat \<Rightarrow> phase)"

inductive lk_step :: "lsys \<Rightarrow> lsys \<Rightarrow> bool" where
  enter: "ph t = Away \<Longrightarrow> lock_enter k l = (a, l') \<Longrightarrow> lk_step (l, ph) (l', ph(t := Waiting k a))"
| acquire: "ph t = Waiting k a \<Longrightarrow> item_Lock a l = Some l' \<Longrightarrow>
     lk_step (l, ph) (l', ph(t := Holding k a))"
| unlock: "ph t = Holding k a \<Longrightarrow> lk_step (l, ph) (item_Unlock a l, ph(t := Leaving k a))"
| leave: "ph t = Leaving k a \<Longrightarrow> lk_step (l, ph) (lock_leave k a l, ph(t := Away))"

abbreviation lk_reach :: "lsys \<Rightarrow> bool" where
  "lk_reach \<equiv> reach (\<lambda>s. s = (new_locker, \<lambda>_. Away)) lk_step"

section \<open>Invariant\<close>

definition users :: "(nat \<Rightarrow> phase) \<Rightarrow> nat \<Rightarrow> nat set" where
  "users ph a = {t. \<exists>k. slot (ph t) = Some (k, a)}"

definition holders :: "(nat \<Rightarrow> phase) \<Rightarrow> nat \<Rightarrow> nat set" where
  "holders ph a = {t. \<exists>k. ph t = Holding k a}"

text \<open>
  \<^item> only finitely many requests are inside, and they use allocated objects;
  \<^item> a request for \<open>k\<close> uses the object the map has for \<open>k\<close>;
  \<^item> an object in the map is in use, and by one key only;
  \<^item> the reference count is the number of users;
  \<^item> a mutex is held by exactly one holder, or free with none.
\<close>

definition lk_inv :: "lsys \<Rightarrow> bool" where
  "lk_inv s \<longleftrightarrow>
     (case s of (l, ph) \<Rightarrow>
        finite {t. ph t \<noteq> Away} \<and>
        (\<forall>t k a. slot (ph t) = Some (k, a) \<longrightarrow> items l k = Some a) \<and>
        (\<forall>k a. items l k = Some a \<longrightarrow>
           a < length (objs l) \<and> users ph a \<noteq> {} \<and> (\<forall>k'. items l k' = Some a \<longrightarrow> k' = k)) \<and>
        (\<forall>a < length (objs l). refs (objs l ! a) = int (card (users ph a))) \<and>
        (\<forall>a < length (objs l). if mu (objs l ! a) then \<exists>t. holders ph a = {t} else holders ph a = {}))"

lemma finite_users: "finite {t. ph t \<noteq> Away} \<Longrightarrow> finite (users ph a)"
  by (rule finite_subset [of _ "{t. ph t \<noteq> Away}"]) (auto simp: users_def)

lemma users_upd:
  "users (ph(t := p)) a =
     (if \<exists>k. slot p = Some (k, a) then insert t (users ph a) else users ph a - {t})"
  by (auto simp: users_def)

lemma holders_upd:
  "holders (ph(t := p)) a =
     (if \<exists>k. p = Holding k a then insert t (holders ph a) else holders ph a - {t})"
  by (auto simp: holders_def)

lemma finite_upd: "finite {t. ph t \<noteq> Away} \<Longrightarrow> finite {t'. (ph(t := p)) t' \<noteq> Away}"
  by (rule finite_subset [of _ "insert t {t. ph t \<noteq> Away}"]) auto

lemma lk_invD:
  assumes "lk_inv (l, ph)"
  shows "finite {t. ph t \<noteq> Away}"
    "\<And>t k a. slot (ph t) = Some (k, a) \<Longrightarrow> items l k = Some a"
    "\<And>k a. items l k = Some a \<Longrightarrow> a < length (objs l)"
    "\<And>k a. items l k = Some a \<Longrightarrow> users ph a \<noteq> {}"
    "\<And>k k' a. items l k = Some a \<Longrightarrow> items l k' = Some a \<Longrightarrow> k' = k"
    "\<And>a. a < length (objs l) \<Longrightarrow> refs (objs l ! a) = int (card (users ph a))"
    "\<And>a. a < length (objs l) \<Longrightarrow> mu (objs l ! a) \<Longrightarrow> \<exists>t. holders ph a = {t}"
    "\<And>a. a < length (objs l) \<Longrightarrow> \<not> mu (objs l ! a) \<Longrightarrow> holders ph a = {}"
  using assms by (auto simp: lk_inv_def split: if_splits)

lemma lk_invI:
  assumes "finite {t. ph t \<noteq> Away}"
    and "\<And>t k a. slot (ph t) = Some (k, a) \<Longrightarrow> items l k = Some a"
    and "\<And>k a. items l k = Some a \<Longrightarrow> a < length (objs l) \<and> users ph a \<noteq> {}"
    and "\<And>k k' a. items l k = Some a \<Longrightarrow> items l k' = Some a \<Longrightarrow> k' = k"
    and "\<And>a. a < length (objs l) \<Longrightarrow> refs (objs l ! a) = int (card (users ph a))"
    and "\<And>a. a < length (objs l) \<Longrightarrow>
      if mu (objs l ! a) then \<exists>t. holders ph a = {t} else holders ph a = {}"
  shows "lk_inv (l, ph)"
  unfolding lk_inv_def prod.case using assms by (intro conjI allI impI) blast+

lemma slot_member: "slot (ph t) = Some (k, a) \<Longrightarrow> t \<in> users ph a"
  by (auto simp: users_def)

lemma away_user: "ph t = Away \<Longrightarrow> t \<notin> users ph a \<and> t \<notin> holders ph a"
  by (auto simp: users_def holders_def)

text \<open>A step inside the lock: the slot stays, only the mutex and the phase move.\<close>

lemma lk_inv_mutex:
  assumes inv: "lk_inv (l, ph)" and s: "slot (ph t) = Some (k, a)" "slot p = Some (k, a)"
    and m: "if m then holders (ph(t := p)) a = {t} else holders (ph(t := p)) a = {}"
  shows "lk_inv (l\<lparr>objs := (objs l)[a := (objs l ! a)\<lparr>mu := m\<rparr>]\<rparr>, ph(t := p))"
proof -
  note I = lk_invD [OF inv]
  have it: "items l k = Some a" using I(2) s(1) by blast
  have us: "users (ph(t := p)) b = users ph b" for b
  proof (cases "b = a")
    case True
    then show ?thesis using s slot_member [of ph t k a] by (auto simp: users_upd)
  next
    case False
    with s have "t \<notin> users ph b" by (auto simp: users_def)
    with False s show ?thesis by (auto simp: users_upd)
  qed
  have ho: "holders (ph(t := p)) b = holders ph b" if "b \<noteq> a" for b
  proof -
    have "t \<notin> holders ph b" using that s(1) by (auto simp: holders_def)
    moreover have "\<not> (\<exists>k. p = Holding k b)" using that s(2) by auto
    ultimately show ?thesis by (simp add: holders_upd)
  qed
  have "if mu ((objs l)[a := (objs l ! a)\<lparr>mu := m\<rparr>] ! b)
        then \<exists>t'. holders (ph(t := p)) b = {t'} else holders (ph(t := p)) b = {}"
    if "b < length (objs l)" for b
    using that m ho [of b] I(7,8) [of b] by (cases "b = a") (auto split: if_splits)
  moreover have "refs ((objs l)[a := (objs l ! a)\<lparr>mu := m\<rparr>] ! b) = int (card (users ph b))"
    if "b < length (objs l)" for b
    using that I(6) [of b] by (cases "b = a") auto
  moreover have "slot ((ph(t := p)) t') = Some (k', b) \<Longrightarrow> items l k' = Some b" for t' k' b
    using I(2) s it by (auto split: if_splits)
  ultimately show ?thesis
    using I(1,3,4,5) finite_upd [OF I(1)] by (auto simp: lk_inv_def us simp del: fun_upd_apply)
qed

text \<open>Entering: the count of the object grows with its users.\<close>

lemma users_fresh:
  assumes "lk_inv (l, ph)"
  shows "users ph (length (objs l)) = {}" "holders ph (length (objs l)) = {}"
proof -
  have "slot (ph t) \<noteq> Some (k, length (objs l))" for t k
    using lk_invD(2,3) [OF assms] by fastforce
  then show "users ph (length (objs l)) = {}" by (auto simp: users_def)
  have "ph t \<noteq> Holding k (length (objs l))" for t k
    using lk_invD(2) [OF assms, of t k "length (objs l)"]
      lk_invD(3) [OF assms, of k "length (objs l)"] by auto
  then show "holders ph (length (objs l)) = {}" by (auto simp: holders_def)
qed

lemma lk_inv_count:
  assumes inv: "lk_inv (l, ph)" and t: "ph t = Away" and it: "items l k = Some a"
  shows "lk_inv (l\<lparr>objs := (objs l)[a := (objs l ! a)\<lparr>refs := refs (objs l ! a) + 1\<rparr>]\<rparr>,
                 ph(t := Waiting k a))"
proof -
  note I = lk_invD [OF inv]
  have ho: "holders (ph(t := Waiting k a)) b = holders ph b" for b
    using away_user [of ph t b] t by (auto simp: holders_upd)
  have us: "users (ph(t := Waiting k a)) b = (if b = a then insert t (users ph a) else users ph b)" for b
    using away_user [of ph t b] t by (auto simp: users_upd)
  have "card (insert t (users ph a)) = Suc (card (users ph a))"
    using away_user [of ph t a] t finite_users [OF I(1)] by simp
  then have "refs ((objs l)[a := (objs l ! a)\<lparr>refs := refs (objs l ! a) + 1\<rparr>] ! b)
      = int (card (if b = a then insert t (users ph a) else users ph b))"
    if "b < length (objs l)" for b
    using that I(6) by (cases "b = a") auto
  moreover have "if mu ((objs l)[a := (objs l ! a)\<lparr>refs := refs (objs l ! a) + 1\<rparr>] ! b)
      then \<exists>t. holders ph b = {t} else holders ph b = {}" if "b < length (objs l)" for b
    using that I(7,8) by (cases "b = a") auto
  moreover have "slot ((ph(t := Waiting k a)) t') = Some (k', b) \<Longrightarrow> items l k' = Some b" for t' k' b
    using I(2) it by (auto split: if_splits)
  ultimately show ?thesis
    using I(3,4,5) finite_upd [OF I(1)] by (auto simp: lk_inv_def us ho simp del: fun_upd_apply)
qed

lemma lk_inv_create:
  assumes inv: "lk_inv (l, ph)" and t: "ph t = Away" and it: "items l k = None"
  defines "a \<equiv> length (objs l)"
  shows "lk_inv (l\<lparr>objs := objs l @ [\<lparr>mu = False, refs = 1\<rparr>], items := (items l)(k \<mapsto> a)\<rparr>,
                 ph(t := Waiting k a))"
proof -
  note I = lk_invD [OF inv] and F = users_fresh [OF inv]
  have ho: "holders (ph(t := Waiting k a)) b = holders ph b" for b
    using away_user [of ph t b] t by (auto simp: holders_upd)
  have us: "users (ph(t := Waiting k a)) b = (if b = a then {t} else users ph b)" for b
    using away_user [of ph t b] t F by (auto simp: users_upd a_def)
  have R: "refs ((objs l @ [\<lparr>mu = False, refs = 1\<rparr>]) ! b) = int (card (if b = a then {t} else users ph b))"
    if "b < Suc (length (objs l))" for b
    using that I(6) [of b] by (cases "b = a") (auto simp: nth_append a_def)
  have M: "if mu ((objs l @ [\<lparr>mu = False, refs = 1\<rparr>]) ! b)
      then \<exists>t. holders ph b = {t} else holders ph b = {}" if "b < Suc (length (objs l))" for b
    using that I(7,8) [of b] F by (cases "b = a") (auto simp: nth_append a_def)
  have old: "((items l)(k \<mapsto> a)) k' = Some b \<Longrightarrow>
      (k' = k \<and> b = a) \<or> (k' \<noteq> k \<and> items l k' = Some b \<and> b < a)" for k' b
    using I(3) [of k' b] by (auto simp: a_def split: if_splits)
  show ?thesis
  proof (rule lk_invI, goal_cases)
    case 1
    show ?case by (rule finite_upd [OF I(1)])
  next
    case (2 t' k' b)
    with it I(2) [of t' k' b] show ?case by (cases "t' = t") auto
  next
    case (3 k' b)
    then have "((items l)(k \<mapsto> a)) k' = Some b" by simp
    with old [of k' b] I(4) [of k' b] us [of b] show ?case
      by (auto simp del: fun_upd_apply simp: a_def)
  next
    case (4 k1 k2 b)
    then have "((items l)(k \<mapsto> a)) k1 = Some b" "((items l)(k \<mapsto> a)) k2 = Some b" by simp_all
    with old [of k1 b] old [of k2 b] I(5) [of k1 b k2] show ?case by (auto simp del: fun_upd_apply)
  next
    case (5 b)
    with R [of b] show ?case by (simp add: us)
  next
    case (6 b)
    with M [of b] show ?case by (simp add: ho)
  qed
qed

lemma lk_inv_enter:
  assumes "lk_inv (l, ph)" "ph t = Away" "lock_enter k l = (a, l')"
  shows "lk_inv (l', ph(t := Waiting k a))"
proof (cases "items l k")
  case None
  with assms(3) have "a = length (objs l)"
    "l' = l\<lparr>objs := objs l @ [\<lparr>mu = False, refs = 1\<rparr>], items := (items l)(k \<mapsto> length (objs l))\<rparr>"
    by (auto simp: lock_enter_def)
  with lk_inv_create [OF assms(1,2) None] show ?thesis by simp
next
  case (Some b)
  with assms(3) lk_inv_count [OF assms(1,2) Some] show ?thesis by (auto simp: lock_enter_def)
qed

text \<open>Leaving: the last user removes the map entry.\<close>

lemma lk_inv_leave:
  assumes inv: "lk_inv (l, ph)" and t: "ph t = Leaving k a"
  shows "lk_inv (lock_leave k a l, ph(t := Away))"
proof -
  note I = lk_invD [OF inv]
  have it: "items l k = Some a" and al: "a < length (objs l)"
    using I(2) [of t k a] I(3) [of k a] t by auto
  have ho: "holders (ph(t := Away)) b = holders ph b" for b
    using t by (auto simp: holders_upd holders_def)
  have us: "users (ph(t := Away)) b = (if b = a then users ph a - {t} else users ph b)" for b
    using t by (auto simp: users_def)
  have tin: "t \<in> users ph a" using slot_member [of ph t k a] t by simp
  have cnt: "refs (objs l ! a) - 1 = int (card (users ph a - {t}))"
    using I(6) [OF al] tin finite_users [OF I(1), of a] card_gt_0_iff [of "users ph a"]
    by (auto simp: card_Diff_singleton)
  let ?r = "(objs l ! a)\<lparr>refs := refs (objs l ! a) - 1\<rparr>"
  have obj: "refs ((objs l)[a := ?r] ! b) = int (card (if b = a then users ph a - {t} else users ph b))
      \<and> (if mu ((objs l)[a := ?r] ! b) then \<exists>t. holders ph b = {t} else holders ph b = {})"
    if "b < length (objs l)" for b
    using that I(6,7,8) [of b] cnt by (cases "b = a") auto
  have sl: "slot ((ph(t := Away)) t') = Some (k', b) \<Longrightarrow> t' \<noteq> t \<and> items l k' = Some b" for t' k' b
    using I(2) by (auto split: if_splits)
  show ?thesis
  proof (cases "refs (objs l ! a) - 1 = 0")
    case True
    with cnt finite_users [OF I(1), of a] have last: "users ph a - {t} = {}" by simp
    have ln: "lock_leave k a l = l\<lparr>objs := (objs l)[a := ?r], items := (items l)(k := None)\<rparr>"
      using True by (simp add: lock_leave_def)
    have keep: "((items l)(k := None)) k' = Some b \<Longrightarrow> items l k' = Some b \<and> b \<noteq> a" for k' b
      using I(5) [of k a k'] it by (auto split: if_splits)
    show ?thesis
      unfolding ln
    proof (rule lk_invI, goal_cases)
      case 1
      show ?case by (rule finite_upd [OF I(1)])
    next
      case (2 t' k' b)
      from sl [OF 2] have o: "t' \<noteq> t" "items l k' = Some b" by simp_all
      with 2 have "t' \<in> users ph b" by (simp add: slot_member)
      with last o it have "k' \<noteq> k" by auto
      with o show ?case by simp
    next
      case (3 k' b)
      with keep [of k' b] I(3,4) [of k' b] show ?case by (simp add: us)
    next
      case (4 k1 k2 b)
      with keep [of k1 b] keep [of k2 b] I(5) [of k1 b k2] show ?case by simp
    next
      case (5 b)
      with obj [of b] show ?case by (simp add: us)
    next
      case (6 b)
      with obj [of b] show ?case by (simp add: ho)
    qed
  next
    case False
    with cnt have "card (users ph a - {t}) \<noteq> 0" by simp
    then have "users ph a - {t} \<noteq> {}" by (metis card.empty)
    then have more: "users (ph(t := Away)) b \<noteq> {}" if "items l k' = Some b" for k' b
      using that I(4) [of k' b] by (simp add: us)
    have ln: "lock_leave k a l = l\<lparr>objs := (objs l)[a := ?r]\<rparr>"
      using False by (simp add: lock_leave_def)
    show ?thesis
      unfolding ln
    proof (rule lk_invI, goal_cases)
      case 1
      show ?case by (rule finite_upd [OF I(1)])
    next
      case (2 t' k' b)
      with sl [of t' k' b] show ?case by simp
    next
      case (3 k' b)
      with more [of k' b] I(3) [of k' b] show ?case by simp
    next
      case (4 k1 k2 b)
      with I(5) [of k1 b k2] show ?case by simp
    next
      case (5 b)
      with obj [of b] show ?case by (simp add: us)
    next
      case (6 b)
      with obj [of b] show ?case by (simp add: ho)
    qed
  qed
qed

lemma lk_inv_slot:
  assumes "lk_inv (l, ph)" "slot (ph t) = Some (k, a)"
  shows "items l k = Some a \<and> a < length (objs l)"
  using lk_invD(2) [OF assms(1), of t k a] lk_invD(3) [OF assms(1), of k a] assms(2) by simp

lemma lk_inv_step: "lk_step s s' \<Longrightarrow> lk_inv s \<Longrightarrow> lk_inv s'"
proof (induction rule: lk_step.induct)
  case (enter ph t k l a l')
  then show ?case by (blast intro: lk_inv_enter)
next
  case (acquire ph t k a l l')
  then have free: "\<not> mu (objs l ! a)" and l': "l' = l\<lparr>objs := (objs l)[a := (objs l ! a)\<lparr>mu := True\<rparr>]\<rparr>"
    by (auto simp: item_Lock_def split: if_splits)
  from lk_inv_slot [OF acquire.prems, of t k a] acquire have "a < length (objs l)" by simp
  then have "holders ph a = {}" using lk_invD(8) [OF acquire.prems] free by blast
  then show ?case unfolding l'
    by (intro lk_inv_mutex [where k = k]) (use acquire in \<open>auto simp: holders_upd\<close>)
next
  case (unlock ph t k a l)
  then have al: "a < length (objs l)" using lk_inv_slot [of l ph t k a] by simp
  have "t \<in> holders ph a" using unlock by (auto simp: holders_def)
  with lk_invD(7,8) [OF unlock.prems al] have "holders ph a = {t}"
    by (cases "mu (objs l ! a)") auto
  then show ?case unfolding item_Unlock_def
    by (intro lk_inv_mutex [where k = k]) (use unlock in \<open>auto simp: holders_upd\<close>)
next
  case (leave ph t k a l)
  then show ?case by (intro lk_inv_leave)
qed

lemma lk_reach_inv: "lk_reach s \<Longrightarrow> lk_inv s"
proof (induction rule: reach_invariant)
  case (start s)
  then show ?case by (simp add: lk_inv_def new_locker_def)
next
  case (step s t)
  then show ?case by (blast intro: lk_inv_step)
qed

section \<open>Properties\<close>

text \<open>C20.
  
  One fetch per key: in every reachable state of any number of concurrent requests, two
  requests that hold the lock for the same key are the same request.\<close>

theorem keyed_mutual_exclusion:
  assumes "lk_reach (l, ph)" "ph t = Holding k a" "ph t' = Holding k b"
  shows "t = t'"
proof -
  note I = lk_invD [OF lk_reach_inv [OF assms(1)]]
  have ab: "items l k = Some a" "items l k = Some b"
    using I(2) [of t k a] I(2) [of t' k b] assms(2,3) by simp_all
  have "t \<in> holders ph a" "t' \<in> holders ph a" using assms(2,3) ab by (auto simp: holders_def)
  with I(3) [OF ab(1)] I(7,8) [of a] show ?thesis by (cases "mu (objs l ! a)") auto
qed

text \<open>Two requests for one key: the first holds the lock, the second waits for it.\<close>

definition contended :: lsys where
  "contended =
     (\<lparr>items = [''k'' \<mapsto> 0], objs = [\<lparr>mu = True, refs = 2\<rparr>]\<rparr>,
      (\<lambda>_. Away)(0 := Holding ''k'' 0, 1 := Waiting ''k'' 0))"

lemma contended_reach: "lk_reach contended"
proof -
  let ?l1 = "\<lparr>items = [''k'' \<mapsto> 0], objs = [\<lparr>mu = False, refs = 1\<rparr>]\<rparr>"
  let ?l2 = "\<lparr>items = [''k'' \<mapsto> 0], objs = [\<lparr>mu = True, refs = 1\<rparr>]\<rparr>"
  have "lk_reach (new_locker, \<lambda>_. Away)" by (rule reach_start) simp
  moreover have "lk_step (new_locker, \<lambda>_. Away) (?l1, (\<lambda>_. Away)(0 := Waiting ''k'' 0))"
    by (rule enter) (simp_all add: lock_enter_def new_locker_def)
  ultimately have 1: "lk_reach (?l1, (\<lambda>_. Away)(0 := Waiting ''k'' 0))" by (rule reach_step)
  have "lk_step (?l1, (\<lambda>_. Away)(0 := Waiting ''k'' 0)) (?l2, (\<lambda>_. Away)(0 := Holding ''k'' 0))"
    using acquire [of "(\<lambda>_. Away)(0 := Waiting ''k'' 0)" 0 "''k''" 0 ?l1 ?l2]
    by (simp add: item_Lock_def)
  with 1 have 2: "lk_reach (?l2, (\<lambda>_. Away)(0 := Holding ''k'' 0))" by (rule reach_step)
  have "lk_step (?l2, (\<lambda>_. Away)(0 := Holding ''k'' 0)) contended"
    unfolding contended_def by (rule enter) (simp_all add: lock_enter_def)
  with 2 show ?thesis by (rule reach_step)
qed

theorem keyed_mutual_exclusion_witness:
  "lk_reach contended \<and> {t. snd contended t = Holding ''k'' 0} = {0}"
proof -
  have h: "snd contended 0 = Holding ''k'' 0" by (simp add: contended_def)
  have "t = 0" if "snd contended t = Holding ''k'' 0" for t
    using keyed_mutual_exclusion [of "fst contended" "snd contended" t "''k''" 0 0 0]
      contended_reach that h by simp
  with contended_reach h show ?thesis by blast
qed

text \<open>
  The lock table does not leak: in every reachable state the table has an entry for a key
  exactly when some request for that key is inside, the entry's count is the number of
  such requests, and when all requests have left the table is empty.\<close>

theorem keyed_no_leak:
  assumes "lk_reach (l, ph)"
  shows "(\<forall>k. items l k \<noteq> None \<longleftrightarrow> (\<exists>t a. slot (ph t) = Some (k, a))) \<and>
         (\<forall>k a. items l k = Some a \<longrightarrow>
            refs (objs l ! a) = int (card {t. \<exists>b. slot (ph t) = Some (k, b)})) \<and>
         ((\<forall>t. ph t = Away) \<longrightarrow> items l = Map.empty)"
proof -
  note I = lk_invD [OF lk_reach_inv [OF assms]]
  have us: "users ph a = {t. \<exists>b. slot (ph t) = Some (k, b)}" if a: "items l k = Some a" for k a
  proof -
    have "t \<in> users ph a \<longleftrightarrow> (\<exists>b. slot (ph t) = Some (k, b))" for t
    proof (cases "slot (ph t)")
      case None
      then show ?thesis by (simp add: users_def)
    next
      case (Some p)
      then obtain k' b where p: "slot (ph t) = Some (k', b)" by (cases p) simp
      with I(2) [of t k' b] I(5) [of k a k'] a have "b = a \<longleftrightarrow> k' = k" by auto
      with p show ?thesis by (auto simp: users_def)
    qed
    then show ?thesis by blast
  qed
  have 1: "items l k \<noteq> None \<longleftrightarrow> (\<exists>t a. slot (ph t) = Some (k, a))" for k
  proof
    assume "items l k \<noteq> None"
    then obtain a where a: "items l k = Some a" by blast
    from I(4) [OF a] obtain t where "t \<in> users ph a" by auto
    then have "\<exists>b. slot (ph t) = Some (k, b)" using us [OF a] by simp
    then show "\<exists>t a. slot (ph t) = Some (k, a)" by (rule exI)
  next
    assume "\<exists>t a. slot (ph t) = Some (k, a)"
    then obtain t a where "slot (ph t) = Some (k, a)" by blast
    with I(2) [of t k a] show "items l k \<noteq> None" by simp
  qed
  moreover have "items l = Map.empty" if "\<forall>t. ph t = Away"
  proof
    fix k
    from that have "\<nexists>t a. slot (ph t) = Some (k, a)" by simp
    with 1 [of k] show "items l k = None" by simp
  qed
  moreover have "refs (objs l ! a) = int (card {t. \<exists>b. slot (ph t) = Some (k, b)})"
    if "items l k = Some a" for k a
    using I(6) [OF I(3) [OF that]] us [OF that] by simp
  ultimately show ?thesis by simp
qed

theorem keyed_no_leak_witness:
  "lk_reach contended \<and> items (fst contended) ''k'' \<noteq> None \<and>
   (\<exists>t a. slot (snd contended t) = Some (''k'', a))"
  using keyed_no_leak [of "fst contended" "snd contended"] contended_reach
  by (auto simp: contended_def)

text \<open>No lost wake-up: when a request waits for a key and no request holds that key's
  lock, the waiting request can take it.\<close>

lemma keyed_progress:
  assumes "lk_inv (l, ph)" "ph t = Waiting k a" "\<forall>t' b. ph t' \<noteq> Holding k b"
  shows "\<exists>l'. item_Lock a l = Some l' \<and> lk_step (l, ph) (l', ph(t := Holding k a))"
proof -
  note I = lk_invD [OF assms(1)]
  have it: "items l k = Some a" using I(2) [of t k a] assms(2) by simp
  have "holders ph a = {}"
  proof (rule ccontr)
    assume "holders ph a \<noteq> {}"
    then obtain t' k' where h: "ph t' = Holding k' a" by (auto simp: holders_def)
    with I(2) [of t' k' a] I(5) [OF it, of k'] have "k' = k" by simp
    with h assms(3) show False by blast
  qed
  with I(3) [OF it] I(7) [of a] have "\<not> mu (objs l ! a)" by auto
  then show ?thesis using assms(2) by (auto simp: item_Lock_def intro!: lk_step.acquire)
qed

subsection \<open>Draining\<close>

text \<open>A step of a request that is already inside: no request arrives. Every request inside
  has a number of its own steps to go, and \<open>pending\<close> adds them up.\<close>

definition inside_step :: "lsys \<Rightarrow> lsys \<Rightarrow> bool" where
  "inside_step s s' \<longleftrightarrow> lk_step s s' \<and> (\<forall>t. snd s t = Away \<longrightarrow> snd s' t = Away)"

fun steps_left :: "phase \<Rightarrow> nat" where
  "steps_left Away = 0"
| "steps_left (Waiting k a) = 3"
| "steps_left (Holding k a) = 2"
| "steps_left (Leaving k a) = 1"

definition pending :: "(nat \<Rightarrow> phase) \<Rightarrow> nat" where
  "pending ph = (\<Sum>t | ph t \<noteq> Away. steps_left (ph t))"

lemma pending_upd:
  assumes fin: "finite {t. ph t \<noteq> Away}" and p: "ph t \<noteq> Away"
    and less: "Suc (steps_left p) = steps_left (ph t)"
  shows "Suc (pending (ph(t := p))) = pending ph"
proof -
  let ?A = "{t'. ph t' \<noteq> Away}"
  have "pending (ph(t := p)) = (\<Sum>t'\<in>?A. steps_left ((ph(t := p)) t'))"
    unfolding pending_def by (rule sum.mono_neutral_left) (use fin p in \<open>auto split: if_splits\<close>)
  also have "\<dots> = steps_left p + (\<Sum>t'\<in>?A - {t}. steps_left (ph t'))"
    using fin p by (simp add: sum.remove [of _ t])
  finally show ?thesis
    using fin p less by (simp add: pending_def sum.remove [of ?A t])
qed

lemma inside_step_pending:
  assumes "inside_step s s'" "lk_inv s"
  shows "Suc (pending (snd s')) = pending (snd s)"
proof -
  from assms(1) have st: "lk_step s s'" and away: "\<forall>t. snd s t = Away \<longrightarrow> snd s' t = Away"
    by (simp_all add: inside_step_def)
  have fin: "finite {t. snd s t \<noteq> Away}"
    using lk_invD(1) [of "fst s" "snd s"] assms(2) by simp
  from st show ?thesis
  proof cases
    case (enter ph t k l a l')
    with away show ?thesis by (metis fun_upd_same phase.distinct(1) snd_conv)
  next
    case (acquire ph t k a l l')
    with fin show ?thesis by (simp add: pending_upd)
  next
    case (unlock ph t k a l)
    with fin show ?thesis by (simp add: pending_upd)
  next
    case (leave ph t k a l)
    with fin show ?thesis by (simp add: pending_upd)
  qed
qed

lemma inside_steps_pending:
  "(inside_step ^^ n) s s' \<Longrightarrow> lk_inv s \<Longrightarrow> lk_inv s' \<and> n + pending (snd s') = pending (snd s)"
proof (induction n arbitrary: s')
  case (Suc n)
  then obtain u where u: "(inside_step ^^ n) s u" "inside_step u s'" by auto
  with Suc have "lk_inv u" "n + pending (snd u) = pending (snd s)" by blast+
  with inside_step_pending [OF u(2)] lk_inv_step [of u s'] u(2)
  show ?case by (simp add: inside_step_def)
qed simp

lemma pending_bound:
  assumes "finite {t. ph t \<noteq> Away}"
  shows "pending ph \<le> 3 * card {t. ph t \<noteq> Away}"
proof -
  have "steps_left p \<le> 3" for p by (cases p) simp_all
  then show ?thesis
    using sum_bounded_above [of "{t. ph t \<noteq> Away}" "\<lambda>t. steps_left (ph t)" 3]
    by (simp add: pending_def mult.commute)
qed

text \<open>While a request is inside, some request inside can take its next step: a holder can
  unlock, one that has unlocked can leave, and with neither a waiting one takes its lock.\<close>

lemma inside_step_exists:
  assumes inv: "lk_inv (l, ph)" and t: "ph t \<noteq> Away"
  shows "\<exists>s'. inside_step (l, ph) s'"
proof (cases "\<exists>t k a. ph t = Holding k a")
  case True
  then obtain t k a where h: "ph t = Holding k a" by blast
  from lk_step.unlock [of ph t k a l, OF h] h have "inside_step (l, ph) (item_Unlock a l, ph(t := Leaving k a))"
    by (simp add: inside_step_def)
  then show ?thesis ..
next
  case none: False
  show ?thesis
  proof (cases "ph t")
    case (Waiting k a)
    from keyed_progress [OF inv Waiting] none obtain l' where
      "lk_step (l, ph) (l', ph(t := Holding k a))" by blast
    with Waiting have "inside_step (l, ph) (l', ph(t := Holding k a))" by (simp add: inside_step_def)
    then show ?thesis ..
  next
    case (Leaving k a)
    from lk_step.leave [of ph t k a l, OF Leaving] have "inside_step (l, ph) (lock_leave k a l, ph(t := Away))"
      by (simp add: inside_step_def)
    then show ?thesis ..
  qed (use none t in auto)
qed

lemma empty_when_away:
  assumes "lk_inv (l, ph)" "\<forall>t. ph t = Away"
  shows "items l = Map.empty"
proof
  fix k
  show "items l k = None"
    using lk_invD(4) [OF assms(1), of k] assms(2) by (cases "items l k") (auto simp: users_def)
qed

text \<open>C37.
  
  The lock drains. Take any reachable state and let only the requests inside go on, in any
  order. Such a run has at most three steps for each request that was inside; wherever it has
  come to, it can go on exactly when some request is still inside (there is no deadlock and no
  lost wake-up); so a run that cannot go on has let every request through, and then the lock
  table is empty.\<close>

theorem keyed_drains:
  assumes "lk_reach s" "(inside_step ^^ n) s s'"
  shows "n \<le> 3 * card {t. snd s t \<noteq> Away} \<and>
         ((\<exists>s''. inside_step s' s'') \<longleftrightarrow> (\<exists>t. snd s' t \<noteq> Away)) \<and>
         ((\<nexists>s''. inside_step s' s'') \<longrightarrow> (\<forall>t. snd s' t = Away) \<and> items (fst s') = Map.empty)"
proof -
  have inv: "lk_inv s" by (rule lk_reach_inv [OF assms(1)])
  from inside_steps_pending [OF assms(2) inv]
  have inv': "lk_inv s'" and cnt: "n + pending (snd s') = pending (snd s)" by simp_all
  have fin: "finite {t. snd s t \<noteq> Away}"
    using inv lk_invD(1) [of "fst s" "snd s"] by simp
  have go: "(\<exists>s''. inside_step s' s'') \<longleftrightarrow> (\<exists>t. snd s' t \<noteq> Away)"
  proof
    assume "\<exists>s''. inside_step s' s''"
    then obtain s'' where "inside_step s' s''" ..
    from inside_step_pending [OF this inv'] have "pending (snd s') \<noteq> 0" by simp
    then have "{t. snd s' t \<noteq> Away} \<noteq> {}" unfolding pending_def by fastforce
    then show "\<exists>t. snd s' t \<noteq> Away" by blast
  next
    assume "\<exists>t. snd s' t \<noteq> Away"
    then show "\<exists>s''. inside_step s' s''"
      using inside_step_exists [of "fst s'" "snd s'"] inv' by auto
  qed
  have "items (fst s') = Map.empty" if "\<forall>t. snd s' t = Away"
    using empty_when_away [of "fst s'" "snd s'"] inv' that by simp
  with go pending_bound [OF fin] cnt show ?thesis by auto
qed

theorem keyed_drains_witness:
  "lk_reach contended \<and> (\<exists>s. inside_step contended s) \<and>
   {n. \<exists>s. (inside_step ^^ n) contended s} \<subseteq> {..6}"
proof -
  have "{t. snd contended t \<noteq> Away} = {0, 1}" by (auto simp: contended_def)
  then have c: "card {t. snd contended t \<noteq> Away} = 2" by simp
  have "(inside_step ^^ 0) contended contended" by simp
  from keyed_drains [OF contended_reach this]
  have "(\<exists>s. inside_step contended s) \<longleftrightarrow> (\<exists>t. snd contended t \<noteq> Away)" by simp
  then have "\<exists>s. inside_step contended s" by (auto simp: contended_def)
  moreover have "n \<le> 6" if "(inside_step ^^ n) contended s" for n s
    using keyed_drains [OF contended_reach that] c by simp
  ultimately show ?thesis using contended_reach by auto
qed

end
