(* ===== verification/Go_Strings.thy ===== *)
theory Go_Strings
  imports Prelude "HOL-Library.Sublist" "HOL-Library.Char_ord" "HOL-Library.List_Lexorder"
begin

text \<open>
  What the program uses of Go's \<^verbatim>\<open>strings\<close>, \<^verbatim>\<open>strconv\<close>,
  \<^verbatim>\<open>encoding/hex\<close>, \<^verbatim>\<open>path/filepath\<close> and of
  \<^verbatim>\<open>http.Header\<close>. A Go string is a sequence of bytes, and so is \<open>string\<close>
  (a \<open>char\<close> is a byte). Functions that Go defines on Unicode letters and spaces
  (\<^verbatim>\<open>ToLower\<close>, \<^verbatim>\<open>EqualFold\<close>, \<^verbatim>\<open>TrimSpace\<close>) are
  modelled on ASCII and leave other bytes alone, as Go does for every ASCII string.
\<close>

section \<open>strings\<close>

definition HasPrefix :: "string \<Rightarrow> string \<Rightarrow> bool" where
  "HasPrefix s p \<longleftrightarrow> take (length p) s = p"

definition HasSuffix :: "string \<Rightarrow> string \<Rightarrow> bool" where
  "HasSuffix s p \<longleftrightarrow> length p \<le> length s \<and> drop (length s - length p) s = p"

definition TrimPrefix :: "string \<Rightarrow> string \<Rightarrow> string" where
  "TrimPrefix s p = (if HasPrefix s p then drop (length p) s else s)"

definition TrimSuffix :: "string \<Rightarrow> string \<Rightarrow> string" where
  "TrimSuffix s p = (if HasSuffix s p then take (length s - length p) s else s)"

definition TrimLeft :: "string \<Rightarrow> char list \<Rightarrow> string" where
  "TrimLeft s cutset = dropWhile (\<lambda>c. c \<in> set cutset) s"

definition TrimRight :: "string \<Rightarrow> char list \<Rightarrow> string" where
  "TrimRight s cutset = rev (dropWhile (\<lambda>c. c \<in> set cutset) (rev s))"

definition Trim :: "string \<Rightarrow> char list \<Rightarrow> string" where
  "Trim s cutset = TrimRight (TrimLeft s cutset) cutset"

definition ascii_spaces :: "char list" where
  "ascii_spaces = [CHR 0x09, CHR 0x0A, CHR 0x0B, CHR 0x0C, CHR 0x0D, CHR '' '']"

definition TrimSpace :: "string \<Rightarrow> string" where
  "TrimSpace s = Trim s ascii_spaces"

definition byte :: "char \<Rightarrow> nat" where
  "byte c = of_char c"

definition is_upper :: "char \<Rightarrow> bool" where
  "is_upper c \<longleftrightarrow> 65 \<le> byte c \<and> byte c \<le> 90"

definition is_lower :: "char \<Rightarrow> bool" where
  "is_lower c \<longleftrightarrow> 97 \<le> byte c \<and> byte c \<le> 122"

definition is_digit :: "char \<Rightarrow> bool" where
  "is_digit c \<longleftrightarrow> 48 \<le> byte c \<and> byte c \<le> 57"

definition lower :: "char \<Rightarrow> char" where
  "lower c = (if is_upper c then char_of (byte c + 32) else c)"

definition upper :: "char \<Rightarrow> char" where
  "upper c = (if is_lower c then char_of (byte c - 32) else c)"

definition ToLower :: "string \<Rightarrow> string" where
  "ToLower s = map lower s"

definition EqualFold :: "string \<Rightarrow> string \<Rightarrow> bool" where
  "EqualFold s t \<longleftrightarrow> ToLower s = ToLower t"

text \<open>\<^verbatim>\<open>Index\<close> of a substring; \<open>None\<close> is -1.\<close>

fun Index :: "string \<Rightarrow> string \<Rightarrow> nat option" where
  "Index [] sub = (if sub = [] then Some 0 else None)"
| "Index (c # s) sub =
     (if HasPrefix (c # s) sub then Some 0 else map_option Suc (Index s sub))"

definition Contains :: "string \<Rightarrow> string \<Rightarrow> bool" where
  "Contains s sub \<longleftrightarrow> Index s sub \<noteq> None"

text \<open>\<^verbatim>\<open>Cut\<close>: the parts around the first separator, and whether there is one.\<close>

definition Cut :: "string \<Rightarrow> string \<Rightarrow> string \<times> string \<times> bool" where
  "Cut s sep =
     (case Index s sep of
        Some i \<Rightarrow> (take i s, drop (i + length sep) s, True)
      | None \<Rightarrow> (s, [], False))"

text \<open>\<^verbatim>\<open>Split\<close> at a one-byte separator.\<close>

fun Split :: "string \<Rightarrow> char \<Rightarrow> string list" where
  "Split [] c = [[]]"
| "Split (x # s) c =
     (if x = c then [] # Split s c
      else (case Split s c of [] \<Rightarrow> [[x]] | w # ws \<Rightarrow> (x # w) # ws))"

text \<open>\<^verbatim>\<open>LastIndexByte\<close>.\<close>

fun LastIndexByte :: "string \<Rightarrow> char \<Rightarrow> nat option" where
  "LastIndexByte [] c = None"
| "LastIndexByte (x # s) c =
     (case LastIndexByte s c of
        Some i \<Rightarrow> Some (Suc i)
      | None \<Rightarrow> if x = c then Some 0 else None)"

text \<open>
  \<^verbatim>\<open>bytes.ReplaceAll\<close> (and \<^verbatim>\<open>strings.ReplaceAll\<close>) for a non-empty
  pattern: scan from the left, non-overlapping. For an empty pattern Go inserts the
  replacement around every UTF-8 sequence; the program never calls it so.
\<close>

function ReplaceAll :: "string \<Rightarrow> string \<Rightarrow> string \<Rightarrow> string" where
  "ReplaceAll s old new =
     (if old = [] \<or> s = [] then s
      else if HasPrefix s old then new @ ReplaceAll (drop (length old) s) old new
      else hd s # ReplaceAll (tl s) old new)"
  by pat_completeness auto
termination
  by (relation "measure (\<lambda>(s, old, new). length s)") auto

declare ReplaceAll.simps [simp del]

section \<open>strconv and hex\<close>

definition digit_val :: "char \<Rightarrow> int" where
  "digit_val c = int (byte c) - 48"

fun digits_val :: "int \<Rightarrow> string \<Rightarrow> int" where
  "digits_val acc [] = acc"
| "digits_val acc (c # s) = digits_val (10 * acc + digit_val c) s"

text \<open>
  \<^verbatim>\<open>strconv.ParseInt(s, 10, 64)\<close>: an optional sign and decimal digits, within the
  \<^verbatim>\<open>int64\<close> range; \<open>None\<close> is an error (the value Go returns beside a range
  error is not used by the program).
\<close>

definition ParseInt :: "string \<Rightarrow> int option" where
  "ParseInt s =
     (let (neg, ds) = (case s of
            c # r \<Rightarrow> if c = CHR ''-'' then (True, r) else if c = CHR ''+'' then (False, r) else (False, s)
          | [] \<Rightarrow> (False, s));
          v = (if neg then - digits_val 0 ds else digits_val 0 ds)
      in if ds \<noteq> [] \<and> list_all is_digit ds \<and> is_i64 v then Some v else None)"

text \<open>\<^verbatim>\<open>strconv.FormatInt(v, 10)\<close> and \<^verbatim>\<open>strconv.Itoa\<close>.\<close>

fun dec_digits :: "nat \<Rightarrow> string" where
  "dec_digits n =
     (if n < 10 then [char_of (48 + n)] else dec_digits (n div 10) @ [char_of (48 + n mod 10)])"

declare dec_digits.simps [simp del]

definition FormatInt :: "int \<Rightarrow> string" where
  "FormatInt v = (if v < 0 then CHR ''-'' # dec_digits (nat (- v)) else dec_digits (nat v))"

definition is_hex :: "char \<Rightarrow> bool" where
  "is_hex c \<longleftrightarrow> is_digit c \<or> (97 \<le> byte c \<and> byte c \<le> 102) \<or> (65 \<le> byte c \<and> byte c \<le> 70)"

definition unhex :: "char \<Rightarrow> nat" where
  "unhex c = (if is_digit c then byte c - 48 else if 97 \<le> byte c then byte c - 87 else byte c - 55)"

definition hex_digit :: "nat \<Rightarrow> char" where
  "hex_digit n = (if n < 10 then char_of (48 + n) else char_of (87 + n))"

fun hex_EncodeToString :: "string \<Rightarrow> string" where
  "hex_EncodeToString [] = []"
| "hex_EncodeToString (c # s) =
     hex_digit (byte c div 16) # hex_digit (byte c mod 16) # hex_EncodeToString s"

fun hex_DecodeString :: "string \<Rightarrow> string option" where
  "hex_DecodeString [] = Some []"
| "hex_DecodeString [c] = None"
| "hex_DecodeString (a # b # s) =
     (if is_hex a \<and> is_hex b
      then map_option ((#) (char_of (16 * unhex a + unhex b))) (hex_DecodeString s)
      else None)"

section \<open>path/filepath on Unix\<close>

text \<open>\<^verbatim>\<open>filepath.Base\<close> and \<^verbatim>\<open>path.Base\<close>.\<close>

definition path_Base :: "string \<Rightarrow> string" where
  "path_Base p =
     (if p = [] then ''.''
      else let q = TrimRight p ''/''
           in if q = [] then ''/''
              else case LastIndexByte q CHR ''/'' of None \<Rightarrow> q | Some i \<Rightarrow> drop (Suc i) q)"

text \<open>\<^verbatim>\<open>filepath.Ext\<close> of a single path element: from the last dot.\<close>

definition name_Ext :: "string \<Rightarrow> string" where
  "name_Ext n = (case LastIndexByte n CHR ''.'' of None \<Rightarrow> [] | Some i \<Rightarrow> drop i n)"

section \<open>Facts\<close>

lemma HasPrefix_iff: "HasPrefix s p \<longleftrightarrow> (\<exists>t. s = p @ t)"
  unfolding HasPrefix_def by (metis append_eq_conv_conj append_take_drop_id)

lemma HasSuffix_iff: "HasSuffix s p \<longleftrightarrow> (\<exists>t. s = t @ p)"
proof
  assume "HasSuffix s p"
  then have "s = take (length s - length p) s @ p"
    by (metis HasSuffix_def append_take_drop_id)
  then show "\<exists>t. s = t @ p" by blast
next
  assume "\<exists>t. s = t @ p"
  then show "HasSuffix s p" by (auto simp: HasSuffix_def)
qed

lemma HasPrefix_append [simp]: "HasPrefix (p @ t) p"
  by (simp add: HasPrefix_def)

lemma HasPrefix_Nil [simp]: "HasPrefix s []"
  by (simp add: HasPrefix_def)

lemma TrimPrefix_append [simp]: "TrimPrefix (p @ t) p = t"
  by (simp add: TrimPrefix_def)

lemma HasSuffix_append [simp]: "HasSuffix (t @ p) p"
  by (simp add: HasSuffix_def)

lemma TrimSuffix_append [simp]: "TrimSuffix (t @ p) p = t"
  by (simp add: TrimSuffix_def)

lemma TrimSuffix_other: "\<not> HasSuffix s p \<Longrightarrow> TrimSuffix s p = s"
  by (simp add: TrimSuffix_def)

lemma set_TrimRight: "set (TrimRight s cs) \<subseteq> set s"
  using set_dropWhileD unfolding TrimRight_def by fastforce

lemma LastIndexByte_None: "LastIndexByte s c = None \<longleftrightarrow> c \<notin> set s"
  by (induction s) (auto split: option.splits)

lemma LastIndexByte_append:
  "c \<notin> set t \<Longrightarrow> LastIndexByte (s @ c # t) c = Some (length s)"
proof (induction s)
  case Nil
  then show ?case by (simp add: LastIndexByte_None [THEN iffD2])
qed simp

lemma name_Ext_append: "CHR ''.'' \<notin> set e \<Longrightarrow> name_Ext (n @ CHR ''.'' # e) = CHR ''.'' # e"
  by (simp add: name_Ext_def LastIndexByte_append)

subsection \<open>Bytes and ASCII case\<close>

lemma byte_less [simp]: "byte c < 256"
  using of_char_mod_256 [of c, where 'a = nat] unfolding byte_def by (metis mod_less_divisor zero_less_numeral)

lemma char_of_byte [simp]: "char_of (byte c) = c"
  by (simp add: byte_def)

lemma byte_char_of [simp]: "n < 256 \<Longrightarrow> byte (char_of n) = n"
  by (simp add: byte_def)

lemma byte_inject [simp]: "byte c = byte d \<longleftrightarrow> c = d"
  by (metis char_of_byte)

lemma lower_not_upper [simp]: "\<not> is_upper (lower c)"
  by (auto simp: lower_def is_upper_def)

lemma lower_idem [simp]: "lower (lower c) = lower c"
  by (simp add: lower_def [of "lower c"])

lemma ToLower_idem [simp]: "ToLower (ToLower s) = ToLower s"
  by (simp add: ToLower_def comp_def)

lemma length_ToLower [simp]: "length (ToLower s) = length s"
  by (simp add: ToLower_def)

lemma EqualFold_refl [simp]: "EqualFold s s"
  by (simp add: EqualFold_def)

lemma EqualFold_sym: "EqualFold s t \<longleftrightarrow> EqualFold t s"
  by (auto simp: EqualFold_def)

lemma EqualFold_trans: "EqualFold s t \<Longrightarrow> EqualFold t u \<Longrightarrow> EqualFold s u"
  by (simp add: EqualFold_def)

subsection \<open>Hexadecimal\<close>

lemma hex_digit_ok:
  assumes "n < 16"
  shows "is_hex (hex_digit n)" "unhex (hex_digit n) = n" "hex_digit n \<noteq> CHR ''/''"
    "hex_digit n \<noteq> CHR ''.''"
proof -
  have b: "byte (hex_digit n) = (if n < 10 then 48 + n else 87 + n)"
    using assms by (simp add: hex_digit_def)
  with assms show "is_hex (hex_digit n)" "unhex (hex_digit n) = n"
    by (auto simp: is_hex_def unhex_def is_digit_def)
  have "byte (hex_digit n) \<noteq> byte (CHR ''/'')" "byte (hex_digit n) \<noteq> byte (CHR ''.'')"
    using b by (simp_all add: byte_def)
  then show "hex_digit n \<noteq> CHR ''/''" "hex_digit n \<noteq> CHR ''.''" by auto
qed

lemma length_hex_Encode [simp]: "length (hex_EncodeToString s) = 2 * length s"
  by (induction s) auto

lemma hex_nibbles: "byte c div 16 < 16" "byte c mod 16 < 16"
  using byte_less [of c] less_mult_imp_div_less [of "byte c" 16 16] by auto

lemma hex_Encode_hex: "list_all is_hex (hex_EncodeToString s)"
  by (induction s) (auto simp: hex_digit_ok hex_nibbles)

lemma hex_Encode_plain:
  "CHR ''/'' \<notin> set (hex_EncodeToString s)" "CHR ''.'' \<notin> set (hex_EncodeToString s)"
proof (induction s)
  case (Cons c s)
  {
    case 1
    show ?case using Cons hex_digit_ok(3) [OF hex_nibbles(1) [of c]]
        hex_digit_ok(3) [OF hex_nibbles(2) [of c]] by auto
  next
    case 2
    show ?case using Cons hex_digit_ok(4) [OF hex_nibbles(1) [of c]]
        hex_digit_ok(4) [OF hex_nibbles(2) [of c]] by auto
  }
qed simp_all

lemma hex_Decode_Encode: "hex_DecodeString (hex_EncodeToString s) = Some s"
proof (induction s)
  case (Cons c s)
  have "16 * (byte c div 16) + byte c mod 16 = byte c" by simp
  with Cons show ?case by (simp add: hex_digit_ok hex_nibbles)
qed simp

lemma hex_Encode_inj: "hex_EncodeToString s = hex_EncodeToString t \<longleftrightarrow> s = t"
  by (metis hex_Decode_Encode option.inject)

lemma hex_Decode_length: "hex_DecodeString s = Some t \<Longrightarrow> length s = 2 * length t"
  by (induction s arbitrary: t rule: hex_DecodeString.induct) (auto split: if_splits)

lemma hex_Decode_iff: "hex_DecodeString s \<noteq> None \<longleftrightarrow> even (length s) \<and> list_all is_hex s"
  by (induction s rule: hex_DecodeString.induct) auto

subsection \<open>Decimal numbers\<close>

lemma digits_val_append: "digits_val acc (s @ [c]) = 10 * digits_val acc s + digit_val c"
  by (induction s arbitrary: acc) auto

lemma byte_digit: "n < 10 \<Longrightarrow> byte (char_of (48 + n)) = 48 + n"
  by (rule byte_char_of) simp

lemma dec_digits_ok:
  "digits_val 0 (dec_digits n) = int n \<and> list_all is_digit (dec_digits n) \<and> dec_digits n \<noteq> []"
proof (induction n rule: dec_digits.induct)
  case (1 n)
  show ?case
  proof (cases "n < 10")
    case True
    then show ?thesis
      by (subst (1 2 3) dec_digits.simps) (simp add: byte_digit digit_val_def is_digit_def)
  next
    case False
    have m: "byte (char_of (48 + n mod 10)) = 48 + n mod 10" by (rule byte_digit) simp
    then have "is_digit (char_of (48 + n mod 10))"
      using mod_less_divisor [of 10 n] by (simp add: is_digit_def)
    moreover have "10 * int (n div 10) + int (n mod 10) = int n"
      by (metis mult_div_mod_eq of_nat_add of_nat_mult of_nat_numeral)
    ultimately show ?thesis
      using False 1 m by (subst (1 2 3) dec_digits.simps) (simp add: digits_val_append digit_val_def)
  qed
qed

lemma is_digit_not_sign: "is_digit c \<Longrightarrow> c \<noteq> CHR ''-'' \<and> c \<noteq> CHR ''+''"
  by (auto simp: is_digit_def byte_def)

lemma ParseInt_FormatInt:
  assumes "is_i64 v"
  shows "ParseInt (FormatInt v) = Some v"
proof (cases "v < 0")
  case True
  with assms dec_digits_ok [of "nat (- v)"] show ?thesis
    by (simp add: ParseInt_def FormatInt_def)
next
  case False
  obtain c r where d: "dec_digits (nat v) = c # r"
    using dec_digits_ok [of "nat v"] by (cases "dec_digits (nat v)") auto
  with dec_digits_ok [of "nat v"] have "is_digit c" by simp
  from is_digit_not_sign [OF this] False assms d dec_digits_ok [of "nat v"] show ?thesis
    by (simp add: ParseInt_def FormatInt_def)
qed

lemma FormatInt_not_empty [simp]: "FormatInt v \<noteq> []"
  using dec_digits_ok [of "nat v"] by (simp add: FormatInt_def)

text \<open>Splitting and searching at a single character.\<close>

lemma Split_append: "Split (p @ c # q) c = Split p c @ Split q c"
proof (induction p)
  case (Cons x p)
  show ?case
  proof (cases "Split p c")
    case Nil
    then show ?thesis by (cases p) (auto split: list.splits if_splits)
  next
    case (Cons w ws)
    then show ?thesis using Cons.IH by simp
  qed
qed simp

lemma Split_absent: "c \<notin> set s \<Longrightarrow> Split s c = [s]"
  by (induction s) auto

lemma Index_single: "c \<notin> set a \<Longrightarrow> Index (a @ c # s) [c] = Some (length a)"
  by (induction a) (auto simp: HasPrefix_def)

lemma Index_absent: "c \<notin> set a \<Longrightarrow> Index a [c] = None"
  by (induction a) (auto simp: HasPrefix_def)

end
