(* ===== verification/Go_Json.thy ===== *)
theory Go_Json
  imports Go_Strings
begin

text \<open>
  \<^verbatim>\<open>encoding/json\<close> as the program uses it: the text that \<^verbatim>\<open>Marshal\<close> writes
  for a JSON value (compact, HTML-safe escapes, invalid UTF-8 replaced by U+FFFD) and the
  value that \<^verbatim>\<open>Unmarshal\<close> reads. The parser recurses with a fuel of one more than
  the length of the text, which every nested value uses up at most one unit per byte of;
  the round trip at the end shows that the fuel suffices for every text that was written.
  Go's limit of 10000 nested values is not modelled.
\<close>

section \<open>Values\<close>

datatype json =
    JNull
  | JBool bool
  | JNum string
  | JStr string
  | JArr "json list"
  | JObj "(string \<times> json) list"

section \<open>UTF-8\<close>

definition cont :: "char \<Rightarrow> bool" where
  "cont c \<longleftrightarrow> 128 \<le> byte c \<and> byte c < 192"

text \<open>The length of the UTF-8 sequence at the head of a string, 0 when there is none.\<close>

definition utf8_len :: "string \<Rightarrow> nat" where
  "utf8_len s =
     (if s = [] then 0 else
      let a = byte (hd s); b = (if length s > 1 then byte (s ! 1) else 0);
          c2 = (length s > 2 \<and> cont (s ! 2)); c3 = (length s > 3 \<and> cont (s ! 3))
      in if a < 128 then 1
         else if 194 \<le> a \<and> a < 224 \<and> 128 \<le> b \<and> b < 192 then 2
         else if 224 \<le> a \<and> a < 240 \<and> (if a = 224 then 160 else 128) \<le> b
                 \<and> b < (if a = 237 then 160 else 192) \<and> c2 then 3
         else if 240 \<le> a \<and> a < 245 \<and> (if a = 240 then 144 else 128) \<le> b
                 \<and> b < (if a = 244 then 144 else 192) \<and> c2 \<and> c3 then 4
         else 0)"

function valid_utf8 :: "string \<Rightarrow> bool" where
  "valid_utf8 s =
     (if s = [] then True
      else if utf8_len s = 0 then False else valid_utf8 (drop (utf8_len s) s))"
  by pat_completeness auto
termination
  by (relation "measure length") auto

definition utf8_encode :: "nat \<Rightarrow> string" where
  "utf8_encode r =
     (if r < 128 then [char_of r]
      else if r < 2048 then [char_of (192 + r div 64), char_of (128 + r mod 64)]
      else if r < 65536 then
        [char_of (224 + r div 4096), char_of (128 + r div 64 mod 64), char_of (128 + r mod 64)]
      else [char_of (240 + r div 262144), char_of (128 + r div 4096 mod 64),
            char_of (128 + r div 64 mod 64), char_of (128 + r mod 64)])"

definition rune_error :: string where
  "rune_error = [CHR 0xEF, CHR 0xBF, CHR 0xBD]"

section \<open>Writing\<close>

definition esc_ascii :: "char \<Rightarrow> string" where
  "esc_ascii c =
     (if c = CHR 0x22 \<or> c = CHR 0x5C then [CHR 0x5C, c]
      else if c = CHR 0x08 then [CHR 0x5C, CHR ''b'']
      else if c = CHR 0x0C then [CHR 0x5C, CHR ''f'']
      else if c = CHR 0x0A then [CHR 0x5C, CHR ''n'']
      else if c = CHR 0x0D then [CHR 0x5C, CHR ''r'']
      else if c = CHR 0x09 then [CHR 0x5C, CHR ''t'']
      else if byte c < 32 \<or> c = CHR ''<'' \<or> c = CHR ''>'' \<or> c = CHR ''&'' then
        [CHR 0x5C, CHR ''u'', CHR ''0'', CHR ''0'', hex_digit (byte c div 16), hex_digit (byte c mod 16)]
      else [c])"

function quote_body :: "string \<Rightarrow> string" where
  "quote_body s =
     (if s = [] then []
      else if byte (hd s) < 128 then esc_ascii (hd s) @ quote_body (tl s)
      else if utf8_len s = 0 then CHR 0x5C # ''ufffd'' @ quote_body (tl s)
      else if take 3 s = [CHR 0xE2, CHR 0x80, CHR 0xA8] then CHR 0x5C # ''u2028'' @ quote_body (drop 3 s)
      else if take 3 s = [CHR 0xE2, CHR 0x80, CHR 0xA9] then CHR 0x5C # ''u2029'' @ quote_body (drop 3 s)
      else take (utf8_len s) s @ quote_body (drop (utf8_len s) s))"
  by pat_completeness auto
termination
  by (relation "measure length") auto

declare valid_utf8.simps [simp del] quote_body.simps [simp del]

definition json_quote :: "string \<Rightarrow> string" where
  "json_quote s = CHR 0x22 # quote_body s @ [CHR 0x22]"

fun join_with :: "string \<Rightarrow> string list \<Rightarrow> string" where
  "join_with sep [] = []"
| "join_with sep [x] = x"
| "join_with sep (x # y # xs) = x @ sep @ join_with sep (y # xs)"

fun json_print :: "json \<Rightarrow> string" where
  "json_print JNull = ''null''"
| "json_print (JBool b) = (if b then ''true'' else ''false'')"
| "json_print (JNum s) = s"
| "json_print (JStr s) = json_quote s"
| "json_print (JArr vs) = ''['' @ join_with '','' (map json_print vs) @ '']''"
| "json_print (JObj ms) =
     CHR 0x7B # join_with '','' (map (\<lambda>(k, v). json_quote k @ '':'' @ json_print v) ms) @ [CHR 0x7D]"

section \<open>Reading\<close>

definition json_ws :: "char \<Rightarrow> bool" where
  "json_ws c \<longleftrightarrow> c = CHR '' '' \<or> c = CHR 0x09 \<or> c = CHR 0x0A \<or> c = CHR 0x0D"

definition skip_ws :: "string \<Rightarrow> string" where
  "skip_ws s = dropWhile json_ws s"

text \<open>Four hexadecimal digits at the head of a string.\<close>

definition hex4 :: "string \<Rightarrow> nat option" where
  "hex4 s =
     (if length s \<ge> 4 \<and> list_all is_hex (take 4 s)
      then Some (foldl (\<lambda>n c. 16 * n + unhex c) 0 (take 4 s)) else None)"

text \<open>
  After \<^verbatim>\<open>\u\<close> and the code unit \<open>r\<close>: a surrogate needs its partner in the next
  escape, and stands for U+FFFD alone.
\<close>

definition u_escape :: "nat \<Rightarrow> string \<Rightarrow> string \<times> string" where
  "u_escape r s =
     (if r < 55296 \<or> 57344 \<le> r then (utf8_encode r, s)
      else if take 2 s = [CHR 0x5C, CHR ''u''] then
        (case hex4 (drop 2 s) of
           Some r2 \<Rightarrow>
             if r < 56320 \<and> 56320 \<le> r2 \<and> r2 < 57344
             then (utf8_encode (65536 + (r - 55296) * 1024 + (r2 - 56320)), drop 6 s)
             else (rune_error, s)
         | None \<Rightarrow> (rune_error, s))
      else (rune_error, s))"

definition simple_escape :: "char \<Rightarrow> char option" where
  "simple_escape e =
     (if e = CHR 0x22 \<or> e = CHR 0x5C \<or> e = CHR ''/'' then Some e
      else if e = CHR ''b'' then Some (CHR 0x08) else if e = CHR ''f'' then Some (CHR 0x0C)
      else if e = CHR ''n'' then Some (CHR 0x0A) else if e = CHR ''r'' then Some (CHR 0x0D)
      else if e = CHR ''t'' then Some (CHR 0x09) else None)"

text \<open>The rest of a string literal: its value and what follows the closing quote.\<close>

function parse_str :: "string \<Rightarrow> (string \<times> string) option" where
  "parse_str s =
     (if s = [] then None
      else if hd s = CHR 0x22 then Some ([], tl s)
      else if hd s = CHR 0x5C then
        (if tl s = [] then None
         else if hd (tl s) = CHR ''u'' then
           (case hex4 (drop 2 s) of
              None \<Rightarrow> None
            | Some r \<Rightarrow> map_option (apfst ((@) (fst (u_escape r (drop 6 s)))))
                           (parse_str (snd (u_escape r (drop 6 s)))))
         else
           (case simple_escape (hd (tl s)) of
              None \<Rightarrow> None
            | Some c \<Rightarrow> map_option (apfst ((#) c)) (parse_str (drop 2 s))))
      else if byte (hd s) < 32 then None
      else if utf8_len s = 0 then map_option (apfst ((@) rune_error)) (parse_str (tl s))
      else map_option (apfst ((@) (take (utf8_len s) s))) (parse_str (drop (utf8_len s) s)))"
  by pat_completeness auto
termination
proof (relation "measure length", goal_cases)
  case (2 s r)
  have "length (snd (u_escape r (drop 6 s))) \<le> length s - 6"
    by (auto simp: u_escape_def split: option.splits)
  moreover have "length s > 0" using 2 by simp
  ultimately have "length (snd (u_escape r (drop 6 s))) < length s" by linarith
  then show ?case by simp
qed auto

declare parse_str.simps [simp del]

definition num_char :: "char \<Rightarrow> bool" where
  "num_char c \<longleftrightarrow> is_digit c \<or> c \<in> set ''+-.eE''"

definition drop_digits :: "string \<Rightarrow> string option" where
  "drop_digits s = (if s \<noteq> [] \<and> is_digit (hd s) then Some (dropWhile is_digit s) else None)"

text \<open>The grammar of numbers: sign, integer without leading zeros, fraction, exponent.\<close>

definition number_tail :: "string \<Rightarrow> bool" where
  "number_tail s =
     (case (if s \<noteq> [] \<and> hd s = CHR ''.'' then drop_digits (tl s) else Some s) of
        None \<Rightarrow> False
      | Some r \<Rightarrow>
          if r \<noteq> [] \<and> (hd r = CHR ''e'' \<or> hd r = CHR ''E'') then
            drop_digits (if tl r \<noteq> [] \<and> (hd (tl r) = CHR ''+'' \<or> hd (tl r) = CHR ''-'')
                         then tl (tl r) else tl r) = Some []
          else r = [])"

definition is_number :: "string \<Rightarrow> bool" where
  "is_number s =
     (let t = (if s \<noteq> [] \<and> hd s = CHR ''-'' then tl s else s)
      in if t = [] then False
         else if hd t = CHR ''0'' then number_tail (tl t)
         else (case drop_digits t of None \<Rightarrow> False | Some r \<Rightarrow> number_tail r))"

definition parse_literal :: "string \<Rightarrow> (json \<times> string) option" where
  "parse_literal s =
     (if HasPrefix s ''null'' then Some (JNull, drop 4 s)
      else if HasPrefix s ''true'' then Some (JBool True, drop 4 s)
      else if HasPrefix s ''false'' then Some (JBool False, drop 5 s)
      else if is_number (takeWhile num_char s)
      then Some (JNum (takeWhile num_char s), dropWhile num_char s) else None)"

fun parse_value :: "nat \<Rightarrow> string \<Rightarrow> (json \<times> string) option"
  and parse_elems :: "nat \<Rightarrow> string \<Rightarrow> (json list \<times> string) option"
  and parse_members :: "nat \<Rightarrow> string \<Rightarrow> ((string \<times> json) list \<times> string) option" where
  "parse_value 0 s = None"
| "parse_value (Suc n) s =
     (let t = skip_ws s in
      if t = [] then None
      else if hd t = CHR 0x22 then map_option (apfst JStr) (parse_str (tl t))
      else if hd t = CHR ''['' then
        (if skip_ws (tl t) \<noteq> [] \<and> hd (skip_ws (tl t)) = CHR '']''
         then Some (JArr [], tl (skip_ws (tl t)))
         else map_option (apfst JArr) (parse_elems n (tl t)))
      else if hd t = CHR 0x7B then
        (if skip_ws (tl t) \<noteq> [] \<and> hd (skip_ws (tl t)) = CHR 0x7D
         then Some (JObj [], tl (skip_ws (tl t)))
         else map_option (apfst JObj) (parse_members n (tl t)))
      else parse_literal t)"
| "parse_elems 0 s = None"
| "parse_elems (Suc n) s =
     (case parse_value n s of
        None \<Rightarrow> None
      | Some (v, r) \<Rightarrow>
          let t = skip_ws r in
          if t = [] then None
          else if hd t = CHR '','' then map_option (apfst ((#) v)) (parse_elems n (tl t))
          else if hd t = CHR '']'' then Some ([v], tl t)
          else None)"
| "parse_members 0 s = None"
| "parse_members (Suc n) s =
     (let t = skip_ws s in
      if t = [] \<or> hd t \<noteq> CHR 0x22 then None
      else (case parse_str (tl t) of
        None \<Rightarrow> None
      | Some (k, r1) \<Rightarrow>
          let t1 = skip_ws r1 in
          if t1 = [] \<or> hd t1 \<noteq> CHR '':'' then None
          else (case parse_value n (tl t1) of
            None \<Rightarrow> None
          | Some (v, r) \<Rightarrow>
              let t2 = skip_ws r in
              if t2 = [] then None
              else if hd t2 = CHR '','' then map_option (apfst ((#) (k, v))) (parse_members n (tl t2))
              else if hd t2 = CHR 0x7D then Some ([(k, v)], tl t2)
              else None)))"

definition json_parse :: "string \<Rightarrow> json option" where
  "json_parse s =
     (case parse_value (length s + 1) s of
        Some (v, r) \<Rightarrow> if skip_ws r = [] then Some v else None
      | None \<Rightarrow> None)"

section \<open>Facts\<close>

lemma utf8_len_ascii: "s \<noteq> [] \<Longrightarrow> byte (hd s) < 128 \<Longrightarrow> utf8_len s = 1"
  by (simp add: utf8_len_def)

lemma utf8_len_le: "utf8_len s \<le> length s"
  by (cases "length s > 1"; cases "length s > 2"; cases "length s > 3"; cases "s = []")
    (simp_all add: utf8_len_def Let_def Suc_le_eq)

lemma utf8_len_cases: "utf8_len s \<in> {0, 1, 2, 3, 4}"
  by (auto simp: utf8_len_def Let_def)

lemma utf8_len_one: "utf8_len s = Suc 0 \<longleftrightarrow> s \<noteq> [] \<and> byte (hd s) < 128"
  by (auto simp: utf8_len_def Let_def)

lemma utf8_len_take:
  assumes "utf8_len s = n" "n > 0"
  shows "utf8_len (take n s @ t) = n"
proof -
  have "n \<le> length s" using utf8_len_le [of s] assms by simp
  have "n = 1 \<or> n = 2 \<or> n = 3 \<or> n = 4" using utf8_len_cases [of s] assms by auto
  then show ?thesis
  proof (elim disjE)
    assume n: "n = 1"
    with assms(1) have "s \<noteq> []" "byte (hd s) < 128" by (simp_all add: utf8_len_one)
    with n show ?thesis by (simp add: utf8_len_ascii take_Suc)
  next
    assume n: "n = 2"
    with \<open>n \<le> length s\<close> obtain a b r where "s = a # b # r"
      by (metis Suc_le_length_iff numeral_2_eq_2)
    with n assms(1) show ?thesis by (auto simp: utf8_len_def Let_def split: if_splits)
  next
    assume n: "n = 3"
    with \<open>n \<le> length s\<close> obtain a b c r where "s = a # b # c # r"
      by (metis Suc_le_length_iff numeral_3_eq_3)
    with n assms(1) show ?thesis
      by (auto simp: utf8_len_def Let_def numeral_3_eq_3 split: if_splits)
  next
    assume n: "n = 4"
    with \<open>n \<le> length s\<close> have "Suc (Suc (Suc (Suc 0))) \<le> length s" by simp
    then obtain a b c d r where "s = a # b # c # d # r" by (auto simp: Suc_le_length_iff)
    with n assms(1) show ?thesis
      by (auto simp: utf8_len_def Let_def numeral_eq_Suc split: if_splits)
  qed
qed

lemma parse_str_close [simp]: "parse_str (CHR 0x22 # r) = Some ([], r)"
  by (simp add: parse_str.simps [of "CHR 0x22 # r"])

lemma parse_str_u:
  assumes "hex4 (a # b # c # d # t) = Some r" "\<not> (55296 \<le> r \<and> r < 57344)"
  shows "parse_str (CHR 0x5C # CHR ''u'' # a # b # c # d # t) =
     map_option (apfst ((@) (utf8_encode r))) (parse_str t)"
proof -
  have "u_escape r t = (utf8_encode r, t)" using assms(2) by (auto simp: u_escape_def)
  with assms(1) show ?thesis by (subst parse_str.simps) (simp add: numeral_eq_Suc)
qed

lemma parse_str_simple:
  "simple_escape e = Some c \<Longrightarrow> parse_str (CHR 0x5C # e # t) = map_option (apfst ((#) c)) (parse_str t)"
  by (subst parse_str.simps) (auto simp: simple_escape_def)

lemma parse_str_plain:
  assumes "utf8_len s = n" "n > 0" "hd s \<noteq> CHR 0x22" "hd s \<noteq> CHR 0x5C" "\<not> byte (hd s) < 32"
  shows "parse_str (take n s @ t) = map_option (apfst ((@) (take n s))) (parse_str t)"
proof -
  have l: "n \<le> length s" "s \<noteq> []" using utf8_len_le [of s] assms by auto
  then have "hd (take n s @ t) = hd s" "take n s \<noteq> []" using assms(2) by (simp_all add: hd_append)
  with assms l utf8_len_take [OF assms(1,2)] show ?thesis
    by (subst parse_str.simps) simp
qed

lemma append_one: "(@) [c] = (#) c"
  by (rule ext) simp

lemma parse_str_esc:
  assumes "byte c < 128"
  shows "parse_str (esc_ascii c @ t) = map_option (apfst ((#) c)) (parse_str t)"
proof (cases "c \<in> {CHR 0x22, CHR 0x5C, CHR 0x08, CHR 0x0C, CHR 0x0A, CHR 0x0D, CHR 0x09}")
  case True
  then have "\<exists>e. esc_ascii c = [CHR 0x5C, e] \<and> simple_escape e = Some c"
    by (auto simp: esc_ascii_def simple_escape_def)
  then show ?thesis by (auto simp: parse_str_simple)
next
  case ordinary: False
  show ?thesis
  proof (cases "byte c < 32 \<or> c = CHR ''<'' \<or> c = CHR ''>'' \<or> c = CHR ''&''")
    case True
    have "is_hex (CHR ''0'')" "unhex (CHR ''0'') = 0"
      by (simp_all add: is_hex_def is_digit_def unhex_def byte_def)
    then have h: "hex4 (CHR ''0'' # CHR ''0'' # hex_digit (byte c div 16) # hex_digit (byte c mod 16) # t)
        = Some (byte c)"
      by (simp add: hex4_def hex_digit_ok hex_nibbles)
    show ?thesis
      using ordinary True parse_str_u [OF h] assms
      by (simp add: esc_ascii_def utf8_encode_def append_one)
  next
    case False
    with ordinary have "esc_ascii c = [c]" by (simp add: esc_ascii_def)
    moreover have "utf8_len [c] = 1" using assms by (simp add: utf8_len_ascii)
    ultimately show ?thesis
      using parse_str_plain [of "[c]" 1 t] ordinary False by (simp add: append_one)
  qed
qed

lemma utf8_len_line_sep:
  assumes "take 3 s = [CHR 0xE2, CHR 0x80, c]" "c = CHR 0xA8 \<or> c = CHR 0xA9"
  shows "utf8_len s = 3"
proof -
  have "s = CHR 0xE2 # CHR 0x80 # c # drop 3 s"
    using append_take_drop_id [of 3 s] assms(1) by simp
  moreover have "utf8_len (CHR 0xE2 # CHR 0x80 # c # r) = 3" for r
    using assms(2) by (auto simp: utf8_len_def cont_def byte_def Let_def)
  ultimately show ?thesis by metis
qed

text \<open>
  What a string is after a round trip: each byte that starts no UTF-8 sequence has become
  U+FFFD.
\<close>

function to_utf8 :: "string \<Rightarrow> string" where
  "to_utf8 s =
     (if s = [] then []
      else if utf8_len s = 0 then rune_error @ to_utf8 (tl s)
      else take (utf8_len s) s @ to_utf8 (drop (utf8_len s) s))"
  by pat_completeness auto
termination
  by (relation "measure length") auto

declare to_utf8.simps [simp del]

lemma to_utf8_valid: "valid_utf8 s \<Longrightarrow> to_utf8 s = s"
proof (induction s rule: valid_utf8.induct)
  case (1 s)
  show ?case
  proof (cases "s = []")
    case False
    then have "utf8_len s \<noteq> 0" "valid_utf8 (drop (utf8_len s) s)"
      using "1.prems" by (simp_all add: valid_utf8.simps [of s] split: if_splits)
    then show ?thesis using "1.IH" False by (simp add: to_utf8.simps [of s])
  qed (simp add: to_utf8.simps)
qed

lemma hex4_runes:
  "hex4 (''2028'' @ t) = Some 8232" "hex4 (''2029'' @ t) = Some 8233" "hex4 (''fffd'' @ t) = Some 65533"
  by (simp_all add: hex4_def is_hex_def is_digit_def unhex_def byte_def)

lemma encode_runes:
  "utf8_encode 8232 = [CHR 0xE2, CHR 0x80, CHR 0xA8]" "utf8_encode 8233 = [CHR 0xE2, CHR 0x80, CHR 0xA9]"
  "utf8_encode 65533 = rune_error"
  by (simp_all add: utf8_encode_def rune_error_def) (code_simp+)

lemma parse_str_quote: "parse_str (quote_body s @ CHR 0x22 # r) = Some (to_utf8 s, r)"
proof (induction s rule: to_utf8.induct)
  case (1 s)
  define n where "n = utf8_len s"
  consider "s = []" | "s \<noteq> []" "n = 0" | "s \<noteq> []" "n > 0" by auto
  then show ?case
  proof cases
    case 1
    then show ?thesis by (simp add: quote_body.simps to_utf8.simps)
  next
    case 2
    have "\<not> byte (hd s) < 128" using 2 utf8_len_ascii [of s] by (auto simp: n_def)
    then show ?thesis
      using 2 "1.IH"(1) parse_str_u [OF hex4_runes(3) [simplified]]
      by (subst quote_body.simps, subst to_utf8.simps) (simp add: n_def encode_runes)
  next
    case 3
    have IH: "parse_str (quote_body (drop n s) @ CHR 0x22 # r) = Some (to_utf8 (drop n s), r)"
      using "1.IH"(2) 3 by (simp add: n_def)
    have T: "to_utf8 s = take n s @ to_utf8 (drop n s)" using 3 by (subst to_utf8.simps) (simp add: n_def)
    show ?thesis
    proof (cases "byte (hd s) < 128")
      case True
      then have "n = 1" using 3 by (simp add: n_def utf8_len_ascii)
      moreover have "take 1 s = [hd s]" using 3 by (cases s) auto
      ultimately show ?thesis using True 3 IH T
        by (subst quote_body.simps) (simp add: parse_str_esc drop_Suc)
    next
      case False
      show ?thesis
      proof (cases "take 3 s = [CHR 0xE2, CHR 0x80, CHR 0xA8] \<or> take 3 s = [CHR 0xE2, CHR 0x80, CHR 0xA9]")
        case True
        then have n3: "n = 3" using utf8_len_line_sep by (auto simp: n_def)
        from True n3 3 False IH T show ?thesis
          by (subst quote_body.simps) (auto simp: n_def [symmetric] parse_str_u [OF hex4_runes(1) [simplified]]
              parse_str_u [OF hex4_runes(2) [simplified]] encode_runes)
      next
        case other: False
        have "hd s \<noteq> CHR 0x22" "hd s \<noteq> CHR 0x5C" "\<not> byte (hd s) < 32"
          using False by (auto simp: byte_def)
        from parse_str_plain [OF n_def [symmetric] 3(2) this] show ?thesis
          using 3 False other IH T by (subst quote_body.simps) (simp add: n_def [symmetric])
      qed
    qed
  qed
qed

text \<open>
  Values whose text reads back, with \<open>utf8_json\<close> of them as the result: numbers are JSON
  numbers. When all the strings are UTF-8 (\<open>utf8_strings\<close>) the result is the value itself.
\<close>

fun utf8_json :: "json \<Rightarrow> json" where
  "utf8_json (JStr s) = JStr (to_utf8 s)"
| "utf8_json (JArr vs) = JArr (map utf8_json vs)"
| "utf8_json (JObj ms) = JObj (map (\<lambda>p. (to_utf8 (fst p), utf8_json (snd p))) ms)"
| "utf8_json j = j"

fun utf8_strings :: "json \<Rightarrow> bool" where
  "utf8_strings (JStr s) \<longleftrightarrow> valid_utf8 s"
| "utf8_strings (JArr vs) \<longleftrightarrow> (\<forall>v \<in> set vs. utf8_strings v)"
| "utf8_strings (JObj ms) \<longleftrightarrow> (\<forall>p \<in> set ms. valid_utf8 (fst p) \<and> utf8_strings (snd p))"
| "utf8_strings _ \<longleftrightarrow> True"

lemma utf8_json_id: "utf8_strings j \<Longrightarrow> utf8_json j = j"
proof (induction j)
  case (JArr vs)
  then show ?case by (auto intro: map_idI)
next
  case (JObj ms)
  have "(to_utf8 (fst p), utf8_json (snd p)) = p" if "p \<in> set ms" for p
    using JObj that by (auto simp: to_utf8_valid snds.simps prod_eq_iff)
  then show ?case by (auto intro: map_idI)
qed (simp_all add: to_utf8_valid)

fun valid_json :: "json \<Rightarrow> bool" where
  "valid_json (JNum s) \<longleftrightarrow> is_number s \<and> list_all num_char s"
| "valid_json (JArr vs) \<longleftrightarrow> (\<forall>v \<in> set vs. valid_json v)"
| "valid_json (JObj ms) \<longleftrightarrow> (\<forall>p \<in> set ms. valid_json (snd p))"
| "valid_json _ \<longleftrightarrow> True"

definition ends_value :: "string \<Rightarrow> bool" where
  "ends_value r \<longleftrightarrow> r = [] \<or> \<not> num_char (hd r)"

lemma ends_value_delim [simp]:
  "ends_value (CHR '','' # r)" "ends_value (CHR '']'' # r)" "ends_value (CHR 0x7D # r)" "ends_value []"
  by (simp_all add: ends_value_def num_char_def is_digit_def byte_def)

lemma skip_ws_id: "s = [] \<or> \<not> json_ws (hd s) \<Longrightarrow> skip_ws s = s"
  by (cases s) (auto simp: skip_ws_def)

lemma number_head: "is_number s \<Longrightarrow> s \<noteq> [] \<and> (hd s = CHR ''-'' \<or> is_digit (hd s))"
  by (auto simp: is_number_def Let_def drop_digits_def is_digit_def byte_def split: if_splits)

lemma number_head_plain:
  assumes "is_number s"
  shows "\<not> json_ws (hd s)" "hd s \<noteq> CHR 0x22" "hd s \<noteq> CHR ''[''" "hd s \<noteq> CHR 0x7B"
    "hd s \<noteq> CHR ''n''" "hd s \<noteq> CHR ''t''" "hd s \<noteq> CHR ''f''" "hd s \<noteq> CHR '']''"
  using number_head [OF assms] by (auto simp: json_ws_def is_digit_def byte_def)

lemma parse_literal_number:
  assumes "is_number s" "list_all num_char s" "ends_value r"
  shows "parse_literal (s @ r) = Some (JNum s, r)"
proof -
  obtain c t where s: "s = c # t" using number_head [OF assms(1)] by (cases s) auto
  note H = number_head_plain [OF assms(1)]
  have "takeWhile num_char (s @ r) = s" "dropWhile num_char (s @ r) = r"
    using assms(2,3) by (cases r; auto simp: ends_value_def list_all_iff)+
  moreover have "\<not> HasPrefix (s @ r) ''null''" "\<not> HasPrefix (s @ r) ''true''"
    "\<not> HasPrefix (s @ r) ''false''"
    using H s by (auto simp: HasPrefix_iff)
  ultimately show ?thesis using assms(1) by (simp add: parse_literal_def)
qed

lemma print_head:
  assumes "valid_json j"
  shows "json_print j \<noteq> []" "\<not> json_ws (hd (json_print j))" "hd (json_print j) \<noteq> CHR '']''"
  using assms number_head number_head_plain
  by (cases j; simp add: json_quote_def json_ws_def)+

lemma parse_print_elems:
  assumes IH: "\<And>v n r. v \<in> set vs \<Longrightarrow> valid_json v \<Longrightarrow> length (json_print v) < n \<Longrightarrow> ends_value r \<Longrightarrow>
      parse_value n (json_print v @ r) = Some (utf8_json v, r)"
    and "\<forall>v \<in> set vs. valid_json v" "vs \<noteq> []"
    and "length (join_with '','' (map json_print vs)) + 1 < n"
  shows "parse_elems n (join_with '','' (map json_print vs) @ CHR '']'' # r) = Some (map utf8_json vs, r)"
  using assms
proof (induction vs arbitrary: n)
  case (Cons v vs)
  obtain m where n: "n = Suc m" using Cons.prems(4) by (cases n) auto
  have w: "skip_ws (CHR '']'' # r) = CHR '']'' # r" "skip_ws (CHR '','' # t) = CHR '','' # t" for t
    by (simp_all add: skip_ws_id json_ws_def)
  have v: "valid_json v" using Cons.prems(2) by simp
  have ne: "length (json_print v) \<ge> 1" using print_head(1) [OF v] by (simp add: Suc_le_eq)
  show ?case
  proof (cases vs)
    case Nil
    then show ?thesis using Cons.prems(1) [of v m "CHR '']'' # r"] v Cons.prems(4) n w(1) by simp
  next
    case (Cons v' vs')
    have "parse_elems m (join_with '','' (map json_print vs) @ CHR '']'' # r) = Some (map utf8_json vs, r)"
      using Cons.prems Cons n ne by (intro Cons.IH) auto
    then show ?thesis
      using Cons.prems(1) [of v m] v Cons.prems(4) n w(2) Cons ne by simp
  qed
qed simp

lemma parse_print_members:
  assumes IH: "\<And>p n r. p \<in> set ms \<Longrightarrow> valid_json (snd p) \<Longrightarrow> length (json_print (snd p)) < n \<Longrightarrow>
      ends_value r \<Longrightarrow> parse_value n (json_print (snd p) @ r) = Some (utf8_json (snd p), r)"
    and "\<forall>p \<in> set ms. valid_json (snd p)" "ms \<noteq> []"
    and "length (join_with '','' (map (\<lambda>(k, v). json_quote k @ '':'' @ json_print v) ms)) + 1 < n"
  shows "parse_members n (join_with '','' (map (\<lambda>(k, v). json_quote k @ '':'' @ json_print v) ms)
      @ CHR 0x7D # r) = Some (map (\<lambda>p. (to_utf8 (fst p), utf8_json (snd p))) ms, r)"
  using assms
proof (induction ms arbitrary: n)
  case (Cons p ms)
  obtain m where n: "n = Suc m" using Cons.prems(4) by (cases n) auto
  obtain k v where p: "p = (k, v)" by fastforce
  have w: "skip_ws (CHR 0x7D # t) = CHR 0x7D # t" "skip_ws (CHR '','' # t) = CHR '','' # t"
    "skip_ws (CHR '':'' # t) = CHR '':'' # t" "skip_ws (CHR 0x22 # t) = CHR 0x22 # t" for t
    by (simp_all add: skip_ws_id json_ws_def)
  have v: "valid_json v" using Cons.prems(2) p by simp
  have q: "parse_str (quote_body k @ CHR 0x22 # t) = Some (to_utf8 k, t)" for t
    by (rule parse_str_quote)
  show ?case
  proof (cases ms)
    case Nil
    then show ?thesis
      using Cons.prems(1) [of p m "CHR 0x7D # r"] v Cons.prems(4) n w q p
      by (simp add: json_quote_def Let_def)
  next
    case (Cons p' ms')
    have "parse_members m (join_with '','' (map (\<lambda>(k, v). json_quote k @ '':'' @ json_print v) ms)
        @ CHR 0x7D # r) = Some (map (\<lambda>p. (to_utf8 (fst p), utf8_json (snd p))) ms, r)"
      using Cons.prems Cons n p by (intro Cons.IH) (auto simp: json_quote_def)
    then show ?thesis
      using Cons.prems(1) [of p m] v Cons.prems(4) n w q p Cons
      by (simp add: json_quote_def Let_def)
  qed
qed simp

lemma join_head:
  assumes "xs \<noteq> []" "hd xs \<noteq> []"
  shows "join_with sep xs \<noteq> [] \<and> hd (join_with sep xs) = hd (hd xs)"
  using assms by (cases "(sep, xs)" rule: join_with.cases) auto

lemma parse_print:
  "valid_json j \<Longrightarrow> length (json_print j) < n \<Longrightarrow> ends_value r \<Longrightarrow>
   parse_value n (json_print j @ r) = Some (utf8_json j, r)"
proof (induction j arbitrary: n r)
  case (JNum s)
  then obtain m where n: "n = Suc m" by (cases n) auto
  have "s \<noteq> []" using number_head JNum.prems(1) by auto
  then show ?case
    using JNum n number_head_plain [of s] parse_literal_number [of s r]
    by (simp add: Let_def skip_ws_id)
next
  case (JStr s)
  then obtain m where n: "n = Suc m" by (cases n) auto
  with JStr show ?case
    by (simp add: json_quote_def Let_def skip_ws_id json_ws_def parse_str_quote)
next
  case (JArr vs)
  then obtain m where n: "n = Suc m" by (cases n) auto
  show ?case
  proof (cases "vs = []")
    case True
    with n show ?thesis by (simp add: Let_def skip_ws_id json_ws_def)
  next
    case False
    let ?b = "join_with '','' (map json_print vs) @ CHR '']'' # r"
    have "valid_json (hd vs)" using JArr.prems False by simp
    note H = print_head [OF this]
    have J: "join_with '','' (map json_print vs) \<noteq> []"
      "hd (join_with '','' (map json_print vs)) = hd (json_print (hd vs))"
      using join_head [of "map json_print vs" "'',''"] False H(1) by (simp_all add: hd_map)
    then have "skip_ws ?b = ?b" "hd ?b \<noteq> CHR '']''" using H by (simp_all add: skip_ws_id hd_append)
    moreover have "parse_elems m ?b = Some (map utf8_json vs, r)"
      using JArr False n by (intro parse_print_elems) auto
    ultimately show ?thesis using n J by (simp add: Let_def skip_ws_id json_ws_def)
  qed
next
  case (JObj ms)
  then obtain m where n: "n = Suc m" by (cases n) auto
  let ?p = "\<lambda>(k, v). json_quote k @ '':'' @ json_print v"
  show ?case
  proof (cases "ms = []")
    case True
    with n show ?thesis by (simp add: Let_def skip_ws_id json_ws_def)
  next
    case False
    let ?b = "join_with '','' (map ?p ms) @ CHR 0x7D # r"
    have h: "?p (hd ms) \<noteq> []" "hd (?p (hd ms)) = CHR 0x22"
      by (simp_all add: json_quote_def split: prod.splits)
    then have J: "join_with '','' (map ?p ms) \<noteq> []" "hd (join_with '','' (map ?p ms)) = CHR 0x22"
      using join_head [of "map ?p ms" "'',''"] False by (simp_all add: hd_map)
    then have "skip_ws ?b = ?b" "hd ?b \<noteq> CHR 0x7D" by (simp_all add: skip_ws_id json_ws_def hd_append)
    moreover have "parse_members m ?b = Some (map (\<lambda>p. (to_utf8 (fst p), utf8_json (snd p))) ms, r)"
      using JObj.prems False n by (intro parse_print_members JObj.IH) (auto simp: snds.simps)
    ultimately show ?thesis using n J by (simp add: Let_def skip_ws_id json_ws_def)
  qed
next
  case JNull
  then obtain m where "n = Suc m" by (cases n) auto
  then show ?case by (simp add: Let_def skip_ws_id json_ws_def parse_literal_def HasPrefix_def)
next
  case (JBool b)
  then obtain m where "n = Suc m" by (cases n) auto
  then show ?case by (simp add: Let_def skip_ws_id json_ws_def parse_literal_def HasPrefix_def)
qed

lemma json_parse_print: "valid_json j \<Longrightarrow> json_parse (json_print j) = Some (utf8_json j)"
  using parse_print [of j "length (json_print j) + 1" "[]"]
  by (simp add: json_parse_def skip_ws_def)

end
