(* ===== verification/Go_Time.thy ===== *)
theory Go_Time
  imports Go_Strings
begin

text \<open>
  What the program uses of Go's \<^verbatim>\<open>time\<close>. A \<^verbatim>\<open>time.Time\<close> is the number of
  nanoseconds since 1 January of year 1 UTC, so the zero time is 0 and
  \<^verbatim>\<open>UTC()\<close> is the identity; a \<^verbatim>\<open>time.Duration\<close> is an \<^verbatim>\<open>int64\<close>
  number of nanoseconds. The JSON form is RFC 3339 with nanoseconds.
\<close>

section \<open>Arithmetic\<close>

definition time_IsZero :: "int \<Rightarrow> bool" where
  "time_IsZero t \<longleftrightarrow> t = 0"

text \<open>\<^verbatim>\<open>t.Sub(u)\<close> saturates at the ends of the duration range.\<close>

definition time_Sub :: "int \<Rightarrow> int \<Rightarrow> int" where
  "time_Sub t u = max (- 9223372036854775808) (min 9223372036854775807 (t - u))"

definition time_After :: "int \<Rightarrow> int \<Rightarrow> bool" where
  "time_After t u \<longleftrightarrow> t > u"

definition time_Before :: "int \<Rightarrow> int \<Rightarrow> bool" where
  "time_Before t u \<longleftrightarrow> t < u"

section \<open>The calendar\<close>

definition leap :: "int \<Rightarrow> bool" where
  "leap y \<longleftrightarrow> y mod 4 = 0 \<and> (y mod 100 \<noteq> 0 \<or> y mod 400 = 0)"

definition year_len :: "int \<Rightarrow> int" where
  "year_len y = (if leap y then 366 else 365)"

definition month_lens :: "int \<Rightarrow> int list" where
  "month_lens y = [31, if leap y then 29 else 28, 31, 30, 31, 30, 31, 31, 30, 31, 30, 31]"

text \<open>Position of \<open>n\<close> in consecutive blocks of the given lengths: block and offset.\<close>

fun split_by :: "int list \<Rightarrow> int \<Rightarrow> nat \<times> int" where
  "split_by [] n = (0, n)"
| "split_by (l # ls) n = (if n < l then (0, n) else apfst Suc (split_by ls (n - l)))"

text \<open>The lengths of the years of a 400-year cycle, which has 146097 days.\<close>

definition cycle_lens :: "int list" where
  "cycle_lens = map year_len [1..400]"

text \<open>Year, month and day of a day number (day 0 is 1 January of year 1), and back.\<close>

definition civil :: "int \<Rightarrow> int \<times> int \<times> int" where
  "civil n =
     (let (i, r) = split_by cycle_lens (n mod 146097);
          y = 400 * (n div 146097) + int i + 1;
          (m, d) = split_by (month_lens y) r
      in (y, int m + 1, d + 1))"

definition day_number :: "int \<Rightarrow> int \<Rightarrow> int \<Rightarrow> int" where
  "day_number y m d =
     146097 * ((y - 1) div 400) + sum_list (take (nat ((y - 1) mod 400)) cycle_lens)
     + sum_list (take (nat (m - 1)) (month_lens y)) + (d - 1)"

section \<open>RFC 3339\<close>

fun pad_dec :: "nat \<Rightarrow> int \<Rightarrow> string" where
  "pad_dec 0 v = []"
| "pad_dec (Suc n) v = pad_dec n (v div 10) @ [char_of (48 + nat (v mod 10))]"

text \<open>\<^verbatim>\<open>MarshalJSON\<close>'s text, without the quotes; \<open>None\<close> when the year is out of range.\<close>

definition time_Format :: "int \<Rightarrow> string option" where
  "time_Format t =
     (let nanos = t mod 1000000000; secs = t div 1000000000; s = secs mod 86400;
          (y, m, d) = civil (secs div 86400);
          frac = (if nanos = 0 then [] else CHR ''.'' # TrimRight (pad_dec 9 nanos) ''0'')
      in if y < 0 \<or> y > 9999 then None
         else Some (pad_dec 4 y @ ''-'' @ pad_dec 2 m @ ''-'' @ pad_dec 2 d @ ''T''
           @ pad_dec 2 (s div 3600) @ '':'' @ pad_dec 2 (s div 60 mod 60) @ '':''
           @ pad_dec 2 (s mod 60) @ frac @ ''Z''))"

definition parse_num :: "string \<Rightarrow> int \<Rightarrow> int \<Rightarrow> int option" where
  "parse_num s lo hi =
     (let v = digits_val 0 s in if list_all is_digit s \<and> lo \<le> v \<and> v \<le> hi then Some v else None)"

text \<open>The zone at the end of the text, as seconds east of UTC.\<close>

definition parse_zone :: "string \<Rightarrow> int option" where
  "parse_zone z =
     (if z = ''Z'' then Some 0
      else if length z = 6 \<and> (hd z = CHR ''+'' \<or> hd z = CHR ''-'') \<and> z ! 3 = CHR '':'' then
        (case (parse_num (take 2 (drop 1 z)) 0 23, parse_num (drop 4 z) 0 59) of
           (Some h, Some m) \<Rightarrow> Some (if hd z = CHR ''-'' then - (3600 * h + 60 * m) else 3600 * h + 60 * m)
         | _ \<Rightarrow> None)
      else None)"

text \<open>The optional fraction: nanoseconds and what follows.\<close>

definition parse_frac :: "string \<Rightarrow> int \<times> string" where
  "parse_frac s =
     (if length s \<ge> 2 \<and> hd s = CHR ''.'' \<and> is_digit (s ! 1)
      then (digits_val 0 (take 9 (takeWhile is_digit (tl s) @ replicate 9 (CHR ''0''))),
            dropWhile is_digit (tl s))
      else (0, s))"

definition time_Parse :: "string \<Rightarrow> int option" where
  "time_Parse s =
     (if length s < 19 \<or> s ! 4 \<noteq> CHR ''-'' \<or> s ! 7 \<noteq> CHR ''-'' \<or> s ! 10 \<noteq> CHR ''T''
         \<or> s ! 13 \<noteq> CHR '':'' \<or> s ! 16 \<noteq> CHR '':'' then None
      else
        (case (parse_num (take 4 s) 0 9999, parse_num (take 2 (drop 5 s)) 1 12) of
           (Some y, Some m) \<Rightarrow>
             (case (parse_num (take 2 (drop 8 s)) 1 (month_lens y ! nat (m - 1)),
                    parse_num (take 2 (drop 11 s)) 0 23, parse_num (take 2 (drop 14 s)) 0 59,
                    parse_num (take 2 (drop 17 s)) 0 59) of
                (Some d, Some h, Some i, Some sec) \<Rightarrow>
                  (case parse_frac (drop 19 s) of (nanos, z) \<Rightarrow>
                     (case parse_zone z of
                        None \<Rightarrow> None
                      | Some off \<Rightarrow>
                          Some (1000000000 *
                                 (86400 * day_number y m d + 3600 * h + 60 * i + sec - off) + nanos)))
              | _ \<Rightarrow> None)
         | _ \<Rightarrow> None))"

section \<open>Facts\<close>

lemma time_Sub_ge_iff:
  "is_i64 d \<Longrightarrow> d > - 9223372036854775808 \<Longrightarrow> time_Sub t u \<ge> d \<longleftrightarrow> t - u \<ge> d"
  by (auto simp: time_Sub_def is_i64_def)

lemma split_by_ok:
  assumes "split_by ls n = (i, r)" "0 \<le> n" "n < sum_list ls"
  shows "i < length ls \<and> 0 \<le> r \<and> r < ls ! i \<and> sum_list (take i ls) + r = n"
  using assms
proof (induction ls arbitrary: n i)
  case (Cons l ls)
  show ?case
  proof (cases "n < l")
    case True
    with Cons.prems show ?thesis by auto
  next
    case False
    then obtain j where j: "split_by ls (n - l) = (j, r)" "i = Suc j"
      using Cons.prems(1) by (cases "split_by ls (n - l)") auto
    have "j < length ls \<and> 0 \<le> r \<and> r < ls ! j \<and> sum_list (take j ls) + r = n - l"
      using Cons.IH [OF j(1)] Cons.prems(3) False by simp
    with j(2) show ?thesis by simp
  qed
qed simp

lemma sum_cycle_lens: "sum_list cycle_lens = 146097"
  by code_simp

lemma length_cycle_lens: "length cycle_lens = 400"
  by (simp add: cycle_lens_def)

lemma sum_month_lens: "sum_list (month_lens y) = year_len y"
  by (simp add: month_lens_def year_len_def)

lemma leap_cycle: "leap (400 * c + k) = leap k"
proof -
  have "(400 * c + k) mod 4 = k mod 4"
    using mod_mult_self1 [of k "100 * c" 4] by (simp add: algebra_simps)
  moreover have "(400 * c + k) mod 100 = k mod 100"
    using mod_mult_self1 [of k "4 * c" 100] by (simp add: algebra_simps)
  moreover have "(400 * c + k) mod 400 = k mod 400" by simp
  ultimately show ?thesis by (simp add: leap_def)
qed

lemma civil_ok:
  assumes "civil n = (y, m, d)"
  shows "day_number y m d = n \<and> 1 \<le> m \<and> m \<le> 12 \<and> 1 \<le> d \<and> d \<le> month_lens y ! nat (m - 1)"
proof -
  obtain i r where ir: "split_by cycle_lens (n mod 146097) = (i, r)" by fastforce
  obtain k e where ke: "split_by (month_lens (400 * (n div 146097) + int i + 1)) r = (k, e)" by fastforce
  have y: "y = 400 * (n div 146097) + int i + 1" and m: "m = int k + 1" and d: "d = e + 1"
    using assms ir ke by (simp_all add: civil_def)
  have I: "i < 400" "0 \<le> r" "r < cycle_lens ! i" "sum_list (take i cycle_lens) + r = n mod 146097"
    using split_by_ok [OF ir] by (simp_all add: sum_cycle_lens length_cycle_lens)
  have "cycle_lens ! i = year_len (int i + 1)"
    using I(1) by (simp add: cycle_lens_def add.commute)
  also have "\<dots> = year_len y"
    using leap_cycle [of "n div 146097" "int i + 1"] by (simp add: y year_len_def add.assoc)
  finally have "r < sum_list (month_lens y)" using I(3) by (simp add: sum_month_lens)
  then have K: "k < 12" "0 \<le> e" "e < month_lens y ! k" "sum_list (take k (month_lens y)) + e = r"
    using split_by_ok [OF ke] I(2) by (simp_all add: y, simp_all add: month_lens_def)
  have q: "(y - 1) div 400 = n div 146097" "nat ((y - 1) mod 400) = i"
    using I(1) by (simp_all add: y)
  have "day_number y m d = 146097 * (n div 146097) + sum_list (take i cycle_lens)
      + sum_list (take k (month_lens y)) + e"
    by (simp add: day_number_def q m d)
  then have "day_number y m d = n"
    using I(4) K(4) mult_div_mod_eq [of 146097 n] by linarith
  with K show ?thesis by (simp add: m d)
qed

lemma length_pad_dec [simp]: "length (pad_dec n v) = n"
  by (induction n arbitrary: v) simp_all

lemma byte_pad_digit: "byte (char_of (48 + nat (v mod 10))) = 48 + nat (v mod 10)"
  by (rule byte_digit) simp

lemma pad_dec_digits [simp]: "list_all is_digit (pad_dec n v)"
proof (induction n arbitrary: v)
  case (Suc n)
  have "nat (v mod 10) < 10" by simp
  then have "is_digit (char_of (48 + nat (v mod 10)))"
    unfolding is_digit_def byte_pad_digit by linarith
  with Suc show ?case by simp
qed simp

lemma digits_val_pad_dec: "digits_val 0 (pad_dec n v) = v mod 10 ^ n"
proof (induction n arbitrary: v)
  case (Suc n)
  have "v mod 10 ^ Suc n = 10 * (v div 10 mod 10 ^ n) + v mod 10"
    using zmod_zmult2_eq [of "10 ^ n" v 10] by simp
  with Suc show ?case by (simp add: digits_val_append digit_val_def byte_pad_digit)
qed simp

lemma parse_num_pad:
  "0 \<le> v \<Longrightarrow> v < 10 ^ n \<Longrightarrow> lo \<le> v \<Longrightarrow> v \<le> hi \<Longrightarrow> parse_num (pad_dec n v) lo hi = Some v"
  by (simp add: parse_num_def digits_val_pad_dec)

lemma trim_zeros:
  "length ds \<le> n \<Longrightarrow> take n (TrimRight ds ''0'' @ replicate n (CHR ''0'')) = ds @ replicate (n - length ds) (CHR ''0'')"
proof (induction ds rule: rev_induct)
  case Nil
  then show ?case by (simp add: TrimRight_def)
next
  case (snoc c ds)
  show ?case
  proof (cases "c = CHR ''0''")
    case True
    have "replicate (n - length ds) (CHR ''0'') = CHR ''0'' # replicate (n - Suc (length ds)) (CHR ''0'')"
      using snoc.prems by (simp add: Suc_diff_Suc flip: replicate_Suc)
    with True snoc show ?thesis by (simp add: TrimRight_def)
  next
    case False
    then show ?thesis using snoc.prems by (simp add: TrimRight_def take_Cons' min_def)
  qed
qed

lemma TrimRight_Nil_iff: "TrimRight s cs = [] \<longleftrightarrow> set s \<subseteq> set cs"
  by (auto simp: TrimRight_def dropWhile_eq_Nil_conv)

lemma digits_val_zeros: "set ds \<subseteq> {CHR ''0''} \<Longrightarrow> digits_val 0 ds = 0"
  by (induction ds) (auto simp: digit_val_def byte_def)

lemma parse_frac_none: "hd z \<noteq> CHR ''.'' \<Longrightarrow> parse_frac z = (0, z)"
  by (simp add: parse_frac_def)

lemma parse_frac_nanos:
  assumes "0 < nanos" "nanos < 1000000000" "z \<noteq> []" "\<not> is_digit (hd z)"
  shows "parse_frac (CHR ''.'' # TrimRight (pad_dec 9 nanos) ''0'' @ z) = (nanos, z)"
proof -
  let ?ds = "TrimRight (pad_dec 9 nanos) ''0''"
  have v: "digits_val 0 (pad_dec 9 nanos) = nanos" using assms by (simp add: digits_val_pad_dec)
  have "?ds \<noteq> []"
    using digits_val_zeros [of "pad_dec 9 nanos"] v assms(1) by (auto simp: TrimRight_Nil_iff)
  then obtain c cs where c: "?ds = c # cs" by (cases ?ds) auto
  have all: "\<And>x. x \<in> set ?ds \<Longrightarrow> is_digit x"
    using set_TrimRight [of "pad_dec 9 nanos" "''0''"] pad_dec_digits [of 9 nanos]
    by (auto simp: list_all_iff)
  have "takeWhile is_digit (?ds @ z) = ?ds" "dropWhile is_digit (?ds @ z) = z"
    using all assms(3,4) by (simp_all add: takeWhile_append2 dropWhile_append2, cases z; simp)+
  moreover have "take 9 (?ds @ replicate 9 (CHR ''0'')) = pad_dec 9 nanos"
    using trim_zeros [of "pad_dec 9 nanos" 9] by simp
  ultimately show ?thesis using c all v by (simp add: parse_frac_def)
qed

lemma two_places: "60 * a + b = c \<Longrightarrow> 60 * c + d = x \<Longrightarrow> 3600 * a + 60 * b + d = x"
  for a b c d x :: int
  by simp

lemma time_Parse_Format:
  assumes "time_Format t = Some s"
  shows "time_Parse s = Some t"
proof -
  define nanos where "nanos = t mod 1000000000"
  define secs where "secs = t div 1000000000"
  define sod where "sod = secs mod 86400"
  obtain y m d where c: "civil (secs div 86400) = (y, m, d)" by (cases "civil (secs div 86400)") auto
  define frac where "frac = (if nanos = 0 then [] else CHR ''.'' # TrimRight (pad_dec 9 nanos) ''0'')"
  have y: "0 \<le> y" "y \<le> 9999" and s: "s = pad_dec 4 y @ ''-'' @ pad_dec 2 m @ ''-'' @ pad_dec 2 d @ ''T''
           @ pad_dec 2 (sod div 3600) @ '':'' @ pad_dec 2 (sod div 60 mod 60) @ '':''
           @ pad_dec 2 (sod mod 60) @ frac @ ''Z''"
    using assms c by (auto simp: time_Format_def Let_def frac_def nanos_def sod_def secs_def
        split: if_splits)
  note C = civil_ok [OF c]
  have ml: "month_lens y ! nat (m - 1) < 100"
  proof -
    have "length (month_lens y) = 12" by (simp add: month_lens_def)
    then have "nat (m - 1) < length (month_lens y)" using C by (auto simp: nat_less_iff)
    from nth_mem [OF this] show ?thesis by (auto simp: month_lens_def split: if_splits)
  qed
  have sod: "0 \<le> sod" "sod < 86400" by (simp_all add: sod_def)
  have h: "0 \<le> sod div 3600" "sod div 3600 \<le> 23" "sod div 3600 < 100" using sod by auto
  have "sod div 3600 = sod div 60 div 60" using zdiv_zmult2_eq [of 60 sod 60] by simp
  then have "3600 * (sod div 3600) + 60 * (sod div 60 mod 60) + sod mod 60 = sod"
    using two_places [OF mult_div_mod_eq [of 60 "sod div 60"] mult_div_mod_eq [of 60 sod]]
    by (simp only:)
  then have tod: "86400 * day_number y m d + 3600 * (sod div 3600) + 60 * (sod div 60 mod 60) + sod mod 60 = secs"
    using C mult_div_mod_eq [of 86400 secs] by (simp only: sod_def add.assoc)
  have f: "parse_frac (frac @ ''Z'') = (nanos, ''Z'')"
  proof (cases "nanos = 0")
    case True
    then show ?thesis by (simp add: frac_def parse_frac_none)
  next
    case False
    then have "0 < nanos" "nanos < 1000000000" by (simp_all add: nanos_def le_neq_trans)
    with False show ?thesis
      using parse_frac_nanos [of nanos "''Z''"] by (simp add: frac_def is_digit_def byte_def)
  qed
  have p: "parse_num (pad_dec 4 y) 0 9999 = Some y" "parse_num (pad_dec 2 m) 1 12 = Some m"
    "parse_num (pad_dec 2 d) 1 (month_lens y ! nat (m - 1)) = Some d"
    "parse_num (pad_dec 2 (sod div 3600)) 0 23 = Some (sod div 3600)"
    "parse_num (pad_dec 2 (sod div 60 mod 60)) 0 59 = Some (sod div 60 mod 60)"
    "parse_num (pad_dec 2 (sod mod 60)) 0 59 = Some (sod mod 60)"
    using y C ml h by (simp_all add: parse_num_pad order.strict_implies_order
        zle_diff1_eq [of _ 60, simplified])
  have "1000000000 * secs + nanos = t"
    using mult_div_mod_eq [of 1000000000 t] by (simp only: secs_def nanos_def)
  then show ?thesis
    unfolding s using p f tod
    by (simp add: time_Parse_def parse_zone_def nth_append numeral_eq_Suc del: pad_dec.simps)
qed

end
