(* ===== verification/Go_Http.thy ===== *)
theory Go_Http
  imports Go_Strings
begin

text \<open>
  \<^verbatim>\<open>http.Header\<close>: a Go map from names to value lists, with operations that
  canonicalise the name they are given. The map is an association list with distinct
  keys; its order stands for the order in which \<^verbatim>\<open>range\<close> happens to visit the
  map, which Go leaves open, so a statement for every list is one for every order.
\<close>

section \<open>Canonical names\<close>

definition validHeaderFieldByte :: "char \<Rightarrow> bool" where
  "validHeaderFieldByte c \<longleftrightarrow>
     is_lower c \<or> is_upper c \<or> is_digit c \<or> c \<in> set ''!#$%&*+-.^_|~'' \<or> c = CHR 0x27 \<or> c = CHR 0x60"

fun canon_bytes :: "bool \<Rightarrow> string \<Rightarrow> string" where
  "canon_bytes up [] = []"
| "canon_bytes up (c # s) =
     (let d = (if up then upper c else lower c) in d # canon_bytes (d = CHR ''-'') s)"

definition CanonicalHeaderKey :: "string \<Rightarrow> string" where
  "CanonicalHeaderKey s = (if list_all validHeaderFieldByte s then canon_bytes True s else s)"

section \<open>Headers\<close>

type_synonym header = "(string \<times> string list) list"

abbreviation header_ok :: "header \<Rightarrow> bool" where
  "header_ok h \<equiv> distinct (map fst h)"

definition header_values :: "header \<Rightarrow> string \<Rightarrow> string list" where
  "header_values h n = (case map_of h n of None \<Rightarrow> [] | Some vs \<Rightarrow> vs)"

definition Values :: "header \<Rightarrow> string \<Rightarrow> string list" where
  "Values h n = header_values h (CanonicalHeaderKey n)"

definition Get :: "header \<Rightarrow> string \<Rightarrow> string" where
  "Get h n = (case Values h n of [] \<Rightarrow> [] | v # _ \<Rightarrow> v)"

definition Header_Set :: "header \<Rightarrow> string \<Rightarrow> string \<Rightarrow> header" where
  "Header_Set h n v = AList.update (CanonicalHeaderKey n) [v] h"

definition Header_Add :: "header \<Rightarrow> string \<Rightarrow> string \<Rightarrow> header" where
  "Header_Add h n v = AList.update (CanonicalHeaderKey n) (Values h n @ [v]) h"

definition Header_Del :: "header \<Rightarrow> string \<Rightarrow> header" where
  "Header_Del h n = AList.delete (CanonicalHeaderKey n) h"

section \<open>Facts\<close>

lemma upper_lower_facts:
  "is_lower c \<Longrightarrow> is_upper (upper c)" "is_upper c \<Longrightarrow> is_lower (lower c)"
  "\<not> is_lower c \<Longrightarrow> upper c = c" "\<not> is_upper c \<Longrightarrow> lower c = c"
  by (auto simp: is_lower_def is_upper_def upper_def lower_def)

lemma not_lower_and_upper: "is_lower c \<Longrightarrow> \<not> is_upper c"
  by (auto simp: is_lower_def is_upper_def)

lemma upper_idem [simp]: "upper (upper c) = upper c"
  by (metis not_lower_and_upper upper_lower_facts(1,3))

lemma lower_upper [simp]: "lower (upper c) = lower c"
proof (cases "is_lower c")
  case True
  then have "byte (upper c) = byte c - 32" "is_upper (upper c)"
    by (auto simp: upper_def is_lower_def is_upper_def)
  with True show ?thesis
    by (auto simp: lower_def is_lower_def is_upper_def)
qed (simp add: upper_lower_facts)

lemma upper_lower [simp]: "upper (lower c) = upper c"
proof (cases "is_upper c")
  case True
  then have "byte (lower c) = byte c + 32" "is_lower (lower c)"
    by (auto simp: lower_def is_lower_def is_upper_def)
  with True show ?thesis
    by (auto simp: upper_def is_lower_def is_upper_def)
qed (simp add: upper_lower_facts)

lemma valid_case [simp]:
  "validHeaderFieldByte (upper c) \<longleftrightarrow> validHeaderFieldByte c"
  "validHeaderFieldByte (lower c) \<longleftrightarrow> validHeaderFieldByte c"
  using upper_lower_facts [of c] unfolding validHeaderFieldByte_def by metis+

lemma canon_bytes_valid [simp]:
  "list_all validHeaderFieldByte (canon_bytes up s) \<longleftrightarrow> list_all validHeaderFieldByte s"
  by (induction up s rule: canon_bytes.induct) (auto simp: Let_def)

lemma canon_bytes_idem [simp]: "canon_bytes up (canon_bytes up s) = canon_bytes up s"
  by (induction up s rule: canon_bytes.induct) (auto simp: Let_def)

lemma Canonical_idem [simp]:
  "CanonicalHeaderKey (CanonicalHeaderKey s) = CanonicalHeaderKey s"
  by (simp add: CanonicalHeaderKey_def)

lemma ToLower_canon_bytes: "ToLower (canon_bytes up s) = ToLower s"
  by (induction up s rule: canon_bytes.induct) (auto simp: ToLower_def Let_def)

lemma canon_bytes_ToLower: "canon_bytes up (ToLower s) = canon_bytes up s"
  by (induction up s rule: canon_bytes.induct) (auto simp: ToLower_def Let_def)

lemma valid_ToLower: "list_all validHeaderFieldByte (ToLower s) \<longleftrightarrow> list_all validHeaderFieldByte s"
  by (induction s) (auto simp: ToLower_def)

text \<open>Header names are compared without regard to case.\<close>

lemma Canonical_fold:
  assumes "list_all validHeaderFieldByte s"
  shows "CanonicalHeaderKey s = CanonicalHeaderKey t \<longleftrightarrow> EqualFold s t"
proof
  assume eq: "CanonicalHeaderKey s = CanonicalHeaderKey t"
  show "EqualFold s t"
  proof (cases "list_all validHeaderFieldByte t")
    case True
    with eq assms show ?thesis
      by (metis CanonicalHeaderKey_def EqualFold_def ToLower_canon_bytes)
  next
    case False
    with eq assms show ?thesis
      by (metis CanonicalHeaderKey_def canon_bytes_valid)
  qed
next
  assume "EqualFold s t"
  then have "list_all validHeaderFieldByte t"
    using assms by (metis EqualFold_def valid_ToLower)
  with assms \<open>EqualFold s t\<close> show "CanonicalHeaderKey s = CanonicalHeaderKey t"
    by (metis CanonicalHeaderKey_def EqualFold_def canon_bytes_ToLower)
qed

lemma map_of_Set [simp]: "map_of (Header_Set h n v) = (map_of h)(CanonicalHeaderKey n \<mapsto> [v])"
  by (simp add: Header_Set_def update_conv')

lemma map_of_Add [simp]:
  "map_of (Header_Add h n v) = (map_of h)(CanonicalHeaderKey n \<mapsto> Values h n @ [v])"
  by (simp add: Header_Add_def update_conv')

lemma map_of_Del [simp]: "map_of (Header_Del h n) = (map_of h)(CanonicalHeaderKey n := None)"
  by (simp add: Header_Del_def delete_conv')

lemma header_ok_ops [simp]:
  "header_ok h \<Longrightarrow> header_ok (Header_Set h n v)" "header_ok h \<Longrightarrow> header_ok (Header_Add h n v)"
  "header_ok h \<Longrightarrow> header_ok (Header_Del h n)"
  by (simp_all add: Header_Set_def Header_Add_def Header_Del_def distinct_update distinct_delete)

lemma Values_Set: "Values (Header_Set h n v) m =
    (if CanonicalHeaderKey m = CanonicalHeaderKey n then [v] else Values h m)"
  by (simp add: Values_def header_values_def)

lemma Get_Set: "Get (Header_Set h n v) m =
    (if CanonicalHeaderKey m = CanonicalHeaderKey n then v else Get h m)"
  by (simp add: Get_def Values_Set)

lemma Get_Del: "Get (Header_Del h n) m =
    (if CanonicalHeaderKey m = CanonicalHeaderKey n then [] else Get h m)"
  by (simp add: Get_def Values_def header_values_def)

text \<open>The loop \<^verbatim>\<open>for _, value := range values { target.Add(name, value) }\<close>.\<close>

definition add_values :: "string \<Rightarrow> string list \<Rightarrow> header \<Rightarrow> header" where
  "add_values n vs h = foldl (\<lambda>t v. Header_Add t n v) h vs"

lemma header_ok_add_values [simp]: "header_ok h \<Longrightarrow> header_ok (add_values n vs h)"
  by (induction vs arbitrary: h) (simp_all add: add_values_def)

lemma header_values_add_values:
  "header_values (add_values n vs h) m =
     (if m = CanonicalHeaderKey n then header_values h m @ vs else header_values h m)"
  by (induction vs arbitrary: h) (auto simp: add_values_def header_values_def Values_def)

lemma map_of_add_values:
  "map_of (add_values n vs h) m =
     (if m = CanonicalHeaderKey n \<and> vs \<noteq> [] then Some (header_values h m @ vs) else map_of h m)"
  by (induction vs arbitrary: h) (auto simp: add_values_def header_values_def Values_def)

end
