(* ===== verification/Go_Os.thy ===== *)
theory Go_Os
  imports Go_Strings "HOL-Library.AList"
begin

text \<open>
  The part of a file system that the program uses, through \<^verbatim>\<open>os\<close> and
  \<^verbatim>\<open>path/filepath\<close>. A clean absolute path is the list of its elements, so
  \<^verbatim>\<open>Join\<close> appends, \<^verbatim>\<open>Base\<close> is the last element and \<^verbatim>\<open>Dir\<close> drops it. A
  system call may fail at any time: \<open>faults\<close> is the list of the outcomes of the calls to
  come, \<open>None\<close> for a call that the system carries out, and the calls beyond its end are
  all carried out; \<open>faults f = []\<close> is the file system without failures. There are no
  symbolic links, and a failing write leaves the file as it was.
\<close>

section \<open>Nodes\<close>

type_synonym path = "string list"

datatype node = Directory | Regular (content: string) (mtime: int)

text \<open>\<^verbatim>\<open>FileInfo\<close> of a node; a directory has no size or time that the program uses.\<close>

definition file_content :: "node \<Rightarrow> string" where
  "file_content n = (case n of Directory \<Rightarrow> [] | Regular d _ \<Rightarrow> d)"

definition file_size :: "node \<Rightarrow> int" where
  "file_size n = int (length (file_content n))"

definition file_mtime :: "node \<Rightarrow> int" where
  "file_mtime n = (case n of Directory \<Rightarrow> 0 | Regular _ t \<Rightarrow> t)"

lemma file_info_simps [simp]:
  "file_content (Regular d t) = d" "file_size (Regular d t) = int (length d)"
  "file_mtime (Regular d t) = t"
  by (simp_all add: file_content_def file_size_def file_mtime_def)

datatype os_error = NotExist | OtherError

record fs =
  nodes :: "(path \<times> node) list"
  faults :: "os_error option list"

definition node_at :: "fs \<Rightarrow> path \<Rightarrow> node option" where
  "node_at f = map_of (nodes f)"

definition set_node :: "path \<Rightarrow> node \<Rightarrow> fs \<Rightarrow> fs" where
  "set_node p n f = f\<lparr>nodes := AList.update p n (nodes f)\<rparr>"

definition del_node :: "path \<Rightarrow> fs \<Rightarrow> fs" where
  "del_node p f = f\<lparr>nodes := AList.delete p (nodes f)\<rparr>"

text \<open>The outcome that the system has in store for the next call.\<close>

definition next_fault :: "fs \<Rightarrow> os_error option" where
  "next_fault f = (case faults f of [] \<Rightarrow> None | e # _ \<Rightarrow> e)"

definition tick :: "fs \<Rightarrow> fs" where
  "tick f = f\<lparr>faults := tl (faults f)\<rparr>"

section \<open>System calls\<close>

text \<open>A call with no effect of its own: \<^verbatim>\<open>Sync\<close>, \<^verbatim>\<open>Close\<close>, \<^verbatim>\<open>ReadDir\<close>.\<close>

definition sys_plain :: "fs \<Rightarrow> os_error option \<times> fs" where
  "sys_plain f = (next_fault f, tick f)"

definition os_Stat :: "path \<Rightarrow> fs \<Rightarrow> (os_error + node) \<times> fs" where
  "os_Stat p f =
     (case next_fault f of
        Some e \<Rightarrow> (Inl e, tick f)
      | None \<Rightarrow> (case node_at f p of None \<Rightarrow> (Inl NotExist, tick f) | Some n \<Rightarrow> (Inr n, tick f)))"

text \<open>\<^verbatim>\<open>Open\<close> and \<^verbatim>\<open>ReadAll\<close>, two calls; a directory cannot be read.\<close>

definition os_ReadFile :: "path \<Rightarrow> fs \<Rightarrow> (os_error + string) \<times> fs" where
  "os_ReadFile p f =
     (case os_Stat p f of
        (Inl e, f1) \<Rightarrow> (Inl e, f1)
      | (Inr n, f1) \<Rightarrow>
          (case next_fault f1 of
             Some e \<Rightarrow> (Inl e, tick f1)
           | None \<Rightarrow> (case n of Directory \<Rightarrow> (Inl OtherError, tick f1) | Regular d t \<Rightarrow> (Inr d, tick f1))))"

definition has_children :: "path \<Rightarrow> fs \<Rightarrow> bool" where
  "has_children p f = list_ex (\<lambda>q. strict_prefix p q) (map fst (nodes f))"

definition os_Remove :: "path \<Rightarrow> fs \<Rightarrow> os_error option \<times> fs" where
  "os_Remove p f =
     (case next_fault f of
        Some e \<Rightarrow> (Some e, tick f)
      | None \<Rightarrow>
          (case node_at f p of
             None \<Rightarrow> (Some NotExist, tick f)
           | Some Directory \<Rightarrow>
               if has_children p f then (Some OtherError, tick f) else (None, del_node p (tick f))
           | Some (Regular _ _) \<Rightarrow> (None, del_node p (tick f))))"

text \<open>\<^verbatim>\<open>Rename\<close> of a regular file; an existing regular destination is replaced.\<close>

definition os_Rename :: "path \<Rightarrow> path \<Rightarrow> fs \<Rightarrow> os_error option \<times> fs" where
  "os_Rename p q f =
     (case next_fault f of
        Some e \<Rightarrow> (Some e, tick f)
      | None \<Rightarrow>
          (case node_at f p of
             None \<Rightarrow> (Some NotExist, tick f)
           | Some Directory \<Rightarrow> (Some OtherError, tick f)
           | Some (Regular d t) \<Rightarrow>
               if node_at f q = Some Directory then (Some OtherError, tick f)
               else (None, set_node q (Regular d t) (del_node p (tick f)))))"

definition os_Chtimes :: "path \<Rightarrow> int \<Rightarrow> fs \<Rightarrow> os_error option \<times> fs" where
  "os_Chtimes p t f =
     (case next_fault f of
        Some e \<Rightarrow> (Some e, tick f)
      | None \<Rightarrow>
          (case node_at f p of
             None \<Rightarrow> (Some NotExist, tick f)
           | Some Directory \<Rightarrow> (None, tick f)
           | Some (Regular d _) \<Rightarrow> (None, set_node p (Regular d t) (tick f))))"

text \<open>Make the missing directories on the way to a path.\<close>

fun make_dirs :: "path list \<Rightarrow> fs \<Rightarrow> os_error option \<times> fs" where
  "make_dirs [] f = (None, f)"
| "make_dirs (p # ps) f =
     (case node_at f p of
        None \<Rightarrow> make_dirs ps (set_node p Directory f)
      | Some Directory \<Rightarrow> make_dirs ps f
      | Some (Regular _ _) \<Rightarrow> (Some OtherError, f))"

definition os_MkdirAll :: "path \<Rightarrow> fs \<Rightarrow> os_error option \<times> fs" where
  "os_MkdirAll p f =
     (case next_fault f of
        Some e \<Rightarrow> (Some e, tick f)
      | None \<Rightarrow> make_dirs (prefixes p) (tick f))"

text \<open>
  \<^verbatim>\<open>CreateTemp(dir, prefix + "*")\<close>: the numbers are the random numbers that the
  runtime will draw; a name that exists is tried again with the next one.
\<close>

fun fresh_name :: "path \<Rightarrow> string \<Rightarrow> nat list \<Rightarrow> fs \<Rightarrow> path option" where
  "fresh_name dir pre [] f = None"
| "fresh_name dir pre (r # rs) f =
     (let p = dir @ [pre @ dec_digits r]
      in if node_at f p = None then Some p else fresh_name dir pre rs f)"

definition os_CreateTemp ::
  "path \<Rightarrow> string \<Rightarrow> nat list \<Rightarrow> int \<Rightarrow> fs \<Rightarrow> (os_error + path) \<times> fs" where
  "os_CreateTemp dir pre rnd now f =
     (case next_fault f of
        Some e \<Rightarrow> (Inl e, tick f)
      | None \<Rightarrow>
          if node_at f dir \<noteq> Some Directory then (Inl NotExist, tick f)
          else (case fresh_name dir pre rnd f of
            None \<Rightarrow> (Inl OtherError, tick f)
          | Some p \<Rightarrow> (Inr p, set_node p (Regular [] now) (tick f))))"

text \<open>Append to an open file.\<close>

definition file_Write :: "path \<Rightarrow> string \<Rightarrow> int \<Rightarrow> fs \<Rightarrow> os_error option \<times> fs" where
  "file_Write p d now f =
     (case next_fault f of
        Some e \<Rightarrow> (Some e, tick f)
      | None \<Rightarrow>
          (case node_at f p of
             Some (Regular c _) \<Rightarrow> (None, set_node p (Regular (c @ d) now) (tick f))
           | _ \<Rightarrow> (None, tick f)))"

section \<open>filepath.WalkDir\<close>

text \<open>
  The entries below a root in the order of the walk, which is the lexicographic order of
  the paths. The listing is the one at the start of the walk: the callbacks of the program
  only remove files of the directory whose listing has just been read.
\<close>

definition walk_list :: "path \<Rightarrow> fs \<Rightarrow> path list" where
  "walk_list root f = filter (prefix root) (sort (remdups (map fst (nodes f))))"

text \<open>A callback gets the path and the listed node; an error ends the walk.\<close>

type_synonym 's walk_fn = "path \<Rightarrow> node \<Rightarrow> fs \<Rightarrow> 's \<Rightarrow> os_error option \<times> fs \<times> 's"

fun walk_loop :: "'s walk_fn \<Rightarrow> (path \<times> node) list \<Rightarrow> fs \<Rightarrow> 's \<Rightarrow> os_error option \<times> fs \<times> 's" where
  "walk_loop fn [] f s = (None, f, s)"
| "walk_loop fn ((p, n) # ps) f s =
     (case fn p n f s of
        (Some e, f', s') \<Rightarrow> (Some e, f', s')
      | (None, f', s') \<Rightarrow>
          if n = Directory then
            (case sys_plain f' of
               (Some e, f'') \<Rightarrow> (Some e, f'', s')
             | (None, f'') \<Rightarrow> walk_loop fn ps f'' s')
          else walk_loop fn ps f' s')"

definition WalkDir :: "path \<Rightarrow> 's walk_fn \<Rightarrow> fs \<Rightarrow> 's \<Rightarrow> os_error option \<times> fs \<times> 's" where
  "WalkDir root fn f s =
     (case os_Stat root f of
        (Inl e, f1) \<Rightarrow> (Some e, f1, s)
      | (Inr _, f1) \<Rightarrow> walk_loop fn (map (\<lambda>p. (p, the (node_at f1 p))) (walk_list root f1)) f1 s)"

section \<open>Facts\<close>

lemma node_at_set [simp]: "node_at (set_node p n f) = (node_at f)(p \<mapsto> n)"
  by (simp add: node_at_def set_node_def update_conv')

lemma node_at_del [simp]: "node_at (del_node p f) = (node_at f)(p := None)"
  by (simp add: node_at_def del_node_def delete_conv')

lemma node_at_tick [simp]: "node_at (tick f) = node_at f"
  by (simp add: node_at_def tick_def)

lemma faults_set [simp]: "faults (set_node p n f) = faults f" "faults (del_node p f) = faults f"
  by (simp_all add: set_node_def del_node_def)

lemma no_fault [simp]: "faults f = [] \<Longrightarrow> next_fault f = None" "faults f = [] \<Longrightarrow> tick f = f"
  by (simp_all add: next_fault_def tick_def)

lemma faults_tick [simp]: "faults (tick f) = tl (faults f)"
  by (simp add: tick_def)

text \<open>Frames: which paths a call can change.\<close>

lemma sys_plain_frame [simp]: "sys_plain f = (e, g) \<Longrightarrow> node_at g = node_at f"
  by (auto simp: sys_plain_def)

lemma os_Stat_frame: "os_Stat p f = (r, g) \<Longrightarrow> node_at g = node_at f"
  by (auto simp: os_Stat_def split: option.splits)

lemma os_Stat_tick: "snd (os_Stat p f) = tick f"
  by (simp add: os_Stat_def split: option.splits)

lemma os_Stat_Inr: "os_Stat p f = (Inr n, g) \<Longrightarrow> node_at f p = Some n"
  by (auto simp: os_Stat_def split: option.splits)

lemma os_ReadFile_frame: "os_ReadFile p f = (r, g) \<Longrightarrow> node_at g = node_at f"
  by (auto simp: os_ReadFile_def os_Stat_def split: option.splits node.splits prod.splits sum.splits)

lemma os_ReadFile_Inr: "os_ReadFile p f = (Inr d, g) \<Longrightarrow> \<exists>t. node_at f p = Some (Regular d t)"
  by (auto simp: os_ReadFile_def os_Stat_def split: option.splits node.splits prod.splits sum.splits)

lemma os_Remove_cases:
  assumes "os_Remove p f = (e, g)"
  shows "(e = None \<and> node_at f p \<noteq> None \<and> node_at g = (node_at f)(p := None)) \<or>
         (e \<noteq> None \<and> node_at g = node_at f)"
  using assms by (auto simp: os_Remove_def split: option.splits node.splits if_splits)

lemma os_Rename_cases:
  assumes "os_Rename p q f = (e, g)"
  shows "(e = None \<and> (\<exists>d t. node_at f p = Some (Regular d t) \<and> node_at f q \<noteq> Some Directory \<and>
            node_at g = (node_at f)(p := None, q \<mapsto> Regular d t))) \<or>
         (e \<noteq> None \<and> node_at g = node_at f)"
  using assms by (auto simp: os_Rename_def split: option.splits node.splits if_splits)

lemma os_Chtimes_cases:
  assumes "os_Chtimes p t f = (e, g)"
  shows "(\<exists>d u. node_at f p = Some (Regular d u) \<and> node_at g = (node_at f)(p \<mapsto> Regular d t)) \<or>
         node_at g = node_at f"
  using assms by (auto simp: os_Chtimes_def split: option.splits node.splits if_splits)

lemma file_Write_cases:
  assumes "file_Write p d now f = (e, g)"
  shows "(\<exists>c u. node_at f p = Some (Regular c u) \<and> node_at g = (node_at f)(p \<mapsto> Regular (c @ d) now)) \<or>
         node_at g = node_at f"
  using assms by (auto simp: file_Write_def split: option.splits node.splits if_splits)

lemma make_dirs_frame:
  "make_dirs ps f = (e, g) \<Longrightarrow> node_at g q = node_at f q \<or> node_at f q = None \<and> node_at g q = Some Directory"
proof (induction ps arbitrary: f)
  case (Cons p ps)
  show ?case
  proof (cases "node_at f p")
    case None
    with Cons show ?thesis using Cons.IH [of "set_node p Directory f"] by (auto split: if_splits)
  next
    case (Some n)
    with Cons show ?thesis by (cases n) auto
  qed
qed simp

lemma os_MkdirAll_frame:
  "os_MkdirAll p f = (e, g) \<Longrightarrow> node_at g q = node_at f q \<or> node_at f q = None \<and> node_at g q = Some Directory"
  using make_dirs_frame [of "prefixes p" "tick f"]
  by (auto simp: os_MkdirAll_def split: option.splits)

lemma fresh_name_Some:
  "fresh_name dir pre rnd f = Some p \<Longrightarrow>
   node_at f p = None \<and> (\<exists>r \<in> set rnd. p = dir @ [pre @ dec_digits r])"
  by (induction rnd) (auto simp: Let_def split: if_splits)

lemma os_CreateTemp_cases:
  assumes "os_CreateTemp dir pre rnd now f = (r, g)"
  shows "(\<exists>k \<in> set rnd. r = Inr (dir @ [pre @ dec_digits k]) \<and> node_at f (dir @ [pre @ dec_digits k]) = None \<and>
            node_at g = (node_at f)(dir @ [pre @ dec_digits k] \<mapsto> Regular [] now)) \<or>
         (\<exists>e. r = Inl e \<and> node_at g = node_at f)"
  using assms fresh_name_Some [of dir pre rnd f]
  by (auto simp: os_CreateTemp_def split: option.splits if_splits)

text \<open>The walk visits every path below the root once, in order.\<close>

lemma set_walk_list: "set (walk_list root f) = {p. prefix root p \<and> node_at f p \<noteq> None}"
  by (auto simp: walk_list_def node_at_def map_of_eq_None_iff)

lemma distinct_walk_list [simp]: "distinct (walk_list root f)"
  by (simp add: walk_list_def)

lemma sorted_walk_list [simp]: "sorted (walk_list root f)"
  by (simp add: walk_list_def sorted_wrt_filter)

lemma walk_list_cong: "node_at f = node_at g \<Longrightarrow> walk_list root f = walk_list root g"
  by (rule sorted_distinct_set_unique) (simp_all add: set_walk_list)

text \<open>An invariant of the state that every callback keeps holds after the walk.\<close>

lemma walk_loop_invariant:
  assumes "walk_loop fn ps f s = (e, g, t)" "P f s"
    and "\<And>p n f s e g t. (p, n) \<in> set ps \<Longrightarrow> P f s \<Longrightarrow> fn p n f s = (e, g, t) \<Longrightarrow> P g t"
    and "\<And>f s. P f s \<Longrightarrow> P (tick f) s"
  shows "P g t"
  using assms
proof (induction ps arbitrary: f s)
  case (Cons pn ps)
  obtain p n where pn: "pn = (p, n)" by fastforce
  obtain e1 f1 s1 where fn: "fn p n f s = (e1, f1, s1)" by (metis prod_cases3)
  have P1: "P f1 s1" using Cons.prems(3) [of p n f s e1 f1 s1] Cons.prems(2) fn pn by simp
  have IH: "P g t" if "walk_loop fn ps f' s' = (e, g, t)" "P f' s'" for f' s'
    using that
  proof (rule Cons.IH)
    show "P g t" if "(p, n) \<in> set ps" "P f s" "fn p n f s = (e, g, t)" for p n f s e g t
      using Cons.prems(3) that by (meson list.set_intros(2))
  qed (rule Cons.prems(4))
  show ?case
    using Cons.prems(1) P1 Cons.prems(4) [OF P1]
    by (auto simp: pn fn sys_plain_def split: option.splits if_splits intro: IH)
qed simp

lemma WalkDir_invariant:
  assumes "WalkDir root fn f s = (e, g, t)" "P f s"
    and "\<And>p n f s e g t. prefix root p \<Longrightarrow> P f s \<Longrightarrow> fn p n f s = (e, g, t) \<Longrightarrow> P g t"
    and "\<And>f s. P f s \<Longrightarrow> P (tick f) s"
  shows "P g t"
proof -
  have st: "os_Stat root f = (r, tick f) \<Longrightarrow> P (tick f) s" for r using assms(2,4) by blast
  obtain r where r: "os_Stat root f = (r, tick f)"
    using os_Stat_tick by (metis prod.collapse)
  show ?thesis
  proof (cases r)
    case (Inl e')
    with assms(1) r st show ?thesis by (auto simp: WalkDir_def)
  next
    case (Inr n)
    let ?ps = "map (\<lambda>p. (p, the (node_at (tick f) p))) (walk_list root (tick f))"
    have "walk_loop fn ?ps (tick f) s = (e, g, t)" using assms(1) r Inr by (simp add: WalkDir_def)
    then show ?thesis
      by (rule walk_loop_invariant) (use st [OF r] assms(3,4) in \<open>auto simp: set_walk_list\<close>)
  qed
qed

end
