(* ===== verification/Go_Url.thy ===== *)
theory Go_Url
  imports Go_Strings
begin

text \<open>
  What the program uses of Go's \<^verbatim>\<open>net/url\<close>: the \<^verbatim>\<open>URL\<close> structure,
  percent encoding in each of its modes, \<^verbatim>\<open>Parse\<close>, \<^verbatim>\<open>String\<close>, the
  host and port accessors. Errors of \<^verbatim>\<open>Parse\<close> are \<open>None\<close>: the program only
  tests for them.
\<close>

section \<open>Data\<close>

record userinfo =
  username :: string
  password :: string
  passwordSet :: bool

record url =
  Scheme :: string
  Opaque :: string
  User :: "userinfo option"
  Host :: string
  Path :: string
  RawPath :: string
  OmitHost :: bool
  ForceQuery :: bool
  RawQuery :: string
  Fragment :: string
  RawFragment :: string

definition empty_url :: url where
  "empty_url = \<lparr>Scheme = [], Opaque = [], User = None, Host = [], Path = [], RawPath = [],
     OmitHost = False, ForceQuery = False, RawQuery = [], Fragment = [], RawFragment = []\<rparr>"

datatype encoding =
    encodePath | encodePathSegment | encodeHost | encodeZone | encodeUserPassword
  | encodeQueryComponent | encodeFragment

section \<open>Percent encoding\<close>

definition is_alnum :: "char \<Rightarrow> bool" where
  "is_alnum c \<longleftrightarrow> is_lower c \<or> is_upper c \<or> is_digit c"

definition shouldEscape :: "char \<Rightarrow> encoding \<Rightarrow> bool" where
  "shouldEscape c mode =
     (if is_alnum c then False
      else if (mode = encodeHost \<or> mode = encodeZone)
              \<and> (c \<in> set ''!$&()*+,;=:[]<>'' \<or> c = CHR 0x27 \<or> c = CHR 0x22) then False
      else if c \<in> set ''-_.~'' then False
      else if c \<in> set ''$&+,/:;=?@'' \<and> mode = encodePath then c = CHR ''?''
      else if c \<in> set ''$&+,/:;=?@'' \<and> mode = encodePathSegment then c \<in> set ''/;,?''
      else if c \<in> set ''$&+,/:;=?@'' \<and> mode = encodeUserPassword then c \<in> set ''@/?:''
      else if c \<in> set ''$&+,/:;=?@'' \<and> mode = encodeFragment then False
      else if mode = encodeFragment \<and> c \<in> set ''!()*'' then False
      else True)"

definition upper_hex :: "nat \<Rightarrow> char" where
  "upper_hex n = (if n < 10 then char_of (48 + n) else char_of (55 + n))"

fun escape :: "encoding \<Rightarrow> string \<Rightarrow> string" where
  "escape mode [] = []"
| "escape mode (c # s) =
     (if c = CHR '' '' \<and> mode = encodeQueryComponent then CHR ''+'' # escape mode s
      else if shouldEscape c mode
      then CHR ''%'' # upper_hex (byte c div 16) # upper_hex (byte c mod 16) # escape mode s
      else c # escape mode s)"

text \<open>
  \<^verbatim>\<open>unescape\<close>: in a host only non-ASCII bytes and \<^verbatim>\<open>%25\<close> may be percent-encoded,
  and unencoded ASCII must be legal there; in a zone the decoded byte must not need
  encoding in a host, except for a space and \<^verbatim>\<open>%25\<close>.
\<close>

function unescape :: "encoding \<Rightarrow> string \<Rightarrow> string option" where
  "unescape mode s =
     (case s of
        [] \<Rightarrow> Some []
      | c # r \<Rightarrow>
          if c = CHR ''%'' then
            (case r of
               a # b # t \<Rightarrow>
                 if \<not> is_hex a \<or> \<not> is_hex b then None
                 else if mode = encodeHost \<and> unhex a < 8 \<and> \<not> (a = CHR ''2'' \<and> b = CHR ''5'') then None
                 else if mode = encodeZone \<and> \<not> (a = CHR ''2'' \<and> b = CHR ''5'')
                         \<and> char_of (16 * unhex a + unhex b) \<noteq> CHR '' ''
                         \<and> shouldEscape (char_of (16 * unhex a + unhex b)) encodeHost then None
                 else map_option ((#) (char_of (16 * unhex a + unhex b))) (unescape mode t)
             | _ \<Rightarrow> None)
          else if c = CHR ''+'' then
            map_option ((#) (if mode = encodeQueryComponent then CHR '' '' else c)) (unescape mode r)
          else if (mode = encodeHost \<or> mode = encodeZone) \<and> byte c < 128 \<and> shouldEscape c mode then None
          else map_option ((#) c) (unescape mode r))"
  by pat_completeness auto
termination
  by (relation "measure (\<lambda>(m, s). length s)") auto

declare unescape.simps [simp del]

definition validEncoded :: "string \<Rightarrow> encoding \<Rightarrow> bool" where
  "validEncoded s mode \<longleftrightarrow>
     list_all (\<lambda>c. c \<in> set ''!$&()*+,;=:@[]%'' \<or> c = CHR 0x27 \<or> \<not> shouldEscape c mode) s"

definition EscapedPath :: "url \<Rightarrow> string" where
  "EscapedPath u =
     (if RawPath u \<noteq> [] \<and> validEncoded (RawPath u) encodePath
         \<and> unescape encodePath (RawPath u) = Some (Path u) then RawPath u
      else if Path u = ''*'' then ''*''
      else escape encodePath (Path u))"

definition EscapedFragment :: "url \<Rightarrow> string" where
  "EscapedFragment u =
     (if RawFragment u \<noteq> [] \<and> validEncoded (RawFragment u) encodeFragment
         \<and> unescape encodeFragment (RawFragment u) = Some (Fragment u) then RawFragment u
      else escape encodeFragment (Fragment u))"

definition PathEscape :: "string \<Rightarrow> string" where
  "PathEscape s = escape encodePathSegment s"

definition PathUnescape :: "string \<Rightarrow> string option" where
  "PathUnescape s = unescape encodePathSegment s"

section \<open>Parsing\<close>

fun getScheme_from :: "string \<Rightarrow> string \<Rightarrow> string \<Rightarrow> (string \<times> string) option" where
  "getScheme_from raw seen [] = Some ([], raw)"
| "getScheme_from raw seen (c # r) =
     (if is_lower c \<or> is_upper c then getScheme_from raw (seen @ [c]) r
      else if is_digit c \<or> c \<in> set ''+-.'' then
        (if seen = [] then Some ([], raw) else getScheme_from raw (seen @ [c]) r)
      else if c = CHR '':'' then (if seen = [] then None else Some (seen, r))
      else Some ([], raw))"

definition getScheme :: "string \<Rightarrow> (string \<times> string) option" where
  "getScheme raw = getScheme_from raw [] raw"

fun validOptionalPort :: "string \<Rightarrow> bool" where
  "validOptionalPort [] = True"
| "validOptionalPort (c # r) = (c = CHR '':'' \<and> list_all is_digit r)"

definition validUserinfo :: "string \<Rightarrow> bool" where
  "validUserinfo s \<longleftrightarrow>
     list_all (\<lambda>c. is_alnum c \<or> c \<in> set ''-._:~!$&()*+,;=%@'' \<or> c = CHR 0x27) s"

definition parseHost :: "string \<Rightarrow> string option" where
  "parseHost host =
     (if HasPrefix host ''['' then
        (case LastIndexByte host CHR '']'' of
           None \<Rightarrow> None
         | Some i \<Rightarrow>
             if \<not> validOptionalPort (drop (Suc i) host) then None
             else (case Index (take i host) ''%25'' of
                 Some zone \<Rightarrow>
                   (case (unescape encodeHost (take zone host),
                          unescape encodeZone (drop zone (take i host)),
                          unescape encodeHost (drop i host)) of
                      (Some h1, Some h2, Some h3) \<Rightarrow> Some (h1 @ h2 @ h3)
                    | _ \<Rightarrow> None)
               | None \<Rightarrow> unescape encodeHost host))
      else (case LastIndexByte host CHR '':'' of
          Some i \<Rightarrow> if validOptionalPort (drop i host) then unescape encodeHost host else None
        | None \<Rightarrow> unescape encodeHost host))"

definition parseAuthority :: "string \<Rightarrow> (userinfo option \<times> string) option" where
  "parseAuthority authority =
     (case LastIndexByte authority CHR ''@'' of
        None \<Rightarrow> map_option (\<lambda>h. (None, h)) (parseHost authority)
      | Some i \<Rightarrow>
          (case parseHost (drop (Suc i) authority) of
             None \<Rightarrow> None
           | Some host \<Rightarrow>
               let ui = take i authority in
               if \<not> validUserinfo ui then None
               else if CHR '':'' \<notin> set ui then
                 map_option (\<lambda>u. (Some \<lparr>username = u, password = [], passwordSet = False\<rparr>, host))
                   (unescape encodeUserPassword ui)
               else
                 (case Cut ui '':'' of (n, p, _) \<Rightarrow>
                    (case (unescape encodeUserPassword n, unescape encodeUserPassword p) of
                       (Some n', Some p') \<Rightarrow>
                         Some (Some \<lparr>username = n', password = p', passwordSet = True\<rparr>, host)
                     | _ \<Rightarrow> None))))"

definition setPath :: "string \<Rightarrow> url \<Rightarrow> url option" where
  "setPath p u =
     (case unescape encodePath p of
        None \<Rightarrow> None
      | Some q \<Rightarrow> Some (u\<lparr>Path := q, RawPath := (if p = escape encodePath q then [] else p)\<rparr>))"

definition setFragment :: "string \<Rightarrow> url \<Rightarrow> url option" where
  "setFragment f u =
     (case unescape encodeFragment f of
        None \<Rightarrow> None
      | Some g \<Rightarrow> Some (u\<lparr>Fragment := g, RawFragment := (if f = escape encodeFragment g then [] else f)\<rparr>))"

definition is_ctl :: "char \<Rightarrow> bool" where
  "is_ctl c \<longleftrightarrow> byte c < 32 \<or> byte c = 127"

text \<open>The inner \<^verbatim>\<open>parse(rawURL, viaRequest = false)\<close>, after the fragment is cut off.\<close>

definition parse_nofrag :: "string \<Rightarrow> url option" where
  "parse_nofrag raw =
     (if list_ex is_ctl raw then None
      else if raw = ''*'' then Some (empty_url\<lparr>Path := ''*''\<rparr>)
      else case getScheme raw of
        None \<Rightarrow> None
      | Some (sch, rest0) \<Rightarrow>
          let scheme = ToLower sch;
              forced = HasSuffix rest0 ''?'' \<and> length (filter ((=) CHR ''?'') rest0) = 1;
              rest = (if forced then butlast rest0 else fst (Cut rest0 ''?''));
              query = (if forced then [] else fst (snd (Cut rest0 ''?'')));
              u = empty_url\<lparr>Scheme := scheme, ForceQuery := forced, RawQuery := query\<rparr>
          in if \<not> HasPrefix rest ''/'' \<and> scheme \<noteq> [] then Some (u\<lparr>Opaque := rest\<rparr>)
             else if \<not> HasPrefix rest ''/'' \<and> CHR '':'' \<in> set (fst (Cut rest ''/'')) then None
             else if (scheme \<noteq> [] \<or> \<not> HasPrefix rest ''///'') \<and> HasPrefix rest ''//'' then
               (let auth = takeWhile ((\<noteq>) CHR ''/'') (drop 2 rest);
                    tail = dropWhile ((\<noteq>) CHR ''/'') (drop 2 rest)
                in case parseAuthority auth of
                     None \<Rightarrow> None
                   | Some (ui, host) \<Rightarrow> setPath tail (u\<lparr>User := ui, Host := host\<rparr>))
             else setPath rest (if scheme \<noteq> [] \<and> HasPrefix rest ''/'' then u\<lparr>OmitHost := True\<rparr> else u))"

definition url_Parse :: "string \<Rightarrow> url option" where
  "url_Parse raw =
     (case Cut raw ''#'' of (u, frag, _) \<Rightarrow>
        (case parse_nofrag u of
           None \<Rightarrow> None
         | Some v \<Rightarrow> if frag = [] then Some v else setFragment frag v))"

section \<open>Printing\<close>

definition Userinfo_String :: "userinfo \<Rightarrow> string" where
  "Userinfo_String ui =
     (if username ui \<noteq> [] \<or> passwordSet ui then
        escape encodeUserPassword (username ui)
        @ (if passwordSet ui then '':'' @ escape encodeUserPassword (password ui) else [])
      else [])"

definition authority_String :: "url \<Rightarrow> string" where
  "authority_String u =
     (if Scheme u \<noteq> [] \<or> Host u \<noteq> [] \<or> User u \<noteq> None then
        (if OmitHost u \<and> Host u = [] \<and> User u = None then []
         else (if Host u \<noteq> [] \<or> Path u \<noteq> [] \<or> User u \<noteq> None then ''//'' else [])
              @ (case User u of None \<Rightarrow> [] | Some ui \<Rightarrow> Userinfo_String ui @ ''@'')
              @ (if Host u \<noteq> [] then escape encodeHost (Host u) else []))
      else [])"

definition url_String :: "url \<Rightarrow> string" where
  "url_String u =
     (let sch = (if Scheme u \<noteq> [] then Scheme u @ '':'' else []);
          body = (if Opaque u \<noteq> [] then sch @ Opaque u
             else let pre = sch @ authority_String u; path = EscapedPath u;
                      pre' = (if path \<noteq> [] \<and> hd path \<noteq> CHR ''/'' \<and> Host u \<noteq> []
                              then pre @ ''/'' else pre)
                  in pre' @ (if pre' = [] \<and> CHR '':'' \<in> set (fst (Cut path ''/'')) then ''./'' else [])
                     @ path)
      in body @ (if ForceQuery u \<or> RawQuery u \<noteq> [] then ''?'' @ RawQuery u else [])
              @ (if Fragment u \<noteq> [] then ''#'' @ EscapedFragment u else []))"

section \<open>Host and port\<close>

definition splitHostPort :: "string \<Rightarrow> string \<times> string" where
  "splitHostPort hostPort =
     (let (host, port) = (case LastIndexByte hostPort CHR '':'' of
            Some i \<Rightarrow> if validOptionalPort (drop i hostPort)
                      then (take i hostPort, drop (Suc i) hostPort) else (hostPort, [])
          | None \<Rightarrow> (hostPort, []))
      in (if HasPrefix host ''['' \<and> HasSuffix host '']'' then butlast (tl host) else host, port))"

definition Hostname :: "url \<Rightarrow> string" where
  "Hostname u = fst (splitHostPort (Host u))"

definition Port :: "url \<Rightarrow> string" where
  "Port u = snd (splitHostPort (Host u))"

end
