(* ===== verification/Http_Policy.thy ===== *)
theory Http_Policy
  imports Go_Http Go_Url
begin

text \<open>
  The shared credential and cache policy of \<^verbatim>\<open>src/internal/httppolicy/policy.go\<close>:
  which headers travel upstream, downstream and into cache metadata, which requests
  bypass the cache, which responses may be stored, what redirects may carry, and what
  of a URL or an error reaches logs and status pages.
\<close>

section \<open>Header classes\<close>

definition blockedRequestHeader :: "string \<Rightarrow> bool" where
  "blockedRequestHeader name \<longleftrightarrow> name \<in>
     {''Cookie'', ''Cookie2'', ''Forwarded'', ''Host'', ''Npm-Otp'', ''Proxy-Authorization'',
      ''X-Forwarded-For'', ''X-Forwarded-Host'', ''X-Forwarded-Port'', ''X-Forwarded-Proto'',
      ''X-Npm-Otp'', ''X-Registry-Auth'', ''X-Registry-Config''}"

definition isHopByHop :: "string \<Rightarrow> bool" where
  "isHopByHop name \<longleftrightarrow> name \<in>
     {''Connection'', ''Keep-Alive'', ''Proxy-Authenticate'', ''Proxy-Authorization'',
      ''Proxy-Connection'', ''Te'', ''Trailer'', ''Transfer-Encoding'', ''Upgrade''}"

definition isCookieHeader :: "string \<Rightarrow> bool" where
  "isCookieHeader name \<longleftrightarrow>
     CanonicalHeaderKey name \<in> {''Cookie'', ''Set-Cookie'', ''Set-Cookie2''}"

definition sensitiveResponseHeaders :: "string list" where
  "sensitiveResponseHeaders =
     [''Authentication-Info'', ''Authorization'', ''Cookie'', ''Proxy-Authentication-Info'',
      ''Proxy-Authorization'', ''Set-Cookie'', ''Set-Cookie2'', ''WWW-Authenticate'']"

text \<open>The Go map \<^verbatim>\<open>map[string]bool\<close> is the list of names that are set in it.\<close>

definition namedConnectionHeaders :: "header \<Rightarrow> string list" where
  "namedConnectionHeaders header =
     [canonical. value \<leftarrow> Values header ''Connection'', name \<leftarrow> Split value CHR '','',
        canonical \<leftarrow> [CanonicalHeaderKey (TrimSpace name)], canonical \<noteq> []]"

section \<open>Copying headers\<close>

definition CopyHeaders :: "header \<Rightarrow> header \<Rightarrow> header" where
  "CopyHeaders target source =
     foldl (\<lambda>t (name, values). add_values name values (Header_Del t name)) target source"

definition ForwardRequestHeaders :: "header \<Rightarrow> header \<Rightarrow> bool \<Rightarrow> header" where
  "ForwardRequestHeaders target source forwardAuthorization =
     (let connectionHeaders = namedConnectionHeaders source
      in foldl (\<lambda>t (name, values).
           let canonical = CanonicalHeaderKey name
           in if isHopByHop canonical \<or> canonical \<in> set connectionHeaders
                 \<or> blockedRequestHeader canonical then t
              else if canonical = ''Authorization'' \<and> \<not> forwardAuthorization then t
              else add_values canonical values t) target source)"

definition ResponseHeaders :: "header \<Rightarrow> header" where
  "ResponseHeaders source =
     (let connectionHeaders = namedConnectionHeaders source
      in foldl (\<lambda>t (name, values).
           let canonical = CanonicalHeaderKey name
           in if isHopByHop canonical \<or> canonical \<in> set connectionHeaders then t
              else add_values canonical values t) [] source)"

definition CacheMetadataHeaders :: "header \<Rightarrow> header" where
  "CacheMetadataHeaders source =
     (let target = foldl Header_Del (ResponseHeaders source) sensitiveResponseHeaders
      in Header_Del (Header_Del target ''Age'') ''X-N0ding-Cache'')"

section \<open>Cache directives\<close>

record cacheDirective =
  dir_name :: string
  dir_value :: string

definition parse_directive :: "string \<Rightarrow> cacheDirective" where
  "parse_directive part =
     (case Cut (TrimSpace part) ''='' of (name, directiveValue, _) \<Rightarrow>
        \<lparr>dir_name = ToLower (TrimSpace name), dir_value = TrimSpace directiveValue\<rparr>)"

definition cacheDirectives :: "string list \<Rightarrow> cacheDirective list" where
  "cacheDirectives values =
     [d. value \<leftarrow> values, part \<leftarrow> Split value CHR '','', d \<leftarrow> [parse_directive part], dir_name d \<noteq> []]"

definition hasCacheDirective :: "header \<Rightarrow> string list \<Rightarrow> bool" where
  "hasCacheDirective header names =
     (let wanted = map ToLower names
      in list_ex (\<lambda>d. dir_name d \<in> set wanted) (cacheDirectives (Values header ''Cache-Control'')))"

definition containsToken :: "string list \<Rightarrow> string \<Rightarrow> bool" where
  "containsToken values token =
     list_ex (\<lambda>value. list_ex (\<lambda>part. EqualFold (TrimSpace part) token) (Split value CHR '','')) values"

fun bypass_directives :: "cacheDirective list \<Rightarrow> bool" where
  "bypass_directives [] = False"
| "bypass_directives (d # ds) =
     (if dir_name d = ''no-cache'' \<or> dir_name d = ''no-store'' then True
      else if dir_name d = ''max-age'' \<and> Trim (dir_value d) [CHR 0x22] = ''0'' then True
      else bypass_directives ds)"

definition RequestBypassesCache :: "header \<Rightarrow> bool" where
  "RequestBypassesCache header =
     (if bypass_directives (cacheDirectives (Values header ''Cache-Control'')) then True
      else containsToken (Values header ''Pragma'') ''no-cache'')"

text \<open>The loop over the sensitive headers: \<open>False\<close> is the early \<^verbatim>\<open>return false\<close>.\<close>

fun sensitive_ok :: "bool \<Rightarrow> header \<Rightarrow> string list \<Rightarrow> bool" where
  "sensitive_ok explicitlyPublic responseHeader [] = True"
| "sensitive_ok explicitlyPublic responseHeader (name # names) =
     (if map_of responseHeader (CanonicalHeaderKey name) \<noteq> None
         \<and> \<not> (explicitlyPublic \<and> isCookieHeader name) then False
      else sensitive_ok explicitlyPublic responseHeader names)"

fun vary_ok :: "string list \<Rightarrow> string list \<Rightarrow> bool" where
  "vary_ok allowed [] = True"
| "vary_ok allowed (name # names) =
     (let canonical = CanonicalHeaderKey (TrimSpace name)
      in if canonical = [] then vary_ok allowed names
         else if canonical = ''*'' then False
         else if canonical \<notin> set allowed then False
         else vary_ok allowed names)"

definition ResponseAllowsStorage :: "header \<Rightarrow> header \<Rightarrow> string list \<Rightarrow> bool" where
  "ResponseAllowsStorage requestHeader responseHeader allowedVary =
     (if hasCacheDirective requestHeader [''no-store''] then False
      else if hasCacheDirective responseHeader [''no-cache'', ''no-store'', ''private''] then False
      else if containsToken (Values responseHeader ''Pragma'') ''no-cache'' then False
      else let explicitlyPublic = hasCacheDirective responseHeader [''public'']
           in if \<not> sensitive_ok explicitlyPublic responseHeader sensitiveResponseHeaders then False
              else vary_ok (map CanonicalHeaderKey allowedVary)
                     (concat (map (\<lambda>value. Split value CHR '','') (Values responseHeader ''Vary''))))"

section \<open>Origins and redirects\<close>

definition effectivePort :: "url \<Rightarrow> string" where
  "effectivePort value =
     (if Port value \<noteq> [] then Port value
      else if ToLower (Scheme value) = ''http'' then ''80''
      else if ToLower (Scheme value) = ''https'' then ''443''
      else [])"

definition sameOrigin :: "url option \<Rightarrow> url option \<Rightarrow> bool" where
  "sameOrigin left right =
     (case (left, right) of
        (Some l, Some r) \<Rightarrow>
          EqualFold (Scheme l) (Scheme r) \<and> EqualFold (Hostname l) (Hostname r)
          \<and> effectivePort l = effectivePort r
      | _ \<Rightarrow> False)"

record http_request =
  rq_url :: "url option"
  rq_header :: header

definition stripBlockedRequestHeaders :: "header \<Rightarrow> header" where
  "stripBlockedRequestHeaders header =
     filter (\<lambda>(name, _). \<not> blockedRequestHeader (CanonicalHeaderKey name)) header"

definition stripAuthorizationHeader :: "header \<Rightarrow> header" where
  "stripAuthorizationHeader header =
     filter (\<lambda>(name, _). CanonicalHeaderKey name \<noteq> ''Authorization'') header"

definition sanitizeRedirectRequest :: "http_request \<Rightarrow> http_request list \<Rightarrow> http_request" where
  "sanitizeRedirectRequest request via =
     (let hasUserinfo = (case rq_url request of None \<Rightarrow> False | Some u \<Rightarrow> User u \<noteq> None);
          r1 = (if hasUserinfo then request\<lparr>rq_url := map_option (\<lambda>u. u\<lparr>User := None\<rparr>) (rq_url request)\<rparr>
                else request);
          r2 = r1\<lparr>rq_header := stripBlockedRequestHeaders (rq_header r1)\<rparr>
      in if hasUserinfo \<or> via = [] \<or> \<not> sameOrigin (rq_url (last via)) (rq_url r2)
         then r2\<lparr>rq_header := stripAuthorizationHeader (rq_header r2)\<rparr>
         else r2)"

text \<open>
  The \<^verbatim>\<open>CheckRedirect\<close> hook that \<open>ClientWithSafeRedirects\<close> installs. A hook of the
  wrapped client may change the request and may fail; the result is the request as it
  would be sent and the error, \<open>None\<close> when the redirect is followed.
\<close>

type_synonym redirect_hook = "http_request \<Rightarrow> http_request list \<Rightarrow> http_request \<times> string option"

definition ClientWithSafeRedirects :: "redirect_hook option \<Rightarrow> redirect_hook" where
  "ClientWithSafeRedirects previousCheck request via =
     (let r1 = sanitizeRedirectRequest request via
      in case previousCheck of
           Some check \<Rightarrow>
             (case check r1 via of
                (r2, Some err) \<Rightarrow> (r2, Some err)
              | (r2, None) \<Rightarrow> (sanitizeRedirectRequest r2 via, None))
         | None \<Rightarrow> (r1, if length via \<ge> 10 then Some ''stopped after 10 redirects'' else None))"

section \<open>What reaches logs and status pages\<close>

definition PublicUpstreamURL :: "url option \<Rightarrow> string" where
  "PublicUpstreamURL upstream =
     (case upstream of
        None \<Rightarrow> []
      | Some u \<Rightarrow> url_String (u\<lparr>User := None, RawQuery := [], ForceQuery := False, Fragment := []\<rparr>))"

text \<open>
  Go errors as the program meets them: a plain error, a \<^verbatim>\<open>%w\<close> wrapping with text
  before and after, and a \<^verbatim>\<open>*url.Error\<close> with its operation, URL and cause.
\<close>

datatype go_error =
    Plain string
  | Wrapped string go_error string
  | UrlError string string "go_error option"

fun Error_String :: "go_error \<Rightarrow> string" where
  "Error_String (Plain m) = m"
| "Error_String (Wrapped pre e post) = pre @ Error_String e @ post"
| "Error_String (UrlError op u None) = op @ '' '' @ [CHR 0x22] @ u @ [CHR 0x22] @ '': %!s(<nil>)''"
| "Error_String (UrlError op u (Some e)) =
     op @ '' '' @ [CHR 0x22] @ u @ [CHR 0x22] @ '': '' @ Error_String e"

text \<open>\<^verbatim>\<open>errors.As(err, &urlError)\<close>: the first \<^verbatim>\<open>*url.Error\<close> of the chain.\<close>

fun as_url_error :: "go_error \<Rightarrow> (string \<times> go_error option) option" where
  "as_url_error (Plain m) = None"
| "as_url_error (Wrapped pre e post) = as_url_error e"
| "as_url_error (UrlError op u e) = Some (op, e)"

lemma as_url_error_size: "as_url_error e = Some (op, Some e') \<Longrightarrow> size e' < size e"
  by (induction e rule: as_url_error.induct) auto

function SafeError :: "go_error option \<Rightarrow> string" where
  "SafeError err =
     (case err of
        None \<Rightarrow> []
      | Some e \<Rightarrow>
          (case as_url_error e of
             Some (op, None) \<Rightarrow> op
           | Some (op, Some cause) \<Rightarrow> op @ '': '' @ SafeError (Some cause)
           | None \<Rightarrow> Error_String e))"
  by pat_completeness auto
termination
  by (relation "measure (\<lambda>e. case e of None \<Rightarrow> 0 | Some x \<Rightarrow> size x)") (auto dest: as_url_error_size)

declare SafeError.simps [simp del]

section \<open>The copying loops\<close>

text \<open>The common shape: every entry whose canonical name passes a test is added to the target.\<close>

definition copy_if :: "(string \<Rightarrow> bool) \<Rightarrow> header \<Rightarrow> header \<Rightarrow> header" where
  "copy_if P target source =
     foldl (\<lambda>t (name, vs). if P (CanonicalHeaderKey name)
                            then add_values (CanonicalHeaderKey name) vs t else t) target source"

definition named_values :: "header \<Rightarrow> string \<Rightarrow> string list" where
  "named_values source n = concat (map snd (filter (\<lambda>(k, _). CanonicalHeaderKey k = n) source))"

lemma named_values_Cons:
  "named_values ((k, vs) # source) n =
     (if CanonicalHeaderKey k = n then vs @ named_values source n else named_values source n)"
  by (simp add: named_values_def)

lemma header_ok_copy_if: "header_ok t \<Longrightarrow> header_ok (copy_if P t source)"
  by (induction source arbitrary: t) (auto simp: copy_if_def)

lemma map_of_copy_if:
  "map_of (copy_if P t source) n =
     (if P n \<and> named_values source n \<noteq> [] then Some (header_values t n @ named_values source n)
      else map_of t n)"
proof (induction source arbitrary: t)
  case Nil
  then show ?case by (simp add: copy_if_def named_values_def)
next
  case (Cons p source)
  obtain k vs where p: "p = (k, vs)" by fastforce
  let ?t = "if P (CanonicalHeaderKey k) then add_values (CanonicalHeaderKey k) vs t else t"
  have "map_of (copy_if P t (p # source)) n = map_of (copy_if P ?t source) n"
    by (simp add: copy_if_def p)
  also have "\<dots> = (if P n \<and> named_values source n \<noteq> []
      then Some (header_values ?t n @ named_values source n) else map_of ?t n)"
    by (rule Cons.IH)
  finally show ?case
    by (auto simp: p named_values_Cons header_values_add_values map_of_add_values)
qed

definition may_go_upstream :: "header \<Rightarrow> bool \<Rightarrow> string \<Rightarrow> bool" where
  "may_go_upstream source forwardAuthorization n \<longleftrightarrow>
     \<not> isHopByHop n \<and> n \<notin> set (namedConnectionHeaders source) \<and> \<not> blockedRequestHeader n \<and>
     (n = ''Authorization'' \<longrightarrow> forwardAuthorization)"

lemma Forward_copy_if:
  "ForwardRequestHeaders target source fwd = copy_if (may_go_upstream source fwd) target source"
  unfolding ForwardRequestHeaders_def copy_if_def Let_def may_go_upstream_def
  by (rule arg_cong [where f = "\<lambda>f. foldl f target source"]) (auto intro!: ext)

definition end_to_end :: "header \<Rightarrow> string \<Rightarrow> bool" where
  "end_to_end source n \<longleftrightarrow> \<not> isHopByHop n \<and> n \<notin> set (namedConnectionHeaders source)"

lemma Response_copy_if: "ResponseHeaders source = copy_if (end_to_end source) [] source"
  unfolding ResponseHeaders_def copy_if_def Let_def end_to_end_def
  by (rule arg_cong [where f = "\<lambda>f. foldl f [] source"]) (auto intro!: ext)

lemma map_of_Response:
  "map_of (ResponseHeaders source) n =
     (if end_to_end source n \<and> named_values source n \<noteq> [] then Some (named_values source n) else None)"
  by (simp add: Response_copy_if map_of_copy_if header_values_def)

lemma map_of_Dels:
  "map_of (foldl Header_Del h ns) n =
     (if n \<in> CanonicalHeaderKey ` set ns then None else map_of h n)"
  by (induction ns arbitrary: h) auto

text \<open>The names that never reach persistent metadata, in canonical form.\<close>

definition never_stored :: "string list" where
  "never_stored =
     [''Authentication-Info'', ''Authorization'', ''Cookie'', ''Proxy-Authentication-Info'',
      ''Proxy-Authorization'', ''Set-Cookie'', ''Set-Cookie2'', ''Www-Authenticate'',
      ''Age'', ''X-N0ding-Cache'']"

lemma canonical_sensitive:
  "map CanonicalHeaderKey sensitiveResponseHeaders @
     [CanonicalHeaderKey ''Age'', CanonicalHeaderKey ''X-N0ding-Cache''] = never_stored"
  by code_simp

lemma map_of_CacheMetadata:
  "map_of (CacheMetadataHeaders source) n =
     (if n \<in> set never_stored then None else map_of (ResponseHeaders source) n)"
proof -
  have "set never_stored = CanonicalHeaderKey ` set sensitiveResponseHeaders \<union>
      {CanonicalHeaderKey ''Age'', CanonicalHeaderKey ''X-N0ding-Cache''}"
    by (simp flip: canonical_sensitive)
  then show ?thesis
    by (simp add: CacheMetadataHeaders_def Let_def map_of_Dels)
qed

lemma header_ok_Dels: "header_ok h \<Longrightarrow> header_ok (foldl Header_Del h ns)"
  by (induction ns arbitrary: h) auto

lemma header_ok_CacheMetadata: "header_ok (CacheMetadataHeaders source)"
  by (simp add: CacheMetadataHeaders_def Let_def header_ok_Dels Response_copy_if header_ok_copy_if)

section \<open>Redirects\<close>

definition carries :: "header \<Rightarrow> string \<Rightarrow> bool" where
  "carries h n \<longleftrightarrow> (\<exists>k vs. (k, vs) \<in> set h \<and> CanonicalHeaderKey k = n)"

lemma carries_strip:
  "carries (stripBlockedRequestHeaders h) n \<longleftrightarrow> carries h n \<and> \<not> blockedRequestHeader n"
  "carries (stripAuthorizationHeader h) n \<longleftrightarrow> carries h n \<and> n \<noteq> ''Authorization''"
  by (auto simp: carries_def stripBlockedRequestHeaders_def stripAuthorizationHeader_def)

lemma sanitize_url:
  "rq_url (sanitizeRedirectRequest r via) = map_option (\<lambda>u. u\<lparr>User := None\<rparr>) (rq_url r)"
proof (cases "rq_url r")
  case None
  then show ?thesis by (simp add: sanitizeRedirectRequest_def Let_def)
next
  case (Some u)
  have "u\<lparr>User := None\<rparr> = u" if "User u = None" using that by simp
  with Some show ?thesis by (auto simp: sanitizeRedirectRequest_def Let_def)
qed

lemma sameOrigin_ignores_user:
  "sameOrigin l (map_option (\<lambda>u. u\<lparr>User := None\<rparr>) r) = sameOrigin l r"
  by (auto simp: sameOrigin_def effectivePort_def Port_def Hostname_def split: option.splits)

lemma sanitize_carries:
  "carries (rq_header (sanitizeRedirectRequest r via)) n \<longleftrightarrow>
     carries (rq_header r) n \<and> \<not> blockedRequestHeader n \<and>
     (n = ''Authorization'' \<longrightarrow>
        \<not> (\<exists>u. rq_url r = Some u \<and> User u \<noteq> None) \<and> via \<noteq> [] \<and>
        sameOrigin (rq_url (last via)) (rq_url r))"
  by (auto simp: sanitizeRedirectRequest_def Let_def carries_strip sameOrigin_ignores_user
      split: option.splits)

section \<open>Origins\<close>

lemma sameOrigin_refl: "sameOrigin (Some u) (Some u)"
  by (simp add: sameOrigin_def)

lemma sameOrigin_sym: "sameOrigin a b \<Longrightarrow> sameOrigin b a"
  by (auto simp: sameOrigin_def EqualFold_sym split: option.splits)

lemma sameOrigin_trans: "sameOrigin a b \<Longrightarrow> sameOrigin b c \<Longrightarrow> sameOrigin a c"
  by (auto simp: sameOrigin_def split: option.splits dest: EqualFold_trans)

section \<open>Directives\<close>

lemma bypass_directives_iff:
  "bypass_directives ds \<longleftrightarrow>
     (\<exists>d \<in> set ds. dir_name d = ''no-cache'' \<or> dir_name d = ''no-store'' \<or>
        (dir_name d = ''max-age'' \<and> Trim (dir_value d) [CHR 0x22] = ''0''))"
  by (induction ds) auto

lemma set_cacheDirectives:
  "set (cacheDirectives vs) =
     {d. \<exists>v \<in> set vs. \<exists>part \<in> set (Split v CHR '',''). d = parse_directive part \<and> dir_name d \<noteq> []}"
  by (auto simp: cacheDirectives_def split: if_splits)

lemma hasCacheDirective_iff:
  assumes "list_all (\<lambda>n. ToLower n = n \<and> n \<noteq> []) names"
  shows "hasCacheDirective h names \<longleftrightarrow>
     (\<exists>v \<in> set (Values h ''Cache-Control''). \<exists>part \<in> set (Split v CHR '','').
        dir_name (parse_directive part) \<in> set names)"
proof -
  have "map ToLower names = names" using assms by (induction names) auto
  moreover have "[] \<notin> set names" using assms by (auto simp: list_all_iff)
  ultimately show ?thesis
    by (auto simp: hasCacheDirective_def list_ex_iff set_cacheDirectives) metis
qed

lemma sensitive_ok_iff:
  "sensitive_ok pub h names \<longleftrightarrow>
     (\<forall>n \<in> set names. map_of h (CanonicalHeaderKey n) \<noteq> None \<longrightarrow> pub \<and> isCookieHeader n)"
  by (induction names) auto

lemma vary_ok_iff:
  "vary_ok allowed names \<longleftrightarrow>
     (\<forall>n \<in> set names. CanonicalHeaderKey (TrimSpace n) = [] \<or>
        (CanonicalHeaderKey (TrimSpace n) \<noteq> ''*'' \<and> CanonicalHeaderKey (TrimSpace n) \<in> set allowed))"
  by (induction names) (auto simp: Let_def)

section \<open>Errors\<close>

text \<open>Replacing every URL of an error by another.\<close>

fun map_urls :: "(string \<Rightarrow> string) \<Rightarrow> go_error \<Rightarrow> go_error" where
  "map_urls f (Plain m) = Plain m"
| "map_urls f (Wrapped pre e post) = Wrapped pre (map_urls f e) post"
| "map_urls f (UrlError op u None) = UrlError op (f u) None"
| "map_urls f (UrlError op u (Some e)) = UrlError op (f u) (Some (map_urls f e))"

lemma as_url_error_map_urls:
  "as_url_error (map_urls f e) = map_option (map_prod id (map_option (map_urls f))) (as_url_error e)"
  by (induction f e rule: map_urls.induct) auto

lemma no_url_map_urls: "as_url_error e = None \<Longrightarrow> map_urls f e = e"
  by (induction f e rule: map_urls.induct) auto

lemma SafeError_map_urls: "SafeError (map_option (map_urls f) err) = SafeError err"
proof (induction err rule: SafeError.induct)
  case (1 err)
  show ?case
  proof (cases err)
    case None
    then show ?thesis by simp
  next
    case (Some e)
    show ?thesis
    proof (cases "as_url_error e")
      case None
      with Some show ?thesis by (simp add: no_url_map_urls)
    next
      case (Some p)
      obtain op cause where p: "p = (op, cause)" by fastforce
      show ?thesis
      proof (cases cause)
        case None
        with \<open>err = Some e\<close> Some p show ?thesis
          by (simp add: SafeError.simps [of "Some _"] as_url_error_map_urls)
      next
        case (Some c)
        with 1 [OF \<open>err = Some e\<close> \<open>as_url_error e = Some p\<close> p [symmetric] Some]
          \<open>err = Some e\<close> \<open>as_url_error e = Some p\<close> p
        show ?thesis
          by (simp add: SafeError.simps [of "Some e"] SafeError.simps [of "Some (map_urls f e)"]
              as_url_error_map_urls)
      qed
    qed
  qed
qed

section \<open>Properties\<close>

text \<open>C34.
  
  Only permitted headers go upstream: for every canonical name, the forwarded request
  carries the client's values for it - all of them, in order, after what the target had -
  exactly when the name is not hop-by-hop, not named by the client's
  \<^verbatim>\<open>Connection\<close> header, not a blocked credential or identity header, and not
  \<^verbatim>\<open>Authorization\<close> unless its forwarding is enabled; otherwise the target is
  unchanged at that name.\<close>

theorem ForwardRequestHeaders_exact:
  "header_values (ForwardRequestHeaders target source fwd) n =
     header_values target n @
     (if isHopByHop n \<or> n \<in> set (namedConnectionHeaders source) \<or> blockedRequestHeader n
         \<or> (n = ''Authorization'' \<and> \<not> fwd) then []
      else concat (map snd (filter (\<lambda>(k, _). CanonicalHeaderKey k = n) source)))"
  unfolding Forward_copy_if header_values_def [of "copy_if _ _ _"] map_of_copy_if
  by (auto simp: may_go_upstream_def named_values_def header_values_def)

text \<open>
  Persistent metadata carries no secret: whatever the upstream response holds, the
  headers written beside a cached body have no hop-by-hop field, none named by
  \<^verbatim>\<open>Connection\<close>, no authentication or cookie field in any spelling of its name, and
  no \<^verbatim>\<open>Age\<close> or \<^verbatim>\<open>X-N0ding-Cache\<close>; every other end-to-end field keeps
  all of its values.\<close>

theorem CacheMetadataHeaders_exact:
  "header_ok (CacheMetadataHeaders source) \<and>
   map_of (CacheMetadataHeaders source) n =
     (if n \<in> set [''Authentication-Info'', ''Authorization'', ''Cookie'',
                   ''Proxy-Authentication-Info'', ''Proxy-Authorization'', ''Set-Cookie'',
                   ''Set-Cookie2'', ''Www-Authenticate'', ''Age'', ''X-N0ding-Cache'']
         \<or> isHopByHop n \<or> n \<in> set (namedConnectionHeaders source) then None
      else let vs = concat (map snd (filter (\<lambda>(k, _). CanonicalHeaderKey k = n) source))
           in if vs = [] then None else Some vs)"
  by (simp add: header_ok_CacheMetadata map_of_CacheMetadata map_of_Response never_stored_def
      named_values_def [symmetric] end_to_end_def Let_def)

text \<open>C22.
  
  Credentials survive only same-origin redirects: whatever hook the wrapped client has,
  and whatever that hook does to the request, a redirect that is followed carries no
  blocked credential or identity header and no userinfo in its URL, and it carries
  \<^verbatim>\<open>Authorization\<close> only if the previous hop has the same scheme, host and effective
  port; without a hook at most ten hops are followed.\<close>

theorem redirect_keeps_credentials_at_origin:
  assumes "ClientWithSafeRedirects previousCheck request via = (r, None)"
  shows "(\<forall>n. blockedRequestHeader n \<longrightarrow> \<not> carries (rq_header r) n) \<and>
         (\<forall>u. rq_url r = Some u \<longrightarrow> User u = None) \<and>
         (carries (rq_header r) ''Authorization'' \<longrightarrow>
            via \<noteq> [] \<and> sameOrigin (rq_url (last via)) (rq_url r)) \<and>
         (previousCheck = None \<longrightarrow> length via < 10)"
proof -
  obtain q where q: "r = sanitizeRedirectRequest q via"
    using assms by (auto simp: ClientWithSafeRedirects_def Let_def split: option.splits prod.splits)
  have "previousCheck = None \<longrightarrow> length via < 10"
    using assms by (cases previousCheck)
      (auto simp: ClientWithSafeRedirects_def Let_def split: if_splits option.splits prod.splits)
  then show ?thesis
    by (auto simp: q sanitize_carries sanitize_url sameOrigin_ignores_user)
qed

text \<open>A redirect on one host that keeps the token, and one that leaves the host and loses it.\<close>

definition example_hop :: "string \<Rightarrow> header \<Rightarrow> http_request" where
  "example_hop host h = \<lparr>rq_url = Some (empty_url\<lparr>Scheme := ''https'', Host := host, Path := ''/x''\<rparr>),
     rq_header = h\<rparr>"

theorem redirect_keeps_credentials_at_origin_witness:
  "let h = [(''Authorization'', [''Bearer t'']), (''cookie'', [''c=1''])];
       first = example_hop ''registry.example'' h;
       stay = ClientWithSafeRedirects None (example_hop ''registry.example:443'' h) [first];
       move = ClientWithSafeRedirects None (example_hop ''cdn.example'' h) [first]
   in rq_header (fst stay) = [(''Authorization'', [''Bearer t''])] \<and> snd stay = None \<and>
      rq_header (fst move) = [] \<and> snd move = None \<and>
      \<not> carries (rq_header (fst move)) ''Authorization''"
proof -
  let ?h = "[(''Authorization'', [''Bearer t'']), (''cookie'', [''c=1''])]"
  let ?first = "example_hop ''registry.example'' ?h"
  let ?stay = "ClientWithSafeRedirects None (example_hop ''registry.example:443'' ?h) [?first]"
  let ?move = "ClientWithSafeRedirects None (example_hop ''cdn.example'' ?h) [?first]"
  have s: "rq_header (fst ?stay) = [(''Authorization'', [''Bearer t''])]" "snd ?stay = None"
    and m: "rq_header (fst ?move) = []" "snd ?move = None"
    and o: "\<not> sameOrigin (rq_url (last [?first])) (rq_url (fst ?move))"
    by code_simp+
  have "?move = (fst ?move, None)" using m(2) by (metis prod.collapse)
  from redirect_keeps_credentials_at_origin [OF this] o
  have "\<not> carries (rq_header (fst ?move)) ''Authorization''" by blast
  with s m show ?thesis by (simp add: Let_def)
qed

text \<open>
  Origins form an equivalence: being the same origin is reflexive on URLs, symmetric and
  transitive, so a chain of same-origin hops never leaves the first origin; the default
  ports of \<^verbatim>\<open>http\<close> and \<^verbatim>\<open>https\<close> count as written.\<close>

theorem sameOrigin_equivalence:
  "sameOrigin (Some u) (Some u) \<and>
   (sameOrigin a b \<longrightarrow> sameOrigin b a) \<and>
   (sameOrigin a b \<and> sameOrigin b c \<longrightarrow> sameOrigin a c) \<and>
   \<not> sameOrigin None b"
  by (auto simp: sameOrigin_refl sameOrigin_def [of None] intro: sameOrigin_sym sameOrigin_trans)

theorem sameOrigin_equivalence_witness:
  "let a = Some (empty_url\<lparr>Scheme := ''https'', Host := ''Example.org''\<rparr>);
       b = Some (empty_url\<lparr>Scheme := ''HTTPS'', Host := ''example.org:443''\<rparr>)
   in sameOrigin a b \<and> sameOrigin b a"
proof -
  let ?a = "Some (empty_url\<lparr>Scheme := ''https'', Host := ''Example.org''\<rparr>)"
  let ?b = "Some (empty_url\<lparr>Scheme := ''HTTPS'', Host := ''example.org:443''\<rparr>)"
  have "sameOrigin ?a ?b" by code_simp
  then show ?thesis using sameOrigin_equivalence [of empty_url ?a ?b ?a] by (simp add: Let_def)
qed

text \<open>
  A client can opt out: a request bypasses the cache exactly when one of the
  comma-separated parts of its \<^verbatim>\<open>Cache-Control\<close> values is \<^verbatim>\<open>no-cache\<close> or
  \<^verbatim>\<open>no-store\<close>, in any case and with or without an argument, or
  \<^verbatim>\<open>max-age\<close> of 0, quoted or not, or when \<^verbatim>\<open>Pragma\<close> lists
  \<^verbatim>\<open>no-cache\<close>.\<close>

theorem RequestBypassesCache_iff:
  "RequestBypassesCache h \<longleftrightarrow>
     (\<exists>v \<in> set (Values h ''Cache-Control''). \<exists>part \<in> set (Split v CHR '','').
        dir_name (parse_directive part) \<in> {''no-cache'', ''no-store''} \<or>
        (dir_name (parse_directive part) = ''max-age'' \<and>
         Trim (dir_value (parse_directive part)) [CHR 0x22] = ''0'')) \<or>
     (\<exists>v \<in> set (Values h ''Pragma''). \<exists>part \<in> set (Split v CHR '','').
        EqualFold (TrimSpace part) ''no-cache'')"
proof -
  have "bypass_directives (cacheDirectives vs) \<longleftrightarrow>
      (\<exists>v \<in> set vs. \<exists>part \<in> set (Split v CHR '','').
        dir_name (parse_directive part) \<in> {''no-cache'', ''no-store''} \<or>
        (dir_name (parse_directive part) = ''max-age'' \<and>
         Trim (dir_value (parse_directive part)) [CHR 0x22] = ''0''))" for vs
    unfolding bypass_directives_iff set_cacheDirectives by (auto; force)
  then show ?thesis
    by (auto simp: RequestBypassesCache_def containsToken_def list_ex_iff)
qed

text \<open>C35.
  
  Storage needs every permission: a response may be stored exactly when the request does
  not say \<^verbatim>\<open>no-store\<close>, the response says none of \<^verbatim>\<open>no-cache\<close>,
  \<^verbatim>\<open>no-store\<close> and \<^verbatim>\<open>private\<close> (nor \<^verbatim>\<open>Pragma: no-cache\<close>), every
  sensitive field it carries is a cookie on an explicitly public response, and each name
  in \<^verbatim>\<open>Vary\<close> is covered by the adapter's key.\<close>

theorem ResponseAllowsStorage_iff:
  "ResponseAllowsStorage req resp allowedVary \<longleftrightarrow>
     \<not> hasCacheDirective req [''no-store''] \<and>
     \<not> hasCacheDirective resp [''no-cache'', ''no-store'', ''private''] \<and>
     \<not> (\<exists>v \<in> set (Values resp ''Pragma''). \<exists>part \<in> set (Split v CHR '','').
          EqualFold (TrimSpace part) ''no-cache'') \<and>
     (\<forall>n \<in> set sensitiveResponseHeaders. map_of resp (CanonicalHeaderKey n) \<noteq> None \<longrightarrow>
        isCookieHeader n \<and>
        (\<exists>v \<in> set (Values resp ''Cache-Control''). \<exists>part \<in> set (Split v CHR '','').
           dir_name (parse_directive part) = ''public'')) \<and>
     (\<forall>v \<in> set (Values resp ''Vary''). \<forall>part \<in> set (Split v CHR '','').
        let name = CanonicalHeaderKey (TrimSpace part)
        in name = [] \<or> (name \<noteq> ''*'' \<and> name \<in> CanonicalHeaderKey ` set allowedVary))"
proof -
  have pub: "hasCacheDirective resp [''public''] \<longleftrightarrow>
      (\<exists>v \<in> set (Values resp ''Cache-Control''). \<exists>part \<in> set (Split v CHR '','').
        dir_name (parse_directive part) = ''public'')"
    by (subst hasCacheDirective_iff) (code_simp, simp)
  show ?thesis
    unfolding ResponseAllowsStorage_def Let_def sensitive_ok_iff vary_ok_iff pub
    by (auto simp: containsToken_def list_ex_iff)
qed

theorem ResponseAllowsStorage_iff_witness:
  "ResponseAllowsStorage [] [(''Set-Cookie'', [''a=b'']), (''Cache-Control'', [''Public, max-age=60'']),
      (''Vary'', [''accept, Accept-Encoding''])] [''Accept'', ''Accept-Encoding''] \<and>
   \<not> ResponseAllowsStorage [] [(''Set-Cookie'', [''a=b''])] [''Accept''] \<and>
   \<not> ResponseAllowsStorage [] [(''Vary'', [''User-Agent''])] [''Accept'']"
proof -
  have 1: "ResponseAllowsStorage [] [(''Set-Cookie'', [''a=b'']),
      (''Cache-Control'', [''Public, max-age=60'']), (''Vary'', [''accept, Accept-Encoding''])]
      [''Accept'', ''Accept-Encoding'']"
    by code_simp
  have v: "Values [(''Vary'', [''User-Agent''])] ''Vary'' = [''User-Agent'']"
    and n: "Split ''User-Agent'' CHR '','' = [''User-Agent'']"
    and c: "CanonicalHeaderKey (TrimSpace ''User-Agent'') = ''User-Agent''"
      "CanonicalHeaderKey ''Accept'' = ''Accept''"
    and s: "''Set-Cookie'' \<in> set sensitiveResponseHeaders"
      "CanonicalHeaderKey ''Set-Cookie'' = ''Set-Cookie''"
    and k: "Values [(''Set-Cookie'', [''a=b''])] ''Cache-Control'' = []"
    by code_simp+
  show ?thesis
    using 1 ResponseAllowsStorage_iff [of "[]" "[(''Set-Cookie'', [''a=b''])]" "[''Accept'']"]
      ResponseAllowsStorage_iff [of "[]" "[(''Vary'', [''User-Agent''])]" "[''Accept'']"]
      v n c s k by auto
qed

text \<open>
  Logged errors do not reveal request URLs: the text \<open>SafeError\<close> produces for an error
  is the same whatever URLs stand in the \<^verbatim>\<open>*url.Error\<close>s of its chain, at any depth
  and under any wrapping.\<close>

theorem SafeError_hides_urls: "SafeError (Some (map_urls f e)) = SafeError (Some e)"
  using SafeError_map_urls [of f "Some e"] by simp

text \<open>
  The displayed upstream hides credentials: the text is the same for every userinfo,
  query and fragment of the upstream URL.\<close>

theorem PublicUpstreamURL_hides_secrets:
  "PublicUpstreamURL (Some (u\<lparr>User := a, RawQuery := b, ForceQuery := c, Fragment := d\<rparr>))
     = PublicUpstreamURL (Some u)"
  by (simp add: PublicUpstreamURL_def)

end
