(* ===== verification/Cache_Metadata.thy ===== *)
theory Cache_Metadata
  imports Go_Json Go_Time Go_Http Go_Os Http_Policy
begin

text \<open>
  The metadata of a cache entry (\<^verbatim>\<open>src/internal/cache/store.go\<close>), its JSON text as
  \<^verbatim>\<open>encoding/json\<close> writes and reads it for the struct's tags, and the rules that tie
  a metadata file to its body file. Field names of a JSON object match without regard to
  ASCII case, unknown fields are skipped, a later field overrides an earlier one and
  \<^verbatim>\<open>null\<close> leaves a field alone, as the decoder does.
\<close>

section \<open>Data\<close>

record Metadata =
  Status :: int
  Header :: header
  StoredAt :: int
  ContentBytes :: int
  ContentDigest :: string
  BodyFile :: string

definition zero_metadata :: Metadata where
  "zero_metadata =
     \<lparr>Status = 0, Header = [], StoredAt = 0, ContentBytes = 0, ContentDigest = [], BodyFile = []\<rparr>"

definition maxMetadataBytes :: nat where
  "maxMetadataBytes = 1048576"

section \<open>json.Marshal and json.Unmarshal\<close>

definition header_json :: "header \<Rightarrow> json" where
  "header_json h = JObj (map (\<lambda>(k, vs). (k, JArr (map JStr vs))) (sort_key fst h))"

definition metadata_json :: "string \<Rightarrow> Metadata \<Rightarrow> json" where
  "metadata_json stored m =
     JObj ([(''status'', JNum (FormatInt (Status m))),
            (''header'', header_json (Header m)),
            (''stored_at'', JStr stored),
            (''content_bytes'', JNum (FormatInt (ContentBytes m)))]
       @ (if ContentDigest m = [] then [] else [(''content_digest'', JStr (ContentDigest m))])
       @ (if BodyFile m = [] then [] else [(''body_file'', JStr (BodyFile m))]))"

text \<open>The only value that cannot be written is a time outside the years 0 to 9999.\<close>

definition marshal_Metadata :: "Metadata \<Rightarrow> string option" where
  "marshal_Metadata m =
     map_option (\<lambda>stored. json_print (metadata_json stored m)) (time_Format (StoredAt m))"

fun decode_int :: "json \<Rightarrow> int \<Rightarrow> int option" where
  "decode_int (JNum s) old = ParseInt s"
| "decode_int JNull old = Some old"
| "decode_int _ old = None"

fun decode_string :: "json \<Rightarrow> string \<Rightarrow> string option" where
  "decode_string (JStr s) old = Some s"
| "decode_string JNull old = Some old"
| "decode_string _ old = None"

fun decode_time :: "json \<Rightarrow> int \<Rightarrow> int option" where
  "decode_time (JStr s) old = time_Parse s"
| "decode_time JNull old = Some old"
| "decode_time _ old = None"

fun decode_values :: "json \<Rightarrow> string list option" where
  "decode_values (JArr vs) = those (map (\<lambda>v. decode_string v []) vs)"
| "decode_values JNull = Some []"
| "decode_values _ = None"

fun decode_members :: "(string \<times> json) list \<Rightarrow> header \<Rightarrow> header option" where
  "decode_members [] h = Some h"
| "decode_members ((k, v) # ms) h =
     (case decode_values v of None \<Rightarrow> None | Some vs \<Rightarrow> decode_members ms (AList.update k vs h))"

fun decode_header :: "json \<Rightarrow> header \<Rightarrow> header option" where
  "decode_header (JObj ms) old = decode_members ms old"
| "decode_header JNull old = Some []"
| "decode_header _ old = None"

definition decode_field :: "string \<Rightarrow> json \<Rightarrow> Metadata \<Rightarrow> Metadata option" where
  "decode_field k v m =
     (if EqualFold k ''status'' then map_option (\<lambda>x. m\<lparr>Status := x\<rparr>) (decode_int v (Status m))
      else if EqualFold k ''header'' then map_option (\<lambda>x. m\<lparr>Header := x\<rparr>) (decode_header v (Header m))
      else if EqualFold k ''stored_at'' then map_option (\<lambda>x. m\<lparr>StoredAt := x\<rparr>) (decode_time v (StoredAt m))
      else if EqualFold k ''content_bytes'' then
        map_option (\<lambda>x. m\<lparr>ContentBytes := x\<rparr>) (decode_int v (ContentBytes m))
      else if EqualFold k ''content_digest'' then
        map_option (\<lambda>x. m\<lparr>ContentDigest := x\<rparr>) (decode_string v (ContentDigest m))
      else if EqualFold k ''body_file'' then
        map_option (\<lambda>x. m\<lparr>BodyFile := x\<rparr>) (decode_string v (BodyFile m))
      else Some m)"

fun decode_fields :: "(string \<times> json) list \<Rightarrow> Metadata \<Rightarrow> Metadata option" where
  "decode_fields [] m = Some m"
| "decode_fields ((k, v) # ms) m =
     (case decode_field k v m of None \<Rightarrow> None | Some m' \<Rightarrow> decode_fields ms m')"

definition unmarshal_Metadata :: "string \<Rightarrow> Metadata option" where
  "unmarshal_Metadata s =
     (case json_parse s of
        Some (JObj ms) \<Rightarrow> decode_fields ms zero_metadata
      | Some JNull \<Rightarrow> Some zero_metadata
      | _ \<Rightarrow> None)"

section \<open>Errors\<close>

datatype io_error = ReadError string | WriteError string | CacheWrite os_error | ShortWrite

text \<open>One constructor per message of the source.\<close>

datatype cache_error =
    ErrOs os_error
  | ErrMetadataTooLarge
  | ErrDecodeMetadata
  | ErrInvalidBodyFile string
  | ErrCreateDirectory os_error
  | ErrScan os_error
  | ErrReadMetadata cache_error
  | ErrResolveBody cache_error
  | ErrStatBody os_error
  | ErrSizeMismatch int int
  | ErrOpenBody os_error
  | ErrCapacity os_error
  | ErrCopy io_error
  | ErrCreateShard os_error
  | ErrCreateBody os_error
  | ErrStreamBody io_error
  | ErrSyncBody os_error
  | ErrCloseBody os_error
  | ErrVerifyBody string
  | ErrEncodeMetadata
  | ErrCreateMetadata os_error
  | ErrWriteMetadata os_error
  | ErrSyncMetadata os_error
  | ErrCloseMetadata os_error
  | ErrCommitBody os_error
  | ErrAccessTime os_error
  | ErrCommitMetadata os_error
  | ErrExceededReservation
  | ErrAgeNotPositive

section \<open>Reading metadata and resolving bodies\<close>

definition readMetadata :: "path \<Rightarrow> fs \<Rightarrow> (cache_error + Metadata) \<times> fs" where
  "readMetadata p f =
     (case os_ReadFile p f of
        (Inl e, f1) \<Rightarrow> (Inl (ErrOs e), f1)
      | (Inr data, f1) \<Rightarrow>
          if length (take (maxMetadataBytes + 1) data) > maxMetadataBytes
          then (Inl ErrMetadataTooLarge, f1)
          else (case unmarshal_Metadata data of
                  None \<Rightarrow> (Inl ErrDecodeMetadata, f1)
                | Some m \<Rightarrow> (Inr m, f1)))"

text \<open>The size test in integers, for evaluation.\<close>

lemma readMetadata_code [code]:
  "readMetadata p f =
     (case os_ReadFile p f of
        (Inl e, f1) \<Rightarrow> (Inl (ErrOs e), f1)
      | (Inr data, f1) \<Rightarrow>
          if int (length data) > 1048576 then (Inl ErrMetadataTooLarge, f1)
          else (case unmarshal_Metadata data of
                  None \<Rightarrow> (Inl ErrDecodeMetadata, f1)
                | Some m \<Rightarrow> (Inr m, f1)))"
  by (auto simp: readMetadata_def maxMetadataBytes_def split: prod.splits sum.splits)

text \<open>\<^verbatim>\<open>filepath.Base\<close> of a path.\<close>

definition path_last :: "path \<Rightarrow> string" where
  "path_last p = (if p = [] then ''/'' else last p)"

definition bodyPathForMetadata :: "path \<Rightarrow> path option" where
  "bodyPathForMetadata p =
     (if name_Ext (path_last p) \<noteq> ''.json'' then None
      else
        let stem = TrimSuffix (path_last p) ''.json'' in
        if length stem \<noteq> 64 \<or> path_last (butlast p) \<noteq> take 2 stem then None
        else if hex_DecodeString stem = None then None
        else Some (butlast p @ [stem @ ''.body'']))"

definition bodyPathForEntry :: "path \<Rightarrow> path \<Rightarrow> Metadata \<Rightarrow> cache_error + path" where
  "bodyPathForEntry metadataPath legacyBodyPath m =
     (if BodyFile m = [] then Inr legacyBodyPath
      else if path_Base (BodyFile m) \<noteq> BodyFile m
          \<or> \<not> HasPrefix (BodyFile m) (TrimSuffix (path_last metadataPath) ''.json'' @ ''.body.'')
      then Inl (ErrInvalidBodyFile (BodyFile m))
      else Inr (butlast metadataPath @ [BodyFile m]))"

definition isTempName :: "string \<Rightarrow> bool" where
  "isTempName name \<longleftrightarrow> HasPrefix name ''.body-'' \<or> HasPrefix name ''.metadata-''"

definition contentLength :: "header \<Rightarrow> int \<times> bool" where
  "contentLength h =
     (let raw = Get h ''Content-Length''
      in if raw = [] then (0, False)
         else case ParseInt raw of None \<Rightarrow> (0, False) | Some v \<Rightarrow> (v, v > 0))"

section \<open>The JSON text reads back\<close>

definition is_ascii :: "string \<Rightarrow> bool" where
  "is_ascii s \<longleftrightarrow> list_all (\<lambda>c. byte c < 128) s"

lemma is_ascii_simps [simp]:
  "is_ascii []" "is_ascii (c # s) \<longleftrightarrow> byte c < 128 \<and> is_ascii s"
  "is_ascii (s @ t) \<longleftrightarrow> is_ascii s \<and> is_ascii t"
  by (simp_all add: is_ascii_def)

lemma valid_utf8_ascii: "is_ascii s \<Longrightarrow> valid_utf8 s"
proof (induction s)
  case (Cons c s)
  then show ?case by (subst valid_utf8.simps) (simp add: utf8_len_ascii)
qed (simp add: valid_utf8.simps)

lemma digits_ascii: "list_all is_digit s \<Longrightarrow> is_ascii s"
  by (induction s) (auto simp: is_digit_def)

lemma TrimRight_ascii: "is_ascii s \<Longrightarrow> is_ascii (TrimRight s cs)"
  using set_TrimRight [of s cs] by (auto simp: is_ascii_def list_all_iff)

lemma time_Format_ascii: "time_Format t = Some s \<Longrightarrow> is_ascii s"
  by (auto simp: time_Format_def Let_def digits_ascii TrimRight_ascii byte_def
      split: if_splits prod.splits)

lemma dec_digits_head: "n > 0 \<Longrightarrow> hd (dec_digits n) \<noteq> CHR ''0''"
proof (induction n rule: dec_digits.induct)
  case (1 n)
  show ?case
  proof (cases "n < 10")
    case True
    then have "byte (char_of (48 + n)) = 48 + n" by (rule byte_digit)
    moreover have "byte (CHR ''0'') = 48" by (simp add: byte_def)
    ultimately have "char_of (48 + n) \<noteq> CHR ''0''" using 1(2) by (metis add_cancel_right_right less_irrefl)
    then show ?thesis using True by (subst dec_digits.simps) simp
  next
    case False
    then have "n div 10 > 0" by simp
    from 1(1) [OF False this] show ?thesis
      using False dec_digits_ok [of "n div 10"]
      by (subst dec_digits.simps) (simp add: hd_append)
  qed
qed

lemma number_tail_Nil [simp]: "number_tail []"
  by (simp add: number_tail_def)

lemma is_number_dec: "is_number (dec_digits n)" "is_number (CHR ''-'' # dec_digits n)"
proof -
  note D = dec_digits_ok [of n]
  obtain c t where d: "dec_digits n = c # t" using D by (cases "dec_digits n") auto
  have c: "is_digit c" and t: "list_all is_digit t" using D d by simp_all
  have z: "t = []" if "c = CHR ''0''"
    using that dec_digits_head [of n] d by (cases "n = 0") (simp_all add: dec_digits.simps [of 0])
  have "dropWhile is_digit t = []" using t by (auto simp: list_all_iff)
  then have dr: "drop_digits (c # t) = Some []" using c by (simp add: drop_digits_def)
  have "c \<noteq> CHR ''-''" using is_digit_not_sign [OF c] by simp
  with z dr c d show "is_number (dec_digits n)" "is_number (CHR ''-'' # dec_digits n)"
    by (auto simp: is_number_def Let_def)
qed

lemma FormatInt_number: "is_number (FormatInt v)" "list_all num_char (FormatInt v)"
proof -
  show "is_number (FormatInt v)" using is_number_dec by (simp add: FormatInt_def)
  have "list_all num_char (dec_digits n)" for n
    using dec_digits_ok [of n] by (auto simp: list_all_iff num_char_def)
  then show "list_all num_char (FormatInt v)" by (simp add: FormatInt_def num_char_def)
qed

definition utf8_header :: "header \<Rightarrow> bool" where
  "utf8_header h \<longleftrightarrow> (\<forall>(k, vs) \<in> set h. valid_utf8 k \<and> (\<forall>v \<in> set vs. valid_utf8 v))"

text \<open>Metadata that the JSON text represents without loss.\<close>

definition plain_metadata :: "Metadata \<Rightarrow> bool" where
  "plain_metadata m \<longleftrightarrow>
     is_i64 (Status m) \<and> is_i64 (ContentBytes m) \<and> valid_utf8 (ContentDigest m)
     \<and> valid_utf8 (BodyFile m) \<and> utf8_header (Header m) \<and> distinct (map fst (Header m))"

lemma valid_metadata_json: "valid_json (metadata_json stored m)"
  by (auto simp: metadata_json_def header_json_def FormatInt_number)

lemma those_decode_strings: "those (map (\<lambda>v. decode_string v []) (map JStr vs)) = Some vs"
  by (induction vs) auto

lemma AList_update_new: "k \<notin> set (map fst h) \<Longrightarrow> AList.update k v h = h @ [(k, v)]"
  by (induction h) auto

lemma decode_members_json:
  "distinct (map fst (old @ h)) \<Longrightarrow>
   decode_members (map (\<lambda>(k, vs). (k, JArr (map JStr vs))) h) old = Some (old @ h)"
proof (induction h arbitrary: old)
  case (Cons p h)
  obtain k vs where p: "p = (k, vs)" by fastforce
  with Cons.prems have "k \<notin> set (map fst old)" by auto
  then show ?case
    using Cons.IH [of "old @ [p]"] Cons.prems p
    by (simp add: those_decode_strings [simplified] AList_update_new)
qed simp

lemma decode_header_json:
  assumes "distinct (map fst h)"
  shows "decode_header (header_json h) [] = Some (sort_key fst h)"
proof -
  have "distinct (map fst (sort_key fst h))"
    using assms by (simp add: distinct_map)
  then show ?thesis using decode_members_json [of "[]" "sort_key fst h"] by (simp add: header_json_def)
qed

text \<open>
  A header as it is read back. Names and values that are not UTF-8 come back with U+FFFD
  in them; nothing else changes but the order.
\<close>

definition read_header :: "header \<Rightarrow> header" where
  "read_header h = the (decode_header (utf8_json (header_json h)) [])"

lemma decode_members_total:
  "\<exists>h'. decode_members (map (\<lambda>p. (to_utf8 (fst p), utf8_json (snd p)))
      (map (\<lambda>(k, vs). (k, JArr (map JStr vs))) h)) old = Some h'"
proof (induction h arbitrary: old)
  case (Cons p h)
  have "those (map (\<lambda>v. decode_string v []) (map utf8_json (map JStr vs))) = Some (map to_utf8 vs)" for vs
    by (induction vs) auto
  from this [of "snd p"] show ?case
    using Cons [of "AList.update (to_utf8 (fst p)) (map to_utf8 (snd p)) old"] by (simp add: case_prod_beta)
qed simp

lemma decode_header_read: "decode_header (utf8_json (header_json h)) [] = Some (read_header h)"
  using decode_members_total [of "sort_key fst h" "[]"]
  by (auto simp: read_header_def header_json_def)

lemma read_header_plain:
  assumes "utf8_header h" "distinct (map fst h)"
  shows "read_header h = sort_key fst h"
proof -
  have "utf8_strings (header_json h)"
    using assms(1) by (auto simp: header_json_def utf8_header_def)
  then show ?thesis using decode_header_json [OF assms(2)] by (simp add: read_header_def utf8_json_id)
qed

lemma field_names:
  "to_utf8 ''status'' = ''status''" "to_utf8 ''header'' = ''header''" "to_utf8 ''stored_at'' = ''stored_at''"
  "to_utf8 ''content_bytes'' = ''content_bytes''" "to_utf8 ''content_digest'' = ''content_digest''"
  "to_utf8 ''body_file'' = ''body_file''"
  by (rule to_utf8_valid, rule valid_utf8_ascii, simp add: byte_def)+

lemma unmarshal_marshal_any:
  assumes "marshal_Metadata m = Some s" "is_i64 (Status m)" "is_i64 (ContentBytes m)"
    "valid_utf8 (ContentDigest m)" "valid_utf8 (BodyFile m)"
  shows "unmarshal_Metadata s = Some (m\<lparr>Header := read_header (Header m)\<rparr>)"
proof -
  obtain stored where st: "time_Format (StoredAt m) = Some stored"
    and s: "s = json_print (metadata_json stored m)"
    using assms(1) by (auto simp: marshal_Metadata_def)
  have p: "json_parse s = Some (utf8_json (metadata_json stored m))"
    unfolding s by (rule json_parse_print [OF valid_metadata_json])
  have n: "ParseInt (FormatInt (Status m)) = Some (Status m)"
    "ParseInt (FormatInt (ContentBytes m)) = Some (ContentBytes m)"
    using assms(2,3) by (simp_all add: ParseInt_FormatInt)
  have u: "to_utf8 stored = stored" "to_utf8 (ContentDigest m) = ContentDigest m"
    "to_utf8 (BodyFile m) = BodyFile m"
    using valid_utf8_ascii [OF time_Format_ascii [OF st]] assms(4,5) by (simp_all add: to_utf8_valid)
  have fold: "EqualFold ''header'' ''status'' = False" "EqualFold ''stored_at'' ''status'' = False"
    "EqualFold ''stored_at'' ''header'' = False" "EqualFold ''content_bytes'' ''status'' = False"
    "EqualFold ''content_bytes'' ''header'' = False" "EqualFold ''content_bytes'' ''stored_at'' = False"
    "EqualFold ''content_digest'' ''status'' = False" "EqualFold ''content_digest'' ''header'' = False"
    "EqualFold ''content_digest'' ''stored_at'' = False" "EqualFold ''content_digest'' ''content_bytes'' = False"
    "EqualFold ''body_file'' ''status'' = False" "EqualFold ''body_file'' ''header'' = False"
    "EqualFold ''body_file'' ''stored_at'' = False" "EqualFold ''body_file'' ''content_bytes'' = False"
    "EqualFold ''body_file'' ''content_digest'' = False"
    by code_simp+
  note dj = p [unfolded metadata_json_def]
  show ?thesis
    using dj time_Parse_Format [OF st] n u fold decode_header_read [of "Header m"]
    by (cases m) (simp add: unmarshal_Metadata_def decode_field_def zero_metadata_def field_names)
qed

lemma unmarshal_marshal:
  assumes "marshal_Metadata m = Some s" "plain_metadata m"
  shows "unmarshal_Metadata s = Some (m\<lparr>Header := sort_key fst (Header m)\<rparr>)"
  using unmarshal_marshal_any [OF assms(1)] assms(2) by (simp add: plain_metadata_def read_header_plain)

end
