(* ===== verification/Storage_Controller.thy ===== *)
theory Storage_Controller
  imports Prelude Complex_Main
begin

text \<open>
  The shared byte budget of \<^verbatim>\<open>src/internal/storage/controller.go\<close>: the
  controller, its reservations, and the free-space reading of
  \<^verbatim>\<open>free_unix.go\<close>. Each operation runs under the controller's mutex, so
  it is one function on the controller. A reservation carries the \<^verbatim>\<open>sync.Once\<close>
  that makes the first of \<open>Commit\<close> and \<open>Release\<close> the only one with an effect; a nil
  reservation is \<open>None\<close>. All numbers are Go \<^verbatim>\<open>int64\<close>s.
\<close>

section \<open>Data\<close>

record controller =
  maxBytes :: int
  highBasisPoints :: int
  lowBasisPoints :: int
  minFreeBytes :: int
  committedBytes :: int
  reservedBytes :: int
  bypassObjects :: int
  bypassBytes :: int

record ctl_snapshot =
  MaxBytes :: int
  HighBytes :: int
  LowBytes :: int
  MinFreeBytes :: int
  CommittedBytes :: int
  ReservedBytes :: int
  BypassObjects :: int
  BypassBytes :: int
  Pressure :: bool

record reservation =
  res_bytes :: int
  once_done :: bool

section \<open>Arithmetic helpers\<close>

definition exceedsAvailable :: "int \<Rightarrow> int \<Rightarrow> int \<Rightarrow> bool" where
  "exceedsAvailable limit used requested \<longleftrightarrow>
     limit < 0 \<or> used > limit \<or> requested > i64 (limit - used)"

definition saturatingAdd :: "int \<Rightarrow> int \<Rightarrow> int" where
  "saturatingAdd left right =
     (if right > 0 \<and> left > i64 (MaxInt64 - right) then MaxInt64 else i64 (left + right))"

definition scaleBasisPoints :: "int \<Rightarrow> int \<Rightarrow> int" where
  "scaleBasisPoints v basisPoints =
     i64 (i64 ((v sdiv 10000) * basisPoints) + (i64 ((v smod 10000) * basisPoints)) sdiv 10000)"

section \<open>Operations\<close>

text \<open>
  \<^verbatim>\<open>math.Round\<close> rounds half away from zero. The watermarks are the exact values of
  the configured \<^verbatim>\<open>float64\<close>s; the product by 10000 is taken without the rounding
  of the floating-point multiplication, whose error is below \<open>2^-39\<close> for a watermark in
  (0, 1) and so far below half a basis point.
\<close>

definition math_Round :: "rat \<Rightarrow> int" where
  "math_Round x = (if x < 0 then - \<lfloor>- x + 1 / 2\<rfloor> else \<lfloor>x + 1 / 2\<rfloor>)"

definition NewController :: "int \<Rightarrow> rat \<Rightarrow> rat \<Rightarrow> int \<Rightarrow> int \<Rightarrow> controller" where
  "NewController max_bytes highWatermark lowWatermark min_free committed =
     \<lparr>maxBytes = max_bytes,
      highBasisPoints = i64 (math_Round (highWatermark * 10000)),
      lowBasisPoints = i64 (math_Round (lowWatermark * 10000)),
      minFreeBytes = min_free,
      committedBytes = committed,
      reservedBytes = 0, bypassObjects = 0, bypassBytes = 0\<rparr>"

definition RecordBypass :: "int \<Rightarrow> controller \<Rightarrow> controller" where
  "RecordBypass n c =
     (let c' = c\<lparr>bypassObjects := saturatingAdd (bypassObjects c) 1\<rparr>
      in if n > 0 then c'\<lparr>bypassBytes := saturatingAdd (bypassBytes c') n\<rparr> else c')"

definition Reserve :: "int \<Rightarrow> int \<Rightarrow> controller \<Rightarrow> reservation option \<times> controller" where
  "Reserve n filesystemFreeBytes c =
     (let budgetUsed = saturatingAdd (committedBytes c) (reservedBytes c);
          availableFilesystem =
            i64 (filesystemFreeBytes - min (reservedBytes c) filesystemFreeBytes)
      in if n \<le> 0
            \<or> (maxBytes c > 0 \<and> exceedsAvailable (maxBytes c) budgetUsed n)
            \<or> (minFreeBytes c > 0 \<and> exceedsAvailable availableFilesystem (minFreeBytes c) n)
         then (None,
               let c' = c\<lparr>bypassObjects := saturatingAdd (bypassObjects c) 1\<rparr>
               in if n > 0 then c'\<lparr>bypassBytes := saturatingAdd (bypassBytes c') n\<rparr> else c')
         else (Some \<lparr>res_bytes = n, once_done = False\<rparr>,
               c\<lparr>reservedBytes := saturatingAdd (reservedBytes c) n\<rparr>))"

definition Commit ::
  "int \<Rightarrow> int \<Rightarrow> reservation option \<Rightarrow> controller \<Rightarrow> bool \<times> reservation option \<times> controller" where
  "Commit actualBytes replacedBytes r c =
     (case r of
        None \<Rightarrow> (False, None, c)
      | Some v \<Rightarrow>
          if once_done v then (False, Some v, c)
          else
            let v' = v\<lparr>once_done := True\<rparr>;
                c1 = c\<lparr>reservedBytes := i64 (reservedBytes c - res_bytes v)\<rparr>
            in if actualBytes \<ge> 0 \<and> actualBytes \<le> res_bytes v
                  \<and> replacedBytes \<ge> 0 \<and> replacedBytes \<le> committedBytes c1
               then (True, Some v',
                     c1\<lparr>committedBytes :=
                          saturatingAdd (i64 (committedBytes c1 - replacedBytes)) actualBytes\<rparr>)
               else (False, Some v', c1))"

definition Release :: "reservation option \<Rightarrow> controller \<Rightarrow> reservation option \<times> controller" where
  "Release r c =
     (case r of
        None \<Rightarrow> (None, c)
      | Some v \<Rightarrow>
          if once_done v then (Some v, c)
          else (Some (v\<lparr>once_done := True\<rparr>),
                c\<lparr>reservedBytes := i64 (reservedBytes c - res_bytes v)\<rparr>))"

definition Remove :: "int \<Rightarrow> controller \<Rightarrow> controller" where
  "Remove n c =
     (if n \<le> 0 then c
      else let c' = c\<lparr>committedBytes := i64 (committedBytes c - n)\<rparr>
           in if committedBytes c' < 0 then c'\<lparr>committedBytes := 0\<rparr> else c')"

definition Snapshot :: "controller \<Rightarrow> ctl_snapshot" where
  "Snapshot c =
     (let highBytes = scaleBasisPoints (maxBytes c) (highBasisPoints c);
          lowBytes = scaleBasisPoints (maxBytes c) (lowBasisPoints c)
      in \<lparr>MaxBytes = maxBytes c, HighBytes = highBytes, LowBytes = lowBytes,
          MinFreeBytes = minFreeBytes c, CommittedBytes = committedBytes c,
          ReservedBytes = reservedBytes c, BypassObjects = bypassObjects c,
          BypassBytes = bypassBytes c,
          Pressure = (maxBytes c > 0
                      \<and> saturatingAdd (committedBytes c) (reservedBytes c) \<ge> highBytes)\<rparr>)"

text \<open>
  \<^verbatim>\<open>FreeBytes\<close> of \<^verbatim>\<open>free_unix.go\<close>: the result of \<^verbatim>\<open>statfs\<close>
  is an argument, \<open>None\<close> when the system call fails. The two fields are read as
  \<^verbatim>\<open>uint64\<close>, and the product is compared with the \<^verbatim>\<open>int64\<close> range before it
  is formed.
\<close>

definition FreeBytes :: "(int \<times> int) option \<Rightarrow> int option" where
  "FreeBytes stat =
     (case stat of
        None \<Rightarrow> None
      | Some (bavail, bsize) \<Rightarrow>
          let blocks = u64 bavail; blockSize = u64 bsize
          in if blockSize \<noteq> 0 \<and> blocks > MaxInt64 div blockSize
             then Some MaxInt64
             else Some (i64 (u64 (blocks * blockSize))))"

lemmas [op_defs] = Reserve_def Commit_def Release_def Remove_def RecordBypass_def
  exceedsAvailable_def

section \<open>The helpers compute what they promise\<close>

lemma saturatingAdd_min:
  assumes "0 \<le> l" "l \<le> MaxInt64" "0 \<le> r" "r \<le> MaxInt64"
  shows "saturatingAdd l r = min MaxInt64 (l + r)"
  using assms by (auto simp: saturatingAdd_def MaxInt64_def i64_in_range min_def)

lemma exceedsAvailable_iff:
  assumes "0 \<le> used" "used \<le> MaxInt64" "0 \<le> limit" "limit \<le> MaxInt64"
  shows "exceedsAvailable limit used n \<longleftrightarrow> used > limit \<or> limit - used < n"
  using assms by (auto simp: exceedsAvailable_def MaxInt64_def i64_in_range)

lemma scaleBasisPoints_split:
  fixes v b :: int
  shows "(v div 10000) * b + ((v mod 10000) * b) div 10000 = v * b div 10000"
proof -
  have "(v mod 10000) * b + ((v div 10000) * b) * 10000
      = ((v div 10000) * 10000 + v mod 10000) * b"
    by (simp only: algebra_simps)
  also have "\<dots> = v * b" by (simp only: div_mult_mod_eq)
  finally have "v * b div 10000 = ((v mod 10000) * b + ((v div 10000) * b) * 10000) div 10000"
    by (rule arg_cong [where f = "\<lambda>x. x div 10000", symmetric])
  also have "\<dots> = (v div 10000) * b + ((v mod 10000) * b) div 10000"
    by (rule div_mult_self1) simp
  finally show ?thesis by (rule sym)
qed

lemma scaleBasisPoints_parts:
  fixes v b :: int
  assumes "0 \<le> v" "v \<le> MaxInt64" "0 \<le> b" "b \<le> 10000"
  shows "0 \<le> (v div 10000) * b" "(v div 10000) * b \<le> v"
    "0 \<le> (v mod 10000) * b" "(v mod 10000) * b \<le> 100000000"
    "0 \<le> v * b div 10000" "v * b div 10000 \<le> v"
proof -
  show "0 \<le> (v div 10000) * b" "0 \<le> (v mod 10000) * b" "0 \<le> v * b div 10000"
    using assms by (simp_all add: pos_imp_zdiv_nonneg_iff)
  have "(v div 10000) * b \<le> (v div 10000) * 10000"
    using assms by (intro mult_left_mono) (simp_all add: pos_imp_zdiv_nonneg_iff)
  also have "\<dots> \<le> v"
    using div_mult_mod_eq [of v 10000] pos_mod_sign [of 10000 v] by linarith
  finally show "(v div 10000) * b \<le> v" .
  have "(v mod 10000) * b \<le> 10000 * 10000"
    using assms by (intro mult_mono) (auto intro: order.strict_implies_order)
  then show "(v mod 10000) * b \<le> 100000000" by simp
  have "v * b \<le> v * 10000" using assms by (intro mult_left_mono) simp_all
  then have "v * b div 10000 \<le> v * 10000 div 10000" by (intro zdiv_mono1) simp_all
  then show "v * b div 10000 \<le> v" by simp
qed

lemma scaleBasisPoints_floor:
  assumes "0 \<le> v" "v \<le> MaxInt64" "0 \<le> b" "b \<le> 10000"
  shows "scaleBasisPoints v b = v * b div 10000"
proof -
  note parts = scaleBasisPoints_parts [OF assms]
  have "v sdiv 10000 = v div 10000" "v smod 10000 = v mod 10000"
    using assms by (auto simp: signed_divide_int_def signed_modulo_int_def
        minus_div_mult_eq_mod sgn_if)
  moreover have "((v mod 10000) * b) sdiv 10000 = ((v mod 10000) * b) div 10000"
    using parts(3) by (auto simp: signed_divide_int_def sgn_if)
  moreover have "i64 ((v div 10000) * b) = (v div 10000) * b"
    using parts(1,2) assms(2) unfolding MaxInt64_def by (intro i64_in_range) linarith+
  moreover have "i64 ((v mod 10000) * b) = (v mod 10000) * b"
    using parts(3,4) by (intro i64_in_range) linarith+
  moreover have "i64 (v * b div 10000) = v * b div 10000"
    using parts(5,6) assms(2) unfolding MaxInt64_def by (intro i64_in_range) linarith+
  ultimately show ?thesis
    by (simp add: scaleBasisPoints_def scaleBasisPoints_split)
qed

section \<open>The admission interface\<close>

text \<open>
  What a writer relies on: an admitted reservation holds exactly its bytes, settling it
  gives them back exactly once, and whether the commit counts is visible in the usage.
  \<open>PutStreamVerified\<close> and the PyPI upload both reserve, write, commit and release again
  through a deferred call.
\<close>

locale admission =
  fixes reserve :: "int \<Rightarrow> int \<Rightarrow> 'c \<Rightarrow> 'r option \<times> 'c"
    and commit :: "int \<Rightarrow> int \<Rightarrow> 'r option \<Rightarrow> 'c \<Rightarrow> bool \<times> 'r option \<times> 'c"
    and release :: "'r option \<Rightarrow> 'c \<Rightarrow> 'r option \<times> 'c"
    and held :: "'c \<Rightarrow> int"
    and used :: "'c \<Rightarrow> int"
    and ok :: "'c \<Rightarrow> bool"
    and live :: "'r \<Rightarrow> int \<Rightarrow> bool"
    and spent :: "'r \<Rightarrow> bool"
  assumes reserve_admitted:
      "ok c \<Longrightarrow> 0 \<le> free \<Longrightarrow> free \<le> MaxInt64 \<Longrightarrow> n \<le> MaxInt64 \<Longrightarrow> reserve n free c = (Some r, c') \<Longrightarrow>
         ok c' \<and> held c' = held c + n \<and> used c' = used c \<and> live r n"
    and reserve_refused:
      "ok c \<Longrightarrow> reserve n free c = (None, c') \<Longrightarrow> held c' = held c \<and> used c' = used c"
    and commit_live:
      "ok c \<Longrightarrow> live r n \<Longrightarrow> commit a p (Some r) c = (done, r', c') \<Longrightarrow>
         held c' = held c - n \<and> (\<exists>q. r' = Some q \<and> spent q) \<and>
         used c' = (if done then min MaxInt64 (used c - p + a) else used c)"
    and release_live:
      "ok c \<Longrightarrow> live r n \<Longrightarrow> release (Some r) c = (r', c') \<Longrightarrow>
         held c' = held c - n \<and> used c' = used c"
    and release_spent: "spent q \<Longrightarrow> snd (release (Some q) c) = c"
    and commit_spent: "spent q \<Longrightarrow> commit a p (Some q) c = (False, Some q, c)"
begin

text \<open>The whole life of a reservation: no path leaves bytes behind.\<close>

lemma settle_by_commit:
  assumes "ok c" "0 \<le> free" "free \<le> MaxInt64" "n \<le> MaxInt64"
    and "reserve n free c = (Some r, c1)"
    and "commit a p (Some r) c1 = (done, r2, c2)"
    and "release r2 c2 = (r3, c3)"
  shows "held c3 = held c \<and>
         used c3 = (if done then min MaxInt64 (used c - p + a) else used c)"
proof -
  from reserve_admitted [OF assms(1-5)]
  have 1: "ok c1" "held c1 = held c + n" "used c1 = used c" "live r n" by auto
  from commit_live [OF 1(1,4) assms(6)] obtain q
    where 2: "held c2 = held c1 - n" "r2 = Some q" "spent q"
      "used c2 = (if done then min MaxInt64 (used c1 - p + a) else used c1)" by auto
  from release_spent [OF 2(3), of c2] assms(7) 2(2) have "c3 = c2" by simp
  with 1 2 show ?thesis by simp
qed

lemma settle_by_release:
  assumes "ok c" "0 \<le> free" "free \<le> MaxInt64" "n \<le> MaxInt64"
    and "reserve n free c = (Some r, c1)" and "release (Some r) c1 = (r2, c2)"
  shows "held c2 = held c \<and> used c2 = used c"
  using reserve_admitted [OF assms(1-5)] release_live [OF _ _ assms(6)] by auto

end

text \<open>
  The controller the server builds: some limit is configured
  (\<^verbatim>\<open>cfg.Storage.MaxBytes > 0 || cfg.Storage.MinFreeBytes > 0\<close>), and all values
  are non-negative \<^verbatim>\<open>int64\<close>s.
\<close>

definition ctl_ok :: "controller \<Rightarrow> bool" where
  "ctl_ok c \<longleftrightarrow>
     (maxBytes c > 0 \<or> minFreeBytes c > 0) \<and>
     0 \<le> maxBytes c \<and> maxBytes c \<le> MaxInt64 \<and>
     0 \<le> minFreeBytes c \<and> minFreeBytes c \<le> MaxInt64 \<and>
     0 \<le> committedBytes c \<and> committedBytes c \<le> MaxInt64 \<and>
     0 \<le> reservedBytes c \<and> reservedBytes c \<le> MaxInt64"

definition res_live :: "reservation \<Rightarrow> int \<Rightarrow> bool" where
  "res_live r n \<longleftrightarrow> \<not> once_done r \<and> res_bytes r = n \<and> 0 < n \<and> n \<le> MaxInt64"

lemma ctl_okD:
  assumes "ctl_ok c"
  shows "0 \<le> maxBytes c" "maxBytes c \<le> MaxInt64" "0 \<le> minFreeBytes c" "minFreeBytes c \<le> MaxInt64"
    "0 \<le> committedBytes c" "committedBytes c \<le> MaxInt64"
    "0 \<le> reservedBytes c" "reservedBytes c \<le> MaxInt64"
    "maxBytes c > 0 \<or> minFreeBytes c > 0"
  using assms by (auto simp: ctl_ok_def)

text \<open>The admission decision in unbounded arithmetic: no wrap-around and no saturation can change it.\<close>

definition admissible :: "int \<Rightarrow> int \<Rightarrow> controller \<Rightarrow> bool" where
  "admissible n free c \<longleftrightarrow>
     0 < n \<and>
     (maxBytes c > 0 \<longrightarrow> committedBytes c + reservedBytes c + n \<le> maxBytes c) \<and>
     (minFreeBytes c > 0 \<longrightarrow> reservedBytes c + n + minFreeBytes c \<le> free)"

lemma Reserve_refuses_iff:
  assumes "ctl_ok c" "0 \<le> free" "free \<le> MaxInt64"
  shows "(n \<le> 0
            \<or> (maxBytes c > 0 \<and> exceedsAvailable (maxBytes c)
                 (saturatingAdd (committedBytes c) (reservedBytes c)) n)
            \<or> (minFreeBytes c > 0 \<and> exceedsAvailable
                 (i64 (free - min (reservedBytes c) free)) (minFreeBytes c) n))
       \<longleftrightarrow> \<not> admissible n free c"
proof -
  note c = ctl_okD [OF assms(1)]
  let ?used = "min MaxInt64 (committedBytes c + reservedBytes c)"
  let ?avail = "free - min (reservedBytes c) free"
  have sat: "saturatingAdd (committedBytes c) (reservedBytes c) = ?used"
    using c by (intro saturatingAdd_min)
  have av: "i64 ?avail = ?avail"
    using c assms unfolding MaxInt64_def by (intro i64_in_range) linarith+
  have budget: "exceedsAvailable (maxBytes c) ?used n
      \<longleftrightarrow> \<not> committedBytes c + reservedBytes c + n \<le> maxBytes c" if "0 < n"
  proof -
    have "exceedsAvailable (maxBytes c) ?used n \<longleftrightarrow> ?used > maxBytes c \<or> maxBytes c - ?used < n"
      using c by (intro exceedsAvailable_iff) (auto simp: MaxInt64_def)
    then show ?thesis using that c(2) by linarith
  qed
  have headroom: "exceedsAvailable ?avail (minFreeBytes c) n
      \<longleftrightarrow> \<not> reservedBytes c + n + minFreeBytes c \<le> free" if "0 < n" "minFreeBytes c > 0"
  proof -
    have "exceedsAvailable ?avail (minFreeBytes c) n
        \<longleftrightarrow> minFreeBytes c > ?avail \<or> ?avail - minFreeBytes c < n"
      using c assms by (intro exceedsAvailable_iff) linarith+
    then show ?thesis using that c by linarith
  qed
  show ?thesis
    unfolding sat av admissible_def using budget headroom by (cases "0 < n") auto
qed

lemma Reserve_cases:
  assumes "ctl_ok c" "0 \<le> free" "free \<le> MaxInt64"
  shows "Reserve n free c =
    (if admissible n free c
     then (Some \<lparr>res_bytes = n, once_done = False\<rparr>, c\<lparr>reservedBytes := reservedBytes c + n\<rparr>)
     else (None, RecordBypass n c))"
proof -
  have "saturatingAdd (reservedBytes c) n = reservedBytes c + n" if "admissible n free c"
    using that ctl_okD [OF assms(1)] assms(2,3)
    by (subst saturatingAdd_min) (auto simp: admissible_def MaxInt64_def min_def)
  then show ?thesis
    unfolding Reserve_def Let_def Reserve_refuses_iff [OF assms]
    by (simp add: RecordBypass_def Let_def)
qed

lemma RecordBypass_frame [frame, simp]:
  "committedBytes (RecordBypass n c) = committedBytes c"
  "reservedBytes (RecordBypass n c) = reservedBytes c"
  "maxBytes (RecordBypass n c) = maxBytes c"
  "minFreeBytes (RecordBypass n c) = minFreeBytes c"
  by (simp_all add: RecordBypass_def Let_def)

lemma Commit_live:
  assumes "ctl_ok c" "res_live r n"
  shows "Commit a p (Some r) c =
    (let good = (0 \<le> a \<and> a \<le> n \<and> 0 \<le> p \<and> p \<le> committedBytes c)
     in (good, Some (r\<lparr>once_done := True\<rparr>),
         c\<lparr>reservedBytes := reservedBytes c - n,
           committedBytes := if good then min MaxInt64 (committedBytes c - p + a)
                             else committedBytes c\<rparr>))"
proof -
  note c = ctl_okD [OF assms(1)] and r = assms(2) [unfolded res_live_def]
  have "i64 (reservedBytes c - res_bytes r) = reservedBytes c - n"
    using c r by (simp add: MaxInt64_def i64_in_range)
  moreover have "i64 (committedBytes c - p) = committedBytes c - p"
    if "0 \<le> p" "p \<le> committedBytes c"
    using c that by (simp add: MaxInt64_def i64_in_range)
  moreover have "saturatingAdd (committedBytes c - p) a = min MaxInt64 (committedBytes c - p + a)"
    if "0 \<le> a" "a \<le> n" "0 \<le> p" "p \<le> committedBytes c"
    using c r that by (intro saturatingAdd_min) auto
  ultimately show ?thesis
    using r by (simp add: Commit_def Let_def)
qed

lemma Release_live:
  assumes "ctl_ok c" "res_live r n"
  shows "Release (Some r) c
     = (Some (r\<lparr>once_done := True\<rparr>), c\<lparr>reservedBytes := reservedBytes c - n\<rparr>)"
proof -
  have "i64 (reservedBytes c - n) = reservedBytes c - n"
    using ctl_okD [OF assms(1)] assms(2) by (simp add: res_live_def MaxInt64_def i64_in_range)
  with assms(2) show ?thesis by (simp add: Release_def res_live_def)
qed

lemma ctl_ok_reserved:
  assumes "ctl_ok c" "admissible n free c" "free \<le> MaxInt64"
  shows "ctl_ok (c\<lparr>reservedBytes := reservedBytes c + n\<rparr>)"
  using assms by (auto simp: ctl_ok_def admissible_def MaxInt64_def)

interpretation budget:
  admission Reserve Commit Release reservedBytes committedBytes ctl_ok res_live once_done
proof
  fix c c' free n r
  assume "ctl_ok c" "0 \<le> free" "free \<le> MaxInt64" "n \<le> MaxInt64" "Reserve n free c = (Some r, c')"
  then show "ctl_ok c' \<and> reservedBytes c' = reservedBytes c + n \<and>
      committedBytes c' = committedBytes c \<and> res_live r n"
    by (auto simp: Reserve_cases res_live_def admissible_def [of n free c]
        intro!: ctl_ok_reserved split: if_splits)
next
  fix c c' n free
  assume "Reserve n free c = (None, c')"
  then show "reservedBytes c' = reservedBytes c \<and> committedBytes c' = committedBytes c"
    by (auto simp: Reserve_def Let_def split: if_splits)
qed (auto simp: Commit_live Release_live Let_def, simp_all add: Commit_def Release_def)

section \<open>Any interleaving of the operations\<close>

text \<open>
  The state is the controller with the reservations that are handed out and not yet
  settled. Every operation holds the mutex, so an execution of any number of writers and
  collectors is a sequence of these steps.
\<close>

inductive ctl_step ::
  "controller \<times> reservation list \<Rightarrow> controller \<times> reservation list \<Rightarrow> bool" where
  reserve: "0 \<le> free \<Longrightarrow> free \<le> MaxInt64 \<Longrightarrow> n \<le> MaxInt64 \<Longrightarrow> Reserve n free c = (Some r, c') \<Longrightarrow>
     ctl_step (c, rs) (c', r # rs)"
| refuse: "0 \<le> free \<Longrightarrow> free \<le> MaxInt64 \<Longrightarrow> n \<le> MaxInt64 \<Longrightarrow> Reserve n free c = (None, c') \<Longrightarrow>
     ctl_step (c, rs) (c', rs)"
| commit: "r \<in> set rs \<Longrightarrow> Commit a p (Some r) c = (good, r', c') \<Longrightarrow>
     ctl_step (c, rs) (c', remove1 r rs)"
| release: "r \<in> set rs \<Longrightarrow> Release (Some r) c = (r', c') \<Longrightarrow>
     ctl_step (c, rs) (c', remove1 r rs)"
| collect: "n \<le> MaxInt64 \<Longrightarrow> ctl_step (c, rs) (Remove n c, rs)"
| bypass: "ctl_step (c, rs) (RecordBypass n c, rs)"

abbreviation ctl_reach :: "controller \<Rightarrow> controller \<times> reservation list \<Rightarrow> bool" where
  "ctl_reach c0 \<equiv> reach (\<lambda>s. s = (c0, [])) ctl_step"

text \<open>
  The invariant: the reserved bytes are exactly those of the open reservations, and
  under a byte budget the two kinds of bytes together stay within the budget, or within
  what was committed at the start if that was already above it.
\<close>

definition ctl_inv :: "controller \<Rightarrow> controller \<times> reservation list \<Rightarrow> bool" where
  "ctl_inv c0 s \<longleftrightarrow>
     (case s of (c, rs) \<Rightarrow>
        ctl_ok c \<and> maxBytes c = maxBytes c0 \<and> minFreeBytes c = minFreeBytes c0 \<and>
        (\<forall>r \<in> set rs. res_live r (res_bytes r)) \<and>
        reservedBytes c = sum_list (map res_bytes rs) \<and>
        (maxBytes c0 > 0 \<longrightarrow>
           committedBytes c + reservedBytes c \<le> max (maxBytes c0) (committedBytes c0)))"

lemma Remove_eq:
  assumes "ctl_ok c" "n \<le> MaxInt64"
  shows "Remove n c = c\<lparr>committedBytes := if n \<le> 0 then committedBytes c
                                           else max 0 (committedBytes c - n)\<rparr>"
proof -
  have "i64 (committedBytes c - n) = committedBytes c - n" if "0 < n"
    using that assms ctl_okD [OF assms(1)] by (simp add: MaxInt64_def i64_in_range)
  then show ?thesis by (simp add: Remove_def Let_def)
qed

lemma settled_nonneg:
  assumes "\<forall>r \<in> set rs. res_live r (res_bytes r)" "r \<in> set rs"
  shows "0 \<le> sum_list (map res_bytes rs) - res_bytes r" "0 < res_bytes r"
  using assms member_le_sum_list_map [of rs res_bytes r]
  by (auto simp: res_live_def intro: less_imp_le)

lemma ctl_inv_reserve:
  assumes inv: "ctl_inv c0 (c, rs)" and f: "0 \<le> free" "free \<le> MaxInt64"
    and n: "n \<le> MaxInt64" and R: "Reserve n free c = (Some r, c')"
  shows "ctl_inv c0 (c', r # rs)"
proof -
  from inv have ok: "ctl_ok c" by (simp add: ctl_inv_def)
  from R Reserve_cases [OF ok f, of n] have a: "admissible n free c"
    and r: "r = \<lparr>res_bytes = n, once_done = False\<rparr>"
    and c': "c' = c\<lparr>reservedBytes := reservedBytes c + n\<rparr>" by (auto split: if_splits)
  from ctl_ok_reserved [OF ok a f(2)] a n inv show ?thesis
    unfolding ctl_inv_def c' r by (auto simp: res_live_def admissible_def)
qed

lemma ctl_inv_settle:
  assumes inv: "ctl_inv c0 (c, rs)" and r: "r \<in> set rs"
    and c': "reservedBytes c' = reservedBytes c - res_bytes r"
      "0 \<le> committedBytes c'" "committedBytes c' \<le> MaxInt64"
      "committedBytes c' \<le> committedBytes c + res_bytes r"
      "maxBytes c' = maxBytes c" "minFreeBytes c' = minFreeBytes c"
  shows "ctl_inv c0 (c', remove1 r rs)"
proof -
  from inv have rs: "\<forall>r \<in> set rs. res_live r (res_bytes r)"
    "reservedBytes c = sum_list (map res_bytes rs)" and ok: "ctl_ok c"
    by (auto simp: ctl_inv_def)
  have "\<forall>q \<in> set (remove1 r rs). res_live q (res_bytes q)"
    using rs(1) set_remove1_subset [of r rs] by blast
  moreover have "reservedBytes c' = sum_list (map res_bytes (remove1 r rs))"
    using c'(1) rs(2) r by (simp add: sum_list_remove1)
  moreover have "ctl_ok c'"
    using ok c' settled_nonneg [OF rs(1) r] rs(2) by (auto simp: ctl_ok_def)
  ultimately show ?thesis
    using inv c' by (auto simp: ctl_inv_def)
qed

lemma ctl_inv_step: "ctl_step s t \<Longrightarrow> ctl_inv c0 s \<Longrightarrow> ctl_inv c0 t"
proof (induction rule: ctl_step.induct)
  case (reserve free n c r c' rs)
  then show ?case by (blast intro: ctl_inv_reserve)
next
  case (refuse free n c c' rs)
  then have "c' = RecordBypass n c"
    using Reserve_cases [of c free n] by (auto simp: ctl_inv_def split: if_splits)
  with refuse show ?case by (auto simp: ctl_inv_def ctl_ok_def)
next
  case (commit r rs a p c good r' c')
  then have ok: "ctl_ok c" and live: "res_live r (res_bytes r)" by (auto simp: ctl_inv_def)
  from commit(2) have c': "c' = c\<lparr>reservedBytes := reservedBytes c - res_bytes r,
      committedBytes := if 0 \<le> a \<and> a \<le> res_bytes r \<and> 0 \<le> p \<and> p \<le> committedBytes c
        then min MaxInt64 (committedBytes c - p + a) else committedBytes c\<rparr>"
    unfolding Commit_live [OF ok live] Let_def by (elim Pair_inject) (rule sym)
  show ?case
    using ctl_okD [OF ok] live unfolding c'
    by (intro ctl_inv_settle [OF commit(3,1)]) (auto simp: res_live_def)
next
  case (release r rs c r' c')
  then have ok: "ctl_ok c" and live: "res_live r (res_bytes r)" by (auto simp: ctl_inv_def)
  show ?case
    using release(2) ctl_okD [OF ok] live unfolding Release_live [OF ok live]
    by (intro ctl_inv_settle [OF release(3,1)]) (auto simp: res_live_def)
next
  case (collect n c rs)
  then have "ctl_ok c" by (simp add: ctl_inv_def)
  with collect show ?case
    by (auto simp: Remove_eq ctl_inv_def ctl_ok_def)
next
  case (bypass c rs n)
  then show ?case by (auto simp: ctl_inv_def ctl_ok_def)
qed

lemma ctl_reach_inv:
  assumes "ctl_reach c0 s" "ctl_ok c0" "reservedBytes c0 = 0"
  shows "ctl_inv c0 s"
  using assms(1)
proof (induction rule: reach_invariant)
  case (start s)
  with assms show ?case by (auto simp: ctl_inv_def)
next
  case (step s t)
  then show ?case by (blast intro: ctl_inv_step)
qed

section \<open>Properties\<close>

text \<open>C18.
  
  The shared budget is never exceeded: from a fresh controller with a limit, after any
  interleaving of reservations, commits, releases and collections, the reserved bytes are
  exactly the bytes of the open reservations, and with a byte budget the committed and
  reserved bytes together stay within the budget (or within the bytes found on disk at
  start-up, when those were above it already); no counter is negative or wraps.\<close>

theorem budget_never_exceeded:
  assumes "ctl_reach c0 (c, rs)" "ctl_ok c0" "reservedBytes c0 = 0"
  shows "reservedBytes c = sum_list (map res_bytes rs) \<and>
         0 \<le> committedBytes c \<and> 0 \<le> reservedBytes c \<and> committedBytes c \<le> MaxInt64 \<and>
         (maxBytes c0 > 0 \<longrightarrow>
            committedBytes c + reservedBytes c \<le> max (maxBytes c0) (committedBytes c0))"
  using ctl_reach_inv [OF assms] by (auto simp: ctl_inv_def ctl_ok_def)

text \<open>A run with two writers: one reservation is committed for less than it reserved, the other
  is still open.\<close>

theorem budget_never_exceeded_witness:
  "let c0 = NewController 100 (9 / 10) (3 / 4) 0 20
   in ctl_ok c0 \<and> reservedBytes c0 = 0 \<and>
      (\<exists>c r. ctl_reach c0 (c, [r]) \<and> committedBytes c = 45 \<and> reservedBytes c = 40 \<and>
         committedBytes c + reservedBytes c \<le> 100)"
proof -
  define c0 where "c0 = NewController 100 (9 / 10) (3 / 4) 0 20"
  have f: "maxBytes c0 = 100" "minFreeBytes c0 = 0" "committedBytes c0 = 20" "reservedBytes c0 = 0"
    by (simp_all add: c0_def NewController_def)
  have ok: "ctl_ok c0" by (simp add: ctl_ok_def f MaxInt64_def)
  let ?r = "\<lambda>n. \<lparr>res_bytes = n, once_done = False\<rparr>"
  let ?c1 = "c0\<lparr>reservedBytes := 30\<rparr>" and ?c2 = "c0\<lparr>reservedBytes := 70\<rparr>"
  let ?c3 = "c0\<lparr>reservedBytes := 40, committedBytes := 45\<rparr>"
  have ok12: "ctl_ok ?c1" "ctl_ok ?c2" using ok by (simp_all add: ctl_ok_def MaxInt64_def)
  have 0: "ctl_reach c0 (c0, [])" by (rule reach_start) simp
  have 1: "ctl_reach c0 (?c1, [?r 30])"
    by (rule reach_step [OF 0 ctl_step.reserve [of 1000 30]])
      (simp_all add: Reserve_cases ok MaxInt64_def admissible_def f)
  have 2: "ctl_reach c0 (?c2, [?r 40, ?r 30])"
    by (rule reach_step [OF 1 ctl_step.reserve [of 1000 40]])
      (simp_all add: Reserve_cases ok12 MaxInt64_def admissible_def f)
  have "Commit 25 0 (Some (?r 30)) ?c2 = (True, Some (?r 30\<lparr>once_done := True\<rparr>), ?c3)"
    using Commit_live [OF ok12(2), of "?r 30" 30 25 0]
    by (simp add: res_live_def MaxInt64_def f)
  from ctl_step.commit [OF _ this, of "[?r 40, ?r 30]"]
  have 3: "ctl_reach c0 (?c3, [?r 40])"
    using reach_step [OF 2] by simp
  from budget_never_exceeded [OF 3 ok f(4)] 3 ok f show ?thesis
    unfolding Let_def c0_def [symmetric] by (intro conjI exI [of _ ?c3] exI [of _ "?r 40"]) auto
qed

text \<open>C19.
  
  Admission is exact: \<open>Reserve\<close> hands out a reservation precisely when the size is
  positive, the byte budget (if set) has room for it beside everything committed and
  reserved, and the filesystem keeps its configured headroom (if set) after every open
  reservation is written; then it reserves exactly that many bytes. Otherwise only the
  bypass counters change. The saturating 64-bit arithmetic never alters the decision.\<close>

theorem Reserve_admits_exactly:
  assumes "ctl_ok c" "0 \<le> free" "free \<le> MaxInt64"
  shows "(fst (Reserve n free c) \<noteq> None \<longleftrightarrow>
            0 < n \<and>
            (maxBytes c > 0 \<longrightarrow> committedBytes c + reservedBytes c + n \<le> maxBytes c) \<and>
            (minFreeBytes c > 0 \<longrightarrow> reservedBytes c + n + minFreeBytes c \<le> free)) \<and>
         snd (Reserve n free c) =
           (if fst (Reserve n free c) = None then RecordBypass n c
            else c\<lparr>reservedBytes := reservedBytes c + n\<rparr>)"
  using Reserve_cases [OF assms] by (simp add: admissible_def)

theorem Reserve_admits_exactly_witness:
  "let c = (NewController 100 (9 / 10) (3 / 4) 5 80)\<lparr>reservedBytes := 10\<rparr>
   in ctl_ok c \<and> fst (Reserve 10 50 c) \<noteq> None \<and> fst (Reserve 11 50 c) = None \<and>
      fst (Reserve 10 24 c) = None"
proof -
  let ?c = "(NewController 100 (9 / 10) (3 / 4) 5 80)\<lparr>reservedBytes := 10\<rparr>"
  have ok: "ctl_ok ?c" by (simp add: ctl_ok_def NewController_def MaxInt64_def)
  show ?thesis
    using Reserve_admits_exactly [OF ok, of 50 10] Reserve_admits_exactly [OF ok, of 50 11]
      Reserve_admits_exactly [OF ok, of 24 10] ok
    by (simp add: NewController_def MaxInt64_def)
qed

text \<open>
  A reservation settles once: whatever a writer does after reserving - commit followed by
  the deferred release, or the release alone - no reserved byte is left behind, usage
  changes only by a commit that succeeded, and any further commit of it fails and leaves
  the controller as it is.\<close>

theorem reservation_settles_once:
  assumes "ctl_ok c" "0 \<le> free" "free \<le> MaxInt64" "n \<le> MaxInt64"
    and "Reserve n free c = (Some r, c1)"
  shows "(\<forall>done r2 c2 r3 c3.
            Commit a p (Some r) c1 = (done, r2, c2) \<and> Release r2 c2 = (r3, c3) \<longrightarrow>
            reservedBytes c3 = reservedBytes c \<and>
            committedBytes c3 = (if done then min MaxInt64 (committedBytes c - p + a)
                                 else committedBytes c) \<and>
            Commit a' p' r3 c3 = (False, r3, c3))
       \<and> reservedBytes (snd (Release (Some r) c1)) = reservedBytes c
       \<and> committedBytes (snd (Release (Some r) c1)) = committedBytes c"
proof (intro conjI allI impI; (elim conjE)?)
  fix good r2 c2 r3 c3
  assume C: "Commit a p (Some r) c1 = (good, r2, c2)" and R: "Release r2 c2 = (r3, c3)"
  note s = budget.settle_by_commit [OF assms C R]
  from s show "reservedBytes c3 = reservedBytes c"
    "committedBytes c3 = (if good then min MaxInt64 (committedBytes c - p + a)
                          else committedBytes c)" by simp_all
  from budget.reserve_admitted [OF assms] C obtain q where "r2 = Some q" "once_done q"
    using budget.commit_live by blast
  with R show "Commit a' p' r3 c3 = (False, r3, c3)"
    by (auto simp: Release_def Commit_def)
next
  show "reservedBytes (snd (Release (Some r) c1)) = reservedBytes c"
    "committedBytes (snd (Release (Some r) c1)) = committedBytes c"
    using budget.settle_by_release [OF assms] by (metis prod.collapse)+
qed

theorem reservation_settles_once_witness:
  "let c = NewController 100 (9 / 10) (3 / 4) 0 20;
       c1 = c\<lparr>reservedBytes := 30\<rparr>; r = \<lparr>res_bytes = 30, once_done = False\<rparr>
   in Reserve 30 500 c = (Some r, c1) \<and>
      committedBytes (snd (snd (Commit 25 5 (Some r) c1))) = 40 \<and>
      reservedBytes (snd (Release (Some r) c1)) = 0"
proof -
  let ?c = "NewController 100 (9 / 10) (3 / 4) 0 20"
  let ?r = "\<lparr>res_bytes = 30, once_done = False\<rparr>"
  have ok: "ctl_ok ?c" by (simp add: ctl_ok_def NewController_def MaxInt64_def)
  have R: "Reserve 30 500 ?c = (Some ?r, ?c\<lparr>reservedBytes := 30\<rparr>)"
    using Reserve_cases [OF ok, of 500 30]
    by (simp add: MaxInt64_def admissible_def NewController_def)
  have C: "Commit 25 5 (Some ?r) (?c\<lparr>reservedBytes := 30\<rparr>)
      = (True, Some (?r\<lparr>once_done := True\<rparr>), ?c\<lparr>reservedBytes := 0, committedBytes := 40\<rparr>)"
    by (simp add: Commit_def NewController_def saturatingAdd_def i64_def MaxInt64_def)
  have "reservedBytes (snd (Release (Some ?r) (?c\<lparr>reservedBytes := 30\<rparr>))) = reservedBytes ?c"
    using reservation_settles_once [OF ok _ _ _ R] by (simp add: MaxInt64_def)
  with R C show ?thesis
    by (simp only: Let_def) (simp add: NewController_def)
qed

text \<open>
  The watermarks are exact: for a budget in range and at most 10000 basis points the
  split computation equals the floor of \<open>value * basisPoints / 10000\<close> with no
  wrap-around, it never exceeds the budget, and a lower watermark never lies above a
  higher one.\<close>

theorem scaleBasisPoints_exact:
  assumes "0 \<le> v" "v \<le> MaxInt64" "0 \<le> b" "b \<le> b'" "b' \<le> 10000"
  shows "scaleBasisPoints v b' = v * b' div 10000 \<and> scaleBasisPoints v b' \<le> v \<and>
         scaleBasisPoints v b \<le> scaleBasisPoints v b'"
proof -
  have "v * b \<le> v * b'" using assms by (intro mult_left_mono) simp_all
  then have "v * b div 10000 \<le> v * b' div 10000" by (intro zdiv_mono1) simp_all
  then show ?thesis
    using assms scaleBasisPoints_parts(6) [of v b'] by (simp add: scaleBasisPoints_floor)
qed

theorem scaleBasisPoints_exact_witness:
  "scaleBasisPoints MaxInt64 9000 = 8301034833169298226 \<and>
   scaleBasisPoints MaxInt64 7500 \<le> scaleBasisPoints MaxInt64 9000"
  using scaleBasisPoints_exact [of MaxInt64 7500 9000] by (simp add: MaxInt64_def)

text \<open>
  Free space is reported within the \<^verbatim>\<open>int64\<close> range: for the unsigned block
  count and block size of \<^verbatim>\<open>statfs\<close>, \<open>FreeBytes\<close> returns their product, capped at
  the largest \<^verbatim>\<open>int64\<close>, and never a negative number.\<close>

theorem FreeBytes_capped:
  assumes "0 \<le> bavail" "bavail < 18446744073709551616" "0 \<le> bsize" "bsize < 18446744073709551616"
  shows "FreeBytes (Some (bavail, bsize)) = Some (min MaxInt64 (bavail * bsize))"
proof (cases "bsize = 0")
  case True
  then show ?thesis using assms by (simp add: FreeBytes_def u64_def i64_def MaxInt64_def)
next
  case False
  with assms have pos: "0 < bsize" by simp
  have iff: "bavail > MaxInt64 div bsize \<longleftrightarrow> MaxInt64 < bavail * bsize"
  proof
    assume "bavail > MaxInt64 div bsize"
    then have "(MaxInt64 div bsize + 1) * bsize \<le> bavail * bsize"
      using pos by (intro mult_right_mono) simp_all
    moreover have "MaxInt64 < (MaxInt64 div bsize + 1) * bsize"
      using div_mult_mod_eq [of MaxInt64 bsize] pos_mod_bound [OF pos, of MaxInt64]
      by (simp only: distrib_right mult_1_left)
    ultimately show "MaxInt64 < bavail * bsize" by linarith
  next
    assume *: "MaxInt64 < bavail * bsize"
    show "bavail > MaxInt64 div bsize"
    proof (rule ccontr)
      assume "\<not> bavail > MaxInt64 div bsize"
      then have "bavail * bsize \<le> MaxInt64 div bsize * bsize"
        using pos by (intro mult_right_mono) simp_all
      with * div_mult_mod_eq [of MaxInt64 bsize] pos_mod_sign [OF pos, of MaxInt64]
      show False by linarith
    qed
  qed
  have "0 \<le> bavail * bsize" using assms by simp
  then have "i64 (u64 (bavail * bsize)) = bavail * bsize" if "bavail * bsize \<le> MaxInt64"
    using that by (simp add: u64_def MaxInt64_def i64_in_range)
  with assms pos iff show ?thesis
    by (auto simp: FreeBytes_def u64_def Let_def min_def)
qed

theorem FreeBytes_capped_witness:
  "FreeBytes (Some (18446744073709551615, 4096)) = Some MaxInt64 \<and>
   FreeBytes (Some (1000, 4096)) = Some 4096000"
  using FreeBytes_capped [of 18446744073709551615 4096] FreeBytes_capped [of 1000 4096]
  by (simp add: MaxInt64_def)

end
