(* ===== verification/Cache_Store.thy ===== *)
theory Cache_Store
  imports Cache_Metadata Go_Sha256 Storage_Controller
begin

text \<open>
  The response cache of \<^verbatim>\<open>src/internal/cache/store.go\<close>: a directory of metadata
  files \<^verbatim>\<open><hash>.json\<close> and body generations \<^verbatim>\<open><hash>.body.<n>\<close>, usage
  counters, and the set of temporary files that are being written. Every operation that
  runs under the store's mutex is one function on the store and the file system;
  \<open>PutStreamVerified\<close>, which takes the mutex several times, is the composition of its
  phases. Clock readings and the random numbers of temporary names are arguments. Byte
  counts are unbounded integers: they are sizes of files and streams, far below the
  64-bit range.
\<close>

section \<open>Data\<close>

record store =
  store_root :: path
  store_bytes :: int
  store_objects :: int
  activeTemps :: "path list"

record Entry =
  entry_Metadata :: Metadata
  BodyPath :: path
  Body :: string

record TempCleanupResult =
  tc_Files :: int
  tc_Bytes :: int

record GCResult =
  gc_Objects :: int
  gc_Bytes :: int
  gc_Skipped :: int

record Candidate =
  metadataPath :: path
  bodyPath :: path
  cand_Bytes :: int
  LastUsed :: int

section \<open>Paths\<close>

definition paths :: "path \<Rightarrow> string \<Rightarrow> path \<times> path" where
  "paths rt key =
     (let hash = hex_EncodeToString (sha256_Sum256 key); dir = rt @ [take 2 hash]
      in (dir @ [hash @ ''.body''], dir @ [hash @ ''.json'']))"

section \<open>Lookup\<close>

text \<open>
  \<open>t1\<close> and \<open>t2\<close> are the two clock readings. The result is an error, a miss
  (\<open>Inr None\<close>) or a hit; the open body of a hit keeps its bytes whatever happens to the
  file afterwards.
\<close>

definition Lookup ::
  "int \<Rightarrow> int \<Rightarrow> string \<Rightarrow> int \<Rightarrow> store \<Rightarrow> fs \<Rightarrow> (cache_error + Entry option) \<times> fs" where
  "Lookup t1 t2 key ttl s f =
     (let (legacyBodyPath, mpath) = paths (store_root s) key in
      case readMetadata mpath f of
        (Inl e, f1) \<Rightarrow> (if e = ErrOs NotExist then Inr None else Inl (ErrReadMetadata e), f1)
      | (Inr m, f1) \<Rightarrow>
          if time_Sub t1 (StoredAt m) \<ge> ttl then (Inr None, f1)
          else (case bodyPathForEntry mpath legacyBodyPath m of
            Inl e \<Rightarrow> (Inl (ErrResolveBody e), f1)
          | Inr bpath \<Rightarrow>
              (case os_Stat bpath f1 of
                 (Inl e, f2) \<Rightarrow> (if e = NotExist then Inr None else Inl (ErrStatBody e), f2)
               | (Inr info, f2) \<Rightarrow>
                   if file_size info \<noteq> ContentBytes m
                   then (Inl (ErrSizeMismatch (file_size info) (ContentBytes m)), f2)
                   else (case os_Stat bpath f2 of
                     (Inl e, f3) \<Rightarrow> (if e = NotExist then Inr None else Inl (ErrOpenBody e), f3)
                   | (Inr n, f3) \<Rightarrow>
                       (Inr (Some \<lparr>entry_Metadata = m, BodyPath = bpath, Body = file_content n\<rparr>),
                        snd (os_Chtimes bpath t2 f3))))))"

section \<open>Candidates for pressure collection\<close>

text \<open>
  \<^verbatim>\<open>sort.Slice\<close> leaves the order of equal times open; the model takes the order of
  the walk for them.
\<close>

definition Candidates_visit :: "Candidate list walk_fn" where
  "Candidates_visit p n f cs =
     (if n = Directory \<or> name_Ext (path_last p) \<noteq> ''.json'' then (None, f, cs)
      else (case bodyPathForMetadata p of
        None \<Rightarrow> (None, f, cs)
      | Some legacy \<Rightarrow>
          (case readMetadata p f of
             (Inl _, f1) \<Rightarrow> (None, f1, cs)
           | (Inr m, f1) \<Rightarrow>
               (case bodyPathForEntry p legacy m of
                  Inl _ \<Rightarrow> (None, f1, cs)
                | Inr bpath \<Rightarrow>
                    (case os_Stat bpath f1 of
                       (Inl _, f2) \<Rightarrow> (None, f2, cs)
                     | (Inr info, f2) \<Rightarrow>
                         if info = Directory \<or> file_size info \<noteq> ContentBytes m then (None, f2, cs)
                         else
                           let lastUsed = (if time_IsZero (file_mtime info) then StoredAt m else file_mtime info)
                           in (None, f2,
                               cs @ [\<lparr>metadataPath = p, bodyPath = bpath,
                                      cand_Bytes = file_size info, LastUsed = lastUsed\<rparr>]))))))"

definition Candidates :: "store \<Rightarrow> fs \<Rightarrow> (Candidate list \<times> os_error option) \<times> fs" where
  "Candidates s f =
     (case WalkDir (store_root s) Candidates_visit f [] of
        (e, f', cs) \<Rightarrow>
          ((sort_key LastUsed cs, if e = Some NotExist then None else e), f'))"

definition RemoveCandidate ::
  "Candidate \<Rightarrow> store \<Rightarrow> fs \<Rightarrow> (bool \<times> cache_error option) \<times> store \<times> fs" where
  "RemoveCandidate c s f =
     (case bodyPathForMetadata (metadataPath c) of
        None \<Rightarrow> ((False, None), s, f)
      | Some legacy \<Rightarrow>
          (case readMetadata (metadataPath c) f of
             (Inl e, f1) \<Rightarrow> ((False, if e = ErrOs NotExist then None else Some e), s, f1)
           | (Inr m, f1) \<Rightarrow>
               (case bodyPathForEntry (metadataPath c) legacy m of
                  Inl _ \<Rightarrow> ((False, None), s, f1)
                | Inr bpath \<Rightarrow>
                    if bpath \<noteq> bodyPath c \<or> ContentBytes m \<noteq> cand_Bytes c
                    then ((False, None), s, f1)
                    else (case os_Remove bpath f1 of
                      (Some e, f2) \<Rightarrow>
                        ((False, if e = NotExist then None else Some (ErrOs e)), s, f2)
                    | (None, f2) \<Rightarrow>
                        let s' = s\<lparr>store_bytes := store_bytes s - cand_Bytes c,
                                   store_objects := store_objects s - 1\<rparr>
                        in (case os_Remove (metadataPath c) f2 of
                              (Some e, f3) \<Rightarrow> ((True, Some (ErrOs e)), s', f3)
                            | (None, f3) \<Rightarrow> ((True, None), s', f3))))))"

section \<open>Counters\<close>

definition Size :: "store \<Rightarrow> int \<times> int" where
  "Size s = (store_bytes s, store_objects s)"

definition Reconcile_visit :: "(int \<times> int) walk_fn" where
  "Reconcile_visit p n f acc =
     (if n = Directory \<or> name_Ext (path_last p) \<noteq> ''.json'' then (None, f, acc)
      else (case bodyPathForMetadata p of
        None \<Rightarrow> (None, f, acc)
      | Some legacy \<Rightarrow>
          (case readMetadata p f of
             (Inl _, f1) \<Rightarrow> (None, f1, acc)
           | (Inr m, f1) \<Rightarrow>
               (case bodyPathForEntry p legacy m of
                  Inl _ \<Rightarrow> (None, f1, acc)
                | Inr bpath \<Rightarrow>
                    (case os_Stat bpath f1 of
                       (Inl _, f2) \<Rightarrow> (None, f2, acc)
                     | (Inr info, f2) \<Rightarrow>
                         if info = Directory \<or> file_size info \<noteq> ContentBytes m then (None, f2, acc)
                         else (None, f2, fst acc + file_size info, snd acc + 1))))))"

definition Reconcile :: "store \<Rightarrow> fs \<Rightarrow> (int \<times> int \<times> os_error option) \<times> store \<times> fs" where
  "Reconcile s f =
     (case WalkDir (store_root s) Reconcile_visit f (0, 0) of
        (e, f', b, n) \<Rightarrow>
          let err = (if e = Some NotExist then None else e)
          in ((b, n, err),
              if err = None then s\<lparr>store_bytes := b, store_objects := n\<rparr> else s, f'))"

definition New_store :: "path \<Rightarrow> fs \<Rightarrow> (cache_error + store) \<times> fs" where
  "New_store rt f =
     (case os_MkdirAll rt f of
        (Some e, f1) \<Rightarrow> (Inl (ErrCreateDirectory e), f1)
      | (None, f1) \<Rightarrow>
          (case Reconcile \<lparr>store_root = rt, store_bytes = 0, store_objects = 0, activeTemps = []\<rparr> f1 of
             ((_, _, Some e), s, f2) \<Rightarrow> (Inl (ErrScan e), f2)
           | ((_, _, None), s, f2) \<Rightarrow> (Inr s, f2)))"

section \<open>Stale temporary files\<close>

definition Cleanup_visit :: "path list \<Rightarrow> int \<Rightarrow> TempCleanupResult walk_fn" where
  "Cleanup_visit active cutoff p n f r =
     (if n = Directory \<or> \<not> isTempName (path_last p) then (None, f, r)
      else if p \<in> set active then (None, f, r)
      else (case os_Stat p f of
        (Inl e, f1) \<Rightarrow> (Some e, f1, r)
      | (Inr info, f1) \<Rightarrow>
          if time_After (file_mtime info) cutoff then (None, f1, r)
          else (case os_Remove p f1 of
            (Some e, f2) \<Rightarrow> (Some e, f2, r)
          | (None, f2) \<Rightarrow>
              (None, f2, \<lparr>tc_Files = tc_Files r + 1, tc_Bytes = tc_Bytes r + file_size info\<rparr>))))"

definition CleanupStaleTemps ::
  "int \<Rightarrow> int \<Rightarrow> store \<Rightarrow> fs \<Rightarrow> (TempCleanupResult \<times> cache_error option) \<times> fs" where
  "CleanupStaleTemps now maxAge s f =
     (if maxAge \<le> 0 then ((\<lparr>tc_Files = 0, tc_Bytes = 0\<rparr>, Some ErrAgeNotPositive), f)
      else (case WalkDir (store_root s) (Cleanup_visit (activeTemps s) (now - maxAge)) f
                   \<lparr>tc_Files = 0, tc_Bytes = 0\<rparr> of
        (e, f', r) \<Rightarrow>
          ((r, case e of None \<Rightarrow> None | Some NotExist \<Rightarrow> None | Some e' \<Rightarrow> Some (ErrOs e')), f')))"

section \<open>Retention\<close>

definition GC_visit :: "int \<Rightarrow> (GCResult \<times> store) walk_fn" where
  "GC_visit cutoff p n f rs =
     (let (r, s) = rs; skip = (r\<lparr>gc_Skipped := gc_Skipped r + 1\<rparr>, s) in
      if n = Directory \<or> name_Ext (path_last p) \<noteq> ''.json'' then (None, f, rs)
      else (case bodyPathForMetadata p of
        None \<Rightarrow> (None, f, rs)
      | Some legacy \<Rightarrow>
          (case readMetadata p f of
             (Inl _, f1) \<Rightarrow> (None, f1, skip)
           | (Inr m, f1) \<Rightarrow>
               if time_IsZero (StoredAt m) \<or> time_After (StoredAt m) cutoff then (None, f1, rs)
               else (case bodyPathForEntry p legacy m of
                  Inl _ \<Rightarrow> (None, f1, skip)
                | Inr bpath \<Rightarrow>
                    (case os_Stat bpath f1 of
                       (Inl _, f2) \<Rightarrow> (None, f2, skip)
                     | (Inr info, f2) \<Rightarrow>
                         if info = Directory \<or> file_size info \<noteq> ContentBytes m then (None, f2, skip)
                         else (case os_Remove bpath f2 of
                           (Some _, f3) \<Rightarrow> (None, f3, skip)
                         | (None, f3) \<Rightarrow>
                             let s' = s\<lparr>store_bytes := store_bytes s - file_size info,
                                        store_objects := store_objects s - 1\<rparr>;
                                 r' = r\<lparr>gc_Objects := gc_Objects r + 1,
                                        gc_Bytes := gc_Bytes r + file_size info\<rparr>
                             in (case os_Remove p f3 of
                                   (Some _, f4) \<Rightarrow> (None, f4, r'\<lparr>gc_Skipped := gc_Skipped r' + 1\<rparr>, s')
                                 | (None, f4) \<Rightarrow> (None, f4, r', s'))))))))"

definition GC :: "int \<Rightarrow> int \<Rightarrow> store \<Rightarrow> fs \<Rightarrow> (GCResult \<times> cache_error option) \<times> store \<times> fs" where
  "GC now maxAge s f =
     (if maxAge \<le> 0
      then ((\<lparr>gc_Objects = 0, gc_Bytes = 0, gc_Skipped = 0\<rparr>, Some ErrAgeNotPositive), s, f)
      else (case WalkDir (store_root s) (GC_visit (now - maxAge)) f
                   (\<lparr>gc_Objects = 0, gc_Bytes = 0, gc_Skipped = 0\<rparr>, s) of
        (e, f', r, s') \<Rightarrow>
          ((r, case e of None \<Rightarrow> None | Some NotExist \<Rightarrow> None | Some e' \<Rightarrow> Some (ErrOs e')), s', f')))"

end
