(* ===== verification/Cache_Put.thy ===== *)
theory Cache_Put
  imports Cache_Store
begin

text \<open>
  Writing to the cache: the bounded sink that feeds the client and the body file at once,
  \<^verbatim>\<open>io.Copy\<close>, and \<open>PutStreamVerified\<close> with its phases (admission, body temporary,
  stream, metadata temporary, commit, deferred clean-up).
\<close>

section \<open>Readers and writers\<close>

text \<open>
  A source is the chunks that its \<^verbatim>\<open>Read\<close> calls deliver and the error that ends
  it (\<open>None\<close> is \<^verbatim>\<open>EOF\<close>). A downstream writer records what it accepted;
  its tape says how many bytes the coming calls accept and with which error, and calls
  beyond the tape accept everything.
\<close>

record reader =
  chunks :: "string list"
  read_error :: "string option"

record writer =
  received :: string
  tape :: "(nat \<times> string option) list"

definition writer_Write :: "string \<Rightarrow> writer \<Rightarrow> nat \<times> string option \<times> writer" where
  "writer_Write body w =
     (case tape w of
        [] \<Rightarrow> (length body, None, w\<lparr>received := received w @ body\<rparr>)
      | (n, e) # t \<Rightarrow>
          let k = min n (length body)
          in (k, e, w\<lparr>received := received w @ take k body, tape := t\<rparr>))"

text \<open>\<^verbatim>\<open>io.Copy(downstream, source)\<close>, the path that bypasses the cache.\<close>

fun copy_through :: "string list \<Rightarrow> string option \<Rightarrow> writer \<Rightarrow> io_error option \<times> writer" where
  "copy_through [] er w = (map_option ReadError er, w)"
| "copy_through (c # cs) er w =
     (case writer_Write c w of
        (n, Some e, w') \<Rightarrow> (Some (WriteError e), w')
      | (n, None, w') \<Rightarrow>
          if n \<noteq> length c then (Some ShortWrite, w') else copy_through cs er w')"

text \<open>\<^verbatim>\<open>bytesReader\<close> delivers its data in chunks of the buffer \<^verbatim>\<open>io.Copy\<close> passes.\<close>

function chunks_of :: "nat \<Rightarrow> string \<Rightarrow> string list" where
  "chunks_of n s = (if n = 0 \<or> s = [] then [] else take n s # chunks_of n (drop n s))"
  by pat_completeness auto
termination
  by (relation "measure (\<lambda>(n, s). length s)") auto

declare chunks_of.simps [simp del]

definition bytesReader :: "string \<Rightarrow> reader" where
  "bytesReader data = \<lparr>chunks = chunks_of 32768 data, read_error = None\<rparr>"

section \<open>boundedCacheWriter\<close>

record boundedCacheWriter =
  cache :: path
  downstream :: writer
  limit :: int
  written :: int
  enabled :: bool
  overflow :: bool

definition sink_Write ::
  "int \<Rightarrow> string \<Rightarrow> boundedCacheWriter \<Rightarrow> fs \<Rightarrow> (nat \<times> io_error option) \<times> boundedCacheWriter \<times> fs" where
  "sink_Write now body w f =
     (case writer_Write body (downstream w) of (n, err, d) \<Rightarrow>
        let w1 = w\<lparr>downstream := d\<rparr>; err' = map_option WriteError err in
        if n > 0 \<and> enabled w \<and> \<not> overflow w then
          if limit w \<ge> 0 \<and> int n > limit w - written w
          then ((n, err'), w1\<lparr>overflow := True, written := written w + int n\<rparr>, f)
          else (case file_Write (cache w) (take n body) now f of
                  (Some e, f1) \<Rightarrow> ((n, Some (CacheWrite e)), w1, f1)
                | (None, f1) \<Rightarrow> ((n, err'), w1\<lparr>written := written w + int n\<rparr>, f1))
        else ((n, err'), w1, f))"

text \<open>\<^verbatim>\<open>io.Copy(sink, source)\<close>: the count of bytes written and the error.\<close>

fun copy_sink ::
  "int \<Rightarrow> string list \<Rightarrow> string option \<Rightarrow> int \<Rightarrow> boundedCacheWriter \<Rightarrow> fs
     \<Rightarrow> (int \<times> io_error option) \<times> boundedCacheWriter \<times> fs" where
  "copy_sink now [] er acc w f = ((acc, map_option ReadError er), w, f)"
| "copy_sink now (c # cs) er acc w f =
     (case sink_Write now c w f of
        ((n, Some e), w', f') \<Rightarrow> ((acc + int n, Some e), w', f')
      | ((n, None), w', f') \<Rightarrow>
          if n \<noteq> length c then ((acc + int n, Some ShortWrite), w', f')
          else copy_sink now cs er (acc + int n) w' f')"

section \<open>PutStreamVerified\<close>

text \<open>The store, the file system, and the shared controller when one is configured.\<close>

record world =
  w_store :: store
  w_fs :: fs
  w_ctl :: "controller option"

definition SetController :: "controller \<Rightarrow> world \<Rightarrow> world" where
  "SetController c w = w\<lparr>w_ctl := Some c\<rparr>"

text \<open>
  What a call takes from its environment: the free bytes of the file system, the random
  numbers of the two temporary names, the time of its writes and the time it stamps.
\<close>

record put_env =
  env_free :: "os_error + int"
  rnd_body :: "nat list"
  rnd_meta :: "nat list"
  t_write :: int
  t_store :: int

datatype admission = Refuse cache_error | Bypass | Admit "reservation option"

definition put_admit :: "put_env \<Rightarrow> Metadata \<Rightarrow> world \<Rightarrow> admission \<times> world" where
  "put_admit env m w =
     (case w_ctl w of
        None \<Rightarrow> (Admit None, w)
      | Some c \<Rightarrow>
          (case env_free env of
             Inl e \<Rightarrow> (Refuse (ErrCapacity e), w)
           | Inr freeBytes \<Rightarrow>
               let (expectedBytes, sizeKnown) = contentLength (Header m) in
               if \<not> sizeKnown then (Bypass, w\<lparr>w_ctl := Some (RecordBypass 0 c)\<rparr>)
               else (case Reserve expectedBytes freeBytes c of
                       (None, c') \<Rightarrow> (Bypass, w\<lparr>w_ctl := Some c'\<rparr>)
                     | (Some r, c') \<Rightarrow> (Admit (Some r), w\<lparr>w_ctl := Some c'\<rparr>))))"

text \<open>A temporary file, registered as active in the critical section that creates it.\<close>

definition open_temp :: "path \<Rightarrow> string \<Rightarrow> nat list \<Rightarrow> int \<Rightarrow> world \<Rightarrow> (os_error + path) \<times> world" where
  "open_temp dir pre rnd now w =
     (case os_CreateTemp dir pre rnd now (w_fs w) of
        (Inl e, f) \<Rightarrow> (Inl e, w\<lparr>w_fs := f\<rparr>)
      | (Inr p, f) \<Rightarrow>
          (Inr p, w\<lparr>w_fs := f, w_store := (w_store w)\<lparr>activeTemps := p # activeTemps (w_store w)\<rparr>\<rparr>))"

text \<open>The deferred removal of a temporary file and its deregistration.\<close>

definition close_temp :: "path \<Rightarrow> bool \<Rightarrow> world \<Rightarrow> world" where
  "close_temp p keep w =
     (let w1 = (if keep then w else w\<lparr>w_fs := snd (os_Remove p (w_fs w))\<rparr>)
      in w1\<lparr>w_store := (w_store w1)\<lparr>activeTemps := removeAll p (activeTemps (w_store w1))\<rparr>\<rparr>)"

definition release :: "reservation option \<Rightarrow> world \<Rightarrow> world" where
  "release r w =
     (case w_ctl w of None \<Rightarrow> w | Some c \<Rightarrow> w\<lparr>w_ctl := Some (snd (Release r c))\<rparr>)"

definition replace :: "path \<Rightarrow> path \<Rightarrow> fs \<Rightarrow> os_error option \<times> fs" where
  "replace source destination f =
     (case os_Rename source destination f of
        (None, f1) \<Rightarrow> (None, f1)
      | (Some _, f1) \<Rightarrow>
          (case os_Stat destination f1 of
             (Inr _, f2) \<Rightarrow>
               (case os_Remove destination f2 of
                  (Some e, f3) \<Rightarrow> (Some e, f3)
                | (None, f3) \<Rightarrow> os_Rename source destination f3)
           | (Inl _, f2) \<Rightarrow> os_Rename source destination f2))"

text \<open>The previous generation of a key: its body path, its size and whether it is complete.\<close>

definition previous_generation :: "path \<Rightarrow> path \<Rightarrow> fs \<Rightarrow> (path option \<times> int \<times> bool) \<times> fs" where
  "previous_generation mpath bpath f =
     (case readMetadata mpath f of
        (Inl _, f1) \<Rightarrow> ((None, 0, False), f1)
      | (Inr m, f1) \<Rightarrow>
          (case bodyPathForEntry mpath bpath m of
             Inl _ \<Rightarrow> ((None, 0, False), f1)
           | Inr prev \<Rightarrow>
               (case os_Stat prev f1 of
                  (Inl _, f2) \<Rightarrow> ((Some prev, 0, False), f2)
                | (Inr info, f2) \<Rightarrow>
                    if info \<noteq> Directory \<and> file_size info = ContentBytes m
                    then ((Some prev, file_size info, True), f2)
                    else ((Some prev, 0, False), f2))))"

text \<open>\<^verbatim>\<open>reservation != nil && !reservation.Commit(written, previousBytes)\<close>, negated.\<close>

definition settle ::
  "int \<Rightarrow> int \<Rightarrow> reservation option \<Rightarrow> controller option \<Rightarrow> bool \<times> reservation option \<times> controller option" where
  "settle n replaced res ctl =
     (case (res, ctl) of
        (Some r, Some c) \<Rightarrow> (case Commit n replaced (Some r) c of (ok, r', c') \<Rightarrow> (ok, r', Some c'))
      | _ \<Rightarrow> (True, res, ctl))"

record commit_result =
  c_err :: "cache_error option"
  c_keepBody :: bool
  c_keepMetadata :: bool
  c_res :: "reservation option"

text \<open>
  The last critical section: replace the entry of a key by the new generation, settle the
  reservation and the counters, and drop the old body.
\<close>

definition put_commit ::
  "path \<Rightarrow> path \<Rightarrow> path \<Rightarrow> path \<Rightarrow> path \<Rightarrow> int \<Rightarrow> int \<Rightarrow> reservation option \<Rightarrow> world \<Rightarrow> commit_result \<times> world" where
  "put_commit bpath mpath bodyTemp gen metaTemp stored n res w =
     (case previous_generation mpath bpath (w_fs w) of ((prev, prevBytes, prevValid), f0) \<Rightarrow>
      case os_Rename bodyTemp gen f0 of
        (Some e, f1) \<Rightarrow>
          (\<lparr>c_err = Some (ErrCommitBody e), c_keepBody = False, c_keepMetadata = False, c_res = res\<rparr>,
           w\<lparr>w_fs := f1\<rparr>)
      | (None, f1) \<Rightarrow>
      case os_Chtimes gen stored f1 of
        (Some e, f2) \<Rightarrow>
          (\<lparr>c_err = Some (ErrAccessTime e), c_keepBody = True, c_keepMetadata = False, c_res = res\<rparr>,
           w\<lparr>w_fs := snd (os_Remove gen f2)\<rparr>)
      | (None, f2) \<Rightarrow>
      case replace metaTemp mpath f2 of
        (Some e, f3) \<Rightarrow>
          (\<lparr>c_err = Some (ErrCommitMetadata e), c_keepBody = True, c_keepMetadata = False, c_res = res\<rparr>,
           w\<lparr>w_fs := snd (os_Remove gen f3)\<rparr>)
      | (None, f3) \<Rightarrow>
      case settle n prevBytes res (w_ctl w) of
        (False, res', ctl') \<Rightarrow>
          (\<lparr>c_err = Some ErrExceededReservation, c_keepBody = True, c_keepMetadata = True, c_res = res'\<rparr>,
           w\<lparr>w_fs := snd (os_Remove gen f3), w_ctl := ctl'\<rparr>)
      | (True, res', ctl') \<Rightarrow>
          let s = w_store w;
              s' = s\<lparr>store_bytes := store_bytes s + (n - prevBytes),
                     store_objects := (if prevValid then store_objects s else store_objects s + 1)\<rparr>;
              f4 = (case prev of
                      Some q \<Rightarrow> if q \<noteq> gen then snd (os_Remove q f3) else f3
                    | None \<Rightarrow> f3)
          in (\<lparr>c_err = None, c_keepBody = True, c_keepMetadata = True, c_res = res'\<rparr>,
              w\<lparr>w_store := s', w_fs := f4, w_ctl := ctl'\<rparr>))"

text \<open>Write the metadata temporary: \<^verbatim>\<open>Write\<close>, \<^verbatim>\<open>Sync\<close>, \<^verbatim>\<open>Close\<close>.\<close>

definition write_metadata :: "path \<Rightarrow> string \<Rightarrow> int \<Rightarrow> fs \<Rightarrow> cache_error option \<times> fs" where
  "write_metadata p text now f =
     (case file_Write p text now f of
        (Some e, f1) \<Rightarrow> (Some (ErrWriteMetadata e), f1)
      | (None, f1) \<Rightarrow>
          (case sys_plain f1 of
             (Some e, f2) \<Rightarrow> (Some (ErrSyncMetadata e), f2)
           | (None, f2) \<Rightarrow>
               (case sys_plain f2 of
                  (Some e, f3) \<Rightarrow> (Some (ErrCloseMetadata e), f3)
                | (None, f3) \<Rightarrow> (None, f3))))"

text \<open>The part between the two temporaries: sync, close, verify, overflow, stamp, encode.\<close>

datatype streamed = Failed cache_error | Overflowed | Encoded Metadata string

definition finish_body ::
  "(int \<Rightarrow> string option) option \<Rightarrow> int \<Rightarrow> path \<Rightarrow> Metadata \<Rightarrow> (int \<times> io_error option) \<Rightarrow> bool \<Rightarrow> fs
     \<Rightarrow> streamed \<times> fs" where
  "finish_body verify stored gen m result over f =
     (case snd result of
        Some e \<Rightarrow> (Failed (ErrStreamBody e), f)
      | None \<Rightarrow>
      case sys_plain f of
        (Some e, f1) \<Rightarrow> (Failed (ErrSyncBody e), f1)
      | (None, f1) \<Rightarrow>
      case sys_plain f1 of
        (Some e, f2) \<Rightarrow> (Failed (ErrCloseBody e), f2)
      | (None, f2) \<Rightarrow>
      case (case verify of None \<Rightarrow> None | Some v \<Rightarrow> v (fst result)) of
        Some e \<Rightarrow> (Failed (ErrVerifyBody e), f2)
      | None \<Rightarrow>
          if over then (Overflowed, f2)
          else
            let m' = m\<lparr>StoredAt := stored, ContentBytes := fst result, BodyFile := path_last gen,
                       Header := CacheMetadataHeaders (Header m)\<rparr>
            in (case marshal_Metadata m' of
                  None \<Rightarrow> (Failed ErrEncodeMetadata, f2)
                | Some text \<Rightarrow> (Encoded m' text, f2)))"

definition generation_path :: "path \<Rightarrow> path \<Rightarrow> path" where
  "generation_path bpath bodyTemp =
     butlast bpath @ [last bpath @ ''.'' @ TrimPrefix (path_last bodyTemp) ''.body-'']"

definition new_sink :: "path \<Rightarrow> writer \<Rightarrow> int \<Rightarrow> bool \<Rightarrow> bool \<Rightarrow> boundedCacheWriter" where
  "new_sink p d expectedBytes reserved controlled =
     \<lparr>cache = p, downstream = d, limit = (if controlled then expectedBytes else -1), written = 0,
      enabled = (reserved \<or> \<not> controlled), overflow = False\<rparr>"

text \<open>From the metadata temporary to the end; the deferred calls run in reverse order.\<close>

definition put_metadata ::
  "put_env \<Rightarrow> path \<Rightarrow> path \<Rightarrow> path \<Rightarrow> path \<Rightarrow> Metadata \<Rightarrow> string \<Rightarrow> reservation option \<Rightarrow> world
     \<Rightarrow> (cache_error option \<times> bool \<times> reservation option) \<times> world" where
  "put_metadata env bpath mpath bodyTemp gen m text res w =
     (case open_temp (butlast bpath) ''.metadata-'' (rnd_meta env) (t_write env) w of
        (Inl e, w1) \<Rightarrow> ((Some (ErrCreateMetadata e), False, res), w1)
      | (Inr metaTemp, w1) \<Rightarrow>
          (case write_metadata metaTemp text (t_write env) (w_fs w1) of
             (Some e, f2) \<Rightarrow> ((Some e, False, res), close_temp metaTemp False (w1\<lparr>w_fs := f2\<rparr>))
           | (None, f2) \<Rightarrow>
               (case put_commit bpath mpath bodyTemp gen metaTemp (StoredAt m) (ContentBytes m) res
                       (w1\<lparr>w_fs := f2\<rparr>) of
                  (c, w3) \<Rightarrow>
                    ((c_err c, c_keepBody c, c_res c), close_temp metaTemp (c_keepMetadata c) w3))))"

definition PutStreamVerified ::
  "put_env \<Rightarrow> string \<Rightarrow> Metadata \<Rightarrow> reader \<Rightarrow> writer \<Rightarrow> (int \<Rightarrow> string option) option \<Rightarrow> world
     \<Rightarrow> cache_error option \<times> writer \<times> world" where
  "PutStreamVerified env key m source down verify w =
     (case put_admit env m w of
        (Refuse e, w0) \<Rightarrow> (Some e, down, w0)
      | (Bypass, w0) \<Rightarrow>
          (case copy_through (chunks source) (read_error source) down of
             (e, d) \<Rightarrow> (map_option ErrCopy e, d, w0))
      | (Admit res, w0) \<Rightarrow>
          let (bpath, mpath) = paths (store_root (w_store w0)) key in
          case os_MkdirAll (butlast bpath) (w_fs w0) of
            (Some e, f1) \<Rightarrow> (Some (ErrCreateShard e), down, release res (w0\<lparr>w_fs := f1\<rparr>))
          | (None, f1) \<Rightarrow>
          case open_temp (butlast bpath) ''.body-'' (rnd_body env) (t_write env) (w0\<lparr>w_fs := f1\<rparr>) of
            (Inl e, w1) \<Rightarrow> (Some (ErrCreateBody e), down, release res w1)
          | (Inr bodyTemp, w1) \<Rightarrow>
          let gen = generation_path bpath bodyTemp;
              sink = new_sink bodyTemp down (fst (contentLength (Header m))) (res \<noteq> None) (w_ctl w1 \<noteq> None)
          in case copy_sink (t_write env) (chunks source) (read_error source) 0 sink (w_fs w1) of
            (result, sink', f2) \<Rightarrow>
          case finish_body verify (t_store env) gen m result (overflow sink') f2 of
            (Failed e, f3) \<Rightarrow>
              (Some e, downstream sink', release res (close_temp bodyTemp False (w1\<lparr>w_fs := f3\<rparr>)))
          | (Overflowed, f3) \<Rightarrow>
              (None, downstream sink',
               release res (close_temp bodyTemp False
                 (w1\<lparr>w_fs := f3, w_ctl := map_option (RecordBypass (fst result)) (w_ctl w1)\<rparr>)))
          | (Encoded m' text, f3) \<Rightarrow>
              (case put_metadata env bpath mpath bodyTemp gen m' text res (w1\<lparr>w_fs := f3\<rparr>) of
                 ((e, keepBody, res'), w2) \<Rightarrow>
                   (e, downstream sink', release res' (close_temp bodyTemp keepBody w2))))"

definition PutStream ::
  "put_env \<Rightarrow> string \<Rightarrow> Metadata \<Rightarrow> reader \<Rightarrow> writer \<Rightarrow> world \<Rightarrow> cache_error option \<times> writer \<times> world" where
  "PutStream env key m source down w = PutStreamVerified env key m source down None w"

definition PutBytes :: "put_env \<Rightarrow> string \<Rightarrow> Metadata \<Rightarrow> string \<Rightarrow> world \<Rightarrow> cache_error option \<times> world" where
  "PutBytes env key m body w =
     (case PutStream env key m (bytesReader body) \<lparr>received = [], tape = []\<rparr> w of
        (e, _, w') \<Rightarrow> (e, w'))"

end
