(* ===== verification/Cache_Entries.thy ===== *)
theory Cache_Entries
  imports Cache_Put
begin

text \<open>
  What a cache directory means: \<open>entry_of f p\<close> is the entry that the metadata file \<open>p\<close>
  stands for, or \<open>None\<close>. The facts here are about names: the body of an entry determines
  its metadata file, bodies and temporary files are never metadata files, and so an
  operation on one entry leaves every other entry alone.
\<close>

section \<open>The entries of a directory\<close>

definition meta_at :: "fs \<Rightarrow> path \<Rightarrow> Metadata option" where
  "meta_at f p =
     (case node_at f p of
        Some (Regular d _) \<Rightarrow> if length d > maxMetadataBytes then None else unmarshal_Metadata d
      | _ \<Rightarrow> None)"

definition resolve :: "path \<Rightarrow> Metadata \<Rightarrow> path option" where
  "resolve p m =
     (case bodyPathForMetadata p of
        None \<Rightarrow> None
      | Some legacy \<Rightarrow> (case bodyPathForEntry p legacy m of Inl _ \<Rightarrow> None | Inr b \<Rightarrow> Some b))"

definition entry_of :: "fs \<Rightarrow> path \<Rightarrow> (Metadata \<times> path \<times> string) option" where
  "entry_of f p =
     (case meta_at f p of
        None \<Rightarrow> None
      | Some m \<Rightarrow>
          (case resolve p m of
             None \<Rightarrow> None
           | Some b \<Rightarrow>
               (case node_at f b of
                  Some (Regular c _) \<Rightarrow> if int (length c) = ContentBytes m then Some (m, b, c) else None
                | _ \<Rightarrow> None)))"

definition entry_size :: "fs \<Rightarrow> path \<Rightarrow> int" where
  "entry_size f p = (case entry_of f p of None \<Rightarrow> 0 | Some (m, b, c) \<Rightarrow> int (length c))"

definition entry_count :: "fs \<Rightarrow> path \<Rightarrow> int" where
  "entry_count f p = (case entry_of f p of None \<Rightarrow> 0 | Some _ \<Rightarrow> 1)"

text \<open>The usage of a directory: the bytes and the number of its complete entries.\<close>

definition usage :: "path \<Rightarrow> fs \<Rightarrow> int \<times> int" where
  "usage rt f =
     (sum_list (map (entry_size f) (walk_list rt f)), sum_list (map (entry_count f) (walk_list rt f)))"

definition counted :: "store \<Rightarrow> fs \<Rightarrow> bool" where
  "counted s f \<longleftrightarrow> (store_bytes s, store_objects s) = usage (store_root s) f"

section \<open>Names\<close>

lemma path_last_snoc [simp]: "path_last (d @ [n]) = n"
  by (simp add: path_last_def)

lemma bodyPathForMetadata_iff:
  "bodyPathForMetadata p = Some l \<longleftrightarrow>
     (\<exists>stem. p = butlast p @ [stem @ ''.json''] \<and> l = butlast p @ [stem @ ''.body''] \<and>
        length stem = 64 \<and> list_all is_hex stem \<and> path_last (butlast p) = take 2 stem)"
  (is "?L \<longleftrightarrow> ?R")
proof
  assume L: ?L
  let ?stem = "TrimSuffix (path_last p) ''.json''"
  have st: "name_Ext (path_last p) = ''.json''" "length ?stem = 64" "path_last (butlast p) = take 2 ?stem"
    "hex_DecodeString ?stem \<noteq> None" "l = butlast p @ [?stem @ ''.body'']"
    using L by (auto simp: bodyPathForMetadata_def Let_def split: if_splits)
  have ne: "p \<noteq> []" using st(1) by (auto simp: path_last_def name_Ext_def)
  have "HasSuffix (path_last p) ''.json''"
  proof -
    obtain i where "LastIndexByte (path_last p) CHR ''.'' = Some i" "drop i (path_last p) = ''.json''"
      using st(1) by (auto simp: name_Ext_def split: option.splits)
    then show ?thesis by (metis HasSuffix_append append_take_drop_id)
  qed
  then have "path_last p = ?stem @ ''.json''"
    by (auto simp: HasSuffix_iff)
  with ne have "p = butlast p @ [?stem @ ''.json'']"
    by (metis append_butlast_last_id path_last_def)
  with st hex_Decode_iff [of ?stem] show ?R by blast
next
  assume ?R
  then obtain stem where R: "p = butlast p @ [stem @ ''.json'']" "l = butlast p @ [stem @ ''.body'']"
    "length stem = 64" "list_all is_hex stem" "path_last (butlast p) = take 2 stem" by blast
  have pl: "path_last p = stem @ ''.json''" using R(1) by (metis path_last_snoc)
  have "name_Ext (stem @ ''.json'') = ''.json''"
    using name_Ext_append [of "''json''" stem] by simp
  moreover have "hex_DecodeString stem \<noteq> None" using R(3,4) by (simp only: hex_Decode_iff) simp
  ultimately show ?L using R(2,3,5) pl by (simp add: bodyPathForMetadata_def)
qed

text \<open>The name of an entry, common to its metadata and its bodies.\<close>

definition stem_of :: "path \<Rightarrow> string" where
  "stem_of p = take 64 (path_last p)"

definition is_meta :: "path \<Rightarrow> bool" where
  "is_meta p \<longleftrightarrow> bodyPathForMetadata p \<noteq> None"

definition is_body :: "path \<Rightarrow> bool" where
  "is_body p \<longleftrightarrow>
     p \<noteq> [] \<and> list_all is_hex (stem_of p) \<and> length (stem_of p) = 64 \<and>
     (path_last p = stem_of p @ ''.body'' \<or> HasPrefix (path_last p) (stem_of p @ ''.body.''))"

lemma is_metaE:
  assumes "is_meta p"
  shows "p = butlast p @ [stem_of p @ ''.json'']" "length (stem_of p) = 64" "list_all is_hex (stem_of p)"
    "path_last (butlast p) = take 2 (stem_of p)"
    "bodyPathForMetadata p = Some (butlast p @ [stem_of p @ ''.body''])"
proof -
  obtain l where l: "bodyPathForMetadata p = Some l" using assms by (auto simp: is_meta_def)
  then obtain stem where st: "p = butlast p @ [stem @ ''.json'']" "l = butlast p @ [stem @ ''.body'']"
    "length stem = 64" "list_all is_hex stem" "path_last (butlast p) = take 2 stem"
    unfolding bodyPathForMetadata_iff by blast
  have "path_last p = stem @ ''.json''" using st(1) by (metis path_last_snoc)
  then have "stem_of p = stem" using st(3) by (simp add: stem_of_def)
  with st l show "p = butlast p @ [stem_of p @ ''.json'']" "length (stem_of p) = 64"
    "list_all is_hex (stem_of p)" "path_last (butlast p) = take 2 (stem_of p)"
    "bodyPathForMetadata p = Some (butlast p @ [stem_of p @ ''.body''])" by simp_all
qed

lemma resolveE:
  assumes "resolve p m = Some b"
  shows "is_meta p" "is_body b" "butlast b = butlast p" "stem_of b = stem_of p"
proof -
  show M: "is_meta p" using assms by (auto simp: resolve_def is_meta_def split: option.splits)
  note E = is_metaE [OF M]
  have pl: "path_last p = stem_of p @ ''.json''" using E(1) by (metis path_last_snoc)
  have "b = butlast p @ [stem_of p @ ''.body''] \<or>
        (\<exists>x. b = butlast p @ [x] \<and> HasPrefix x (stem_of p @ ''.body.''))"
    using assms E(5) pl
    by (auto simp: resolve_def bodyPathForEntry_def split: option.splits if_splits)
  then show "is_body b" "butlast b = butlast p" "stem_of b = stem_of p"
    using E(2,3) by (auto simp: is_body_def stem_of_def HasPrefix_iff)
qed

lemma resolve_inj: "resolve p m = Some b \<Longrightarrow> resolve q n = Some b \<Longrightarrow> p = q"
  using resolveE [of p m b] resolveE [of q n b] is_metaE(1) by metis

lemma is_body_not_meta: "is_body p \<Longrightarrow> \<not> is_meta p"
proof
  assume b: "is_body p" and m: "is_meta p"
  have "path_last p = stem_of p @ ''.json''" using is_metaE(1) [OF m] by (metis path_last_snoc)
  with b show False by (auto simp: is_body_def HasPrefix_iff)
qed

lemma hex_not_dot: "is_hex c \<Longrightarrow> c \<noteq> CHR ''.''"
  by (auto simp: is_hex_def is_digit_def byte_def)

lemma temp_head: "isTempName n \<Longrightarrow> n \<noteq> [] \<and> hd n = CHR ''.''"
  by (auto simp: isTempName_def HasPrefix_iff)

lemma stem_head:
  assumes "length (stem_of p) = 64" "list_all is_hex (stem_of p)"
  shows "\<not> isTempName (path_last p)"
proof
  assume t: "isTempName (path_last p)"
  have "stem_of p \<noteq> []" using assms(1) by auto
  then have "hd (stem_of p) = hd (path_last p)" by (simp add: stem_of_def)
  with temp_head [OF t] assms(2) \<open>stem_of p \<noteq> []\<close> show False
    using hex_not_dot by (metis list.set_sel(1) list_all_iff)
qed

lemma is_meta_not_temp: "is_meta p \<Longrightarrow> \<not> isTempName (path_last p)"
  using is_metaE stem_head by blast

lemma is_body_not_temp: "is_body p \<Longrightarrow> \<not> isTempName (path_last p)"
  using stem_head by (simp add: is_body_def)

section \<open>Frames of the abstraction\<close>

lemma meta_at_cong: "node_at f p = node_at g p \<Longrightarrow> meta_at f p = meta_at g p"
  by (simp add: meta_at_def)

lemma entry_of_Some:
  "entry_of f p = Some (m, b, c) \<longleftrightarrow>
     meta_at f p = Some m \<and> resolve p m = Some b \<and> (\<exists>t. node_at f b = Some (Regular c t)) \<and>
     int (length c) = ContentBytes m"
  by (auto simp: entry_of_def split: option.splits node.splits if_splits)

lemma entry_of_is_meta: "entry_of f p = Some x \<Longrightarrow> is_meta p"
  by (cases x) (auto simp: entry_of_Some dest: resolveE(1))

lemma entry_of_node: "entry_of f p \<noteq> None \<Longrightarrow> node_at f p \<noteq> None"
  by (auto simp: entry_of_def meta_at_def split: option.splits)

text \<open>The files that an entry depends on: its metadata and the bodies of the same name.\<close>

definition touches :: "path \<Rightarrow> path \<Rightarrow> bool" where
  "touches p q \<longleftrightarrow> q = p \<or> is_body q \<and> butlast q = butlast p \<and> stem_of q = stem_of p"

text \<open>What matters of a file to an entry: the bytes of a regular file, not its time.\<close>

definition file_at :: "fs \<Rightarrow> path \<Rightarrow> string option" where
  "file_at f p = (case node_at f p of Some (Regular c _) \<Rightarrow> Some c | _ \<Rightarrow> None)"

lemma meta_at_file:
  "meta_at f p =
     (case file_at f p of
        None \<Rightarrow> None
      | Some d \<Rightarrow> if length d > maxMetadataBytes then None else unmarshal_Metadata d)"
  by (simp add: meta_at_def file_at_def split: option.splits node.splits)

lemma entry_of_file:
  "entry_of f p =
     (case meta_at f p of
        None \<Rightarrow> None
      | Some m \<Rightarrow>
          (case resolve p m of
             None \<Rightarrow> None
           | Some b \<Rightarrow>
               (case file_at f b of
                  Some c \<Rightarrow> if int (length c) = ContentBytes m then Some (m, b, c) else None
                | None \<Rightarrow> None)))"
  by (simp add: entry_of_def file_at_def split: option.splits node.splits)

lemma entry_of_file_cong:
  assumes "is_meta p" "\<And>q. touches p q \<Longrightarrow> file_at f q = file_at g q"
  shows "entry_of f p = entry_of g p"
proof -
  have m: "meta_at f p = meta_at g p" using assms(2) [of p] by (simp add: meta_at_file touches_def)
  have "file_at f b = file_at g b" if "resolve p x = Some b" for x b
    using resolveE [OF that] by (intro assms(2)) (simp add: touches_def)
  then show ?thesis by (auto simp: entry_of_file m split: option.splits)
qed

lemma entry_of_cong:
  assumes "is_meta p" "\<And>q. touches p q \<Longrightarrow> node_at f q = node_at g q"
  shows "entry_of f p = entry_of g p"
  using assms(1) by (rule entry_of_file_cong) (simp add: file_at_def assms(2))

lemma touches_same:
  assumes "is_meta p" "is_meta q" "touches p b" "touches q b"
  shows "p = q"
proof (cases "is_body b")
  case True
  then have "b \<noteq> p" "b \<noteq> q" using assms(1,2) is_body_not_meta by auto
  with assms(3,4) have "butlast p = butlast q" "stem_of p = stem_of q"
    by (simp_all add: touches_def)
  then have "butlast p @ [stem_of p @ ''.json''] = butlast q @ [stem_of q @ ''.json'']" by simp
  then show ?thesis using is_metaE(1) [OF assms(1)] is_metaE(1) [OF assms(2)] by simp
next
  case False
  with assms(3,4) show ?thesis by (auto simp: touches_def)
qed

lemma entry_of_all_cong: "node_at f = node_at g \<Longrightarrow> entry_of f = entry_of g"
  by (simp add: entry_of_def meta_at_def fun_eq_iff cong: option.case_cong)

lemma usage_cong:
  assumes "node_at f = node_at g"
  shows "usage rt f = usage rt g"
proof -
  have "entry_size f = entry_size g" "entry_count f = entry_count g"
    by (simp_all add: fun_eq_iff entry_size_def entry_count_def entry_of_all_cong [OF assms])
  then show ?thesis by (simp add: usage_def walk_list_cong [OF assms])
qed

lemma counted_cong: "node_at f = node_at g \<Longrightarrow> counted s f = counted s g"
  using usage_cong [of f g "store_root s"] by (simp add: counted_def)

section \<open>Usage\<close>

lemma entry_in_walk: "prefix rt p \<Longrightarrow> entry_of f p \<noteq> None \<Longrightarrow> p \<in> set (walk_list rt f)"
  unfolding set_walk_list using entry_of_node by blast

lemma usage_sums:
  assumes "finite A" "\<And>p. p \<in> A \<Longrightarrow> prefix rt p" "\<And>p. prefix rt p \<Longrightarrow> entry_of f p \<noteq> None \<Longrightarrow> p \<in> A"
  shows "usage rt f = (sum (entry_size f) A, sum (entry_count f) A)"
proof -
  let ?W = "set (walk_list rt f)"
  have sub: "sum h ?W = sum h A" if "\<And>p. entry_of f p = None \<Longrightarrow> h p = 0" for h :: "path \<Rightarrow> int"
  proof -
    define E where "E = {p. entry_of f p \<noteq> None}"
    have z: "h p = 0" if "p \<notin> E" for p using that \<open>\<And>p. entry_of f p = None \<Longrightarrow> h p = 0\<close> unfolding E_def by blast
    have W: "p \<in> ?W \<longleftrightarrow> p \<in> A" if "p \<in> E" for p
      using that assms(2) [of p] assms(3) [of p] entry_in_walk [of rt p f]
      unfolding E_def set_walk_list by blast
    have "sum h ?W = sum h (?W \<inter> E)" using z by (intro sum.mono_neutral_right) auto
    also have "?W \<inter> E = A \<inter> E" using W by blast
    also have "sum h (A \<inter> E) = sum h A" using z assms(1) by (intro sum.mono_neutral_left) auto
    finally show ?thesis .
  qed
  have "sum_list (map h (walk_list rt f)) = sum h ?W" for h :: "path \<Rightarrow> int"
    by (simp add: sum_list_distinct_conv_sum_set)
  then show ?thesis
    using sub [of "entry_size f"] sub [of "entry_count f"]
    by (simp add: usage_def entry_size_def entry_count_def)
qed

text \<open>A change that touches one entry moves the usage by that entry.\<close>

lemma usage_change:
  assumes "prefix rt p" "\<And>q. is_meta q \<Longrightarrow> q \<noteq> p \<Longrightarrow> entry_of g q = entry_of f q"
  shows "usage rt g = (fst (usage rt f) + (entry_size g p - entry_size f p),
                       snd (usage rt f) + (entry_count g p - entry_count f p))"
proof -
  let ?A = "insert p (set (walk_list rt f) \<union> set (walk_list rt g))"
  have q: "entry_of g q = entry_of f q" if "q \<noteq> p" for q
    using that assms(2) entry_of_is_meta by (cases "is_meta q") (metis not_Some_eq)+
  have A: "finite ?A" "\<And>q. q \<in> ?A \<Longrightarrow> prefix rt q"
    using assms(1) by (simp, auto simp: set_walk_list)
  have "usage rt f = (sum (entry_size f) ?A, sum (entry_count f) ?A)"
  proof (rule usage_sums [OF A])
    fix q assume "prefix rt q" "entry_of f q \<noteq> None"
    then have "q \<in> set (walk_list rt f)" by (rule entry_in_walk)
    then show "q \<in> ?A" by simp
  qed
  moreover have "usage rt g = (sum (entry_size g) ?A, sum (entry_count g) ?A)"
  proof (rule usage_sums [OF A])
    fix q assume "prefix rt q" "entry_of g q \<noteq> None"
    then have "q \<in> set (walk_list rt g)" by (rule entry_in_walk)
    then show "q \<in> ?A" by simp
  qed
  moreover have "sum (entry_size g) (?A - {p}) = sum (entry_size f) (?A - {p})"
    "sum (entry_count g) (?A - {p}) = sum (entry_count f) (?A - {p})"
    using q by (auto intro!: sum.cong simp: entry_size_def entry_count_def)
  ultimately show ?thesis
    using A(1) by (simp add: sum.remove [of ?A p "entry_size f"] sum.remove [of ?A p "entry_size g"]
        sum.remove [of ?A p "entry_count f"] sum.remove [of ?A p "entry_count g"])
qed

lemma usage_same:
  assumes "\<And>q. is_meta q \<Longrightarrow> entry_of g q = entry_of f q"
  shows "usage rt g = usage rt f"
proof -
  have "entry_of g rt = entry_of f rt"
    using assms entry_of_is_meta by (cases "is_meta rt") (metis not_Some_eq)+
  then have "entry_size g rt = entry_size f rt" "entry_count g rt = entry_count f rt"
    by (simp_all add: entry_size_def entry_count_def)
  then show ?thesis using usage_change [of rt rt g f] assms by simp
qed

text \<open>Files that belong to no entry do not matter; the files of one entry matter to it alone.\<close>

definition foreign :: "path \<Rightarrow> bool" where
  "foreign q \<longleftrightarrow> \<not> is_meta q \<and> \<not> is_body q"

lemma temp_foreign: "isTempName (path_last q) \<Longrightarrow> foreign q"
  using is_meta_not_temp is_body_not_temp by (auto simp: foreign_def)

lemma entry_of_foreign:
  assumes "is_meta p" "\<And>q. \<not> foreign q \<Longrightarrow> node_at g q = node_at f q"
  shows "entry_of g p = entry_of f p"
  using assms(1) by (rule entry_of_cong) (use assms in \<open>auto simp: touches_def foreign_def\<close>)

lemma entry_of_other:
  assumes "is_meta p" "is_meta p'" "p' \<noteq> p"
    and "\<And>q. \<not> foreign q \<Longrightarrow> \<not> touches p q \<Longrightarrow> node_at g q = node_at f q"
  shows "entry_of g p' = entry_of f p'"
  using assms(2)
proof (rule entry_of_cong)
  fix q assume t: "touches p' q"
  then have "\<not> foreign q" using assms(2) by (auto simp: touches_def foreign_def)
  moreover have "\<not> touches p q" using touches_same [OF assms(1,2) _ t] assms(3) by blast
  ultimately show "node_at g q = node_at f q" by (rule assms(4))
qed

lemma entry_of_other_file:
  assumes "is_meta p" "is_meta p'" "p' \<noteq> p"
    and "\<And>q. \<not> foreign q \<Longrightarrow> \<not> touches p q \<Longrightarrow> file_at g q = file_at f q"
  shows "entry_of g p' = entry_of f p'"
  using assms(2)
proof (rule entry_of_file_cong)
  fix q assume t: "touches p' q"
  then have "\<not> foreign q" using assms(2) by (auto simp: touches_def foreign_def)
  moreover have "\<not> touches p q" using touches_same [OF assms(1,2) _ t] assms(3) by blast
  ultimately show "file_at g q = file_at f q" by (rule assms(4))
qed

lemma touches_self [simp]: "touches p p"
  by (simp add: touches_def)

lemma touches_resolve: "resolve p m = Some b \<Longrightarrow> touches p b"
  using resolveE by (simp add: touches_def)

lemma resolve_not_meta: "resolve p m = Some b \<Longrightarrow> b \<noteq> p"
  using resolveE is_body_not_meta by blast

text \<open>Losing the body, or the body and the metadata, removes an entry.\<close>

lemma entry_of_lost:
  assumes "meta_at f p = Some m" "resolve p m = Some b" "node_at g b = None"
    "node_at g p = node_at f p \<or> node_at g p = None"
  shows "entry_of g p = None"
  using assms by (auto simp: entry_of_def meta_at_def split: option.splits node.splits if_splits)

section \<open>Reading\<close>

lemma readMetadata_frame: "readMetadata p f = (r, g) \<Longrightarrow> node_at g = node_at f"
  using os_ReadFile_frame
  by (fastforce simp: readMetadata_def split: prod.splits sum.splits if_splits option.splits)

lemma readMetadata_Inr: "readMetadata p f = (Inr m, g) \<Longrightarrow> meta_at f p = Some m"
  using os_ReadFile_Inr [of p f]
  by (fastforce simp: readMetadata_def meta_at_def split: prod.splits sum.splits if_splits option.splits)

lemma no_faults_Stat:
  "faults f = [] \<Longrightarrow> os_Stat p f = (case node_at f p of None \<Rightarrow> Inl NotExist | Some n \<Rightarrow> Inr n, f)"
  by (simp add: os_Stat_def split: option.splits)

lemma no_faults_read:
  assumes "faults f = []"
  shows "readMetadata p f =
    (case node_at f p of
       None \<Rightarrow> Inl (ErrOs NotExist)
     | Some Directory \<Rightarrow> Inl (ErrOs OtherError)
     | Some (Regular d _) \<Rightarrow>
         if length d > maxMetadataBytes then Inl ErrMetadataTooLarge
         else (case unmarshal_Metadata d of None \<Rightarrow> Inl ErrDecodeMetadata | Some m \<Rightarrow> Inr m), f)"
  using assms
  by (auto simp: readMetadata_def os_ReadFile_def no_faults_Stat split: option.splits node.splits)

lemma no_faults_read_meta:
  assumes "faults f = []"
  shows "(case readMetadata p f of (Inr m, f1) \<Rightarrow> meta_at f p = Some m \<and> f1 = f
          | (Inl _, f1) \<Rightarrow> meta_at f p = None \<and> f1 = f)"
  using assms by (auto simp: no_faults_read meta_at_def split: option.splits node.splits)

end
