(* ===== verification/Cache_Collect.thy ===== *)
theory Cache_Collect
  imports Cache_Entries
begin

text \<open>
  Lookups and collections: the counters agree with the directory after every operation
  and under every pattern of failing system calls; retention removes exactly the expired
  entries; pressure candidates are the complete entries in order of use, and a candidate
  that was replaced in the meantime is kept; temporary files in use survive the clean-up;
  and no operation touches a file that is not the cache's own.
\<close>

section \<open>Counters\<close>

lemma visit_ext: "name_Ext (path_last p) \<noteq> ''.json'' \<Longrightarrow> bodyPathForMetadata p = None"
  by (simp add: bodyPathForMetadata_def)

lemma entry_of_no_path: "bodyPathForMetadata p = None \<Longrightarrow> entry_of f p = None"
  by (simp add: entry_of_def resolve_def split: option.splits)

lemma entry_of_directory: "node_at f p = Some Directory \<Longrightarrow> entry_of f p = None"
  by (simp add: entry_of_def meta_at_def)

lemma entry_of_steps:
  assumes "bodyPathForMetadata p = Some legacy"
  shows "meta_at f p = None \<Longrightarrow> entry_of f p = None"
    "meta_at f p = Some m \<Longrightarrow> bodyPathForEntry p legacy m = Inl e \<Longrightarrow> entry_of f p = None"
    "meta_at f p = Some m \<Longrightarrow> bodyPathForEntry p legacy m = Inr b \<Longrightarrow> node_at f b = None \<Longrightarrow>
       entry_of f p = None"
    "meta_at f p = Some m \<Longrightarrow> bodyPathForEntry p legacy m = Inr b \<Longrightarrow> node_at f b = Some n \<Longrightarrow>
       entry_of f p = (if n = Directory \<or> file_size n \<noteq> ContentBytes m then None
                       else Some (m, b, file_content n))"
  using assms by (cases n; auto simp: entry_of_def resolve_def)+

text \<open>
  The cases that the callbacks of \<open>Candidates\<close>, \<open>Reconcile\<close> and \<open>GC\<close> have in common, when
  no system call fails.
\<close>

lemma probe_cases [consumes 2, case_names skip unreadable unresolved missing wrong good]:
  assumes "faults f = []" "node_at f p = Some n"
  obtains (skip) "n = Directory \<or> name_Ext (path_last p) \<noteq> ''.json'' \<or> bodyPathForMetadata p = None"
      "entry_of f p = None"
  | (unreadable) legacy e where "n \<noteq> Directory" "name_Ext (path_last p) = ''.json''"
      "bodyPathForMetadata p = Some legacy" "readMetadata p f = (Inl e, f)" "meta_at f p = None"
      "entry_of f p = None"
  | (unresolved) legacy m e where "n \<noteq> Directory" "name_Ext (path_last p) = ''.json''"
      "bodyPathForMetadata p = Some legacy" "readMetadata p f = (Inr m, f)" "meta_at f p = Some m"
      "bodyPathForEntry p legacy m = Inl e" "entry_of f p = None"
  | (missing) legacy m b where "n \<noteq> Directory" "name_Ext (path_last p) = ''.json''"
      "bodyPathForMetadata p = Some legacy" "readMetadata p f = (Inr m, f)" "meta_at f p = Some m"
      "bodyPathForEntry p legacy m = Inr b" "os_Stat b f = (Inl NotExist, f)" "entry_of f p = None"
  | (wrong) legacy m b info where "n \<noteq> Directory" "name_Ext (path_last p) = ''.json''"
      "bodyPathForMetadata p = Some legacy" "readMetadata p f = (Inr m, f)" "meta_at f p = Some m"
      "bodyPathForEntry p legacy m = Inr b" "os_Stat b f = (Inr info, f)"
      "info = Directory \<or> file_size info \<noteq> ContentBytes m" "entry_of f p = None"
  | (good) legacy m b c t where "n \<noteq> Directory" "name_Ext (path_last p) = ''.json''"
      "bodyPathForMetadata p = Some legacy" "readMetadata p f = (Inr m, f)" "meta_at f p = Some m"
      "bodyPathForEntry p legacy m = Inr b" "os_Stat b f = (Inr (Regular c t), f)"
      "node_at f b = Some (Regular c t)" "resolve p m = Some b"
      "int (length c) = ContentBytes m" "entry_of f p = Some (m, b, c)"
proof (cases "n = Directory \<or> bodyPathForMetadata p = None")
  case True
  then have "entry_of f p = None" using assms(2) entry_of_no_path entry_of_directory by auto
  with True skip show ?thesis by blast
next
  case False
  then obtain legacy where l: "n \<noteq> Directory" "bodyPathForMetadata p = Some legacy" by auto
  have x: "name_Ext (path_last p) = ''.json''" using visit_ext l(2) by fastforce
  note R = no_faults_read_meta [OF assms(1), of p]
  note S = entry_of_steps [OF l(2), of f]
  show ?thesis
  proof (cases "meta_at f p")
    case None
    then obtain e where "readMetadata p f = (Inl e, f)" using R by (auto split: prod.splits sum.splits)
    with unreadable l x None S(1) show ?thesis by blast
  next
    case (Some m)
    then have r: "readMetadata p f = (Inr m, f)" using R by (auto split: prod.splits sum.splits)
    show ?thesis
    proof (cases "bodyPathForEntry p legacy m")
      case (Inl e)
      with unresolved l x r Some S(2) show ?thesis by blast
    next
      case (Inr b)
      have st: "os_Stat b f = (case node_at f b of None \<Rightarrow> Inl NotExist | Some n \<Rightarrow> Inr n, f)"
        by (rule no_faults_Stat [OF assms(1)])
      show ?thesis
      proof (cases "node_at f b")
        case None
        then show ?thesis using missing [OF l(1) x l(2) r Some Inr] st S(3) [OF Some Inr] by simp
      next
        case (Some info)
        note E = S(4) [OF \<open>meta_at f p = Some m\<close> Inr Some]
        show ?thesis
        proof (cases "info = Directory \<or> file_size info \<noteq> ContentBytes m")
          case True
          then show ?thesis
            using wrong [OF l(1) x l(2) r \<open>meta_at f p = Some m\<close> Inr, of info] st Some E by simp
        next
          case False
          then obtain c t where "info = Regular c t" by (cases info) auto
          then show ?thesis
            using good [OF l(1) x l(2) r \<open>meta_at f p = Some m\<close> Inr, of c t] st Some E False l(2) Inr
            by (simp add: resolve_def)
        qed
      qed
    qed
  qed
qed

lemma Reconcile_visit_step:
  assumes "faults f = []" "node_at f p = Some n"
  shows "Reconcile_visit p n f acc = (None, f, fst acc + entry_size f p, snd acc + entry_count f p)"
  using assms by (cases rule: probe_cases)
    (auto simp: Reconcile_visit_def entry_size_def entry_count_def)

lemma Reconcile_loop:
  assumes "faults f = []" "\<And>p. p \<in> set ps \<Longrightarrow> node_at f p \<noteq> None"
  shows "walk_loop Reconcile_visit (map (\<lambda>p. (p, the (node_at f p))) ps) f acc =
    (None, f, fst acc + sum_list (map (entry_size f) ps), snd acc + sum_list (map (entry_count f) ps))"
  using assms(2)
proof (induction ps arbitrary: acc)
  case (Cons p ps)
  then obtain n where n: "node_at f p = Some n" by force
  have sp: "sys_plain f = (None, f)" using assms(1) by (simp add: sys_plain_def)
  have IH: "walk_loop Reconcile_visit (map (\<lambda>p. (p, the (node_at f p))) ps) f acc' =
      (None, f, fst acc' + sum_list (map (entry_size f) ps), snd acc' + sum_list (map (entry_count f) ps))"
    for acc'
    by (rule Cons.IH) (simp add: Cons.prems)
  show ?case by (simp add: n sp Reconcile_visit_step [OF assms(1) n] IH add.assoc)
qed simp

lemma Reconcile_exact:
  assumes "faults f = []" "node_at f (store_root s) \<noteq> None"
  shows "Reconcile s f =
    ((fst (usage (store_root s) f), snd (usage (store_root s) f), None),
     s\<lparr>store_bytes := fst (usage (store_root s) f), store_objects := snd (usage (store_root s) f)\<rparr>, f)"
proof -
  obtain n where n: "node_at f (store_root s) = Some n" using assms(2) by blast
  have w: "\<And>p. p \<in> set (walk_list (store_root s) f) \<Longrightarrow> node_at f p \<noteq> None"
    by (simp add: set_walk_list)
  show ?thesis
    using Reconcile_loop [where acc = "(0, 0)", OF assms(1) w] n
    by (simp add: Reconcile_def WalkDir_def no_faults_Stat [OF assms(1)] usage_def)
qed

text \<open>Only the counters and the bookkeeping of failing calls change in a reconciliation.\<close>

lemma Reconcile_counted:
  assumes "faults f = []" "node_at f (store_root s) \<noteq> None" "Reconcile s f = (r, s', g)"
  shows "counted s' g"
  using assms by (auto simp: Reconcile_exact counted_def)

section \<open>Retention under failing calls\<close>

lemma entry_gone:
  assumes "entry_of f p = Some (m, b, c)" "node_at g b = None"
    "node_at g p = node_at f p \<or> node_at g p = None"
    "\<And>q. q \<noteq> b \<Longrightarrow> q \<noteq> p \<Longrightarrow> node_at g q = node_at f q"
  shows "entry_of g p = None" "is_meta q \<Longrightarrow> q \<noteq> p \<Longrightarrow> entry_of g q = entry_of f q"
    "prefix rt p \<Longrightarrow> usage rt g = (fst (usage rt f) - int (length c), snd (usage rt f) - 1)"
proof -
  have E: "meta_at f p = Some m" "resolve p m = Some b" using assms(1) by (simp_all add: entry_of_Some)
  show gone: "entry_of g p = None" using entry_of_lost [OF E assms(2,3)] .
  have other: "entry_of g q = entry_of f q" if "is_meta q" "q \<noteq> p" for q
    using resolveE(1) [OF E(2)] that
  proof (rule entry_of_other)
    fix x assume "\<not> touches p x"
    then have "x \<noteq> b" "x \<noteq> p" using touches_resolve [OF E(2)] by auto
    then show "node_at g x = node_at f x" by (rule assms(4))
  qed
  then show "is_meta q \<Longrightarrow> q \<noteq> p \<Longrightarrow> entry_of g q = entry_of f q" .
  show "usage rt g = (fst (usage rt f) - int (length c), snd (usage rt f) - 1)" if "prefix rt p"
    using usage_change [OF that other] gone assms(1) by (simp add: entry_size_def entry_count_def)
qed

text \<open>Whatever fails, a visit either changes nothing or removes one expired entry.\<close>

definition removed_entry :: "fs \<Rightarrow> path \<Rightarrow> Metadata \<Rightarrow> string \<Rightarrow> fs \<Rightarrow> bool" where
  "removed_entry f p m c g \<longleftrightarrow>
     (\<exists>b. entry_of f p = Some (m, b, c) \<and> node_at g b = None \<and>
        (node_at g p = node_at f p \<or> node_at g p = None) \<and>
        (\<forall>q. q \<noteq> b \<longrightarrow> q \<noteq> p \<longrightarrow> node_at g q = node_at f q))"

lemma removed_entryD:
  assumes "removed_entry f p m c g"
  shows "entry_of g p = None" "is_meta q \<Longrightarrow> q \<noteq> p \<Longrightarrow> entry_of g q = entry_of f q"
    "prefix rt p \<Longrightarrow> usage rt g = (fst (usage rt f) - int (length c), snd (usage rt f) - 1)"
    "foreign q \<Longrightarrow> node_at g q = node_at f q" "is_meta p"
    "is_meta q \<Longrightarrow> q \<noteq> p \<Longrightarrow> node_at g q = node_at f q"
proof -
  obtain b where b: "entry_of f p = Some (m, b, c)" "node_at g b = None"
    "node_at g p = node_at f p \<or> node_at g p = None"
    "\<And>q. q \<noteq> b \<Longrightarrow> q \<noteq> p \<Longrightarrow> node_at g q = node_at f q"
    using assms unfolding removed_entry_def by blast
  show "entry_of g p = None" "is_meta q \<Longrightarrow> q \<noteq> p \<Longrightarrow> entry_of g q = entry_of f q"
    "prefix rt p \<Longrightarrow> usage rt g = (fst (usage rt f) - int (length c), snd (usage rt f) - 1)"
    using entry_gone [OF b] by blast+
  show m: "is_meta p" using b(1) by (rule entry_of_is_meta)
  have ib: "is_body b" using b(1) by (auto simp: entry_of_Some dest: resolveE(2))
  show "foreign q \<Longrightarrow> node_at g q = node_at f q"
    using m ib by (intro b(4)) (auto simp: foreign_def)
  show "is_meta q \<Longrightarrow> q \<noteq> p \<Longrightarrow> node_at g q = node_at f q"
    using ib is_body_not_meta by (intro b(4)) auto
qed

text \<open>The last part of a visit: the body exists or not, and the removals succeed or not.\<close>

lemma GC_removal:
  assumes mt: "meta_at f p = Some m" and rs: "resolve p m = Some b" and n1: "node_at f1 = node_at f"
    and v: "(let skip = (r\<lparr>gc_Skipped := gc_Skipped r + 1\<rparr>, s) in case os_Stat b f1 of
               (Inl _, f2) \<Rightarrow> (None, f2, skip)
             | (Inr info, f2) \<Rightarrow>
                 if info = Directory \<or> file_size info \<noteq> ContentBytes m
                 then (None, f2, skip)
                 else (case os_Remove b f2 of
                   (None, f3) \<Rightarrow>
                     let s' = s\<lparr>store_bytes := store_bytes s - file_size info,
                                store_objects := store_objects s - 1\<rparr>;
                         r' = r\<lparr>gc_Objects := gc_Objects r + 1, gc_Bytes := gc_Bytes r + file_size info\<rparr>
                     in (case os_Remove p f3 of
                           (Some _, f4) \<Rightarrow> (None, f4, r'\<lparr>gc_Skipped := gc_Skipped r' + 1\<rparr>, s')
                         | (None, f4) \<Rightarrow> (None, f4, r', s'))
                 | (Some _, f3) \<Rightarrow> (None, f3, skip)))
           = (e, g, r', s')"
  shows "e = None \<and>
    (node_at g = node_at f \<and> s' = s \<and> gc_Objects r' = gc_Objects r \<and> gc_Bytes r' = gc_Bytes r \<or>
     (\<exists>c. removed_entry f p m c g \<and>
        s' = s\<lparr>store_bytes := store_bytes s - int (length c), store_objects := store_objects s - 1\<rparr> \<and>
        gc_Objects r' = gc_Objects r + 1 \<and> gc_Bytes r' = gc_Bytes r + int (length c)))"
proof -
  obtain r2 f2 where st: "os_Stat b f1 = (r2, f2)" by fastforce
  have n2: "node_at f2 = node_at f" using os_Stat_frame [OF st] n1 by simp
  obtain r3 f3 where rm: "os_Remove b f2 = (r3, f3)" by fastforce
  obtain r4 f4 where rp: "os_Remove p f3 = (r4, f4)" by fastforce
  show ?thesis
  proof (cases "\<exists>info. r2 = Inr info \<and> info \<noteq> Directory \<and> file_size info = ContentBytes m \<and> r3 = None")
    case False
    show ?thesis
    proof (cases r2)
      case (Inl e2)
      with v n2 show ?thesis by (auto simp: st Let_def)
    next
      case (Inr info)
      show ?thesis
      proof (cases "info = Directory \<or> file_size info \<noteq> ContentBytes m")
        case True
        with v n2 Inr show ?thesis by (auto simp: st Let_def)
      next
        case ok: False
        with False Inr obtain e3 where "r3 = Some e3" by auto
        with v n2 Inr ok os_Remove_cases [OF rm] show ?thesis by (auto simp: st rm Let_def)
      qed
    qed
  next
    case True
    then obtain c t where c: "r2 = Inr (Regular c t)" "int (length c) = ContentBytes m" "r3 = None"
      by (metis file_info_simps(2) node.exhaust)
    have nb: "node_at f b = Some (Regular c t)"
      using os_Stat_Inr [of b f1 "Regular c t" f2] st c(1) n1 by simp
    have en: "entry_of f p = Some (m, b, c)" and bp: "b \<noteq> p"
      using mt rs nb c(2) by (auto simp: entry_of_Some dest: resolve_not_meta)
    have n3: "node_at f3 = (node_at f)(b := None)" using os_Remove_cases [OF rm] c(3) n2 by auto
    have n4: "node_at f4 = node_at f3 \<or> node_at f4 = (node_at f3)(p := None)"
      using os_Remove_cases [OF rp] by auto
    have rem: "removed_entry f p m c f4"
      unfolding removed_entry_def using en n3 n4 bp by (intro exI [of _ b]) auto
    show ?thesis
      using v c rem by (cases r4) (auto simp: st rm rp Let_def)
  qed
qed

lemma GC_visit_cases:
  assumes v: "GC_visit cutoff p n f (r, s) = (e, g, r', s')"
  shows "e = None \<and>
    (node_at g = node_at f \<and> s' = s \<and> gc_Objects r' = gc_Objects r \<and> gc_Bytes r' = gc_Bytes r \<or>
     (\<exists>m c. removed_entry f p m c g \<and> StoredAt m \<noteq> 0 \<and> StoredAt m \<le> cutoff \<and>
        s' = s\<lparr>store_bytes := store_bytes s - int (length c), store_objects := store_objects s - 1\<rparr> \<and>
        gc_Objects r' = gc_Objects r + 1 \<and> gc_Bytes r' = gc_Bytes r + int (length c)))"
proof -
  obtain r1 f1 where rd: "readMetadata p f = (r1, f1)" by fastforce
  have n1: "node_at f1 = node_at f" by (rule readMetadata_frame [OF rd])
  show ?thesis
  proof (cases "n = Directory \<or> name_Ext (path_last p) \<noteq> ''.json'' \<or> bodyPathForMetadata p = None")
    case True
    then have "GC_visit cutoff p n f (r, s) = (None, f, r, s)" by (auto simp: GC_visit_def Let_def)
    with v show ?thesis by simp
  next
    case False
    then obtain legacy where l: "n \<noteq> Directory" "name_Ext (path_last p) = ''.json''"
      "bodyPathForMetadata p = Some legacy" by auto
    note ev = GC_visit_def l rd
    show ?thesis
    proof (cases r1)
      case (Inl e1)
      with v n1 show ?thesis by (auto simp: ev Let_def)
    next
      case m: (Inr m)
      show ?thesis
      proof (cases "time_IsZero (StoredAt m) \<or> time_After (StoredAt m) cutoff")
        case True
        with v n1 show ?thesis by (auto simp: ev m Let_def)
      next
        case young: False
        show ?thesis
        proof (cases "bodyPathForEntry p legacy m")
          case (Inl e2)
          with v n1 young show ?thesis by (auto simp: ev m Let_def)
        next
          case b: (Inr b)
          have mt: "meta_at f p = Some m" using readMetadata_Inr rd m by blast
          have rs: "resolve p m = Some b" using l(3) b by (simp add: resolve_def)
          have "StoredAt m \<noteq> 0" "StoredAt m \<le> cutoff"
            using young by (simp_all add: time_IsZero_def time_After_def)
          moreover note GC_removal [OF mt rs n1, of r s e g r' s']
          ultimately show ?thesis using v young l(1) by (auto simp: ev m b)
        qed
      qed
    qed
  qed
qed

text \<open>What every collection keeps, whatever fails.\<close>

definition gc_inv :: "store \<Rightarrow> fs \<Rightarrow> fs \<Rightarrow> GCResult \<times> store \<Rightarrow> bool" where
  "gc_inv s0 f0 f rs \<longleftrightarrow>
     (case rs of (r, s) \<Rightarrow>
        counted s f \<and> store_root s = store_root s0 \<and> activeTemps s = activeTemps s0 \<and>
        store_bytes s + gc_Bytes r = store_bytes s0 \<and> store_objects s + gc_Objects r = store_objects s0 \<and>
        (\<forall>q. foreign q \<longrightarrow> node_at f q = node_at f0 q))"

lemma counted_tick [simp]: "counted s (tick f) = counted s f"
  by (rule counted_cong) simp

lemma GC_visit_inv:
  assumes "gc_inv s0 f0 f rs" "prefix (store_root s0) p" "GC_visit cutoff p n f rs = (e, g, rs')"
  shows "gc_inv s0 f0 g rs'"
proof -
  obtain r s r' s' where rs: "rs = (r, s)" "rs' = (r', s')" by fastforce
  from GC_visit_cases [OF assms(3) [unfolded rs]]
  consider (same) "node_at g = node_at f" "s' = s" "gc_Objects r' = gc_Objects r" "gc_Bytes r' = gc_Bytes r"
    | (gone) m c where "removed_entry f p m c g"
        "s' = s\<lparr>store_bytes := store_bytes s - int (length c), store_objects := store_objects s - 1\<rparr>"
        "gc_Objects r' = gc_Objects r + 1" "gc_Bytes r' = gc_Bytes r + int (length c)"
    by blast
  then show ?thesis
  proof cases
    case same
    then show ?thesis using assms(1) counted_cong [of g f s] by (simp add: gc_inv_def rs)
  next
    case gone
    note D = removed_entryD [OF gone(1)]
    show ?thesis
      using assms(1,2) D(3) [of "store_root s0"] D(4) gone(2-4)
      by (auto simp: gc_inv_def rs counted_def prod_eq_iff)
  qed
qed

lemma GC_inv:
  assumes "GC now maxAge s f = ((r, err), s', g)" "counted s f"
  shows "gc_inv s f g (r, s')"
proof (cases "maxAge \<le> 0")
  case True
  with assms show ?thesis by (auto simp: GC_def gc_inv_def)
next
  case False
  then obtain e where w: "WalkDir (store_root s) (GC_visit (now - maxAge)) f
      (\<lparr>gc_Objects = 0, gc_Bytes = 0, gc_Skipped = 0\<rparr>, s) = (e, g, r, s')"
    using assms(1) by (auto simp: GC_def split: prod.splits)
  from w show ?thesis
    by (rule WalkDir_invariant [where P = "gc_inv s f"])
      (use assms(2) GC_visit_inv in \<open>auto simp: gc_inv_def\<close>)
qed

section \<open>Retention without failing calls\<close>

definition expired :: "int \<Rightarrow> fs \<Rightarrow> path \<Rightarrow> bool" where
  "expired cutoff f p \<longleftrightarrow>
     (case entry_of f p of None \<Rightarrow> False | Some (m, b, c) \<Rightarrow> StoredAt m \<noteq> 0 \<and> StoredAt m \<le> cutoff)"

lemma no_faults_Remove_file:
  "faults f = [] \<Longrightarrow> node_at f p = Some (Regular c t) \<Longrightarrow> os_Remove p f = (None, del_node p f)"
  by (simp add: os_Remove_def)

lemma entry_regular: "entry_of f p = Some x \<Longrightarrow> \<exists>c t. node_at f p = Some (Regular c t)"
  by (cases x) (auto simp: entry_of_Some meta_at_def split: option.splits node.splits)

lemma GC_visit_exact:
  assumes "faults f = []" "node_at f p = Some n" "GC_visit cutoff p n f (r, s) = (e, g, r', s')"
  shows "e = None \<and> faults g = [] \<and>
    (if expired cutoff f p
     then (\<exists>m c. removed_entry f p m c g) \<and> gc_Objects r' = gc_Objects r + 1
       \<and> gc_Bytes r' = gc_Bytes r + entry_size f p
     else node_at g = node_at f \<and> gc_Objects r' = gc_Objects r \<and> gc_Bytes r' = gc_Bytes r)"
  using assms(1,2)
proof (cases rule: probe_cases)
  case (good legacy m b c t)
  note ev = GC_visit_def good(1-4,6,7)
  obtain d u where p: "node_at f p = Some (Regular d u)" using entry_regular [OF good(11)] by blast
  have bp: "p \<noteq> b" using resolve_not_meta good(9) by blast
  show ?thesis
  proof (cases "StoredAt m \<noteq> 0 \<and> StoredAt m \<le> cutoff")
    case True
    have 1: "os_Remove b f = (None, del_node b f)" by (rule no_faults_Remove_file [OF assms(1) good(8)])
    have 2: "os_Remove p (del_node b f) = (None, del_node p (del_node b f))"
      using assms(1) p bp by (intro no_faults_Remove_file) auto
    have g: "g = del_node p (del_node b f)" "e = None" "gc_Objects r' = gc_Objects r + 1"
      "gc_Bytes r' = gc_Bytes r + int (length c)"
      using assms(3) True good(10) 1 2 by (auto simp: ev Let_def time_IsZero_def time_After_def)
    then have "removed_entry f p m c g"
      unfolding removed_entry_def using good(11) bp by (intro exI [of _ b]) auto
    moreover have "expired cutoff f p" using True good(11) by (simp add: expired_def)
    ultimately show ?thesis using g assms(1) good(11) by (auto simp: entry_size_def)
  next
    case False
    then have "\<not> expired cutoff f p" using good(11) by (simp add: expired_def)
    with False assms(1,3) show ?thesis by (auto simp: ev Let_def time_IsZero_def time_After_def)
  qed
qed (use assms in \<open>auto simp: GC_visit_def Let_def expired_def split: if_splits\<close>)

lemma GC_visit_not_meta: "\<not> is_meta p \<Longrightarrow> GC_visit cutoff p n f rs = (None, f, rs)"
  by (auto simp: GC_visit_def is_meta_def Let_def split: prod.splits)

lemma expired_cong: "entry_of g p = entry_of f p \<Longrightarrow> expired cutoff g p = expired cutoff f p"
  by (simp add: expired_def)

lemma expired_is_meta: "expired cutoff f p \<Longrightarrow> is_meta p"
  using entry_of_is_meta by (auto simp: expired_def split: option.splits)

definition gc_done :: "int \<Rightarrow> path list \<Rightarrow> fs \<Rightarrow> GCResult \<Rightarrow> fs \<Rightarrow> GCResult \<Rightarrow> bool" where
  "gc_done cutoff ps f r g r' \<longleftrightarrow>
     faults g = [] \<and>
     (\<forall>q. is_meta q \<longrightarrow> entry_of g q = (if q \<in> set ps \<and> expired cutoff f q then None else entry_of f q)) \<and>
     gc_Objects r' = gc_Objects r + int (length (filter (expired cutoff f) ps)) \<and>
     gc_Bytes r' = gc_Bytes r + sum_list (map (entry_size f) (filter (expired cutoff f) ps))"

text \<open>What one visit does to the entries, for any listed path.\<close>

lemma GC_visit_summary:
  assumes "faults f = []" "is_meta p \<Longrightarrow> node_at f p = Some n"
    and v: "GC_visit cutoff p n f (r, s) = (e, g, r', s')"
  shows "e = None" "faults g = []"
    "is_meta q \<Longrightarrow> q \<noteq> p \<Longrightarrow> entry_of g q = entry_of f q \<and> node_at g q = node_at f q"
    "entry_of g p = (if expired cutoff f p then None else entry_of f p)"
    "gc_Objects r' = gc_Objects r + (if expired cutoff f p then 1 else 0)"
    "gc_Bytes r' = gc_Bytes r + (if expired cutoff f p then entry_size f p else 0)"
proof -
  have "e = None \<and> faults g = [] \<and>
    (\<forall>q. is_meta q \<longrightarrow> q \<noteq> p \<longrightarrow> entry_of g q = entry_of f q \<and> node_at g q = node_at f q) \<and>
    entry_of g p = (if expired cutoff f p then None else entry_of f p) \<and>
    gc_Objects r' = gc_Objects r + (if expired cutoff f p then 1 else 0) \<and>
    gc_Bytes r' = gc_Bytes r + (if expired cutoff f p then entry_size f p else 0)"
  proof (cases "is_meta p")
    case False
    then have "\<not> expired cutoff f p" using expired_is_meta by blast
    with GC_visit_not_meta [OF False, of cutoff n f "(r, s)"] v assms(1) show ?thesis by simp
  next
    case True
    note X = GC_visit_exact [OF assms(1) assms(2) [OF True] v]
    show ?thesis
    proof (cases "expired cutoff f p")
      case ex: True
      with X obtain m c where "removed_entry f p m c g" by auto
      note D = removed_entryD [OF this]
      show ?thesis using X ex D(1) D(2) D(6) by auto
    next
      case False
      with X have nn: "node_at g = node_at f" by simp
      show ?thesis using X False nn entry_of_all_cong [OF nn] by simp
    qed
  qed
  then show "e = None" "faults g = []"
    "is_meta q \<Longrightarrow> q \<noteq> p \<Longrightarrow> entry_of g q = entry_of f q \<and> node_at g q = node_at f q"
    "entry_of g p = (if expired cutoff f p then None else entry_of f p)"
    "gc_Objects r' = gc_Objects r + (if expired cutoff f p then 1 else 0)"
    "gc_Bytes r' = gc_Bytes r + (if expired cutoff f p then entry_size f p else 0)" by blast+
qed

lemma GC_loop_exact:
  assumes "faults f = []" "distinct ps" "\<And>p. p \<in> set ps \<Longrightarrow> is_meta p \<Longrightarrow> node_at f p = Some (nd p)"
    and "walk_loop (GC_visit cutoff) (map (\<lambda>p. (p, nd p)) ps) f (r, s) = (e, g, r', s')"
  shows "e = None \<and> gc_done cutoff ps f r g r'"
  using assms
proof (induction ps arbitrary: f r s)
  case Nil
  then show ?case by (simp add: gc_done_def)
next
  case (Cons p ps)
  obtain e1 f1 r1 s1 where v: "GC_visit cutoff p (nd p) f (r, s) = (e1, f1, r1, s1)"
    by (metis prod_cases4)
  have np: "is_meta p \<Longrightarrow> node_at f p = Some (nd p)" using Cons.prems(3) by simp
  note V = GC_visit_summary [OF Cons.prems(1) np v]
  have sp: "sys_plain f1 = (None, f1)" using V(2) by (simp add: sys_plain_def)
  have w: "walk_loop (GC_visit cutoff) (map (\<lambda>p. (p, nd p)) ps) f1 (r1, s1) = (e, g, r', s')"
    using Cons.prems(4) by (auto simp: v V(1) sp split: if_splits)
  have P: "p \<notin> set ps" "distinct ps" using Cons.prems(2) by simp_all
  have IH: "e = None \<and> gc_done cutoff ps f1 r1 g r'"
    using V(2) P(2) _ w
  proof (rule Cons.IH)
    show "node_at f1 q = Some (nd q)" if "q \<in> set ps" "is_meta q" for q
      using that V(3) [of q] Cons.prems(3) [of q] P(1) by auto
  qed
  have E: "entry_of f1 q = entry_of f q" if "q \<noteq> p" for q
    using that V(3) [of q] entry_of_is_meta by (cases "is_meta q") (metis not_Some_eq)+
  have X: "expired cutoff f1 q = expired cutoff f q" "entry_size f1 q = entry_size f q" if "q \<noteq> p" for q
    using E [OF that] by (simp_all add: expired_def entry_size_def)
  have other: "q \<noteq> p" if "q \<in> set ps" for q using that P(1) by auto
  have "filter (expired cutoff f1) ps = filter (expired cutoff f) ps"
    by (rule filter_cong [OF refl]) (rule X(1) [OF other])
  moreover have "sum_list (map (entry_size f1) (filter (expired cutoff f) ps)) =
      sum_list (map (entry_size f) (filter (expired cutoff f) ps))"
    by (rule arg_cong [OF map_cong [OF refl]]) (simp add: X(2) other)
  moreover have "entry_of g q = (if q \<in> set (p # ps) \<and> expired cutoff f q then None else entry_of f q)"
    if "is_meta q" for q
    using IH that P(1) V(4) E [of q] X(1) [of q] by (cases "q = p") (auto simp: gc_done_def)
  ultimately show ?case using IH V(5,6) by (auto simp: gc_done_def)
qed

lemma GC_exact:
  assumes "faults f = []" "node_at f (store_root s) \<noteq> None" "maxAge > 0"
    and "GC now maxAge s f = ((r, err), s', g)"
  shows "err = None \<and>
    gc_done (now - maxAge) (walk_list (store_root s) f) f
      \<lparr>gc_Objects = 0, gc_Bytes = 0, gc_Skipped = 0\<rparr> g r"
proof -
  obtain n where n: "node_at f (store_root s) = Some n" using assms(2) by blast
  let ?r0 = "\<lparr>gc_Objects = 0, gc_Bytes = 0, gc_Skipped = 0\<rparr>"
  obtain e where w: "WalkDir (store_root s) (GC_visit (now - maxAge)) f (?r0, s) = (e, g, r, s')"
    and err: "err = (case e of None \<Rightarrow> None | Some NotExist \<Rightarrow> None | Some e' \<Rightarrow> Some (ErrOs e'))"
    using assms(3,4) by (auto simp: GC_def split: prod.splits)
  have "walk_loop (GC_visit (now - maxAge)) (map (\<lambda>p. (p, the (node_at f p))) (walk_list (store_root s) f))
      f (?r0, s) = (e, g, r, s')"
    using w n by (simp add: WalkDir_def no_faults_Stat [OF assms(1)])
  from GC_loop_exact [OF assms(1) _ _ this] err show ?thesis by (auto simp: set_walk_list)
qed

section \<open>Pressure candidates\<close>

definition candidate_of :: "fs \<Rightarrow> path \<Rightarrow> Candidate option" where
  "candidate_of f p =
     (case entry_of f p of
        None \<Rightarrow> None
      | Some (m, b, c) \<Rightarrow>
          let t = file_mtime (the (node_at f b))
          in Some \<lparr>metadataPath = p, bodyPath = b, cand_Bytes = int (length c),
                   LastUsed = (if t = 0 then StoredAt m else t)\<rparr>)"

lemma Candidates_visit_step:
  assumes "faults f = []" "node_at f p = Some n"
  shows "Candidates_visit p n f cs = (None, f, cs @ List.map_filter (candidate_of f) [p])"
  using assms
  by (cases rule: probe_cases)
    (auto simp: Candidates_visit_def candidate_of_def List.map_filter_simps time_IsZero_def Let_def)

lemma map_filter_append: "List.map_filter h (xs @ ys) = List.map_filter h xs @ List.map_filter h ys"
  by (simp add: List.map_filter_def)

lemma Candidates_loop:
  assumes "faults f = []" "\<And>p. p \<in> set ps \<Longrightarrow> node_at f p \<noteq> None"
  shows "walk_loop Candidates_visit (map (\<lambda>p. (p, the (node_at f p))) ps) f cs =
    (None, f, cs @ List.map_filter (candidate_of f) ps)"
  using assms(2)
proof (induction ps arbitrary: cs)
  case (Cons p ps)
  then obtain n where n: "node_at f p = Some n" by force
  have sp: "sys_plain f = (None, f)" using assms(1) by (simp add: sys_plain_def)
  have IH: "walk_loop Candidates_visit (map (\<lambda>p. (p, the (node_at f p))) ps) f cs' =
      (None, f, cs' @ List.map_filter (candidate_of f) ps)" for cs'
    by (rule Cons.IH) (simp add: Cons.prems)
  show ?case
    using map_filter_append [of "candidate_of f" "[p]" ps]
    by (simp add: n sp Candidates_visit_step [OF assms(1) n] IH)
qed (simp add: List.map_filter_simps)

lemma Candidates_exact:
  assumes "faults f = []" "node_at f (store_root s) \<noteq> None"
  shows "Candidates s f =
    ((sort_key LastUsed (List.map_filter (candidate_of f) (walk_list (store_root s) f)), None), f)"
proof -
  obtain n where n: "node_at f (store_root s) = Some n" using assms(2) by blast
  have w: "\<And>p. p \<in> set (walk_list (store_root s) f) \<Longrightarrow> node_at f p \<noteq> None"
    by (simp add: set_walk_list)
  show ?thesis
    using Candidates_loop [where cs = "[]", OF assms(1) w] n
    by (simp add: Candidates_def WalkDir_def no_faults_Stat [OF assms(1)])
qed

section \<open>Removing a candidate\<close>

lemma RemoveCandidate_cases:
  assumes "RemoveCandidate c s f = ((ok, err), s', g)"
  shows "\<not> ok \<and> node_at g = node_at f \<and> s' = s \<or>
    ok \<and> (\<exists>m. meta_at f (metadataPath c) = Some m \<and> resolve (metadataPath c) m = Some (bodyPath c) \<and>
      ContentBytes m = cand_Bytes c \<and> node_at f (bodyPath c) \<noteq> None \<and> node_at g (bodyPath c) = None \<and>
      (node_at g (metadataPath c) = node_at f (metadataPath c) \<or> node_at g (metadataPath c) = None) \<and>
      (\<forall>q. q \<noteq> bodyPath c \<longrightarrow> q \<noteq> metadataPath c \<longrightarrow> node_at g q = node_at f q) \<and>
      s' = s\<lparr>store_bytes := store_bytes s - cand_Bytes c, store_objects := store_objects s - 1\<rparr>)"
proof -
  let ?p = "metadataPath c"
  obtain r1 f1 where rd: "readMetadata ?p f = (r1, f1)" by fastforce
  have n1: "node_at f1 = node_at f" by (rule readMetadata_frame [OF rd])
  show ?thesis
  proof (cases "bodyPathForMetadata ?p")
    case None
    with assms show ?thesis by (simp add: RemoveCandidate_def)
  next
    case l: (Some legacy)
    note ev = RemoveCandidate_def l rd
    show ?thesis
    proof (cases r1)
      case (Inl e)
      with assms n1 show ?thesis by (auto simp: ev)
    next
      case m: (Inr m)
      show ?thesis
      proof (cases "\<exists>b. bodyPathForEntry ?p legacy m = Inr b \<and> b = bodyPath c \<and> ContentBytes m = cand_Bytes c")
        case False
        with assms n1 show ?thesis
          by (cases "bodyPathForEntry ?p legacy m") (auto simp: ev m)
      next
        case True
        then have b: "bodyPathForEntry ?p legacy m = Inr (bodyPath c)" "ContentBytes m = cand_Bytes c" by auto
        obtain r2 f2 where rm: "os_Remove (bodyPath c) f1 = (r2, f2)" by fastforce
        obtain r3 f3 where rp: "os_Remove ?p f2 = (r3, f3)" by fastforce
        show ?thesis
        proof (cases r2)
          case (Some e)
          with assms n1 os_Remove_cases [OF rm] show ?thesis by (auto simp: ev m b rm)
        next
          case None
          have mt: "meta_at f ?p = Some m" using readMetadata_Inr rd m by blast
          have rs: "resolve ?p m = Some (bodyPath c)" using l b(1) by (simp add: resolve_def)
          have n2: "node_at f2 = (node_at f)(bodyPath c := None)" "node_at f (bodyPath c) \<noteq> None"
            using os_Remove_cases [OF rm] None n1 by auto
          have n3: "node_at f3 = node_at f2 \<or> node_at f3 = (node_at f2)(?p := None)"
            using os_Remove_cases [OF rp] by auto
          have o: "ok" "g = f3"
            "s' = s\<lparr>store_bytes := store_bytes s - cand_Bytes c, store_objects := store_objects s - 1\<rparr>"
            using assms None by (cases r3; auto simp: ev m b rm rp Let_def)+
          have "node_at g (bodyPath c) = None" "node_at g ?p = node_at f ?p \<or> node_at g ?p = None"
            "\<forall>q. q \<noteq> bodyPath c \<longrightarrow> q \<noteq> ?p \<longrightarrow> node_at g q = node_at f q"
            using n2 n3 o(2) resolve_not_meta [OF rs] by auto
          with mt rs b(2) n2(2) o show ?thesis by blast
        qed
      qed
    qed
  qed
qed

text \<open>
  No torn bodies: a body file that its metadata refers to has the recorded size. It holds
  in an empty directory and every operation keeps it.
\<close>

definition untorn :: "fs \<Rightarrow> bool" where
  "untorn f \<longleftrightarrow>
     (\<forall>p m b c. meta_at f p = Some m \<longrightarrow> resolve p m = Some b \<longrightarrow> file_at f b = Some c \<longrightarrow>
        int (length c) = ContentBytes m)"

lemma RemoveCandidate_removed:
  assumes "RemoveCandidate c s f = ((True, err), s', g)" "untorn f" "node_at f (bodyPath c) \<noteq> Some Directory"
  shows "\<exists>m d. removed_entry f (metadataPath c) m d g \<and> int (length d) = cand_Bytes c"
proof -
  obtain m where m: "meta_at f (metadataPath c) = Some m" "resolve (metadataPath c) m = Some (bodyPath c)"
    "ContentBytes m = cand_Bytes c" "node_at f (bodyPath c) \<noteq> None" "node_at g (bodyPath c) = None"
    "node_at g (metadataPath c) = node_at f (metadataPath c) \<or> node_at g (metadataPath c) = None"
    "\<forall>q. q \<noteq> bodyPath c \<longrightarrow> q \<noteq> metadataPath c \<longrightarrow> node_at g q = node_at f q"
    using RemoveCandidate_cases [OF assms(1)] by blast
  then obtain n where "node_at f (bodyPath c) = Some n" by blast
  then obtain d t where d: "node_at f (bodyPath c) = Some (Regular d t)" using assms(3) by (cases n) auto
  then have "file_at f (bodyPath c) = Some d" by (simp add: file_at_def)
  with assms(2) m(1,2) have "int (length d) = ContentBytes m" unfolding untorn_def by blast
  then have "entry_of f (metadataPath c) = Some (m, bodyPath c, d)" using m d by (auto simp: entry_of_Some)
  with m \<open>int (length d) = _\<close> show ?thesis unfolding removed_entry_def by auto
qed

section \<open>Stale temporary files\<close>

definition stale_temp :: "path list \<Rightarrow> int \<Rightarrow> fs \<Rightarrow> path \<Rightarrow> bool" where
  "stale_temp active cutoff f p \<longleftrightarrow>
     isTempName (path_last p) \<and> p \<notin> set active \<and>
     (case node_at f p of Some (Regular _ t) \<Rightarrow> t \<le> cutoff | _ \<Rightarrow> False)"

lemma Cleanup_visit_cases:
  assumes "Cleanup_visit active cutoff p n f r = (e, g, r')"
  shows "node_at g = node_at f \<or>
    isTempName (path_last p) \<and> p \<notin> set active \<and> node_at f p \<noteq> None \<and>
      file_mtime (the (node_at f p)) \<le> cutoff \<and> node_at g = (node_at f)(p := None)"
proof -
  obtain r1 f1 where st: "os_Stat p f = (r1, f1)" by fastforce
  have n1: "node_at f1 = node_at f" by (rule os_Stat_frame [OF st])
  obtain r2 f2 where rm: "os_Remove p f1 = (r2, f2)" by fastforce
  show ?thesis
    using assms n1 os_Remove_cases [OF rm] os_Stat_Inr [of p f]
    by (auto simp: Cleanup_visit_def st rm time_After_def split: if_splits sum.splits option.splits)
qed

definition cleanup_inv :: "store \<Rightarrow> int \<Rightarrow> fs \<Rightarrow> fs \<Rightarrow> bool" where
  "cleanup_inv s cutoff f0 f \<longleftrightarrow>
     (\<forall>q. node_at f q = node_at f0 q \<or>
        isTempName (path_last q) \<and> q \<notin> set (activeTemps s) \<and> node_at f q = None \<and>
        prefix (store_root s) q \<and> file_mtime (the (node_at f0 q)) \<le> cutoff)"

lemma cleanup_visit_inv:
  assumes "cleanup_inv s cutoff f0 f" "prefix (store_root s) p"
    "Cleanup_visit (activeTemps s) cutoff p n f r = (e, g, r')"
  shows "cleanup_inv s cutoff f0 g"
proof -
  from Cleanup_visit_cases [OF assms(3)] consider "node_at g = node_at f"
    | "isTempName (path_last p)" "p \<notin> set (activeTemps s)" "node_at f p \<noteq> None"
      "file_mtime (the (node_at f p)) \<le> cutoff" "node_at g = (node_at f)(p := None)" by blast
  then show ?thesis
  proof cases
    case 1
    with assms(1) show ?thesis by (simp add: cleanup_inv_def)
  next
    case 2
    then have "node_at f p = node_at f0 p" using assms(1) unfolding cleanup_inv_def by metis
    with 2 assms(1,2) show ?thesis by (auto simp: cleanup_inv_def)
  qed
qed

lemma Cleanup_inv:
  assumes "CleanupStaleTemps now maxAge s f = ((r, err), g)"
  shows "cleanup_inv s (now - maxAge) f g"
proof (cases "maxAge \<le> 0")
  case True
  with assms show ?thesis by (auto simp: CleanupStaleTemps_def cleanup_inv_def)
next
  case False
  then obtain e where w: "WalkDir (store_root s) (Cleanup_visit (activeTemps s) (now - maxAge)) f
      \<lparr>tc_Files = 0, tc_Bytes = 0\<rparr> = (e, g, r)"
    using assms by (auto simp: CleanupStaleTemps_def split: prod.splits)
  from w show ?thesis
    by (rule WalkDir_invariant [where P = "\<lambda>g _. cleanup_inv s (now - maxAge) f g"])
      (use cleanup_visit_inv in \<open>auto simp: cleanup_inv_def\<close>)
qed

lemma Cleanup_visit_exact:
  assumes "faults f = []" "node_at f p = Some n"
  shows "\<exists>r' g. Cleanup_visit active cutoff p n f r = (None, g, r') \<and> faults g = [] \<and>
    node_at g = (if stale_temp active cutoff f p then (node_at f)(p := None) else node_at f) \<and>
    tc_Files r' = tc_Files r + (if stale_temp active cutoff f p then 1 else 0)"
  using assms
  by (cases n)
    (auto simp: Cleanup_visit_def stale_temp_def no_faults_Stat no_faults_Remove_file time_After_def)

lemma stale_temp_cong: "node_at g p = node_at f p \<Longrightarrow> stale_temp active cutoff g p = stale_temp active cutoff f p"
  by (simp add: stale_temp_def)

lemma Cleanup_loop_exact:
  assumes "faults f = []" "distinct ps" "\<And>p. p \<in> set ps \<Longrightarrow> node_at f p = Some (nd p)"
    and "walk_loop (Cleanup_visit active cutoff) (map (\<lambda>p. (p, nd p)) ps) f r = (e, g, r')"
  shows "e = None \<and>
    (\<forall>q. node_at g q = (if q \<in> set ps \<and> stale_temp active cutoff f q then None else node_at f q)) \<and>
    tc_Files r' = tc_Files r + int (length (filter (stale_temp active cutoff f) ps))"
  using assms
proof (induction ps arbitrary: f r)
  case (Cons p ps)
  have np: "node_at f p = Some (nd p)" using Cons.prems(3) by simp
  obtain r1 f1 where v: "Cleanup_visit active cutoff p (nd p) f r = (None, f1, r1)"
    and F: "faults f1 = []"
    and N: "node_at f1 = (if stale_temp active cutoff f p then (node_at f)(p := None) else node_at f)"
    and C: "tc_Files r1 = tc_Files r + (if stale_temp active cutoff f p then 1 else 0)"
    using Cleanup_visit_exact [OF Cons.prems(1) np, of active cutoff r] by blast
  have P: "p \<notin> set ps" "distinct ps" using Cons.prems(2) by simp_all
  have same: "node_at f1 q = node_at f q" if "q \<noteq> p" for q using N that by simp
  have other: "q \<noteq> p" if "q \<in> set ps" for q using that P(1) by auto
  have w: "walk_loop (Cleanup_visit active cutoff) (map (\<lambda>p. (p, nd p)) ps) f1 r1 = (e, g, r')"
    using Cons.prems(4) F by (auto simp: v sys_plain_def split: if_splits)
  have IH: "e = None \<and>
      (\<forall>q. node_at g q = (if q \<in> set ps \<and> stale_temp active cutoff f1 q then None else node_at f1 q)) \<and>
      tc_Files r' = tc_Files r1 + int (length (filter (stale_temp active cutoff f1) ps))"
    using F P(2) _ w
  proof (rule Cons.IH)
    show "node_at f1 q = Some (nd q)" if "q \<in> set ps" for q
      using that same [OF other [OF that]] Cons.prems(3) [of q] by simp
  qed
  have X: "stale_temp active cutoff f1 q = stale_temp active cutoff f q" if "q \<in> set ps" for q
    by (rule stale_temp_cong [OF same [OF other [OF that]]])
  have "filter (stale_temp active cutoff f1) ps = filter (stale_temp active cutoff f) ps"
    by (rule filter_cong [OF refl]) (rule X)
  moreover have "node_at g q = (if q \<in> set (p # ps) \<and> stale_temp active cutoff f q then None else node_at f q)"
    for q
    using IH X [of q] N P(1) by (cases "q = p") auto
  ultimately show ?case using IH C by auto
qed simp

lemma Cleanup_exact:
  assumes "faults f = []" "node_at f (store_root s) \<noteq> None" "maxAge > 0"
    and "CleanupStaleTemps now maxAge s f = ((r, err), g)"
  shows "err = None \<and>
    (\<forall>q. node_at g q = (if prefix (store_root s) q \<and> stale_temp (activeTemps s) (now - maxAge) f q
                        then None else node_at f q)) \<and>
    tc_Files r = int (card {q. prefix (store_root s) q \<and> stale_temp (activeTemps s) (now - maxAge) f q})"
proof -
  obtain n where n: "node_at f (store_root s) = Some n" using assms(2) by blast
  let ?W = "walk_list (store_root s) f" and ?st = "stale_temp (activeTemps s) (now - maxAge) f"
  obtain e where w: "WalkDir (store_root s) (Cleanup_visit (activeTemps s) (now - maxAge)) f
      \<lparr>tc_Files = 0, tc_Bytes = 0\<rparr> = (e, g, r)"
    and err: "err = (case e of None \<Rightarrow> None | Some NotExist \<Rightarrow> None | Some e' \<Rightarrow> Some (ErrOs e'))"
    using assms(3,4) by (auto simp: CleanupStaleTemps_def split: prod.splits)
  have l: "walk_loop (Cleanup_visit (activeTemps s) (now - maxAge))
      (map (\<lambda>p. (p, the (node_at f p))) ?W) f \<lparr>tc_Files = 0, tc_Bytes = 0\<rparr> = (e, g, r)"
    using w n by (simp add: WalkDir_def no_faults_Stat [OF assms(1)])
  have nd: "\<And>p. p \<in> set ?W \<Longrightarrow> node_at f p = Some (the (node_at f p))" by (auto simp: set_walk_list)
  note E = Cleanup_loop_exact [OF assms(1) distinct_walk_list nd l]
  have st: "?st q \<Longrightarrow> node_at f q \<noteq> None" for q by (auto simp: stale_temp_def split: option.splits)
  have W: "q \<in> set ?W \<and> ?st q \<longleftrightarrow> prefix (store_root s) q \<and> ?st q" for q
    using st [of q] by (auto simp: set_walk_list)
  have "length (filter ?st ?W) = card {q. prefix (store_root s) q \<and> ?st q}"
  proof -
    have "distinct (filter ?st ?W)" by simp
    then have "length (filter ?st ?W) = card (set (filter ?st ?W))" by (simp only: distinct_card)
    also have "set (filter ?st ?W) = {q. prefix (store_root s) q \<and> ?st q}" using W by auto
    finally show ?thesis .
  qed
  with E W err show ?thesis by simp
qed

section \<open>Lookup\<close>

lemma paths_meta:
  assumes "paths rt key = (b, p)"
  shows "bodyPathForMetadata p = Some b" "is_meta p" "prefix rt p" "butlast b = butlast p"
    "butlast p = rt @ [take 2 (stem_of p)]" "b = butlast p @ [stem_of p @ ''.body'']"
    "stem_of p = hex_EncodeToString (sha256_Sum256 key)"
proof -
  let ?h = "hex_EncodeToString (sha256_Sum256 key)"
  have pb: "p = (rt @ [take 2 ?h]) @ [?h @ ''.json'']" "b = (rt @ [take 2 ?h]) @ [?h @ ''.body'']"
    using assms by (simp_all add: paths_def Let_def)
  have h: "length ?h = 64" "list_all is_hex ?h" by (simp_all add: hex_Encode_hex)
  have bl: "butlast p = rt @ [take 2 ?h]" using pb(1) by (simp only: butlast_snoc)
  show B: "bodyPathForMetadata p = Some b"
    unfolding bodyPathForMetadata_iff using pb bl h by (intro exI [of _ ?h]) simp
  then show "is_meta p" by (simp add: is_meta_def)
  show "prefix rt p" using pb(1) by (simp add: prefix_def)
  show st: "stem_of p = ?h" using pb(1) h(1) by (simp add: stem_of_def path_last_def)
  show "butlast p = rt @ [take 2 (stem_of p)]" using bl st by simp
  show "b = butlast p @ [stem_of p @ ''.body'']" using pb(2) bl st by simp
  show "butlast b = butlast p" using pb bl by (simp only: butlast_snoc)
qed

lemma paths_inj:
  assumes "paths rt k = (b, p)" "paths rt k' = (b', p')" "sha256_Sum256 k \<noteq> sha256_Sum256 k'"
  shows "p \<noteq> p'"
  using paths_meta(7) [OF assms(1)] paths_meta(7) [OF assms(2)] assms(3) by (auto simp: hex_Encode_inj)

text \<open>A hit is the complete and fresh entry of the key, whatever else fails.\<close>

lemma Lookup_hit:
  assumes "Lookup t1 t2 key ttl s f = (Inr (Some e), g)" "paths (store_root s) key = (b, p)"
    and nd: "\<And>m q. meta_at f p = Some m \<Longrightarrow> resolve p m = Some q \<Longrightarrow> node_at f q \<noteq> Some Directory"
  shows "entry_of f p = Some (entry_Metadata e, BodyPath e, Body e) \<and>
    time_Sub t1 (StoredAt (entry_Metadata e)) < ttl"
proof -
  obtain r1 f1 where rd: "readMetadata p f = (r1, f1)" by fastforce
  have n1: "node_at f1 = node_at f" by (rule readMetadata_frame [OF rd])
  obtain m where m: "r1 = Inr m" "time_Sub t1 (StoredAt m) < ttl"
    using assms(1,2) by (cases r1) (auto simp: Lookup_def rd split: if_splits)
  obtain q where q: "bodyPathForEntry p b m = Inr q"
    using assms(1,2) m by (cases "bodyPathForEntry p b m") (auto simp: Lookup_def rd)
  obtain r2 f2 where st: "os_Stat q f1 = (r2, f2)" by fastforce
  obtain info where i: "r2 = Inr info" "file_size info = ContentBytes m"
    using assms(1,2) m q by (cases r2) (auto simp: Lookup_def rd st split: if_splits)
  obtain r3 f3 where op: "os_Stat q f2 = (r3, f3)" by fastforce
  obtain n where n: "r3 = Inr n" "e = \<lparr>entry_Metadata = m, BodyPath = q, Body = file_content n\<rparr>"
    using assms(1,2) m q i by (cases r3) (auto simp: Lookup_def rd st op split: if_splits)
  have N: "node_at f q = Some info" "node_at f q = Some n"
    using os_Stat_Inr [of q f1 info f2] os_Stat_Inr [of q f2 n f3] os_Stat_frame [OF st] n1 st i op n by simp_all
  have rs: "resolve p m = Some q" using paths_meta(1) [OF assms(2)] q by (simp add: resolve_def)
  have mt: "meta_at f p = Some m" using readMetadata_Inr rd m by blast
  obtain c t where "info = Regular c t" using nd [OF mt rs] N(1) by (cases info) auto
  then show ?thesis using N i(2) n mt rs m(2) by (auto simp: entry_of_Some)
qed

lemma Lookup_exact:
  assumes "faults f = []" "paths (store_root s) key = (b, p)" "entry_of f p = Some (m, q, c)"
    "time_Sub t1 (StoredAt m) < ttl"
  shows "fst (Lookup t1 t2 key ttl s f) = Inr (Some \<lparr>entry_Metadata = m, BodyPath = q, Body = c\<rparr>)"
proof -
  obtain t where E: "meta_at f p = Some m" "resolve p m = Some q" "node_at f q = Some (Regular c t)"
    "int (length c) = ContentBytes m"
    using assms(3) by (auto simp: entry_of_Some)
  have rd: "readMetadata p f = (Inr m, f)"
    using no_faults_read_meta [OF assms(1), of p] E(1) by (auto split: prod.splits sum.splits)
  have "bodyPathForEntry p b m = Inr q"
    using E(2) paths_meta(1) [OF assms(2)] by (simp add: resolve_def split: sum.splits)
  with rd E assms show ?thesis by (simp add: Lookup_def no_faults_Stat)
qed

text \<open>A lookup changes nothing but the access time of the body it serves.\<close>

lemma Lookup_frame:
  assumes "Lookup t1 t2 key ttl s f = (r, g)"
  shows "node_at g = node_at f \<or>
    (\<exists>q c t. node_at f q = Some (Regular c t) \<and> node_at g = (node_at f)(q \<mapsto> Regular c t2) \<and>
       (\<exists>m. meta_at f (snd (paths (store_root s) key)) = Some m \<and>
            resolve (snd (paths (store_root s) key)) m = Some q))"
proof -
  obtain b p where pp: "paths (store_root s) key = (b, p)" by fastforce
  obtain r1 f1 where rd: "readMetadata p f = (r1, f1)" by fastforce
  have n1: "node_at f1 = node_at f" by (rule readMetadata_frame [OF rd])
  show ?thesis
  proof (cases "\<exists>m q. r1 = Inr m \<and> \<not> time_Sub t1 (StoredAt m) \<ge> ttl \<and> bodyPathForEntry p b m = Inr q")
    case False
    with assms n1 show ?thesis by (auto simp: Lookup_def pp rd split: sum.splits if_splits)
  next
    case True
    then obtain m q where m: "r1 = Inr m" "\<not> time_Sub t1 (StoredAt m) \<ge> ttl" "bodyPathForEntry p b m = Inr q"
      by blast
    obtain r2 f2 where st: "os_Stat q f1 = (r2, f2)" by fastforce
    obtain r3 f3 where op: "os_Stat q f2 = (r3, f3)" by fastforce
    have n: "node_at f2 = node_at f" "node_at f3 = node_at f"
      using os_Stat_frame [OF st] os_Stat_frame [OF op] n1 by simp_all
    obtain e4 f4 where ch: "os_Chtimes q t2 f3 = (e4, f4)" by fastforce
    have rs: "resolve p m = Some q" using paths_meta(1) [OF pp] m(3) by (simp add: resolve_def)
    have mt: "meta_at f p = Some m" using readMetadata_Inr rd m by blast
    have "node_at g = node_at f \<or> node_at g = node_at f4"
      using assms m n n1 by (auto simp: Lookup_def pp rd st op ch split: sum.splits if_splits)
    with os_Chtimes_cases [OF ch] n(2) rs mt pp show ?thesis by auto
  qed
qed

end
