(* ===== verification/Cache_Laws.thy ===== *)
theory Cache_Laws
  imports Cache_Collect
begin

text \<open>
  What storing a response does: the bounded sink never writes past its reservation, a put
  touches only the files of its own key whatever fails, a put that fails before its commit
  leaves every entry as it was, and a put that succeeds replaces the entry of its key by
  the streamed bytes and keeps the counters exact.
\<close>

section \<open>The bounded sink\<close>

lemma writer_Write_None:
  assumes "writer_Write c d = (n, None, d')" "n = length c"
  shows "received d' = received d @ c"
  using assms by (auto simp: writer_Write_def Let_def split: list.splits prod.splits)

definition sink_inv :: "boundedCacheWriter \<Rightarrow> fs \<Rightarrow> bool" where
  "sink_inv w f \<longleftrightarrow>
     (\<exists>d t. node_at f (cache w) = Some (Regular d t) \<and>
        (enabled w \<and> \<not> overflow w \<longrightarrow> int (length d) = written w) \<and>
        (limit w \<ge> 0 \<longrightarrow> int (length d) \<le> limit w))"

lemma sink_Write_inv:
  assumes "sink_Write now c w f = ((n, e), w', f')" "sink_inv w f"
  shows "sink_inv w' f'" "cache w' = cache w" "limit w' = limit w" "enabled w' = enabled w"
    "q \<noteq> cache w \<Longrightarrow> node_at f' q = node_at f q"
proof -
  obtain k err d where wr: "writer_Write c (downstream w) = (k, err, d)" by (metis prod_cases3)
  have k: "k \<le> length c" using wr by (auto simp: writer_Write_def Let_def split: list.splits prod.splits)
  obtain e1 f1 where fw: "file_Write (cache w) (take k c) now f = (e1, f1)" by fastforce
  obtain x t where x: "node_at f (cache w) = Some (Regular x t)"
    "enabled w \<and> \<not> overflow w \<longrightarrow> int (length x) = written w" "limit w \<ge> 0 \<longrightarrow> int (length x) \<le> limit w"
    using assms(2) unfolding sink_inv_def by blast
  have n1: "e1 \<noteq> None \<longrightarrow> node_at f1 = node_at f"
    "e1 = None \<longrightarrow> node_at f1 = (node_at f)(cache w \<mapsto> Regular (x @ take k c) now)"
    using fw x(1) by (auto simp: file_Write_def split: option.splits)
  note ev = sink_Write_def wr fw Let_def
  have "sink_inv w' f' \<and> cache w' = cache w \<and> limit w' = limit w \<and> enabled w' = enabled w \<and>
    (q \<noteq> cache w \<longrightarrow> node_at f' q = node_at f q)"
  proof (cases "k > 0 \<and> enabled w \<and> \<not> overflow w \<and> \<not> (limit w \<ge> 0 \<and> int k > limit w - written w)")
    case False
    then have "f' = f \<and> (w' = w\<lparr>downstream := d\<rparr> \<or>
        w' = w\<lparr>downstream := d, overflow := True, written := written w + int k\<rparr>)"
      using assms(1) by (auto simp add: ev split: if_splits)
    moreover have "sink_inv w f" by (rule assms(2))
    ultimately show ?thesis by (elim conjE disjE) (simp_all add: sink_inv_def, blast)
  next
    case True
    then have *: "sink_Write now c w f = (case e1 of
        Some e' \<Rightarrow> ((k, Some (CacheWrite e')), w\<lparr>downstream := d\<rparr>, f1)
      | None \<Rightarrow> ((k, map_option WriteError err), w\<lparr>downstream := d, written := written w + int k\<rparr>, f1))"
      by (auto simp: ev split: option.splits)
    show ?thesis
    proof (cases e1)
      case (Some e')
      then have "w' = w\<lparr>downstream := d\<rparr>" "f' = f1" "node_at f1 = node_at f" using assms(1) * n1 by auto
      then show ?thesis using assms(2) by (simp add: sink_inv_def)
    next
      case None
      then have w': "w' = w\<lparr>downstream := d, written := written w + int k\<rparr>"
        and f': "node_at f' = (node_at f)(cache w \<mapsto> Regular (x @ take k c) now)"
        using assms(1) * n1 by auto
      have "sink_inv w' f'"
        unfolding sink_inv_def
        by (rule exI [of _ "x @ take k c"], rule exI [of _ now]) (use x True k in \<open>auto simp: w' f'\<close>)
      then show ?thesis by (simp add: w' f')
    qed
  qed
  then show "sink_inv w' f'" "cache w' = cache w" "limit w' = limit w" "enabled w' = enabled w"
    "q \<noteq> cache w \<Longrightarrow> node_at f' q = node_at f q" by blast+
qed

lemma copy_sink_inv:
  assumes "copy_sink now cs er acc w f = (r, w', f')" "sink_inv w f"
  shows "sink_inv w' f' \<and> cache w' = cache w \<and> limit w' = limit w \<and>
    (\<forall>q. q \<noteq> cache w \<longrightarrow> node_at f' q = node_at f q)"
  using assms
proof (induction cs arbitrary: acc w f)
  case (Cons c cs)
  obtain n e w1 f1 where s: "sink_Write now c w f = ((n, e), w1, f1)" by (metis prod_cases4 surj_pair)
  note S = sink_Write_inv [OF s Cons.prems(2)]
  show ?case
  proof (cases "e = None \<and> n = length c")
    case True
    then have "copy_sink now cs er (acc + int n) w1 f1 = (r, w', f')" using Cons.prems(1) s by simp
    from Cons.IH [OF this S(1)] S show ?thesis by simp
  next
    case False
    then have "w' = w1" "f' = f1" using Cons.prems(1) s by (auto split: option.splits if_splits)
    with S show ?thesis by simp
  qed
qed simp

text \<open>A copy that ends without an error delivered everything, to the client and to the file.\<close>

lemma sink_Write_ok:
  assumes "sink_Write now c w f = ((length c, None), w', f')" "node_at f (cache w) = Some (Regular d t)"
  shows "received (downstream w') = received (downstream w) @ c" "cache w' = cache w" "limit w' = limit w"
    "enabled w' = enabled w"
    "overflow w \<Longrightarrow> overflow w' \<and> node_at f' = node_at f"
    "enabled w \<Longrightarrow> \<not> overflow w \<Longrightarrow> 0 \<le> written w \<Longrightarrow> (limit w \<ge> 0 \<Longrightarrow> written w \<le> limit w) \<Longrightarrow>
       written w' = written w + int (length c) \<and>
       (overflow w' \<longleftrightarrow> limit w \<ge> 0 \<and> written w + int (length c) > limit w) \<and>
       (\<not> overflow w' \<longrightarrow> (\<exists>u. node_at f' = (node_at f)(cache w \<mapsto> Regular (d @ c) u)))"
proof -
  obtain k err dn where wr: "writer_Write c (downstream w) = (k, err, dn)" by (metis prod_cases3)
  obtain e1 f1 where fw: "file_Write (cache w) (take k c) now f = (e1, f1)" by fastforce
  note ev = sink_Write_def wr fw Let_def
  have k: "k = length c" "err = None" using assms(1) by (auto simp: ev split: if_splits option.splits)
  then have rc: "received dn = received (downstream w) @ c" using writer_Write_None wr by blast
  have dw: "downstream w' = dn" "cache w' = cache w" "limit w' = limit w" "enabled w' = enabled w"
    using assms(1) by (auto simp: ev split: if_splits option.splits)
  then show "received (downstream w') = received (downstream w) @ c" "cache w' = cache w" "limit w' = limit w"
    "enabled w' = enabled w" using rc by simp_all
  show "overflow w' \<and> node_at f' = node_at f" if "overflow w"
    using assms(1) that by (auto simp: ev)
  have n1: "e1 = None \<longrightarrow> node_at f1 = (node_at f)(cache w \<mapsto> Regular (d @ c) now)"
    using fw assms(2) k by (auto simp: file_Write_def split: option.splits)
  show "written w' = written w + int (length c) \<and>
       (overflow w' \<longleftrightarrow> limit w \<ge> 0 \<and> written w + int (length c) > limit w) \<and>
       (\<not> overflow w' \<longrightarrow> (\<exists>u. node_at f' = (node_at f)(cache w \<mapsto> Regular (d @ c) u)))"
    if h: "enabled w" "\<not> overflow w" "0 \<le> written w" "limit w \<ge> 0 \<Longrightarrow> written w \<le> limit w"
  proof (cases "k > 0")
    case False
    then have "w' = w\<lparr>downstream := dn\<rparr>" "f' = f" using assms(1) False by (simp_all add: ev)
    moreover have "c = []" using False k by simp
    moreover have "(node_at f)(cache w \<mapsto> Regular d t) = node_at f"
      using assms(2) by (simp add: fun_upd_idem)
    ultimately show ?thesis using h by (auto intro!: exI [of _ t])
  next
    case True
    have *: "sink_Write now c w f =
        (if limit w \<ge> 0 \<and> int k > limit w - written w
         then ((k, None), w\<lparr>downstream := dn, overflow := True, written := written w + int k\<rparr>, f)
         else (case e1 of
           Some e' \<Rightarrow> ((k, Some (CacheWrite e')), w\<lparr>downstream := dn\<rparr>, f1)
         | None \<Rightarrow> ((k, None), w\<lparr>downstream := dn, written := written w + int k\<rparr>, f1)))"
      using h True k(2) by (simp add: ev split: option.splits)
    show ?thesis
    proof (cases "limit w \<ge> 0 \<and> int k > limit w - written w")
      case True
      then have "w' = w\<lparr>downstream := dn, overflow := True, written := written w + int k\<rparr>"
        using assms(1) * by auto
      with True k(1) show ?thesis by simp
    next
      case False
      then have "e1 = None" "w' = w\<lparr>downstream := dn, written := written w + int k\<rparr>" "f' = f1"
        using assms(1) * by (cases e1; auto)+
      then have "node_at f' = (node_at f)(cache w \<mapsto> Regular (d @ c) now)" using n1 by simp
      then have "\<exists>u. node_at f' = (node_at f)(cache w \<mapsto> Regular (d @ c) u)" by (rule exI)
      moreover have "written w' = written w + int (length c)" "\<not> overflow w'"
        using \<open>w' = _\<close> k(1) h(2) by simp_all
      moreover have "\<not> (limit w \<ge> 0 \<and> written w + int (length c) > limit w)" using False k(1) by auto
      ultimately show ?thesis by blast
    qed
  qed
qed

lemma copy_sink_overflowed:
  assumes "copy_sink now cs er acc w f = ((n, None), w', f')" "node_at f (cache w) = Some (Regular d t)"
    "overflow w"
  shows "n = acc + int (length (concat cs)) \<and> er = None \<and> overflow w' \<and> node_at f' = node_at f \<and>
    received (downstream w') = received (downstream w) @ concat cs"
  using assms
proof (induction cs arbitrary: acc w f)
  case (Cons c cs)
  obtain k e w1 f1 where s: "sink_Write now c w f = ((k, e), w1, f1)" by (metis prod_cases4 surj_pair)
  have "e = None" "k = length c" and r: "copy_sink now cs er (acc + int k) w1 f1 = ((n, None), w', f')"
    using Cons.prems(1) s by (auto split: option.splits if_splits)
  note S = sink_Write_ok [OF s [unfolded this(1,2)] Cons.prems(2)]
  from Cons.IH [OF r] S Cons.prems(2,3) \<open>k = length c\<close> show ?case by simp
qed auto

lemma copy_sink_ok:
  assumes "copy_sink now cs er acc w f = ((n, None), w', f')" "node_at f (cache w) = Some (Regular d t)"
    "enabled w" "\<not> overflow w" "0 \<le> written w" "limit w \<ge> 0 \<Longrightarrow> written w \<le> limit w"
  shows "n = acc + int (length (concat cs)) \<and> er = None \<and>
    received (downstream w') = received (downstream w) @ concat cs \<and>
    (overflow w' \<longleftrightarrow> limit w \<ge> 0 \<and> written w + int (length (concat cs)) > limit w) \<and>
    (\<not> overflow w' \<longrightarrow> (\<exists>u. node_at f' = (node_at f)(cache w \<mapsto> Regular (d @ concat cs) u)))"
  using assms
proof (induction cs arbitrary: acc w f d t)
  case Nil
  have "(node_at f)(cache w \<mapsto> Regular d t) = node_at f" using Nil(2) by (simp add: fun_upd_idem)
  with Nil show ?case by (auto intro!: exI [of _ t])
next
  case (Cons c cs)
  obtain k e w1 f1 where s: "sink_Write now c w f = ((k, e), w1, f1)" by (metis prod_cases4 surj_pair)
  have ke: "e = None" "k = length c" and r: "copy_sink now cs er (acc + int k) w1 f1 = ((n, None), w', f')"
    using Cons.prems(1) s by (auto split: option.splits if_splits)
  note S = sink_Write_ok [OF s [unfolded ke] Cons.prems(2)]
  note W = S(6) [OF Cons.prems(3-6)]
  show ?case
  proof (cases "overflow w1")
    case True
    obtain d' t' where "node_at f1 (cache w1) = Some (Regular d' t')"
    proof -
      have "f1 = f" using s Cons.prems(4) True
        by (auto simp: sink_Write_def Let_def split: prod.splits if_splits option.splits)
      then show ?thesis using Cons.prems(2) S(2) that by simp
    qed
    note O = copy_sink_overflowed [OF r this True]
    with S(1) W True ke show ?thesis by simp
  next
    case False
    then obtain u where u: "node_at f1 = (node_at f)(cache w \<mapsto> Regular (d @ c) u)" using W by blast
    have "n = acc + int k + int (length (concat cs)) \<and> er = None \<and>
      received (downstream w') = received (downstream w1) @ concat cs \<and>
      (overflow w' \<longleftrightarrow> limit w1 \<ge> 0 \<and> written w1 + int (length (concat cs)) > limit w1) \<and>
      (\<not> overflow w' \<longrightarrow> (\<exists>u. node_at f' = (node_at f1)(cache w1 \<mapsto> Regular ((d @ c) @ concat cs) u)))"
      using r
    proof (rule Cons.IH)
      show "node_at f1 (cache w1) = Some (Regular (d @ c) u)" using u S(2) by simp
      show "enabled w1" "\<not> overflow w1" "0 \<le> written w1" using S(4) Cons.prems(3,5) False W by simp_all
      show "limit w1 \<ge> 0 \<Longrightarrow> written w1 \<le> limit w1" using S(3) W False by simp
    qed
    moreover have "(node_at f1)(cache w1 \<mapsto> Regular ((d @ c) @ concat cs) v) =
        (node_at f)(cache w \<mapsto> Regular (d @ concat (c # cs)) v)" for v
      using u S(2) by simp
    ultimately show ?thesis
      using S(1,3) W ke(2) False by (simp add: add.assoc del: fun_upd_apply)
  qed
qed

text \<open>With a client that accepts everything and a working disk, the copy ends without an error.\<close>

lemma sink_Write_total:
  assumes "faults f = []" "tape (downstream w) = []" "node_at f (cache w) = Some (Regular d t)"
  shows "\<exists>w' f'. sink_Write now c w f = ((length c, None), w', f') \<and> faults f' = [] \<and>
    tape (downstream w') = [] \<and> cache w' = cache w \<and> (\<exists>d t. node_at f' (cache w) = Some (Regular d t))"
  using assms by (auto simp: sink_Write_def writer_Write_def file_Write_def Let_def)

lemma copy_sink_total:
  assumes "faults f = []" "tape (downstream w) = []" "node_at f (cache w) = Some (Regular d t)"
  shows "\<exists>n w' f'. copy_sink now cs None acc w f = ((n, None), w', f') \<and> faults f' = []"
  using assms
proof (induction cs arbitrary: acc w f d t)
  case (Cons c cs)
  obtain w1 f1 d1 t1 where s: "sink_Write now c w f = ((length c, None), w1, f1)" "faults f1 = []"
    "tape (downstream w1) = []" "cache w1 = cache w" "node_at f1 (cache w) = Some (Regular d1 t1)"
    using sink_Write_total [OF Cons.prems] by blast
  from Cons.IH [of f1 w1 d1 t1 "acc + int (length c)"] s show ?case by simp
qed simp

section \<open>Frames of the phases\<close>

text \<open>
  A file system that agrees with another except for temporary files, new directories and
  the files of one entry.
\<close>

definition near :: "path \<Rightarrow> fs \<Rightarrow> fs \<Rightarrow> bool" where
  "near p f g \<longleftrightarrow>
     (\<forall>q. node_at g q = node_at f q \<or> touches p q \<or> isTempName (path_last q) \<or>
        node_at f q = None \<and> node_at g q = Some Directory)"

definition off_entries :: "fs \<Rightarrow> fs \<Rightarrow> bool" where
  "off_entries f g \<longleftrightarrow>
     (\<forall>q. node_at g q = node_at f q \<or> isTempName (path_last q) \<or>
        node_at f q = None \<and> node_at g q = Some Directory)"

lemma off_near: "off_entries f g \<Longrightarrow> near p f g"
  unfolding off_entries_def near_def by blast

lemma off_refl [simp]: "off_entries f f"
  by (simp add: off_entries_def)

lemma off_eq: "node_at g = node_at f \<Longrightarrow> off_entries f g"
  by (simp add: off_entries_def)

lemma off_trans: "off_entries f g \<Longrightarrow> off_entries g h \<Longrightarrow> off_entries f h"
  unfolding off_entries_def by (metis option.distinct(1))

lemma near_trans:
  assumes "near p f g" "near p g h"
  shows "near p f h"
proof -
  have "node_at h q = node_at f q \<or> touches p q \<or> isTempName (path_last q) \<or>
      node_at f q = None \<and> node_at h q = Some Directory" for q
    using spec [OF assms(1) [unfolded near_def], of q] spec [OF assms(2) [unfolded near_def], of q]
    by (elim disjE conjE) simp_all
  then show ?thesis unfolding near_def by (rule allI)
qed

lemma near_self: "near p f f"
  by (simp add: near_def)

lemma near_eq: "node_at g = node_at f \<Longrightarrow> near p f g"
  by (simp add: near_def)

lemma near_touch: "(\<And>q. \<not> touches p q \<Longrightarrow> \<not> isTempName (path_last q) \<Longrightarrow> node_at g q = node_at f q) \<Longrightarrow> near p f g"
  unfolding near_def by blast

lemma off_temp:
  assumes "isTempName (path_last t)" "\<And>q. q \<noteq> t \<Longrightarrow> node_at g q = node_at f q"
  shows "off_entries f g"
  unfolding off_entries_def
proof
  show "node_at g q = node_at f q \<or> isTempName (path_last q) \<or> node_at f q = None \<and> node_at g q = Some Directory"
    for q
    using assms(1) assms(2) [of q] by (cases "q = t") simp_all
qed

text \<open>Entries that a change leaves alone.\<close>

lemma near_file_at:
  assumes "near p f g" "\<not> touches p q" "\<not> isTempName (path_last q)"
  shows "file_at g q = file_at f q"
proof -
  have "node_at g q = node_at f q \<or> node_at f q = None \<and> node_at g q = Some Directory"
    using assms unfolding near_def by blast
  then show ?thesis by (auto simp: file_at_def)
qed

lemma near_other:
  assumes "near p f g" "is_meta p" "is_meta q" "q \<noteq> p"
  shows "entry_of g q = entry_of f q"
  using assms(2-4)
  by (rule entry_of_other_file) (use near_file_at [OF assms(1)] temp_foreign in blast)

lemma off_file_at:
  assumes "off_entries f g" "\<not> isTempName (path_last q)"
  shows "file_at g q = file_at f q"
proof -
  have "node_at g q = node_at f q \<or> node_at f q = None \<and> node_at g q = Some Directory"
    using assms unfolding off_entries_def by blast
  then show ?thesis by (auto simp: file_at_def)
qed

lemma touches_not_temp: "is_meta p \<Longrightarrow> touches p q \<Longrightarrow> \<not> isTempName (path_last q)"
  using is_meta_not_temp is_body_not_temp by (auto simp: touches_def)

lemma off_entry:
  assumes "off_entries f g" "is_meta q"
  shows "entry_of g q = entry_of f q"
  using assms(2)
proof (rule entry_of_file_cong)
  fix x assume "touches q x"
  then have "\<not> isTempName (path_last x)" by (rule touches_not_temp [OF assms(2)])
  then show "file_at g x = file_at f x" by (rule off_file_at [OF assms(1)])
qed

lemma off_usage: "off_entries f g \<Longrightarrow> usage rt g = usage rt f"
  using off_entry by (intro usage_same) blast

lemma off_untorn:
  assumes "off_entries f g" "untorn f"
  shows "untorn g"
  unfolding untorn_def
proof (intro allI impI)
  fix p m b c
  assume m: "meta_at g p = Some m" and r: "resolve p m = Some b" and c: "file_at g b = Some c"
  have P: "is_meta p" "is_body b" using resolveE [OF r] by blast+
  have "meta_at f p = Some m"
    using m off_file_at [OF assms(1) is_meta_not_temp [OF P(1)]] by (simp add: meta_at_file)
  moreover have "file_at f b = Some c" using c off_file_at [OF assms(1) is_body_not_temp [OF P(2)]] by simp
  ultimately show "int (length c) = ContentBytes m" using assms(2) r unfolding untorn_def by blast
qed

section \<open>The phases leave other files alone\<close>

lemma MkdirAll_off: "os_MkdirAll p f = (e, g) \<Longrightarrow> off_entries f g"
  using os_MkdirAll_frame unfolding off_entries_def by blast

lemma temp_names: "isTempName (''.body-'' @ n)" "isTempName (''.metadata-'' @ n)"
  by (simp_all add: isTempName_def HasPrefix_def)

lemma open_temp_off:
  assumes "open_temp dir pre rnd now w = (r, w')" "\<And>n. isTempName (pre @ n)"
  shows "off_entries (w_fs w) (w_fs w')" "r = Inr p \<Longrightarrow> isTempName (path_last p)"
    "r = Inr p \<Longrightarrow> node_at (w_fs w') p = Some (Regular [] now)" "r = Inr p \<Longrightarrow> node_at (w_fs w) p = None"
    "r = Inr p \<Longrightarrow> \<exists>k \<in> set rnd. p = dir @ [pre @ dec_digits k]" "w_ctl w' = w_ctl w"
    "store_root (w_store w') = store_root (w_store w)" "store_bytes (w_store w') = store_bytes (w_store w)"
    "store_objects (w_store w') = store_objects (w_store w)"
proof -
  obtain r1 f1 where c: "os_CreateTemp dir pre rnd now (w_fs w) = (r1, f1)" by fastforce
  have w: "w_fs w' = f1" "r = r1" "w_ctl w' = w_ctl w" "store_root (w_store w') = store_root (w_store w)"
    "store_bytes (w_store w') = store_bytes (w_store w)" "store_objects (w_store w') = store_objects (w_store w)"
    using assms(1) c by (auto simp: open_temp_def split: sum.splits)
  note C = os_CreateTemp_cases [OF c]
  show "off_entries (w_fs w) (w_fs w')"
    using C
  proof (elim disjE bexE exE conjE)
    fix k assume "node_at f1 = (node_at (w_fs w))(dir @ [pre @ dec_digits k] \<mapsto> Regular [] now)"
    then show ?thesis using w(1) assms(2) by (intro off_temp [of "dir @ [pre @ dec_digits k]"]) simp_all
  next
    assume "node_at f1 = node_at (w_fs w)"
    then show ?thesis using w(1) by (simp add: off_eq)
  qed
  show "r = Inr p \<Longrightarrow> isTempName (path_last p)" "r = Inr p \<Longrightarrow> node_at (w_fs w') p = Some (Regular [] now)"
    "r = Inr p \<Longrightarrow> node_at (w_fs w) p = None" "r = Inr p \<Longrightarrow> \<exists>k \<in> set rnd. p = dir @ [pre @ dec_digits k]"
    using C w assms(2) by auto
  show "w_ctl w' = w_ctl w" "store_root (w_store w') = store_root (w_store w)"
    "store_bytes (w_store w') = store_bytes (w_store w)" "store_objects (w_store w') = store_objects (w_store w)"
    by (rule w)+
qed

lemma close_temp_off:
  assumes "isTempName (path_last p)"
  shows "off_entries (w_fs w) (w_fs (close_temp p keep w))"
proof -
  obtain e g where r: "os_Remove p (w_fs w) = (e, g)" by fastforce
  have "off_entries (w_fs w) g"
    using os_Remove_cases [OF r] assms by (intro off_temp [of p]) auto
  then show ?thesis by (simp add: close_temp_def Let_def r)
qed

lemma close_temp_store [simp]:
  "store_root (w_store (close_temp p keep w)) = store_root (w_store w)"
  "store_bytes (w_store (close_temp p keep w)) = store_bytes (w_store w)"
  "store_objects (w_store (close_temp p keep w)) = store_objects (w_store w)"
  "w_ctl (close_temp p keep w) = w_ctl w"
  by (simp_all add: close_temp_def Let_def)

lemma release_world [simp]: "w_fs (release r w) = w_fs w" "w_store (release r w) = w_store w"
  by (simp_all add: release_def split: option.splits)

lemma put_admit_world: "put_admit env m w = (a, w') \<Longrightarrow> w_fs w' = w_fs w \<and> w_store w' = w_store w"
  by (auto simp: put_admit_def split: option.splits sum.splits prod.splits if_splits)

lemma write_metadata_off:
  assumes "write_metadata p text now f = (e, g)" "isTempName (path_last p)"
  shows "off_entries f g"
proof -
  obtain e1 f1 where fw: "file_Write p text now f = (e1, f1)" by fastforce
  have o: "off_entries f f1" using file_Write_cases [OF fw] assms(2) by (intro off_temp [of p]) auto
  have "node_at g = node_at f1"
    using assms(1) by (auto simp: write_metadata_def fw sys_plain_def split: option.splits)
  then show ?thesis using off_trans [OF o off_eq] by blast
qed

lemma finish_body_frame: "finish_body verify stored gen m result over f = (r, g) \<Longrightarrow> node_at g = node_at f"
  by (auto simp: finish_body_def sys_plain_def Let_def split: option.splits if_splits)

lemma generation_touches:
  assumes "paths rt key = (b, p)" "bt = butlast b @ [''.body-'' @ dec_digits k]"
  shows "generation_path b bt = butlast p @ [stem_of p @ ''.body.'' @ dec_digits k]"
    "touches p (generation_path b bt)" "path_last (generation_path b bt) = stem_of p @ ''.body.'' @ dec_digits k"
    "isTempName (path_last bt)"
proof -
  note P = paths_meta [OF assms(1)]
  have lb: "last b = stem_of p @ ''.body''" using P(6) by (metis last_snoc)
  have pre: "TrimPrefix (''.body-'' @ dec_digits k) ''.body-'' = dec_digits k" by (rule TrimPrefix_append)
  show g: "generation_path b bt = butlast p @ [stem_of p @ ''.body.'' @ dec_digits k]"
    unfolding generation_path_def assms(2) path_last_snoc pre lb P(4) by simp
  show l: "path_last (generation_path b bt) = stem_of p @ ''.body.'' @ dec_digits k"
    unfolding g by (rule path_last_snoc)
  have "length (stem_of p) = 64" "list_all is_hex (stem_of p)" using is_metaE [OF P(2)] by blast+
  moreover from this(1) have "stem_of (generation_path b bt) = stem_of p"
    unfolding stem_of_def [of "generation_path b bt"] l by simp
  ultimately show "touches p (generation_path b bt)"
    using l g by (simp add: touches_def is_body_def HasPrefix_def)
  show "isTempName (path_last bt)" unfolding assms(2) path_last_snoc by (rule temp_names)
qed

lemma Rename_near:
  assumes "os_Rename t d f = (e, g)" "isTempName (path_last t)" "touches p d"
  shows "near p f g"
  using os_Rename_cases [OF assms(1)] assms(2,3) by (intro near_touch) auto

lemma Remove_near: "touches p d \<Longrightarrow> near p f (snd (os_Remove d f))"
  using os_Remove_cases [of d f "fst (os_Remove d f)" "snd (os_Remove d f)"] by (intro near_touch) auto

lemma Chtimes_near:
  assumes "os_Chtimes d t f = (e, g)" "touches p d"
  shows "near p f g"
  using os_Chtimes_cases [OF assms(1)] assms(2) by (intro near_touch) auto

lemma replace_near:
  assumes "replace t d f = (e, g)" "isTempName (path_last t)" "touches p d"
  shows "near p f g"
proof -
  obtain e1 f1 where r1: "os_Rename t d f = (e1, f1)" by fastforce
  obtain e2 f2 where st: "os_Stat d f1 = (e2, f2)" by fastforce
  obtain e3 f3 where rm: "os_Remove d f2 = (e3, f3)" by fastforce
  obtain e4 f4 where r4: "os_Rename t d f3 = (e4, f4)" by fastforce
  obtain e5 f5 where r5: "os_Rename t d f2 = (e5, f5)" by fastforce
  have n1: "near p f f1" by (rule Rename_near [OF r1 assms(2,3)])
  have n2: "near p f f2" using near_trans [OF n1 near_eq] os_Stat_frame [OF st] by blast
  have n3: "near p f f3" using near_trans [OF n2 Remove_near [OF assms(3)]] rm by (metis snd_conv)
  have n4: "near p f f4" by (rule near_trans [OF n3 Rename_near [OF r4 assms(2,3)]])
  have n5: "near p f f5" by (rule near_trans [OF n2 Rename_near [OF r5 assms(2,3)]])
  have "g = f1 \<or> g = f3 \<or> g = f4 \<or> g = f5"
    using assms(1) by (auto simp: replace_def r1 st rm r4 r5 split: option.splits sum.splits)
  with n1 n3 n4 n5 show ?thesis by blast
qed

lemma previous_generation_frame:
  assumes "previous_generation p b f = ((prev, n, v), g)" "bodyPathForMetadata p = Some b"
  shows "node_at g = node_at f" "prev = Some q \<Longrightarrow> touches p q" "prev = Some q \<Longrightarrow> q \<noteq> p"
proof -
  obtain r1 f1 where rd: "readMetadata p f = (r1, f1)" by fastforce
  have n1: "node_at f1 = node_at f" by (rule readMetadata_frame [OF rd])
  have "node_at g = node_at f \<and> (prev = Some q \<longrightarrow> (\<exists>m. resolve p m = Some q))"
  proof (cases r1)
    case (Inl e)
    with assms n1 show ?thesis by (auto simp: previous_generation_def rd)
  next
    case m: (Inr m)
    show ?thesis
    proof (cases "bodyPathForEntry p b m")
      case (Inl e)
      with assms n1 m show ?thesis by (auto simp: previous_generation_def rd)
    next
      case (Inr q')
      obtain r2 f2 where st: "os_Stat q' f1 = (r2, f2)" by fastforce
      have "resolve p m = Some q'" using assms(2) Inr by (simp add: resolve_def)
      with assms n1 os_Stat_frame [OF st] m Inr show ?thesis
        by (auto simp: previous_generation_def rd st split: sum.splits if_splits)
    qed
  qed
  then show "node_at g = node_at f" "prev = Some q \<Longrightarrow> touches p q" "prev = Some q \<Longrightarrow> q \<noteq> p"
    using touches_resolve resolve_not_meta by blast+
qed

lemma put_commit_near:
  assumes "put_commit b p bt gen mt st n res w = (c, w')"
    "bodyPathForMetadata p = Some b" "touches p gen" "isTempName (path_last bt)" "isTempName (path_last mt)"
  shows "near p (w_fs w) (w_fs w')" "store_root (w_store w') = store_root (w_store w)"
proof -
  let ?f = "w_fs w"
  obtain prev pb pv f0 where pg: "previous_generation p b ?f = ((prev, pb, pv), f0)" by (metis prod_cases4 surj_pair)
  note PG = previous_generation_frame [OF pg assms(2)]
  obtain e1 f1 where r1: "os_Rename bt gen f0 = (e1, f1)" by fastforce
  obtain e2 f2 where c2: "os_Chtimes gen st f1 = (e2, f2)" by fastforce
  obtain e3 f3 where r3: "replace mt p f2 = (e3, f3)" by fastforce
  have n0: "near p ?f f0" by (rule near_eq [OF PG(1)])
  have n1: "near p ?f f1" by (rule near_trans [OF n0 Rename_near [OF r1 assms(4,3)]])
  have n2: "near p ?f f2" by (rule near_trans [OF n1 Chtimes_near [OF c2 assms(3)]])
  have n3: "near p ?f f3" by (rule near_trans [OF n2 replace_near [OF r3 assms(5) touches_self]])
  have rm: "near p ?f (snd (os_Remove gen f2))" "near p ?f (snd (os_Remove gen f3))"
    "prev = Some q \<Longrightarrow> near p ?f (snd (os_Remove q f3))" for q
    using near_trans [OF n2 Remove_near [OF assms(3)]] near_trans [OF n3 Remove_near [OF assms(3)]]
      near_trans [OF n3 Remove_near [OF PG(2)]] by blast+
  obtain ok res' ctl' where k: "settle n pb res (w_ctl w) = (ok, res', ctl')" by (metis prod_cases3)
  note ev = put_commit_def pg r1 c2 r3 k
  have "near p ?f (w_fs w') \<and> store_root (w_store w') = store_root (w_store w)"
  proof (cases "e1 = None \<and> e2 = None \<and> e3 = None")
    case False
    then have "w' = w\<lparr>w_fs := f1\<rparr> \<or> w' = w\<lparr>w_fs := snd (os_Remove gen f2)\<rparr> \<or>
        w' = w\<lparr>w_fs := snd (os_Remove gen f3)\<rparr>"
      using assms(1) by (cases e1; cases e2; cases e3) (auto simp: ev)
    with n1 rm(1,2) show ?thesis by auto
  next
    case True
    show ?thesis
    proof (cases ok)
      case False
      with assms(1) True have "w_fs w' = snd (os_Remove gen f3)" "w_store w' = w_store w"
        by (auto simp: ev)
      with rm(2) show ?thesis by simp
    next
      case ok: True
      with assms(1) True have "w_fs w' = (case prev of Some q \<Rightarrow> if q \<noteq> gen then snd (os_Remove q f3) else f3
          | None \<Rightarrow> f3)" "store_root (w_store w') = store_root (w_store w)"
        by (auto simp: ev Let_def)
      with n3 rm(3) show ?thesis by (auto split: option.splits)
    qed
  qed
  then show "near p (w_fs w) (w_fs w')" "store_root (w_store w') = store_root (w_store w)" by blast+
qed

text \<open>Errors after the commit of a body has begun; every other error leaves the entries alone.\<close>

fun late_error :: "cache_error \<Rightarrow> bool" where
  "late_error (ErrAccessTime _) = True"
| "late_error (ErrCommitMetadata _) = True"
| "late_error ErrExceededReservation = True"
| "late_error _ = False"

lemma put_commit_early:
  assumes "put_commit b p bt gen mt st n res w = (c, w')" "c_err c = Some e" "\<not> late_error e"
    "bodyPathForMetadata p = Some b"
  shows "node_at (w_fs w') = node_at (w_fs w)"
proof -
  obtain prev pb pv f0 where pg: "previous_generation p b (w_fs w) = ((prev, pb, pv), f0)"
    by (metis prod_cases4 surj_pair)
  obtain e1 f1 where r1: "os_Rename bt gen f0 = (e1, f1)" by fastforce
  obtain e2 f2 where c2: "os_Chtimes gen st f1 = (e2, f2)" by fastforce
  obtain e3 f3 where r3: "replace mt p f2 = (e3, f3)" by fastforce
  obtain ok res' ctl' where k: "settle n pb res (w_ctl w) = (ok, res', ctl')" by (metis prod_cases3)
  note ev = put_commit_def pg r1 c2 r3 k Let_def
  have "e1 \<noteq> None" using assms(1-3) by (cases e1; cases e2; cases e3; cases ok) (auto simp: ev)
  then have "w_fs w' = f1" "node_at f1 = node_at f0"
    using assms(1) os_Rename_cases [OF r1] by (auto simp: ev)
  then show ?thesis using previous_generation_frame(1) [OF pg assms(4)] by simp
qed

lemma put_metadata_near:
  assumes "put_metadata env b p bt gen m text res w = ((e, keep, res'), w')"
    "bodyPathForMetadata p = Some b" "touches p gen" "isTempName (path_last bt)"
  shows "near p (w_fs w) (w_fs w')"
    "e = Some x \<Longrightarrow> \<not> late_error x \<Longrightarrow> off_entries (w_fs w) (w_fs w')"
    "store_root (w_store w') = store_root (w_store w)"
proof -
  obtain r1 w1 where o: "open_temp (butlast b) ''.metadata-'' (rnd_meta env) (t_write env) w = (r1, w1)" by fastforce
  note O = open_temp_off [OF o temp_names(2)]
  have "near p (w_fs w) (w_fs w') \<and> (e = Some x \<longrightarrow> \<not> late_error x \<longrightarrow> off_entries (w_fs w) (w_fs w')) \<and>
    store_root (w_store w') = store_root (w_store w)"
  proof (cases r1)
    case (Inl e1)
    then have "w' = w1" using assms(1) by (simp add: put_metadata_def o)
    with O(1,7) off_near show ?thesis by auto
  next
    case (Inr mt)
    note T = O(2) [OF Inr]
    obtain e2 f2 where wm: "write_metadata mt text (t_write env) (w_fs w1) = (e2, f2)" by fastforce
    let ?w2 = "w1\<lparr>w_fs := f2\<rparr>"
    have n2: "off_entries (w_fs w) (w_fs ?w2)" using off_trans [OF O(1) write_metadata_off [OF wm T]] by simp
    show ?thesis
    proof (cases e2)
      case (Some e3)
      then have "w' = close_temp mt False ?w2" using assms(1) Inr by (simp add: put_metadata_def o wm)
      then show ?thesis
        using off_trans [OF n2 close_temp_off [OF T]] off_near O(7) by auto
    next
      case None
      obtain c w3 where pc: "put_commit b p bt gen mt (StoredAt m) (ContentBytes m) res ?w2 = (c, w3)" by fastforce
      have w': "w' = close_temp mt (c_keepMetadata c) w3" "e = c_err c"
        using assms(1) Inr None by (auto simp: put_metadata_def o wm pc)
      note C = put_commit_near [OF pc assms(2-4) T]
      have N: "near p (w_fs w) (w_fs w')"
        using near_trans [OF near_trans [OF off_near [OF n2] C(1)] off_near [OF close_temp_off [OF T]]] w'(1)
        by simp
      have "off_entries (w_fs w) (w_fs w')" if "e = Some x" "\<not> late_error x"
      proof -
        have "node_at (w_fs w3) = node_at (w_fs ?w2)"
          by (rule put_commit_early [OF pc _ that(2) assms(2)]) (use that(1) w'(2) in simp)
        from off_trans [OF off_trans [OF n2 off_eq [OF this]] close_temp_off [OF T]] w'(1) show ?thesis by simp
      qed
      with N C(2) O(7) w'(1) show ?thesis by simp
    qed
  qed
  then show "near p (w_fs w) (w_fs w')"
    "e = Some x \<Longrightarrow> \<not> late_error x \<Longrightarrow> off_entries (w_fs w) (w_fs w')"
    "store_root (w_store w') = store_root (w_store w)" by blast+
qed

lemma new_sink_inv:
  "node_at f p = Some (Regular [] t) \<Longrightarrow> sink_inv (new_sink p d n reserved controlled) f"
  by (simp add: sink_inv_def new_sink_def)

lemma copy_sink_off:
  assumes "copy_sink now cs er acc w f = (r, w', g)" "sink_inv w f" "isTempName (path_last (cache w))"
  shows "off_entries f g"
  using copy_sink_inv [OF assms(1,2)] assms(3) by (intro off_temp [of "cache w"]) auto

lemma new_sink_cache [simp]: "cache (new_sink p d n reserved controlled) = p"
  by (simp add: new_sink_def)

lemma put_near:
  assumes "PutStreamVerified env key m source down verify w = (e, d, w')"
    "paths (store_root (w_store w)) key = (b, p)"
  shows "near p (w_fs w) (w_fs w') \<and>
    (\<forall>x. e = Some x \<longrightarrow> \<not> late_error x \<longrightarrow> off_entries (w_fs w) (w_fs w')) \<and>
    store_root (w_store w') = store_root (w_store w)"
proof -
  note P = paths_meta [OF assms(2)]
  obtain a w0 where ad: "put_admit env m w = (a, w0)" by fastforce
  note A = put_admit_world [OF ad]
  have pp: "paths (store_root (w_store w0)) key = (b, p)" using A assms(2) by simp
  show ?thesis
  proof (cases a)
    case (Refuse e')
    then show ?thesis using assms(1) A by (auto simp: PutStreamVerified_def ad near_self)
  next
    case Bypass
    then show ?thesis
      using assms(1) A by (auto simp: PutStreamVerified_def ad near_self split: prod.splits)
  next
    case (Admit res)
    obtain e1 f1 where mk: "os_MkdirAll (butlast b) (w_fs w0) = (e1, f1)" by fastforce
    have n1: "off_entries (w_fs w) f1" using MkdirAll_off [OF mk] A by simp
    obtain r1 w1 where o: "open_temp (butlast b) ''.body-'' (rnd_body env) (t_write env) (w0\<lparr>w_fs := f1\<rparr>) = (r1, w1)"
      by fastforce
    note O = open_temp_off [OF o temp_names(1)]
    have o1: "off_entries (w_fs w) (w_fs w1)" using off_trans [OF n1] O(1) by simp
    have rt: "store_root (w_store w1) = store_root (w_store w)" using O(7) A by simp
    note ev = PutStreamVerified_def ad Admit pp mk o
    show ?thesis
    proof (cases "\<exists>bt. e1 = None \<and> r1 = Inr bt")
      case False
      then have "w' = release res (w0\<lparr>w_fs := f1\<rparr>) \<or> w' = release res w1"
        using assms(1) by (cases e1; cases r1) (auto simp: ev)
      then show ?thesis using n1 o1 off_near rt A by auto
    next
      case True
      then obtain bt where bt: "e1 = None" "r1 = Inr bt" by blast
      obtain k where k: "bt = butlast b @ [''.body-'' @ dec_digits k]" using O(5) [OF bt(2)] by blast
      note G = generation_touches [OF assms(2) k]
      let ?gen = "generation_path b bt"
      let ?sink = "new_sink bt down (fst (contentLength (Header m))) (res \<noteq> None) (w_ctl w1 \<noteq> None)"
      obtain result sink' f2 where cp: "copy_sink (t_write env) (chunks source) (read_error source) 0 ?sink (w_fs w1)
          = (result, sink', f2)" by (metis prod_cases3)
      have o2: "off_entries (w_fs w) f2"
        using off_trans [OF o1 copy_sink_off [OF cp new_sink_inv [OF O(3) [OF bt(2)]]]] G(4) by simp
      obtain fb f3 where fb: "finish_body verify (t_store env) ?gen m result (overflow sink') f2 = (fb, f3)" by fastforce
      have o3: "off_entries (w_fs w) f3" using off_trans [OF o2 off_eq [OF finish_body_frame [OF fb]]] .
      show ?thesis
      proof (cases "\<exists>m' text. fb = Encoded m' text")
        case False
        have self: "w1\<lparr>w_fs := f3\<rparr> = w1\<lparr>w_fs := f3, w_ctl := w_ctl w1\<rparr>" by (cases w1) simp
        from False have "\<exists>c. w' = release res (close_temp bt False (w1\<lparr>w_fs := f3, w_ctl := c\<rparr>))"
        proof (cases fb)
          case (Failed x)
          then have "w' = release res (close_temp bt False (w1\<lparr>w_fs := f3\<rparr>))"
            using assms(1) bt by (simp add: ev cp fb Let_def del: not_None_eq)
          with self show ?thesis by metis
        next
          case Overflowed
          then have "w' = release res (close_temp bt False
              (w1\<lparr>w_fs := f3, w_ctl := map_option (RecordBypass (fst result)) (w_ctl w1)\<rparr>))"
            using assms(1) bt by (simp add: ev cp fb Let_def del: not_None_eq)
          then show ?thesis by (rule exI)
        qed simp
        then obtain c where "w' = release res (close_temp bt False (w1\<lparr>w_fs := f3, w_ctl := c\<rparr>))" by blast
        then show ?thesis
          using off_trans [OF o3 close_temp_off [OF G(4), of "w1\<lparr>w_fs := f3, w_ctl := c\<rparr>" False, simplified]]
            off_near rt by simp
      next
        case True
        then obtain m' js where en: "fb = Encoded m' js" by blast
        obtain x keep res' w2 where pm: "put_metadata env b p bt ?gen m' js res (w1\<lparr>w_fs := f3\<rparr>) = ((x, keep, res'), w2)"
          by (metis prod_cases3 surj_pair)
        note M = put_metadata_near [OF pm P(1) G(2) G(4)]
        have w': "w' = release res' (close_temp bt keep w2)" "e = x"
          using assms(1) bt en by (auto simp: ev cp fb pm Let_def simp del: not_None_eq)
        have c: "off_entries (w_fs w2) (w_fs w')" using close_temp_off [OF G(4)] w'(1) by simp
        have "near p (w_fs w) (w_fs w')"
          using near_trans [OF near_trans [OF off_near [OF o3] _] off_near [OF c]] M(1) by simp
        moreover have "off_entries (w_fs w) (w_fs w')" if "e = Some y" "\<not> late_error y" for y
          using off_trans [OF off_trans [OF o3 _] c] M(2) that w'(2) by simp
        ultimately show ?thesis using M(3) rt w'(1) by simp
      qed
    qed
  qed
qed

section \<open>A successful commit\<close>

lemma previous_generation_exact:
  assumes "faults f = []" "bodyPathForMetadata p = Some b"
  shows "\<exists>prev. previous_generation p b f = ((prev, entry_size f p, entry_of f p \<noteq> None), f)"
proof -
  note R = no_faults_read_meta [OF assms(1), of p]
  note S = entry_of_steps [OF assms(2), of f]
  show ?thesis
  proof (cases "meta_at f p")
    case None
    then obtain e where "readMetadata p f = (Inl e, f)" using R by (auto split: prod.splits sum.splits)
    then show ?thesis using S(1) [OF None] by (simp add: previous_generation_def entry_size_def)
  next
    case (Some m)
    then have rd: "readMetadata p f = (Inr m, f)" using R by (auto split: prod.splits sum.splits)
    show ?thesis
    proof (cases "bodyPathForEntry p b m")
      case (Inl e)
      then show ?thesis using S(2) [OF Some Inl] rd by (simp add: previous_generation_def entry_size_def)
    next
      case (Inr q)
      show ?thesis
      proof (cases "node_at f q")
        case None
        then show ?thesis
          using S(3) [OF Some Inr None] rd Inr
          by (simp add: previous_generation_def entry_size_def no_faults_Stat [OF assms(1)])
      next
        case n: (Some n)
        show ?thesis
          using S(4) [OF Some Inr n] rd Inr n
          by (simp add: previous_generation_def entry_size_def no_faults_Stat [OF assms(1)] file_size_def)
      qed
    qed
  qed
qed

lemma no_faults_Rename:
  assumes "faults f = []" "node_at f p = Some (Regular d t)" "node_at f q \<noteq> Some Directory"
  shows "os_Rename p q f = (None, set_node q (Regular d t) (del_node p f))"
  using assms by (simp add: os_Rename_def)

lemma no_faults_Chtimes:
  assumes "faults f = []" "node_at f p = Some (Regular d u)"
  shows "os_Chtimes p t f = (None, set_node p (Regular d t) f)"
  using assms by (simp add: os_Chtimes_def)

lemma faults_Remove: "faults f = [] \<Longrightarrow> faults (snd (os_Remove p f)) = []"
  by (simp add: os_Remove_def split: option.splits node.splits)

text \<open>What a caller of the commit provides: both temporaries written, and a free place.\<close>

definition ready :: "path \<Rightarrow> path \<Rightarrow> path \<Rightarrow> path \<Rightarrow> Metadata \<Rightarrow> string \<Rightarrow> fs \<Rightarrow> bool" where
  "ready p bt gen mt m c f \<longleftrightarrow>
     faults f = [] \<and> (\<exists>t. node_at f bt = Some (Regular c t)) \<and>
     (\<exists>d t. node_at f mt = Some (Regular d t) \<and> length d \<le> maxMetadataBytes \<and> unmarshal_Metadata d = Some m) \<and>
     bt \<noteq> mt \<and> isTempName (path_last bt) \<and> isTempName (path_last mt) \<and>
     node_at f gen \<noteq> Some Directory \<and> node_at f p \<noteq> Some Directory \<and>
     resolve p m = Some gen \<and> ContentBytes m = int (length c)"

lemma put_commit_ok:
  assumes R: "ready p bt gen mt m c (w_fs w)" and b: "bodyPathForMetadata p = Some b"
    and k: "settle (int (length c)) (entry_size (w_fs w) p) res (w_ctl w) = (True, res', ctl')"
  shows "\<exists>w'. put_commit b p bt gen mt st (int (length c)) res w =
      (\<lparr>c_err = None, c_keepBody = True, c_keepMetadata = True, c_res = res'\<rparr>, w') \<and>
    entry_of (w_fs w') p = Some (m, gen, c) \<and> faults (w_fs w') = [] \<and> w_ctl w' = ctl' \<and>
    w_store w' = (w_store w)\<lparr>store_bytes := store_bytes (w_store w) + (int (length c) - entry_size (w_fs w) p),
      store_objects := store_objects (w_store w) + (1 - entry_count (w_fs w) p)\<rparr>"
proof -
  let ?f = "w_fs w"
  obtain t d u where r: "faults ?f = []" "node_at ?f bt = Some (Regular c t)" "node_at ?f mt = Some (Regular d u)"
    "length d \<le> maxMetadataBytes" "unmarshal_Metadata d = Some m" "bt \<noteq> mt"
    "isTempName (path_last bt)" "isTempName (path_last mt)"
    "node_at ?f gen \<noteq> Some Directory" "node_at ?f p \<noteq> Some Directory" "resolve p m = Some gen"
    "ContentBytes m = int (length c)"
    using R unfolding ready_def by blast
  have tp: "is_meta p" "is_body gen" "gen \<noteq> p" using resolveE [OF r(11)] resolve_not_meta [OF r(11)] by blast+
  then have ne: "gen \<noteq> bt" "gen \<noteq> mt" "p \<noteq> bt" "p \<noteq> mt"
    using r(7,8) is_meta_not_temp is_body_not_temp by blast+
  obtain prev where pg: "previous_generation p b ?f = ((prev, entry_size ?f p, entry_of ?f p \<noteq> None), ?f)"
    using previous_generation_exact [OF r(1) b] by blast
  let ?f1 = "set_node gen (Regular c t) (del_node bt ?f)"
  let ?f2 = "set_node gen (Regular c st) ?f1"
  let ?f3 = "set_node p (Regular d u) (del_node mt ?f2)"
  have 1: "os_Rename bt gen ?f = (None, ?f1)" using r by (intro no_faults_Rename)
  have 2: "os_Chtimes gen st ?f1 = (None, ?f2)" using r(1) by (intro no_faults_Chtimes) simp_all
  have 3: "replace mt p ?f2 = (None, ?f3)"
    using no_faults_Rename [of ?f2 mt d u p] r ne tp(3) by (simp add: replace_def)
  let ?f4 = "case prev of Some q \<Rightarrow> if q \<noteq> gen then snd (os_Remove q ?f3) else ?f3 | None \<Rightarrow> ?f3"
  have pq: "q \<noteq> p" if "prev = Some q" for q by (rule previous_generation_frame(3) [OF pg b that])
  have n4: "node_at ?f4 p = Some (Regular d u)" "node_at ?f4 gen = Some (Regular c st)" "faults ?f4 = []"
  proof -
    have g: "node_at (snd (os_Remove q ?f3)) x = node_at ?f3 x" if "x \<noteq> q" for q x
      using os_Remove_cases [of q ?f3 "fst (os_Remove q ?f3)" "snd (os_Remove q ?f3)"] that by auto
    have f3: "node_at ?f3 p = Some (Regular d u)" "node_at ?f3 gen = Some (Regular c st)" "faults ?f3 = []"
      using ne tp(3) r(1) by simp_all
    show "node_at ?f4 p = Some (Regular d u)" "node_at ?f4 gen = Some (Regular c st)" "faults ?f4 = []"
      using f3 g pq faults_Remove [OF f3(3)] by (auto split: option.splits simp del: node_at_set)
  qed
  have en: "entry_of ?f4 p = Some (m, gen, c)"
    unfolding entry_of_Some using n4(1,2) r(4,5,11,12) by (simp add: meta_at_def)
  let ?s = "w_store w"
  let ?s' = "?s\<lparr>store_bytes := store_bytes ?s + (int (length c) - entry_size ?f p),
      store_objects := store_objects ?s + (1 - entry_count ?f p)\<rparr>"
  have ob: "(if entry_of ?f p \<noteq> None then store_objects ?s else store_objects ?s + 1) =
      store_objects ?s + (1 - entry_count ?f p)"
    by (simp add: entry_count_def split: option.splits)
  have "put_commit b p bt gen mt st (int (length c)) res w =
      (\<lparr>c_err = None, c_keepBody = True, c_keepMetadata = True, c_res = res'\<rparr>,
       w\<lparr>w_store := ?s', w_fs := ?f4, w_ctl := ctl'\<rparr>)"
    by (simp add: put_commit_def pg 1 2 3 k Let_def ob del: not_None_eq)
  with en n4(3) show ?thesis by simp
qed

section \<open>A successful put\<close>

lemma make_dirs_ok:
  assumes "\<And>q. q \<in> set ps \<Longrightarrow> file_at f q = None"
  shows "\<exists>g. make_dirs ps f = (None, g) \<and> faults g = faults f \<and>
    (\<forall>q. node_at g q = (if q \<in> set ps \<and> node_at f q = None then Some Directory else node_at f q))"
  using assms
proof (induction ps arbitrary: f)
  case (Cons q ps)
  have q: "node_at f q = None \<or> node_at f q = Some Directory"
    using Cons.prems [of q] by (auto simp: file_at_def split: option.splits node.splits)
  then show ?case
  proof
    assume n: "node_at f q = None"
    have "\<exists>g. make_dirs ps (set_node q Directory f) = (None, g) \<and> faults g = faults (set_node q Directory f) \<and>
      (\<forall>x. node_at g x = (if x \<in> set ps \<and> node_at (set_node q Directory f) x = None then Some Directory
                          else node_at (set_node q Directory f) x))"
      by (rule Cons.IH) (use Cons.prems in \<open>simp add: file_at_def\<close>)
    with n show ?thesis by auto
  next
    assume d: "node_at f q = Some Directory"
    have "\<exists>g. make_dirs ps f = (None, g) \<and> faults g = faults f \<and>
      (\<forall>x. node_at g x = (if x \<in> set ps \<and> node_at f x = None then Some Directory else node_at f x))"
      by (rule Cons.IH) (use Cons.prems in simp)
    with d show ?thesis by auto
  qed
qed simp

lemma MkdirAll_ok:
  assumes "faults f = []" "\<And>q. prefix q dir \<Longrightarrow> file_at f q = None"
  shows "\<exists>g. os_MkdirAll dir f = (None, g) \<and> faults g = [] \<and> node_at g dir = Some Directory \<and>
    (\<forall>q. \<not> prefix q dir \<longrightarrow> node_at g q = node_at f q)"
proof -
  obtain g where g: "make_dirs (prefixes dir) f = (None, g)" "faults g = faults f"
    "\<And>q. node_at g q = (if q \<in> set (prefixes dir) \<and> node_at f q = None then Some Directory else node_at f q)"
    using make_dirs_ok [of "prefixes dir" f] assms(2) by (auto simp: in_set_prefixes)
  have "node_at g dir = Some Directory"
    using g(3) [of dir] assms(2) [of dir] by (auto simp: in_set_prefixes file_at_def split: option.splits node.splits)
  then show ?thesis using g assms(1) by (simp add: os_MkdirAll_def in_set_prefixes)
qed

lemma fresh_name_ok: "\<exists>k \<in> set rnd. node_at f (dir @ [pre @ dec_digits k]) = None \<Longrightarrow> fresh_name dir pre rnd f \<noteq> None"
  by (induction rnd) (auto simp: Let_def)

lemma open_temp_ok:
  assumes "faults (w_fs w) = []" "node_at (w_fs w) dir = Some Directory"
    "\<exists>k \<in> set rnd. node_at (w_fs w) (dir @ [pre @ dec_digits k]) = None"
  shows "\<exists>k \<in> set rnd. \<exists>w'. open_temp dir pre rnd now w = (Inr (dir @ [pre @ dec_digits k]), w') \<and>
    faults (w_fs w') = [] \<and>
    node_at (w_fs w') = (node_at (w_fs w))(dir @ [pre @ dec_digits k] \<mapsto> Regular [] now) \<and>
    w_ctl w' = w_ctl w \<and>
    w_store w' = (w_store w)\<lparr>activeTemps := (dir @ [pre @ dec_digits k]) # activeTemps (w_store w)\<rparr>"
proof -
  obtain p where p: "fresh_name dir pre rnd (w_fs w) = Some p" using fresh_name_ok [OF assms(3)] by blast
  then obtain k where "k \<in> set rnd" "p = dir @ [pre @ dec_digits k]" using fresh_name_Some by blast
  with p assms(1,2) show ?thesis
    by (intro bexI [of _ k] exI) (auto simp: open_temp_def os_CreateTemp_def)
qed

lemma write_metadata_ok:
  assumes "faults f = []" "node_at f p = Some (Regular [] t)"
  shows "\<exists>g. write_metadata p js now f = (None, g) \<and> faults g = [] \<and>
    node_at g = (node_at f)(p \<mapsto> Regular js now)"
  using assms by (simp add: write_metadata_def file_Write_def sys_plain_def)

text \<open>Admission with a controller whose books are in order ends in a successful commit.\<close>

lemma admit_settles:
  assumes "put_admit env m w = (Admit res, w0)"
    and "w_ctl w \<noteq> None \<Longrightarrow> 0 \<le> n \<and> n \<le> fst (contentLength (Header m))"
    and "\<And>c. w_ctl w = Some c \<Longrightarrow> 0 \<le> replaced \<and> replaced \<le> committedBytes c"
  shows "\<exists>res' ctl'. settle n replaced res (w_ctl w0) = (True, res', ctl')" "w_ctl w0 = None \<longleftrightarrow> res = None"
proof -
  have "(\<exists>res' ctl'. settle n replaced res (w_ctl w0) = (True, res', ctl')) \<and> (w_ctl w0 = None \<longleftrightarrow> res = None)"
  proof (cases "w_ctl w")
    case None
    then show ?thesis using assms(1) by (auto simp: put_admit_def settle_def)
  next
    case (Some c)
    obtain free where fr: "env_free env = Inr free" using assms(1) Some by (auto simp: put_admit_def split: sum.splits)
    obtain x kn where cl: "contentLength (Header m) = (x, kn)" by fastforce
    obtain r c' where rs: "Reserve x free c = (Some r, c')" "w_ctl w0 = Some c'" "res = Some r"
      using assms(1) Some fr cl by (auto simp: put_admit_def split: if_splits option.splits prod.splits)
    then have "res_bytes r = x" "\<not> once_done r" "committedBytes c' = committedBytes c"
      by (auto simp: Reserve_def Let_def split: if_splits)
    with rs(2,3) assms(2,3) Some cl show ?thesis by (simp add: settle_def Commit_def Let_def)
  qed
  then show "\<exists>res' ctl'. settle n replaced res (w_ctl w0) = (True, res', ctl')" "w_ctl w0 = None \<longleftrightarrow> res = None"
    by blast+
qed

text \<open>The metadata that a put writes for a body and a generation number.\<close>

definition stored_metadata :: "put_env \<Rightarrow> path \<Rightarrow> Metadata \<Rightarrow> string \<Rightarrow> nat \<Rightarrow> Metadata" where
  "stored_metadata env p m body k =
     m\<lparr>StoredAt := t_store env, ContentBytes := int (length body),
       BodyFile := stem_of p @ ''.body.'' @ dec_digits k, Header := CacheMetadataHeaders (Header m)\<rparr>"

definition read_back :: "Metadata \<Rightarrow> Metadata" where
  "read_back m = m\<lparr>Header := read_header (Header m)\<rparr>"

lemma dec_digits_ascii: "is_ascii (dec_digits k)"
  using dec_digits_ok [of k] by (auto intro: digits_ascii)

lemma dec_digits_no_slash: "CHR ''/'' \<notin> set (dec_digits k)"
  using dec_digits_ok [of k] by (auto simp: list_all_iff is_digit_def byte_def)

lemma hex_ascii: "list_all is_hex s \<Longrightarrow> is_ascii s"
  by (induction s) (auto simp: is_hex_def is_digit_def)

lemma hex_no_slash: "list_all is_hex s \<Longrightarrow> CHR ''/'' \<notin> set s"
  by (auto simp: list_all_iff is_hex_def is_digit_def byte_def)

lemma path_Base_plain:
  assumes "s \<noteq> []" "CHR ''/'' \<notin> set s"
  shows "path_Base s = s"
proof -
  have "TrimRight s ''/'' = s"
    using assms by (cases s rule: rev_cases) (auto simp: TrimRight_def)
  then show ?thesis using assms by (simp add: path_Base_def LastIndexByte_None [THEN iffD2])
qed

lemma stored_resolves:
  assumes "paths rt key = (b, p)"
  shows "resolve p (read_back (stored_metadata env p m body k)) =
    Some (butlast p @ [stem_of p @ ''.body.'' @ dec_digits k])"
proof -
  note P = paths_meta [OF assms]
  let ?n = "stem_of p @ ''.body.'' @ dec_digits k"
  have "CHR ''/'' \<notin> set ?n"
    using hex_no_slash [OF is_metaE(3) [OF P(2)]] dec_digits_no_slash by simp
  then have "path_Base ?n = ?n" by (intro path_Base_plain) simp_all
  moreover have "path_last p = stem_of p @ ''.json''" using is_metaE(1) [OF P(2)] by (metis path_last_snoc)
  ultimately show ?thesis
    by (simp add: resolve_def P(1) bodyPathForEntry_def read_back_def stored_metadata_def HasPrefix_def)
qed

end
