(* ===== verification/Cache_Roundtrip.thy ===== *)
theory Cache_Roundtrip
  imports Cache_Laws
begin

text \<open>
  A response that is admitted, whose body ends without an error and passes its
  verification is stored: the client got every byte, the entry of the key is the new
  body with the sanitised metadata, and a lookup serves it until it is too old.
\<close>

section \<open>When a response can be stored\<close>

text \<open>The place: no file is in the way of the shard directory, and the names can be taken.\<close>

definition place_free :: "put_env \<Rightarrow> path \<Rightarrow> fs \<Rightarrow> bool" where
  "place_free env p f \<longleftrightarrow>
     (\<forall>q. prefix q (butlast p) \<longrightarrow> file_at f q = None) \<and>
     (\<exists>k \<in> set (rnd_body env). node_at f (butlast p @ [''.body-'' @ dec_digits k]) = None) \<and>
     (\<exists>k \<in> set (rnd_meta env). node_at f (butlast p @ [''.metadata-'' @ dec_digits k]) = None) \<and>
     (\<forall>k \<in> set (rnd_body env). node_at f (butlast p @ [stem_of p @ ''.body.'' @ dec_digits k]) \<noteq> Some Directory) \<and>
     node_at f p \<noteq> Some Directory"

text \<open>The metadata: the values that JSON keeps, in a text of at most one MiB.\<close>

definition encodable :: "Metadata \<Rightarrow> string \<Rightarrow> bool" where
  "encodable m body \<longleftrightarrow>
     is_i64 (Status m) \<and> is_i64 (int (length body)) \<and> valid_utf8 (ContentDigest m)"

definition recordable :: "put_env \<Rightarrow> path \<Rightarrow> Metadata \<Rightarrow> string \<Rightarrow> bool" where
  "recordable env p m body \<longleftrightarrow>
     encodable m body \<and>
     (\<forall>k \<in> set (rnd_body env).
        case marshal_Metadata (stored_metadata env p m body k) of
          None \<Rightarrow> False | Some js \<Rightarrow> length js \<le> maxMetadataBytes)"

text \<open>The books: the body keeps to its reservation, the controller knows the entry it replaces.\<close>

definition accounted :: "put_env \<Rightarrow> path \<Rightarrow> Metadata \<Rightarrow> string \<Rightarrow> world \<Rightarrow> bool" where
  "accounted env p m body w \<longleftrightarrow>
     (case put_admit env m w of (Admit _, _) \<Rightarrow> True | _ \<Rightarrow> False) \<and>
     (case w_ctl w of
        None \<Rightarrow> True
      | Some c \<Rightarrow> int (length body) \<le> fst (contentLength (Header m)) \<and>
                  entry_size (w_fs w) p \<le> committedBytes c)"

definition storable :: "put_env \<Rightarrow> string \<Rightarrow> Metadata \<Rightarrow> string \<Rightarrow> world \<Rightarrow> bool" where
  "storable env key m body w \<longleftrightarrow>
     (let p = snd (paths (store_root (w_store w)) key)
      in faults (w_fs w) = [] \<and> place_free env p (w_fs w) \<and> recordable env p m body \<and>
         accounted env p m body w)"

lemma entry_size_nonneg: "0 \<le> entry_size f p"
  by (simp add: entry_size_def split: option.splits prod.splits)

lemma stored_unmarshal_any:
  assumes "encodable m body" "is_meta p" "marshal_Metadata (stored_metadata env p m body k) = Some js"
  shows "unmarshal_Metadata js = Some (read_back (stored_metadata env p m body k))"
proof -
  have "valid_utf8 (stem_of p @ ''.body.'' @ dec_digits k)"
    using hex_ascii [OF is_metaE(3) [OF assms(2)]] dec_digits_ascii [of k]
    by (intro valid_utf8_ascii) (simp add: byte_def)
  then show ?thesis
    using unmarshal_marshal_any [OF assms(3)] assms(1) by (simp add: encodable_def stored_metadata_def read_back_def)
qed

lemma stored_unmarshal:
  assumes "recordable env p m body" "is_meta p" "k \<in> set (rnd_body env)"
  obtains js where "marshal_Metadata (stored_metadata env p m body k) = Some js"
    "length js \<le> maxMetadataBytes"
    "unmarshal_Metadata js = Some (read_back (stored_metadata env p m body k))"
proof -
  obtain js where "marshal_Metadata (stored_metadata env p m body k) = Some js" "length js \<le> maxMetadataBytes"
    using assms(1,3) by (auto simp: recordable_def split: option.splits dest!: bspec)
  then show ?thesis
    using that stored_unmarshal_any [OF _ assms(2)] assms(1) by (simp add: recordable_def)
qed

text \<open>The second half of a put, once the body temporary holds the body.\<close>

lemma put_metadata_ok:
  assumes pp: "paths rt key = (b, p)"
    and F: "faults (w_fs w) = []" and D: "node_at (w_fs w) (butlast p) = Some Directory"
    and B: "node_at (w_fs w) (butlast p @ [''.body-'' @ dec_digits k]) = Some (Regular body t)"
    and K: "k \<in> set (rnd_body env)" and R: "recordable env p m body" and PF: "place_free env p f"
    and same: "\<And>q. \<not> prefix q (butlast p) \<Longrightarrow> q \<noteq> butlast p @ [''.body-'' @ dec_digits k] \<Longrightarrow>
      node_at (w_fs w) q = node_at f q"
    and js: "marshal_Metadata (stored_metadata env p m body k) = Some js"
    and st: "settle (int (length body)) (entry_size (w_fs w) p) res (w_ctl w) = (True, res', ctl')"
  shows "\<exists>w'. put_metadata env b p (butlast p @ [''.body-'' @ dec_digits k])
      (butlast p @ [stem_of p @ ''.body.'' @ dec_digits k]) (stored_metadata env p m body k) js res w =
      ((None, True, res'), w') \<and>
    entry_of (w_fs w') p = Some (read_back (stored_metadata env p m body k),
      butlast p @ [stem_of p @ ''.body.'' @ dec_digits k], body) \<and>
    faults (w_fs w') = [] \<and>
    store_bytes (w_store w') = store_bytes (w_store w) + (int (length body) - entry_size (w_fs w) p) \<and>
    store_objects (w_store w') = store_objects (w_store w) + (1 - entry_count (w_fs w) p)"
proof -
  let ?d = "butlast p" and ?bt = "butlast p @ [''.body-'' @ dec_digits k]"
  let ?gen = "butlast p @ [stem_of p @ ''.body.'' @ dec_digits k]" and ?m = "stored_metadata env p m body k"
  note P = paths_meta [OF pp]
  have bd: "butlast b = ?d" by (rule P(4))
  have child: "\<not> prefix (?d @ [x]) ?d" for x by (auto dest: prefix_length_le)
  have pchild: "p = ?d @ [stem_of p @ ''.json'']" by (rule is_metaE(1) [OF P(2)])
  obtain js' where J: "length js \<le> maxMetadataBytes" "unmarshal_Metadata js = Some (read_back ?m)"
    using stored_unmarshal [OF R P(2) K] js by auto
  have fresh: "\<exists>j \<in> set (rnd_meta env). node_at (w_fs w) (?d @ [''.metadata-'' @ dec_digits j]) = None"
    using PF same child unfolding place_free_def by force
  obtain j w1 where j: "j \<in> set (rnd_meta env)"
    and op: "open_temp ?d ''.metadata-'' (rnd_meta env) (t_write env) w =
      (Inr (?d @ [''.metadata-'' @ dec_digits j]), w1)"
    and F1: "faults (w_fs w1) = []"
    and N1: "node_at (w_fs w1) =
      (node_at (w_fs w))(?d @ [''.metadata-'' @ dec_digits j] \<mapsto> Regular [] (t_write env))"
    and C1: "w_ctl w1 = w_ctl w" and S1: "w_store w1 =
      (w_store w)\<lparr>activeTemps := (?d @ [''.metadata-'' @ dec_digits j]) # activeTemps (w_store w)\<rparr>"
    using open_temp_ok [OF F D fresh, of "t_write env"] by blast
  let ?mt = "?d @ [''.metadata-'' @ dec_digits j]"
  have M1: "node_at (w_fs w1) ?mt = Some (Regular [] (t_write env))" by (simp add: N1)
  obtain f2 where wm: "write_metadata ?mt js (t_write env) (w_fs w1) = (None, f2)"
    and F2: "faults f2 = []" and N2: "node_at f2 = (node_at (w_fs w1))(?mt \<mapsto> Regular js (t_write env))"
    using write_metadata_ok [OF F1 M1, of js "t_write env"] by blast
  have T: "isTempName (path_last ?bt)" "isTempName (path_last ?mt)" by (simp_all add: temp_names [simplified])
  have nt: "\<not> isTempName (path_last ?gen)" "\<not> isTempName (path_last p)"
    using is_body_not_temp [OF resolveE(2) [OF stored_resolves [OF pp]]] is_meta_not_temp [OF P(2)] by auto
  have "?bt \<noteq> ?mt" by simp
  have off: "off_entries (w_fs w) f2" by (rule off_temp [OF T(2)]) (simp add: N2 N1)
  have "node_at (w_fs w) ?gen = node_at f ?gen" "node_at (w_fs w) p = node_at f p"
    using same [OF child [of "stem_of p @ ''.body.'' @ dec_digits k"]] nt(1) T(1)
      same [of p] child [of "stem_of p @ ''.json''"] pchild nt(2) by (metis, metis)
  moreover have "?gen \<noteq> ?mt" "p \<noteq> ?mt" using nt T(2) by metis+
  ultimately have "node_at f2 ?gen \<noteq> Some Directory" "node_at f2 p \<noteq> Some Directory"
    using PF K by (simp_all add: N2 N1 place_free_def)
  then have rdy: "ready p ?bt ?gen ?mt (read_back ?m) body f2"
    using F2 B J T stored_resolves [OF pp, of env m body k]
    by (simp add: ready_def N2 N1 read_back_def stored_metadata_def)
  have e2: "entry_of f2 p = entry_of (w_fs w) p" by (rule off_entry [OF off P(2)])
  then have es: "entry_size f2 p = entry_size (w_fs w) p" "entry_count f2 p = entry_count (w_fs w) p"
    by (simp_all add: entry_size_def entry_count_def)
  obtain w3 where pc: "put_commit b p ?bt ?gen ?mt (t_store env) (int (length body)) res (w1\<lparr>w_fs := f2\<rparr>) =
      (\<lparr>c_err = None, c_keepBody = True, c_keepMetadata = True, c_res = res'\<rparr>, w3)"
    and E: "entry_of (w_fs w3) p = Some (read_back ?m, ?gen, body)" "faults (w_fs w3) = []"
    and S3: "w_store w3 = (w_store w1)\<lparr>store_bytes := store_bytes (w_store w1) + (int (length body) - entry_size (w_fs w) p),
      store_objects := store_objects (w_store w1) + (1 - entry_count (w_fs w) p)\<rparr>"
    using put_commit_ok [of p ?bt ?gen ?mt "read_back ?m" body "w1\<lparr>w_fs := f2\<rparr>" b res res' ctl' "t_store env"]
      rdy P(1) st es C1 by auto
  have sm: "StoredAt ?m = t_store env" "ContentBytes ?m = int (length body)" by (simp_all add: stored_metadata_def)
  have "put_metadata env b p ?bt ?gen ?m js res w = ((None, True, res'), close_temp ?mt True w3)"
    unfolding put_metadata_def by (simp add: bd op wm sm pc del: append.simps append_Cons)
  moreover have "w_fs (close_temp ?mt True w3) = w_fs w3" by (simp add: close_temp_def)
  ultimately show ?thesis using E S3 S1 by (intro exI [of _ "close_temp ?mt True w3"]) simp
qed

text \<open>The body: all of it reaches the client and, within the reservation, the temporary file.\<close>

lemma stream_ok:
  assumes "faults f = []" "tape down = []" "node_at f bt = Some (Regular [] now)"
    "controlled \<longleftrightarrow> reserved" "controlled \<Longrightarrow> int (length (concat cs)) \<le> n"
  shows "\<exists>sink' g u. copy_sink now cs None 0 (new_sink bt down n reserved controlled) f =
      ((int (length (concat cs)), None), sink', g) \<and> faults g = [] \<and> \<not> overflow sink' \<and>
    received (downstream sink') = received down @ concat cs \<and>
    node_at g = (node_at f)(bt \<mapsto> Regular (concat cs) u)"
proof -
  define sink where "sink = new_sink bt down n reserved controlled"
  have B: "node_at f (cache sink) = Some (Regular [] now)" by (simp add: sink_def assms(3))
  obtain i sink' g where cp: "copy_sink now cs None 0 sink f = ((i, None), sink', g)" and F: "faults g = []"
    using copy_sink_total [OF assms(1) _ B] assms(2) by (fastforce simp: sink_def new_sink_def)
  have sk: "enabled sink" "\<not> overflow sink" "0 \<le> written sink" "limit sink \<ge> 0 \<Longrightarrow> written sink \<le> limit sink"
    "limit sink \<ge> 0 \<Longrightarrow> int (length (concat cs)) \<le> limit sink" "written sink = 0" "downstream sink = down"
    using assms(4,5) by (auto simp: sink_def new_sink_def)
  then show ?thesis
    using copy_sink_ok [OF cp B sk(1,2,3,4)] F cp by (auto simp: sink_def)
qed

text \<open>The whole put. Its client accepts every byte, its source ends without an error.\<close>

lemma put_ok:
  assumes S: "storable env key m (concat cs) w" and t: "tape down = []"
    and V: "case verify of None \<Rightarrow> True | Some v \<Rightarrow> v (int (length (concat cs))) = None"
    and pp: "paths (store_root (w_store w)) key = (b, p)"
  shows "\<exists>k \<in> set (rnd_body env). \<exists>d w'.
    PutStreamVerified env key m \<lparr>chunks = cs, read_error = None\<rparr> down verify w = (None, d, w') \<and>
    received d = received down @ concat cs \<and> faults (w_fs w') = [] \<and>
    entry_of (w_fs w') p = Some (read_back (stored_metadata env p m (concat cs) k),
      butlast p @ [stem_of p @ ''.body.'' @ dec_digits k], concat cs) \<and>
    store_bytes (w_store w') = store_bytes (w_store w) + (int (length (concat cs)) - entry_size (w_fs w) p) \<and>
    store_objects (w_store w') = store_objects (w_store w) + (1 - entry_count (w_fs w) p)"
proof -
  let ?d = "butlast p" and ?body = "concat cs"
  note P = paths_meta [OF pp]
  have bd: "butlast b = ?d" by (rule P(4))
  have F: "faults (w_fs w) = []" and PF: "place_free env p (w_fs w)" and R: "recordable env p m ?body"
    and A: "accounted env p m ?body w"
    using S pp by (simp_all add: storable_def)
  obtain res w0 where ad: "put_admit env m w = (Admit res, w0)"
    using A by (auto simp: accounted_def split: prod.splits admission.splits)
  have W0: "w_fs w0 = w_fs w" "w_store w0 = w_store w" using put_admit_world [OF ad] by simp_all
  have A1: "w_ctl w \<noteq> None \<Longrightarrow> 0 \<le> int (length ?body) \<and> int (length ?body) \<le> fst (contentLength (Header m))"
    and A2: "\<And>c. w_ctl w = Some c \<Longrightarrow> 0 \<le> entry_size (w_fs w) p \<and> entry_size (w_fs w) p \<le> committedBytes c"
    using A by (auto simp: accounted_def entry_size_nonneg split: option.splits)
  have st: "\<exists>res' ctl'. settle (int (length ?body)) (entry_size (w_fs w) p) res (w_ctl w0) = (True, res', ctl')"
    and ctl: "w_ctl w0 = None \<longleftrightarrow> res = None"
    using admit_settles [OF ad A1 A2] by blast+
  obtain f1 where mk: "os_MkdirAll ?d (w_fs w) = (None, f1)" "faults f1 = []"
    "node_at f1 ?d = Some Directory" "\<And>q. \<not> prefix q ?d \<Longrightarrow> node_at f1 q = node_at (w_fs w) q"
    using MkdirAll_ok [OF F, of ?d] PF unfolding place_free_def by blast
  have child: "\<not> prefix (?d @ [x]) ?d" for x by (auto dest: prefix_length_le)
  have fresh: "\<exists>k \<in> set (rnd_body env). node_at f1 (?d @ [''.body-'' @ dec_digits k]) = None"
    using PF mk(4) [OF child] unfolding place_free_def by simp
  obtain k w1 where K: "k \<in> set (rnd_body env)"
    and op: "open_temp ?d ''.body-'' (rnd_body env) (t_write env) (w0\<lparr>w_fs := f1\<rparr>) =
      (Inr (?d @ [''.body-'' @ dec_digits k]), w1)"
    and F1: "faults (w_fs w1) = []"
    and N1: "node_at (w_fs w1) = (node_at f1)(?d @ [''.body-'' @ dec_digits k] \<mapsto> Regular [] (t_write env))"
    and C1: "w_ctl w1 = w_ctl w0"
    and S1: "w_store w1 = (w_store w)\<lparr>activeTemps := (?d @ [''.body-'' @ dec_digits k]) # activeTemps (w_store w)\<rparr>"
    using open_temp_ok [of "w0\<lparr>w_fs := f1\<rparr>" ?d "rnd_body env" "''.body-''" "t_write env"] mk(2,3) fresh W0
    by auto
  let ?bt = "?d @ [''.body-'' @ dec_digits k]" and ?gen = "?d @ [stem_of p @ ''.body.'' @ dec_digits k]"
  have gen: "generation_path b ?bt = ?gen" using generation_touches(1) [OF pp] bd by simp
  have B1: "node_at (w_fs w1) ?bt = Some (Regular [] (t_write env))" by (simp add: N1)
  have C: "w_ctl w1 \<noteq> None \<longleftrightarrow> res \<noteq> None" "w_ctl w1 \<noteq> None \<Longrightarrow> int (length ?body) \<le> fst (contentLength (Header m))"
    using ctl C1 A1 ad by (auto simp: put_admit_def split: option.splits)
  obtain sink' f2 u where cp: "copy_sink (t_write env) cs None 0
      (new_sink ?bt down (fst (contentLength (Header m))) (res \<noteq> None) (w_ctl w1 \<noteq> None)) (w_fs w1) =
      ((int (length ?body), None), sink', f2)"
    and F2: "faults f2 = []" and ok: "\<not> overflow sink'" "received (downstream sink') = received down @ ?body"
    and N2: "node_at f2 = (node_at (w_fs w1))(?bt \<mapsto> Regular ?body u)"
    using stream_ok [OF F1 t B1 C] by blast
  obtain js where js: "marshal_Metadata (stored_metadata env p m ?body k) = Some js"
    using stored_unmarshal [OF R P(2) K] by blast
  have last: "path_last ?gen = stem_of p @ ''.body.'' @ dec_digits k" by simp
  have fin: "finish_body verify (t_store env) ?gen m (int (length ?body), None) (overflow sink') f2 =
      (Encoded (stored_metadata env p m ?body k) js, f2)"
    using js V F2 ok by (simp add: finish_body_def sys_plain_def last stored_metadata_def Let_def split: option.splits)
  let ?w2 = "w1\<lparr>w_fs := f2\<rparr>"
  have off: "off_entries (w_fs w) f2"
    by (rule off_trans [OF MkdirAll_off [OF mk(1)]], rule off_temp [of ?bt]) (simp_all add: N2 N1 temp_names [simplified])
  then have es: "entry_size f2 p = entry_size (w_fs w) p" "entry_count f2 p = entry_count (w_fs w) p"
    using off_entry [OF off P(2)] by (simp_all add: entry_size_def entry_count_def)
  obtain res' ctl' where st': "settle (int (length ?body)) (entry_size (w_fs ?w2) p) res (w_ctl ?w2) = (True, res', ctl')"
    using st es C1 by auto
  have FD: "faults (w_fs ?w2) = []" "node_at (w_fs ?w2) ?d = Some Directory"
    "node_at (w_fs ?w2) ?bt = Some (Regular ?body u)"
    using F2 mk(3) by (simp_all add: N2 N1)
  have same: "\<And>q. \<not> prefix q ?d \<Longrightarrow> q \<noteq> ?bt \<Longrightarrow> node_at (w_fs ?w2) q = node_at (w_fs w) q"
    using mk(4) by (simp add: N2 N1)
  obtain w3 where pm: "put_metadata env b p ?bt ?gen (stored_metadata env p m ?body k) js res ?w2 =
      ((None, True, res'), w3)"
    and E: "entry_of (w_fs w3) p = Some (read_back (stored_metadata env p m ?body k), ?gen, ?body)"
      "faults (w_fs w3) = []"
      "store_bytes (w_store w3) = store_bytes (w_store w) + (int (length ?body) - entry_size (w_fs w) p)"
      "store_objects (w_store w3) = store_objects (w_store w) + (1 - entry_count (w_fs w) p)"
    using put_metadata_ok [OF pp FD K R PF same js st'] es S1 by auto
  define bt where "bt = ?bt"
  note phases = op [folded bt_def] gen [folded bt_def] cp [folded bt_def] pm [folded bt_def]
  have "PutStreamVerified env key m \<lparr>chunks = cs, read_error = None\<rparr> down verify w =
      (None, downstream sink', release res' (close_temp ?bt True w3))"
    unfolding PutStreamVerified_def bt_def [symmetric]
    by (simp add: ad W0 pp bd mk(1) phases fin Let_def del: not_None_eq append.simps append_Cons)
  moreover have "w_fs (close_temp ?bt True w3) = w_fs w3" by (simp add: close_temp_def)
  ultimately show ?thesis using E ok K 
    by (intro bexI [OF _ K] exI [of _ "downstream sink'"] exI [of _ "release res' (close_temp ?bt True w3)"])
      simp
qed

end
