(* ===== verification/Cache_Atomic.thy ===== *)
theory Cache_Atomic
  imports Cache_Roundtrip
begin

text \<open>
  Atomicity of a put under every pattern of failing system calls: the entry of the key is
  afterwards the old one, or gone, or the complete new body. Nothing in between can be
  read, because a body is renamed into place before the metadata that names it.
\<close>

section \<open>The system calls, seen through the contents of regular files\<close>

lemma file_at_same: "node_at g = node_at f \<Longrightarrow> file_at g = file_at f"
  by (auto simp: file_at_def fun_eq_iff)

lemma Remove_file: "file_at (snd (os_Remove p f)) = file_at f \<or> file_at (snd (os_Remove p f)) = (file_at f)(p := None)"
  using os_Remove_cases [of p f "fst (os_Remove p f)" "snd (os_Remove p f)"]
  by (auto simp: file_at_def fun_eq_iff)

lemma Rename_file:
  assumes "os_Rename a b f = (e, g)" "file_at f a = Some d"
  shows "file_at g = file_at f \<or> file_at g = (file_at f)(a := None, b \<mapsto> d)"
  using os_Rename_cases [OF assms(1)] assms(2) by (auto simp: file_at_def fun_eq_iff)

lemma Chtimes_file: "os_Chtimes p t f = (e, g) \<Longrightarrow> file_at g = file_at f"
  using os_Chtimes_cases [of p t f e g] by (auto simp: file_at_def fun_eq_iff)

lemma replace_file:
  assumes "replace a b f = (e, g)" "file_at f a = Some d" "a \<noteq> b"
  shows "\<forall>q. q \<noteq> a \<longrightarrow> q \<noteq> b \<longrightarrow> file_at g q = file_at f q"
    "file_at g b = file_at f b \<or> file_at g b = None \<or> file_at g b = Some d"
proof -
  obtain e1 f1 where r1: "os_Rename a b f = (e1, f1)" by fastforce
  obtain r2 f2 where st: "os_Stat b f1 = (r2, f2)" by fastforce
  obtain e3 f3 where rm: "os_Remove b f2 = (e3, f3)" by fastforce
  obtain e4 f4 where r4: "os_Rename a b f3 = (e4, f4)" by fastforce
  obtain e5 f5 where r5: "os_Rename a b f2 = (e5, f5)" by fastforce
  have "(\<forall>q. q \<noteq> a \<longrightarrow> q \<noteq> b \<longrightarrow> file_at g q = file_at f q) \<and>
    (file_at g b = file_at f b \<or> file_at g b = None \<or> file_at g b = Some d)"
  proof (cases e1)
    case None
    then have "g = f1" using assms(1) by (simp add: replace_def r1)
    then show ?thesis using Rename_file [OF r1 assms(2)] by auto
  next
    case (Some x)
    then have F1: "file_at f1 = file_at f" using os_Rename_cases [OF r1] by (auto intro: file_at_same)
    have F2: "file_at f2 = file_at f" using file_at_same [OF os_Stat_frame [OF st]] F1 by simp
    have F3: "file_at f3 = file_at f \<or> file_at f3 = (file_at f)(b := None)"
      using Remove_file [of b f2] rm F2 by simp
    have A: "file_at f3 a = Some d" using F3 assms(2,3) by auto
    have "g = f3 \<or> g = f4 \<or> g = f5"
      using assms(1) Some by (cases r2; cases e3) (auto simp: replace_def r1 st rm r4 r5)
    then show ?thesis
      using F3 Rename_file [OF r4 A] Rename_file [OF r5, of d] F2 assms(2) by auto
  qed
  then show "\<forall>q. q \<noteq> a \<longrightarrow> q \<noteq> b \<longrightarrow> file_at g q = file_at f q"
    "file_at g b = file_at f b \<or> file_at g b = None \<or> file_at g b = Some d" by blast+
qed

section \<open>Half-way states\<close>

text \<open>
  Between the old and the new state of an entry: its metadata file is the old one, absent
  or the new one, the new generation is absent or complete, and the old bodies are
  untouched or removed.
\<close>

definition halfway :: "path \<Rightarrow> path \<Rightarrow> string \<Rightarrow> string \<Rightarrow> fs \<Rightarrow> fs \<Rightarrow> bool" where
  "halfway p gen js body f g \<longleftrightarrow>
     (\<forall>q. touches p q \<longrightarrow>
        file_at g q = None \<or> q = p \<and> file_at g q = Some js \<or> q = gen \<and> file_at g q = Some body \<or>
        q \<noteq> gen \<and> file_at g q = file_at f q)"

lemma halfway_entry:
  assumes "halfway p gen js body f g" "is_meta p" "touches p gen" "gen \<noteq> p"
    and old: "\<And>m. meta_at f p = Some m \<Longrightarrow> resolve p m \<noteq> Some gen"
    and new: "unmarshal_Metadata js = Some m" "resolve p m = Some gen" "ContentBytes m = int (length body)"
  shows "entry_of g p = entry_of f p \<or> entry_of g p = None \<or> entry_of g p = Some (m, gen, body)"
proof -
  have p: "file_at g p = None \<or> file_at g p = Some js \<or> file_at g p = file_at f p"
    using assms(1,4) unfolding halfway_def by (metis touches_self)
  have gen: "file_at g gen = None \<or> file_at g gen = Some body"
    using assms(1,3,4) unfolding halfway_def by metis
  have "meta_at g p = None \<or> meta_at g p = Some m \<or> meta_at g p = meta_at f p"
    using p new(1) by (auto simp: meta_at_file split: if_splits)
  then consider "meta_at g p = None" | "meta_at g p = Some m" 
    | m' where "meta_at g p = Some m'" "meta_at f p = Some m'"
    by (metis option.exhaust)
  then show ?thesis
  proof cases
    case 1
    then show ?thesis by (simp add: entry_of_def)
  next
    case 2
    then show ?thesis using gen new(2,3) by (auto simp: entry_of_file)
  next
    case (3 m')
    note m' = this(2)
    show ?thesis
    proof (cases "resolve p m'")
      case None
      then show ?thesis using 3 m' by (simp add: entry_of_def)
    next
      case (Some b)
      have "touches p b" "b \<noteq> p" "b \<noteq> gen"
        using touches_resolve [OF Some] resolve_not_meta [OF Some] old [OF m'] Some by auto
      then have "file_at g b = None \<or> file_at g b = file_at f b"
        using assms(1) unfolding halfway_def by metis
      then show ?thesis using 3 m' Some by (auto simp: entry_of_file)
    qed
  qed
qed

lemma halfway_step:
  assumes "halfway p gen js body f g" "is_meta p" "touches p gen" "gen \<noteq> p"
    and "\<And>q. \<not> isTempName (path_last q) \<Longrightarrow> file_at h q = file_at g q \<or> file_at h q = None \<or>
      q = p \<and> file_at h q = Some js \<or> q = gen \<and> file_at h q = Some body"
  shows "halfway p gen js body f h"
  unfolding halfway_def
proof (intro allI impI)
  fix q
  assume t: "touches p q"
  then have "\<not> isTempName (path_last q)" by (rule touches_not_temp [OF assms(2)])
  from assms(5) [OF this] assms(1) t show "file_at h q = None \<or> q = p \<and> file_at h q = Some js \<or>
      q = gen \<and> file_at h q = Some body \<or> q \<noteq> gen \<and> file_at h q = file_at f q"
    unfolding halfway_def by metis
qed

lemma halfway_start:
  assumes "off_entries f g" "is_meta p" "file_at f gen = None"
  shows "halfway p gen js body f g"
  unfolding halfway_def
proof (intro allI impI)
  fix q
  assume "touches p q"
  then have "file_at g q = file_at f q"
    using off_file_at [OF assms(1)] touches_not_temp [OF assms(2)] by blast
  then show "file_at g q = None \<or> q = p \<and> file_at g q = Some js \<or> q = gen \<and> file_at g q = Some body \<or>
      q \<noteq> gen \<and> file_at g q = file_at f q"
    using assms(3) by auto
qed

section \<open>Every put is atomic\<close>

lemma put_commit_halfway:
  assumes c: "put_commit b p bt gen mt st n res w = (c, w')" "bodyPathForMetadata p = Some b"
    and H: "halfway p gen js body f (w_fs w)"
    and B: "file_at (w_fs w) bt = Some body" and M: "file_at (w_fs w) mt = Some js" "bt \<noteq> mt"
    and T: "isTempName (path_last bt)" "isTempName (path_last mt)"
    and G: "touches p gen" "gen \<noteq> p"
  shows "halfway p gen js body f (w_fs w')"
proof -
  let ?H = "halfway p gen js body f"
  have mp: "is_meta p" using c(2) by (simp add: is_meta_def)
  note step = halfway_step [OF _ mp G]
  have nt: "\<not> isTempName (path_last gen)" "\<not> isTempName (path_last p)"
    using touches_not_temp [OF mp G(1)] is_meta_not_temp [OF mp] by auto
  have ne: "mt \<noteq> gen" "mt \<noteq> p" "bt \<noteq> gen" "bt \<noteq> p" using nt T by auto
  obtain prev pb pv f0 where pg: "previous_generation p b (w_fs w) = ((prev, pb, pv), f0)"
    by (metis prod_cases4 surj_pair)
  have F0: "file_at f0 = file_at (w_fs w)" by (rule file_at_same [OF previous_generation_frame(1) [OF pg c(2)]])
  obtain e1 f1 where r1: "os_Rename bt gen f0 = (e1, f1)" by fastforce
  obtain e2 f2 where c2: "os_Chtimes gen st f1 = (e2, f2)" by fastforce
  obtain e3 f3 where r3: "replace mt p f2 = (e3, f3)" by fastforce
  obtain ok res' ctl' where k: "settle n pb res (w_ctl w) = (ok, res', ctl')" by (metis prod_cases3)
  have F1: "file_at f1 = file_at (w_fs w) \<or> file_at f1 = (file_at (w_fs w))(bt := None, gen \<mapsto> body)"
    using Rename_file [OF r1] F0 B by simp
  have F2: "file_at f2 = file_at f1" by (rule Chtimes_file [OF c2])
  have M2: "file_at f2 mt = Some js" using F1 F2 M ne by auto
  note R3 = replace_file [OF r3 M2 ne(2)]
  have H1: "?H f1" by (rule step [OF H]) (use F1 T(1) in \<open>auto split: if_splits\<close>)
  have H2: "?H f2" by (rule step [OF H1]) (simp add: F2)
  have H3: "?H f3" by (rule step [OF H2]) (use R3 T(2) in metis)
  have rm: "?H g \<Longrightarrow> ?H (snd (os_Remove q g))" for q g
    by (erule step) (use Remove_file [of q g] in \<open>auto split: if_splits\<close>)
  have "w_fs w' = f1 \<or> w_fs w' = snd (os_Remove gen f2) \<or> w_fs w' = snd (os_Remove gen f3) \<or>
      w_fs w' = f3 \<or> w_fs w' = snd (os_Remove (the prev) f3)"
    using c(1) unfolding put_commit_def
    by (cases e1; cases e2; cases e3; cases ok) (auto simp: pg r1 c2 r3 k Let_def split: option.splits)
  with H1 rm [OF H2] rm [OF H3] H3 show ?thesis by auto
qed

lemma write_metadata_file:
  assumes "write_metadata p js now f = (None, g)" "file_at f p = Some []"
  shows "file_at g = (file_at f)(p \<mapsto> js)"
proof -
  obtain e1 f1 where w: "file_Write p js now f = (e1, f1)" by fastforce
  have e1: "e1 = None" and g: "node_at g = node_at f1"
    using assms(1) by (auto simp: write_metadata_def w sys_plain_def split: option.splits)
  obtain u where "node_at f p = Some (Regular [] u)"
    using assms(2) by (auto simp: file_at_def split: option.splits node.splits)
  with w e1 have "node_at f1 = (node_at f)(p \<mapsto> Regular js now)"
    by (auto simp: file_Write_def split: option.splits)
  then show ?thesis using g by (auto simp: file_at_def fun_eq_iff)
qed

lemma put_metadata_halfway:
  assumes c: "put_metadata env b p bt gen m js res w = ((e, keep, res'), w')"
    and b: "bodyPathForMetadata p = Some b" and H: "halfway p gen js body f (w_fs w)"
    and B: "file_at (w_fs w) bt = Some body" and T: "isTempName (path_last bt)"
    and G: "touches p gen" "gen \<noteq> p"
  shows "halfway p gen js body f (w_fs w')"
proof -
  have mp: "is_meta p" using b by (simp add: is_meta_def)
  note step = halfway_step [OF _ mp G]
  obtain r w1 where o: "open_temp (butlast b) ''.metadata-'' (rnd_meta env) (t_write env) w = (r, w1)" by fastforce
  note O = open_temp_off [OF o temp_names(2)]
  have H1: "halfway p gen js body f (w_fs w1)" by (rule step [OF H]) (use off_file_at [OF O(1)] in blast)
  show ?thesis
  proof (cases r)
    case (Inl x)
    then show ?thesis using c H1 by (simp add: put_metadata_def o)
  next
    case (Inr mt)
    have mt: "isTempName (path_last mt)" "file_at (w_fs w1) mt = Some []" "mt \<noteq> bt" "node_at (w_fs w) mt = None"
      using O(2,3,4) [OF Inr] B by (auto simp: file_at_def)
    have B1: "file_at (w_fs w1) bt = Some body"
    proof -
      have "node_at (w_fs w1) bt = node_at (w_fs w) bt"
        using o Inr mt(3) os_CreateTemp_cases [of "butlast b" "''.metadata-''" "rnd_meta env" "t_write env" "w_fs w"]
        by (auto simp: open_temp_def split: prod.splits sum.splits)
      then show ?thesis using B by (simp add: file_at_def)
    qed
    obtain x f2 where wm: "write_metadata mt js (t_write env) (w_fs w1) = (x, f2)" by fastforce
    have H2: "halfway p gen js body f f2"
      by (rule step [OF H1]) (use off_file_at [OF write_metadata_off [OF wm mt(1)]] in blast)
    have cl: "halfway p gen js body f (w_fs v) \<Longrightarrow> halfway p gen js body f (w_fs (close_temp mt k v))" for v k
      by (erule step) (use off_file_at [OF close_temp_off [OF mt(1), of v k]] in blast)
    show ?thesis
    proof (cases x)
      case (Some y)
      then have "w' = close_temp mt False (w1\<lparr>w_fs := f2\<rparr>)" using c by (simp add: put_metadata_def o Inr wm)
      then show ?thesis using cl [of "w1\<lparr>w_fs := f2\<rparr>"] H2 by simp
    next
      case None
      have F2: "file_at f2 = (file_at (w_fs w1))(mt \<mapsto> js)"
        using write_metadata_file mt(2) wm None by simp
      obtain cr w3 where pc: "put_commit b p bt gen mt (StoredAt m) (ContentBytes m) res (w1\<lparr>w_fs := f2\<rparr>) = (cr, w3)"
        by fastforce
      have "halfway p gen js body f (w_fs w3)"
        by (rule put_commit_halfway [OF pc b _ _ _ _ T mt(1) G]) (use H2 F2 B1 mt(3) in auto)
      moreover have "w' = close_temp mt (c_keepMetadata cr) w3" using c by (simp add: put_metadata_def o Inr wm None pc)
      ultimately show ?thesis using cl by simp
    qed
  qed
qed

text \<open>
  A put either leaves the entries alone, or streamed a whole body that passed its
  verification into the temporary file before the metadata phase began.
\<close>

lemma admit_books: "put_admit env m w = (Admit res, w0) \<Longrightarrow> w_ctl w0 = None \<longleftrightarrow> res = None"
  by (auto simp: put_admit_def Let_def split: option.splits sum.splits prod.splits if_splits)

lemma finish_body_Encoded:
  assumes "finish_body verify stored gen m (n, x) over f = (Encoded m' js, g)"
  shows "x = None" "\<not> over" "verify = Some v \<Longrightarrow> v n = None" "marshal_Metadata m' = Some js"
    "m' = m\<lparr>StoredAt := stored, ContentBytes := n, BodyFile := path_last gen,
            Header := CacheMetadataHeaders (Header m)\<rparr>" "node_at g = node_at f"
  using assms by (auto simp: finish_body_def Let_def sys_plain_def split: option.splits if_splits)

lemma put_cases [consumes 2, case_names early commit]:
  assumes put: "PutStreamVerified env key m source down verify w = (e, d, w')"
    and pp: "paths (store_root (w_store w)) key = (b, p)"
  obtains (early) "off_entries (w_fs w) (w_fs w')"
  | (commit) k res v js keep res' w2 where "k \<in> set (rnd_body env)"
      "read_error source = None" "received d = received down @ concat (chunks source)"
      "\<And>u. verify = Some u \<Longrightarrow> u (int (length (concat (chunks source)))) = None"
      "off_entries (w_fs w) (w_fs v)"
      "file_at (w_fs v) (butlast p @ [''.body-'' @ dec_digits k]) = Some (concat (chunks source))"
      "marshal_Metadata (stored_metadata env p m (concat (chunks source)) k) = Some js"
      "put_metadata env b p (butlast p @ [''.body-'' @ dec_digits k])
        (butlast p @ [stem_of p @ ''.body.'' @ dec_digits k])
        (stored_metadata env p m (concat (chunks source)) k) js res v = ((e, keep, res'), w2)"
      "w' = release res' (close_temp (butlast p @ [''.body-'' @ dec_digits k]) keep w2)"
proof -
  note P = paths_meta [OF pp]
  obtain a w0 where ad: "put_admit env m w = (a, w0)" by fastforce
  note A = put_admit_world [OF ad]
  show ?thesis
  proof (cases "\<exists>res. a = Admit res")
    case False
    then have "w_fs w' = w_fs w" using put A by (cases a) (auto simp: PutStreamVerified_def ad split: prod.splits)
    then show ?thesis using early by simp
  next
    case True
    then obtain res where a: "a = Admit res" by blast
    obtain e1 f1 where mk: "os_MkdirAll (butlast b) (w_fs w0) = (e1, f1)" by fastforce
    have n1: "off_entries (w_fs w) f1" using MkdirAll_off [OF mk] A by simp
    obtain r1 w1 where o: "open_temp (butlast b) ''.body-'' (rnd_body env) (t_write env) (w0\<lparr>w_fs := f1\<rparr>) = (r1, w1)"
      by fastforce
    note O = open_temp_off [OF o temp_names(1)]
    have o1: "off_entries (w_fs w) (w_fs w1)" using off_trans [OF n1] O(1) by simp
    have pp0: "paths (store_root (w_store w0)) key = (b, p)" using A pp by simp
    note ev = PutStreamVerified_def ad a pp0 mk o
    show ?thesis
    proof (cases "\<exists>bt. e1 = None \<and> r1 = Inr bt")
      case False
      then have "w' = release res (w0\<lparr>w_fs := f1\<rparr>) \<or> w' = release res w1"
        using put by (cases e1; cases r1) (auto simp: ev)
      then show ?thesis using n1 o1 early by auto
    next
      case True
      then obtain bt where bt: "e1 = None" "r1 = Inr bt" by blast
      obtain k where K: "k \<in> set (rnd_body env)" and k: "bt = butlast b @ [''.body-'' @ dec_digits k]"
        using O(5) [OF bt(2)] by blast
      note G = generation_touches [OF pp k]
      let ?sink = "new_sink bt down (fst (contentLength (Header m))) (res \<noteq> None) (w_ctl w1 \<noteq> None)"
      let ?body = "concat (chunks source)" and ?gen = "generation_path b bt"
      have en: "enabled ?sink" "\<not> overflow ?sink" "0 \<le> written ?sink" "limit ?sink \<ge> 0 \<Longrightarrow> written ?sink \<le> limit ?sink"
        using admit_books [of env m w res w0] ad a O(6) by (auto simp: new_sink_def)
      obtain n x sink' f2 where cp: "copy_sink (t_write env) (chunks source) (read_error source) 0 ?sink (w_fs w1)
          = ((n, x), sink', f2)" by (metis prod_cases3 surj_pair)
      have B1: "node_at (w_fs w1) (cache ?sink) = Some (Regular [] (t_write env))" using O(3) [OF bt(2)] by simp
      have o2: "off_entries (w_fs w) f2"
        using off_trans [OF o1 copy_sink_off [OF cp new_sink_inv [OF O(3) [OF bt(2)]]]] G(4) by simp
      obtain fb f3 where fb: "finish_body verify (t_store env) ?gen m (n, x) (overflow sink') f2 = (fb, f3)" by fastforce
      have o3: "off_entries (w_fs w) f3" using off_trans [OF o2 off_eq [OF finish_body_frame [OF fb]]] .
      show ?thesis
      proof (cases "\<exists>m' js. fb = Encoded m' js")
        case False
        then have "\<exists>c. w_fs w' = w_fs (close_temp bt False (w1\<lparr>w_fs := f3, w_ctl := c\<rparr>))"
          using put bt by (cases fb) (auto simp: ev cp fb Let_def close_temp_def simp del: not_None_eq)
        then obtain c where "w_fs w' = w_fs (close_temp bt False (w1\<lparr>w_fs := f3, w_ctl := c\<rparr>))" by blast
        then show ?thesis
          using off_trans [OF o3 close_temp_off [OF G(4), of "w1\<lparr>w_fs := f3, w_ctl := c\<rparr>" False, simplified]] early
          by simp
      next
        case True
        then obtain m' js where en': "fb = Encoded m' js" by blast
        note E = finish_body_Encoded [OF fb [unfolded en']]
        obtain y keep res' w2 where pm: "put_metadata env b p bt ?gen m' js res (w1\<lparr>w_fs := f3\<rparr>) = ((y, keep, res'), w2)"
          by (metis prod_cases3 surj_pair)
        have out: "e = y" "d = downstream sink'" "w' = release res' (close_temp bt keep w2)"
          using put bt by (simp_all add: ev cp fb en' pm Let_def del: not_None_eq)
        note C = copy_sink_ok [OF cp [unfolded E(1)] B1 en]
        have n: "n = int (length ?body)" and er: "read_error source = None"
          and rc: "received d = received down @ ?body" using C out by (simp_all add: new_sink_def)
        have fl: "file_at f3 bt = Some ?body" using C E(2,6) by (auto simp: file_at_def)
        have m': "m' = stored_metadata env p m ?body k" using E(5) G(3) n by (simp add: stored_metadata_def)
        show ?thesis
          by (rule commit [OF K er rc _ _ _ _ pm [unfolded m' out(1) [symmetric] G(1), unfolded k P(4)] out(3) [unfolded k P(4)]])
            (use E n o3 fl m' k P(4) in simp_all)
      qed
    qed
  qed
qed

text \<open>No generation of the entry has a number that the runtime is about to draw.\<close>

definition new_numbers :: "put_env \<Rightarrow> path \<Rightarrow> fs \<Rightarrow> bool" where
  "new_numbers env p f \<longleftrightarrow>
     (\<forall>k \<in> set (rnd_body env).
        file_at f (butlast p @ [stem_of p @ ''.body.'' @ dec_digits k]) = None \<and>
        (case meta_at f p of None \<Rightarrow> True
         | Some m \<Rightarrow> BodyFile m \<noteq> stem_of p @ ''.body.'' @ dec_digits k))"

lemma resolve_BodyFile:
  assumes "resolve p m = Some (butlast p @ [stem_of p @ ''.body.'' @ n])"
  shows "BodyFile m = stem_of p @ ''.body.'' @ n"
proof -
  have mp: "is_meta p" by (rule resolveE(1) [OF assms])
  show ?thesis
    using assms is_metaE(5) [OF mp] by (auto simp: resolve_def bodyPathForEntry_def split: if_splits sum.splits)
qed

lemma put_atomic:
  assumes put: "PutStreamVerified env key m source down verify w = (e, d, w')"
    and pp: "paths (store_root (w_store w)) key = (b, p)"
    and new: "new_numbers env p (w_fs w)" and R: "encodable m (concat (chunks source))"
  shows "entry_of (w_fs w') p = entry_of (w_fs w) p \<or> entry_of (w_fs w') p = None \<or>
    (\<exists>k \<in> set (rnd_body env). entry_of (w_fs w') p =
       Some (read_back (stored_metadata env p m (concat (chunks source)) k),
             butlast p @ [stem_of p @ ''.body.'' @ dec_digits k], concat (chunks source)) \<and>
     read_error source = None \<and> received d = received down @ concat (chunks source) \<and>
     (case verify of None \<Rightarrow> True | Some u \<Rightarrow> u (int (length (concat (chunks source)))) = None))"
  using put pp
proof (cases rule: put_cases)
  case early
  then show ?thesis using off_entry paths_meta(2) [OF pp] by blast
next
  case (commit k res v js keep res' w2)
  let ?body = "concat (chunks source)" and ?gen = "butlast p @ [stem_of p @ ''.body.'' @ dec_digits k]"
  let ?m = "read_back (stored_metadata env p m ?body k)" and ?bt = "butlast p @ [''.body-'' @ dec_digits k]"
  note P = paths_meta [OF pp]
  have T: "isTempName (path_last ?bt)" by (simp add: temp_names [simplified])
  have rs: "resolve p ?m = Some ?gen" by (rule stored_resolves [OF pp])
  note G = touches_resolve [OF rs] resolve_not_meta [OF rs]
  have fresh: "file_at (w_fs w) ?gen = None" using new commit(1) by (simp add: new_numbers_def)
  have H: "halfway p ?gen js ?body (w_fs w) (w_fs w2)"
    by (rule put_metadata_halfway [OF commit(8) P(1) halfway_start [OF commit(5) P(2) fresh] commit(6) T G])
  have H': "halfway p ?gen js ?body (w_fs w) (w_fs w')"
    by (rule halfway_step [OF H P(2) G])
      (use off_file_at [OF close_temp_off [OF T, of w2 keep]] commit(9) in simp)
  have "unmarshal_Metadata js = Some ?m"
    by (rule stored_unmarshal_any [OF R P(2) commit(7)])
  moreover have "resolve p m' \<noteq> Some ?gen" if "meta_at (w_fs w) p = Some m'" for m'
    using new commit(1) that resolve_BodyFile [of p m'] by (auto simp: new_numbers_def)
  ultimately have "entry_of (w_fs w') p = entry_of (w_fs w) p \<or> entry_of (w_fs w') p = None \<or>
      entry_of (w_fs w') p = Some (?m, ?gen, ?body)"
    using halfway_entry [OF H' P(2) G] rs by (simp add: read_back_def stored_metadata_def)
  then show ?thesis using commit(1,2,3,4) by (auto split: option.splits)
qed

end
