(* ===== verification/Cache_Trace.thy ===== *)
theory Cache_Trace
  imports Cache_Atomic
begin

text \<open>
  Sequences of cache operations. Whatever the operations, their order and the failures of
  the system, an operation that does not write a key keeps its entry or drops it; so an
  entry that is found was written by the last put of its key.
\<close>

section \<open>The interface\<close>

text \<open>
  A keyed store: \<open>step\<close> runs an operation, \<open>entry\<close> reads a key, and \<open>writes\<close> says which
  key an operation may write. Sequences are run by \<open>fold\<close>.
\<close>

locale keyed_entries =
  fixes step :: "'o \<Rightarrow> 'w \<Rightarrow> 'w"
    and entry :: "'w \<Rightarrow> 'k \<Rightarrow> 'e option"
    and writes :: "'o \<Rightarrow> 'k \<Rightarrow> bool"
  assumes only_drops: "\<not> writes x k \<Longrightarrow> entry (step x w) k = entry w k \<or> entry (step x w) k = None"
begin

lemma unwritten:
  "\<forall>x \<in> set xs. \<not> writes x k \<Longrightarrow> entry (fold step xs w) k = entry w k \<or> entry (fold step xs w) k = None"
proof (induction xs arbitrary: w)
  case (Cons x xs)
  have "entry (step x w) k = entry w k \<or> entry (step x w) k = None" using Cons.prems by (intro only_drops) simp
  moreover have "entry (fold step xs (step x w)) k = entry (step x w) k \<or> entry (fold step xs (step x w)) k = None"
    using Cons by simp
  ultimately show ?case by auto
qed simp

lemma last_writer:
  assumes "entry (fold step xs w) k = Some e"
  shows "entry w k = Some e \<and> (\<forall>x \<in> set xs. \<not> writes x k) \<or>
    (\<exists>ys x zs. xs = ys @ x # zs \<and> writes x k \<and> (\<forall>z \<in> set zs. \<not> writes z k) \<and>
       entry (step x (fold step ys w)) k = Some e)"
proof (cases "\<exists>x \<in> set xs. writes x k")
  case False
  then show ?thesis using unwritten [of xs k w] assms by auto
next
  case True
  then obtain ys x zs where s: "xs = ys @ x # zs" "writes x k" "\<forall>z \<in> set zs. \<not> writes z k"
    using split_list_last_prop [OF True] by blast
  then have "entry (fold step zs (step x (fold step ys w))) k = Some e" using assms by simp
  then have "entry (step x (fold step ys w)) k = Some e" using unwritten [OF s(3), of "step x (fold step ys w)"] by auto
  with s show ?thesis by blast
qed

end

section \<open>The operations of the store\<close>

datatype store_op =
    Put put_env string Metadata reader writer "(int \<Rightarrow> string option) option"
  | Find int int string int
  | Collect int int
  | Evict Candidate
  | Sweep int int

fun store_step :: "store_op \<Rightarrow> world \<Rightarrow> world" where
  "store_step (Put env key m source down verify) w = snd (snd (PutStreamVerified env key m source down verify w))"
| "store_step (Find t1 t2 key ttl) w = w\<lparr>w_fs := snd (Lookup t1 t2 key ttl (w_store w) (w_fs w))\<rparr>"
| "store_step (Collect now maxAge) w =
     (case GC now maxAge (w_store w) (w_fs w) of (_, s, f) \<Rightarrow> w\<lparr>w_store := s, w_fs := f\<rparr>)"
| "store_step (Evict c) w =
     (case RemoveCandidate c (w_store w) (w_fs w) of (_, s, f) \<Rightarrow> w\<lparr>w_store := s, w_fs := f\<rparr>)"
| "store_step (Sweep now maxAge) w = w\<lparr>w_fs := snd (CleanupStaleTemps now maxAge (w_store w) (w_fs w))\<rparr>"

definition key_path :: "world \<Rightarrow> string \<Rightarrow> path" where
  "key_path w key = snd (paths (store_root (w_store w)) key)"

definition entry_for :: "world \<Rightarrow> string \<Rightarrow> (Metadata \<times> path \<times> string) option" where
  "entry_for w key = entry_of (w_fs w) (key_path w key)"

text \<open>Keys with the same hash share an entry.\<close>

fun writes_key :: "store_op \<Rightarrow> string \<Rightarrow> bool" where
  "writes_key (Put _ key' _ _ _ _) key \<longleftrightarrow> sha256_Sum256 key' = sha256_Sum256 key"
| "writes_key _ key \<longleftrightarrow> False"

section \<open>What each operation keeps\<close>

text \<open>A file of no entry, temporary files apart, is never changed; nor is any entry that is kept.\<close>

definition keeps :: "world \<Rightarrow> world \<Rightarrow> bool" where
  "keeps w w' \<longleftrightarrow> store_root (w_store w') = store_root (w_store w) \<and>
     (\<forall>q. foreign q \<longrightarrow> \<not> isTempName (path_last q) \<longrightarrow> node_at (w_fs w) q \<noteq> None \<longrightarrow>
        node_at (w_fs w') q = node_at (w_fs w) q)"

definition drops :: "world \<Rightarrow> world \<Rightarrow> bool" where
  "drops w w' \<longleftrightarrow>
     (\<forall>q. is_meta q \<longrightarrow> entry_of (w_fs w') q = entry_of (w_fs w) q \<or> entry_of (w_fs w') q = None)"

lemma removed_drops:
  assumes "meta_at f p = Some m" "resolve p m = Some b" "node_at g b = None"
    "node_at g p = node_at f p \<or> node_at g p = None"
    "\<forall>q. q \<noteq> b \<longrightarrow> q \<noteq> p \<longrightarrow> node_at g q = node_at f q" "is_meta q"
  shows "entry_of g q = entry_of f q \<or> entry_of g q = None"
proof (cases "q = p")
  case True
  then show ?thesis using entry_of_lost [OF assms(1-4)] by simp
next
  case False
  have "entry_of g q = entry_of f q"
  proof (rule entry_of_other [OF resolveE(1) [OF assms(2)] assms(6) False])
    fix x
    assume "\<not> touches p x"
    then have "x \<noteq> b" "x \<noteq> p" using touches_resolve [OF assms(2)] by auto
    then show "node_at g x = node_at f x" using assms(5) by blast
  qed
  then show ?thesis ..
qed

lemma Find_ok: "keeps w (store_step (Find t1 t2 key ttl) w) \<and> drops w (store_step (Find t1 t2 key ttl) w)"
proof -
  obtain r g where lk: "Lookup t1 t2 key ttl (w_store w) (w_fs w) = (r, g)" by fastforce
  from Lookup_frame [OF lk] show ?thesis
  proof
    assume "node_at g = node_at (w_fs w)"
    then show ?thesis using entry_of_all_cong [of g "w_fs w"] by (simp add: lk keeps_def drops_def)
  next
    assume "\<exists>q c t. node_at (w_fs w) q = Some (Regular c t) \<and> node_at g = (node_at (w_fs w))(q \<mapsto> Regular c t2) \<and>
      (\<exists>m. meta_at (w_fs w) (snd (paths (store_root (w_store w)) key)) = Some m \<and>
           resolve (snd (paths (store_root (w_store w)) key)) m = Some q)"
    then obtain q c t m where q: "node_at (w_fs w) q = Some (Regular c t)"
      "node_at g = (node_at (w_fs w))(q \<mapsto> Regular c t2)"
      "resolve (snd (paths (store_root (w_store w)) key)) m = Some q" by blast
    have "\<not> foreign q" using resolveE(2) [OF q(3)] by (simp add: foreign_def)
    moreover have "file_at g = file_at (w_fs w)" using q(1,2) by (auto simp: file_at_def fun_eq_iff)
    then have "entry_of g x = entry_of (w_fs w) x" if "is_meta x" for x
      using entry_of_file_cong [OF that, of g "w_fs w"] by simp
    ultimately show ?thesis using q(2) by (auto simp: lk keeps_def drops_def)
  qed
qed

lemma Sweep_ok: "keeps w (store_step (Sweep now maxAge) w) \<and> drops w (store_step (Sweep now maxAge) w)"
proof -
  obtain r err g where c: "CleanupStaleTemps now maxAge (w_store w) (w_fs w) = ((r, err), g)" by (metis surj_pair)
  have same: "node_at g q = node_at (w_fs w) q" if "\<not> isTempName (path_last q)" for q
    using Cleanup_inv [OF c] that unfolding cleanup_inv_def by blast
  have "entry_of g q = entry_of (w_fs w) q" if "is_meta q" for q
    by (rule entry_of_cong [OF that]) (use same touches_not_temp [OF that] in blast)
  then show ?thesis using same by (simp add: c keeps_def drops_def)
qed

lemma Evict_ok: "keeps w (store_step (Evict c) w) \<and> drops w (store_step (Evict c) w)"
proof -
  obtain ok err s g where r: "RemoveCandidate c (w_store w) (w_fs w) = ((ok, err), s, g)" by (metis prod_cases3 surj_pair)
  from RemoveCandidate_cases [OF r] show ?thesis
  proof
    assume "\<not> ok \<and> node_at g = node_at (w_fs w) \<and> s = w_store w"
    then show ?thesis using entry_of_all_cong [of g "w_fs w"] by (simp add: r keeps_def drops_def)
  next
    assume "ok \<and> (\<exists>m. meta_at (w_fs w) (metadataPath c) = Some m \<and> resolve (metadataPath c) m = Some (bodyPath c) \<and>
      ContentBytes m = cand_Bytes c \<and> node_at (w_fs w) (bodyPath c) \<noteq> None \<and> node_at g (bodyPath c) = None \<and>
      (node_at g (metadataPath c) = node_at (w_fs w) (metadataPath c) \<or> node_at g (metadataPath c) = None) \<and>
      (\<forall>q. q \<noteq> bodyPath c \<longrightarrow> q \<noteq> metadataPath c \<longrightarrow> node_at g q = node_at (w_fs w) q) \<and>
      s = (w_store w)\<lparr>store_bytes := store_bytes (w_store w) - cand_Bytes c,
        store_objects := store_objects (w_store w) - 1\<rparr>)"
    then obtain m where m: "meta_at (w_fs w) (metadataPath c) = Some m" "resolve (metadataPath c) m = Some (bodyPath c)"
      "node_at g (bodyPath c) = None"
      "node_at g (metadataPath c) = node_at (w_fs w) (metadataPath c) \<or> node_at g (metadataPath c) = None"
      "\<forall>q. q \<noteq> bodyPath c \<longrightarrow> q \<noteq> metadataPath c \<longrightarrow> node_at g q = node_at (w_fs w) q"
      "store_root s = store_root (w_store w)" by auto
    have "q \<noteq> bodyPath c \<and> q \<noteq> metadataPath c" if "foreign q" for q
      using that resolveE(1,2) [OF m(2)] by (auto simp: foreign_def)
    then show ?thesis using removed_drops [OF m(1-5)] m(5,6) by (simp add: r keeps_def drops_def)
  qed
qed

lemma Collect_ok: "keeps w (store_step (Collect now maxAge) w) \<and> drops w (store_step (Collect now maxAge) w)"
proof -
  let ?I = "\<lambda>g (rs :: GCResult \<times> store). keeps w (w\<lparr>w_store := snd rs, w_fs := g\<rparr>) \<and>
    drops w (w\<lparr>w_store := snd rs, w_fs := g\<rparr>)"
  have visit: "?I g' rs'" if I: "?I g rs" and v: "GC_visit cutoff p n g rs = (e, g', rs')" for cutoff p n g rs e g' rs'
  proof -
    obtain r s r' s' where rs: "rs = (r, s)" "rs' = (r', s')" by fastforce
    from GC_visit_cases [OF v [unfolded rs]] consider "node_at g' = node_at g" "s' = s"
      | m c where "removed_entry g p m c g'" "store_root s' = store_root s" by auto
    then show ?thesis
    proof cases
      case 1
      then show ?thesis using I entry_of_all_cong [of g' g] by (simp add: rs keeps_def drops_def)
    next
      case (2 m c)
      note D = removed_entryD [OF 2(1)]
      have "entry_of g' q = entry_of g q \<or> entry_of g' q = None" if "is_meta q" for q
        using D(1) D(2) [OF that] by (cases "q = p") auto
      moreover have "node_at g' q = node_at g q" if "foreign q" for q by (rule D(4) [OF that])
      ultimately show ?thesis using I 2(2) by (fastforce simp: rs keeps_def drops_def)
    qed
  qed
  show ?thesis
  proof (cases "maxAge \<le> 0")
    case True
    then show ?thesis by (simp add: GC_def keeps_def drops_def)
  next
    case False
    obtain e g r s where wd: "WalkDir (store_root (w_store w)) (GC_visit (now - maxAge)) (w_fs w)
        (\<lparr>gc_Objects = 0, gc_Bytes = 0, gc_Skipped = 0\<rparr>, w_store w) = (e, g, r, s)" by (metis prod_cases4)
    have "?I g (r, s)"
    proof (rule WalkDir_invariant [where P = ?I, OF wd])
      show "?I (w_fs w) (\<lparr>gc_Objects = 0, gc_Bytes = 0, gc_Skipped = 0\<rparr>, w_store w)"
        by (simp add: keeps_def drops_def)
      show "?I g' rs'" if "?I g rs" "GC_visit (now - maxAge) p n g rs = (e, g', rs')" for p n g rs e g' rs'
        by (rule visit [OF that])
      show "?I (tick g) rs" if "?I g rs" for g rs
        using that entry_of_all_cong [of "tick g" g] by (simp add: keeps_def drops_def)
    qed
    then show ?thesis using False by (simp add: GC_def wd)
  qed
qed

lemma Put_ok:
  assumes "\<not> writes_key (Put env key' m source down verify) key"
  shows "entry_of (w_fs (store_step (Put env key' m source down verify) w)) (key_path w key) = entry_for w key"
proof -
  obtain e d w' where put: "PutStreamVerified env key' m source down verify w = (e, d, w')" by (metis prod_cases3)
  obtain b p where pp: "paths (store_root (w_store w)) key' = (b, p)" by fastforce
  note N = put_near [OF put pp]
  obtain b2 p2 where pp2: "paths (store_root (w_store w)) key = (b2, p2)" by fastforce
  have "p2 \<noteq> p" using paths_inj [OF pp2 pp] assms by auto
  then show "entry_of (w_fs (store_step (Put env key' m source down verify) w)) (key_path w key) = entry_for w key"
    using near_other [OF _ paths_meta(2) [OF pp] paths_meta(2) [OF pp2]] N
    by (simp add: put entry_for_def key_path_def pp2)
qed

lemma Put_keeps: "keeps w (store_step (Put env key m source down verify) w)"
proof -
  obtain e d w' where put: "PutStreamVerified env key m source down verify w = (e, d, w')" by (metis prod_cases3)
  obtain b p where pp: "paths (store_root (w_store w)) key = (b, p)" by fastforce
  note N = put_near [OF put pp]
  have tf: "touches p q \<Longrightarrow> \<not> foreign q" for q
    using paths_meta(2) [OF pp] by (auto simp: touches_def foreign_def)
  have "node_at (w_fs w') q = node_at (w_fs w) q"
    if "foreign q" "\<not> isTempName (path_last q)" "node_at (w_fs w) q \<noteq> None" for q
    using N that tf [of q] unfolding near_def by metis
  then show ?thesis using N by (simp add: keeps_def put)
qed

lemma step_keeps: "keeps w (store_step x w)"
  by (cases x) (simp_all only: Find_ok Sweep_ok Evict_ok Collect_ok Put_keeps)

lemma key_path_meta: "is_meta (key_path w key)"
  using paths_meta(2) [of "store_root (w_store w)" key] by (cases "paths (store_root (w_store w)) key") (auto simp: key_path_def)

lemma step_drops:
  assumes "\<not> writes_key x key"
  shows "entry_for (store_step x w) key = entry_for w key \<or> entry_for (store_step x w) key = None"
proof -
  have rt: "key_path (store_step y w) key = key_path w key" for y
    using step_keeps [of w y] by (simp add: keeps_def key_path_def)
  have dropped: "entry_for (store_step y w) key = entry_for w key \<or> entry_for (store_step y w) key = None"
    if "drops w (store_step y w)" for y
    using that key_path_meta [of w key] unfolding drops_def entry_for_def rt by simp
  show ?thesis
  proof (cases x)
    case (Put env key' m source down verify)
    then show ?thesis
      using Put_ok [of env key' m source down verify key w] assms rt by (simp add: entry_for_def del: store_step.simps)
  qed (simp_all only: dropped Find_ok Sweep_ok Evict_ok Collect_ok)
qed

interpretation responses: keyed_entries store_step entry_for writes_key
  by unfold_locales (rule step_drops)

end
