(* ===== verification/Cache_Theorems.thy ===== *)
theory Cache_Theorems
  imports Cache_Trace
begin

text \<open>
  What the cache promises to its callers, over the functions of the source: storing and
  finding, atomicity, provenance, retention, eviction and clean-up. The samples below are
  an empty cache directory and a small response.
\<close>

section \<open>Samples\<close>

lemma length_quote_body: "length (quote_body s) \<le> 6 * length s"
proof (induction s rule: quote_body.induct)
  case (1 s)
  show ?case
  proof (cases "s = []")
    case False
    note ne = False and IH = 1
    have tl: "length s \<ge> 1" using ne by (cases s) auto
    have esc: "length (esc_ascii c) \<le> 6" for c by (simp add: esc_ascii_def)
    have three: "length s \<ge> 3" if "take 3 s = [a, b, c]" for a b c
      using arg_cong [OF that, of length] by simp
    have dr: "length (drop n s) = length s - n" for n by simp
    consider (ascii) "byte (hd s) < 128" | (bad) "\<not> byte (hd s) < 128" "utf8_len s = 0"
      | (sep) "\<not> byte (hd s) < 128" "utf8_len s \<noteq> 0" "take 3 s = [CHR 0xE2, CHR 0x80, CHR 0xA8]"
      | (par) "\<not> byte (hd s) < 128" "utf8_len s \<noteq> 0" "take 3 s \<noteq> [CHR 0xE2, CHR 0x80, CHR 0xA8]"
          "take 3 s = [CHR 0xE2, CHR 0x80, CHR 0xA9]"
      | (rune) "\<not> byte (hd s) < 128" "utf8_len s \<noteq> 0" "take 3 s \<noteq> [CHR 0xE2, CHR 0x80, CHR 0xA8]"
          "take 3 s \<noteq> [CHR 0xE2, CHR 0x80, CHR 0xA9]" by blast
    then show ?thesis
    proof cases
      case ascii
      then show ?thesis using IH(1) [OF ne ascii] ne tl esc [of "hd s"] by (simp add: quote_body.simps [of s])
    next
      case bad
      then show ?thesis using IH(2) [OF ne bad] ne tl by (simp add: quote_body.simps [of s])
    next
      case sep
      then show ?thesis using IH(3) [OF ne sep] ne three [OF sep(3)] by (simp add: quote_body.simps [of s])
    next
      case par
      then show ?thesis using IH(4) [OF ne par] ne three [OF par(4)] by (simp add: quote_body.simps [of s])
    next
      case rune
      then show ?thesis using IH(5) [OF ne rune] ne by (simp add: quote_body.simps [of s])
    qed
  qed (simp add: quote_body.simps)
qed

definition sample_env :: put_env where
  "sample_env = \<lparr>env_free = Inr 1000000, rnd_body = [7], rnd_meta = [8], t_write = 5, t_store = 5\<rparr>"

definition sample_metadata :: Metadata where
  "sample_metadata = \<lparr>Status = 200, Header = [(''Content-Length'', [''3''])], StoredAt = 0, ContentBytes = 0,
     ContentDigest = [], BodyFile = []\<rparr>"

definition sample_world :: world where
  "sample_world = \<lparr>w_store = \<lparr>store_root = [''cache''], store_bytes = 0, store_objects = 0, activeTemps = []\<rparr>,
     w_fs = \<lparr>nodes = [], faults = []\<rparr>, w_ctl = None\<rparr>"

lemma sample_empty [simp]: "node_at (w_fs sample_world) q = None" "faults (w_fs sample_world) = []"
  "file_at (w_fs sample_world) q = None" "w_ctl sample_world = None"
  by (simp_all add: sample_world_def node_at_def file_at_def)

lemma sample_headers: "CacheMetadataHeaders (Header sample_metadata) = [(''Content-Length'', [''3''])]"
  by code_simp

lemma sample_time: "time_Format (t_store sample_env) = Some ''0001-01-01T00:00:00.000000005Z''"
  by code_simp

lemma sample_text:
  assumes "is_meta p"
  shows "\<exists>js. marshal_Metadata (stored_metadata sample_env p sample_metadata ''abc'' 7) = Some js \<and>
    length js \<le> maxMetadataBytes"
proof -
  have l: "length (stem_of p @ ''.body.'' @ dec_digits 7) = 71"
    using is_metaE(2) [OF assms] by (simp add: dec_digits.simps)
  have n: "FormatInt 200 = ''200''" "FormatInt 3 = ''3''" by code_simp+
  have q: "length (quote_body (stem_of p @ ''.body.'' @ dec_digits 7)) \<le> 426"
    using length_quote_body [of "stem_of p @ ''.body.'' @ dec_digits 7"] l by simp
  have k: "length (quote_body ''status'') \<le> 60" "length (quote_body ''header'') \<le> 60"
    "length (quote_body ''stored_at'') \<le> 60" "length (quote_body ''content_bytes'') \<le> 100"
    "length (quote_body ''body_file'') \<le> 60" "length (quote_body ''Content-Length'') \<le> 100"
    "length (quote_body ''3'') \<le> 60" "length (quote_body ''0001-01-01T00:00:00.000000005Z'') \<le> 200"
    by (rule order_trans [OF length_quote_body], simp)+
  have t: "t_store sample_env = 5" by (simp add: sample_env_def)
  show ?thesis
    using q k sample_time sample_headers
    by (simp add: marshal_Metadata_def stored_metadata_def metadata_json_def header_json_def n json_quote_def
        maxMetadataBytes_def sample_metadata_def t)
qed

lemma sample_recordable:
  assumes "is_meta p"
  shows "recordable sample_env p sample_metadata ''abc''"
proof -
  have "valid_utf8 []" by (simp add: valid_utf8_ascii)
  then show ?thesis
    using sample_text [OF assms]
    by (auto simp: recordable_def encodable_def is_i64_def sample_env_def sample_metadata_def)
qed

lemma sample_storable: "storable sample_env ''k'' sample_metadata ''abc'' sample_world"
proof -
  obtain b p where pp: "paths (store_root (w_store sample_world)) ''k'' = (b, p)" by fastforce
  have "place_free sample_env p (w_fs sample_world)" by (simp add: place_free_def sample_env_def)
  moreover have "accounted sample_env p sample_metadata ''abc'' sample_world"
    by (simp add: accounted_def put_admit_def)
  ultimately show ?thesis
    using sample_recordable [OF paths_meta(2) [OF pp]] by (simp add: storable_def pp)
qed

text \<open>A directory with one complete entry, written out.\<close>

definition full_stem :: string where
  "full_stem = concat (replicate 8 ''0a1b2c3d'')"

definition full_meta :: path where
  "full_meta = [''cache'', ''0a'', full_stem @ ''.json'']"

definition full_body :: path where
  "full_body = [''cache'', ''0a'', full_stem @ ''.body.7'']"

definition full_metadata :: Metadata where
  "full_metadata = sample_metadata\<lparr>StoredAt := 5, ContentBytes := 3, BodyFile := full_stem @ ''.body.7''\<rparr>"

definition full_fs :: fs where
  "full_fs = \<lparr>nodes = [([''cache''], Directory), ([''cache'', ''0a''], Directory),
     (full_meta, Regular (case marshal_Metadata full_metadata of None \<Rightarrow> [] | Some js \<Rightarrow> js) 5),
     (full_body, Regular ''abc'' 6)], faults = []\<rparr>"

definition full_candidate :: Candidate where
  "full_candidate = \<lparr>metadataPath = full_meta, bodyPath = full_body, cand_Bytes = 3, LastUsed = 6\<rparr>"

lemma full_is_stored: "stored_metadata sample_env full_meta sample_metadata ''abc'' 7 = full_metadata"
  by code_simp

lemma full_entry: "is_meta full_meta" "entry_of full_fs full_meta = Some (full_metadata, full_body, ''abc'')"
proof -
  show m: "is_meta full_meta" by code_simp
  have "7 \<in> set (rnd_body sample_env)" by (simp add: sample_env_def)
  from stored_unmarshal [OF sample_recordable [OF m] m this] obtain js where
    js: "marshal_Metadata full_metadata = Some js" "length js \<le> maxMetadataBytes"
      "unmarshal_Metadata js = Some (read_back full_metadata)"
    by (auto simp: full_is_stored)
  have "resolve full_meta full_metadata = Some full_body" by code_simp
  moreover have "read_back full_metadata = full_metadata" by code_simp
  moreover have "node_at full_fs full_meta = Some (Regular js 5)" "node_at full_fs full_body = Some (Regular ''abc'' 6)"
    by (simp_all add: full_fs_def node_at_def full_meta_def full_body_def js(1))
  ultimately show "entry_of full_fs full_meta = Some (full_metadata, full_body, ''abc'')"
    using js by (simp add: entry_of_def meta_at_def full_metadata_def)
qed

lemma full_not_meta: "\<not> is_meta [''cache'']" "\<not> is_meta [''cache'', ''0a'']" "\<not> is_meta full_body"
  by code_simp+

section \<open>Storing and finding\<close>

lemma put_root:
  assumes "PutStreamVerified env key m source down verify w = (e, d, w')"
  shows "key_path w' k = key_path w k" "store_root (w_store w') = store_root (w_store w)"
proof -
  obtain b p where "paths (store_root (w_store w)) key = (b, p)" by fastforce
  from put_near [OF assms this] show "key_path w' k = key_path w k" "store_root (w_store w') = store_root (w_store w)"
    by (simp_all add: key_path_def)
qed

text \<open>C10.
  
  Round trip: a response that can be stored, with a body whose verification succeeds, is
  streamed to the client in full and without an error, and a lookup of its key within the
  time to live serves exactly the streamed bytes with the status, the digest and the
  sanitised header (its keys sorted, as JSON writes them, when it is UTF-8 text).
\<close>

theorem put_then_lookup:
  assumes "storable env key m (concat cs) w" "tape down = []"
    "case verify of None \<Rightarrow> True | Some v \<Rightarrow> v (int (length (concat cs))) = None"
    "time_Sub t1 (t_store env) < ttl"
  shows "case PutStreamVerified env key m \<lparr>chunks = cs, read_error = None\<rparr> down verify w of (e, d, w') \<Rightarrow>
    e = None \<and> received d = received down @ concat cs \<and>
    (case Lookup t1 t2 key ttl (w_store w') (w_fs w') of
       (Inr (Some en), _) \<Rightarrow>
         Body en = concat cs \<and> Status (entry_Metadata en) = Status m \<and>
         ContentDigest (entry_Metadata en) = ContentDigest m \<and> StoredAt (entry_Metadata en) = t_store env \<and>
         (utf8_header (CacheMetadataHeaders (Header m)) \<longrightarrow>
            Header (entry_Metadata en) = sort_key fst (CacheMetadataHeaders (Header m)))
     | _ \<Rightarrow> False)"
proof -
  obtain b p where pp: "paths (store_root (w_store w)) key = (b, p)" by fastforce
  obtain k d w' where put: "PutStreamVerified env key m \<lparr>chunks = cs, read_error = None\<rparr> down verify w = (None, d, w')"
    and D: "received d = received down @ concat cs" and F: "faults (w_fs w') = []"
    and E: "entry_of (w_fs w') p = Some (read_back (stored_metadata env p m (concat cs) k),
      butlast p @ [stem_of p @ ''.body.'' @ dec_digits k], concat cs)"
    using put_ok [OF assms(1,2,3) pp] by blast
  have pp': "paths (store_root (w_store w')) key = (b, p)" using put_root(2) [OF put] pp by simp
  have at: "StoredAt (read_back (stored_metadata env p m (concat cs) k)) = t_store env"
    by (simp add: read_back_def stored_metadata_def)
  obtain g where "Lookup t1 t2 key ttl (w_store w') (w_fs w') =
      (Inr (Some \<lparr>entry_Metadata = read_back (stored_metadata env p m (concat cs) k),
         BodyPath = butlast p @ [stem_of p @ ''.body.'' @ dec_digits k], Body = concat cs\<rparr>), g)"
    using Lookup_exact [OF F pp' E, of t1 ttl t2] assms(4) at by (metis prod.collapse)
  moreover have "read_header (CacheMetadataHeaders (Header m)) = sort_key fst (CacheMetadataHeaders (Header m))"
    if "utf8_header (CacheMetadataHeaders (Header m))"
    by (rule read_header_plain [OF that header_ok_CacheMetadata])
  ultimately show ?thesis using D by (simp add: put read_back_def stored_metadata_def)
qed

theorem put_then_lookup_witness:
  "case PutStreamVerified sample_env ''k'' sample_metadata \<lparr>chunks = [''ab'', ''c''], read_error = None\<rparr>
      \<lparr>received = [], tape = []\<rparr> (Some (\<lambda>n. if n = 3 then None else Some ''size'')) sample_world of (e, d, w') \<Rightarrow>
    e = None \<and> received d = ''abc'' \<and>
    (case Lookup 6 7 ''k'' 10 (w_store w') (w_fs w') of
       (Inr (Some en), _) \<Rightarrow> Body en = ''abc'' \<and> Header (entry_Metadata en) = [(''Content-Length'', [''3''])]
     | _ \<Rightarrow> False)"
proof -
  have t: "time_Sub 6 (t_store sample_env) < 10" by (simp add: time_Sub_def sample_env_def)
  have S: "storable sample_env ''k'' sample_metadata (concat [''ab'', ''c'']) sample_world"
    using sample_storable by simp
  have "utf8_header (CacheMetadataHeaders (Header sample_metadata))"
    unfolding sample_headers utf8_header_def by (simp add: valid_utf8_ascii byte_def)
  then show ?thesis
    using put_then_lookup [OF S, of "\<lparr>received = [], tape = []\<rparr>" "Some (\<lambda>n. if n = 3 then None else Some ''size'')" 6 10 7]
      t sample_headers by (simp split: prod.splits sum.splits option.splits)
qed

text \<open>A put that reports an error has left the counters alone, whichever call failed.\<close>

lemma put_commit_store:
  "put_commit b p bt gen mt st n res w = (c, w') \<Longrightarrow> c_err c = Some x \<Longrightarrow> w_store w' = w_store w"
  by (auto simp: put_commit_def Let_def split: prod.splits option.splits bool.splits)

lemma put_metadata_store:
  assumes "put_metadata env b p bt gen m js res w = ((Some x, keep, res'), w')"
  shows "store_bytes (w_store w') = store_bytes (w_store w) \<and> store_objects (w_store w') = store_objects (w_store w)"
proof -
  obtain r1 w1 where o: "open_temp (butlast b) ''.metadata-'' (rnd_meta env) (t_write env) w = (r1, w1)" by fastforce
  note O = open_temp_off(8,9) [OF o temp_names(2)]
  show ?thesis
  proof (cases r1)
    case (Inl e)
    with assms o O show ?thesis by (simp add: put_metadata_def)
  next
    case (Inr mt)
    obtain e2 f2 where wm: "write_metadata mt js (t_write env) (w_fs w1) = (e2, f2)" by fastforce
    obtain c w3 where pc: "put_commit b p bt gen mt (StoredAt m) (ContentBytes m) res (w1\<lparr>w_fs := f2\<rparr>) = (c, w3)" by fastforce
    show ?thesis
    proof (cases e2)
      case None
      with assms have "c_err c = Some x" "w' = close_temp mt (c_keepMetadata c) w3"
        by (simp_all add: put_metadata_def o Inr wm pc)
      with put_commit_store [OF pc] O show ?thesis by simp
    next
      case (Some e)
      with assms O show ?thesis by (auto simp: put_metadata_def o Inr wm)
    qed
  qed
qed

lemma put_failed_store:
  assumes put: "PutStreamVerified env key m source down verify w = (Some x, d, w')"
  shows "store_bytes (w_store w') = store_bytes (w_store w) \<and> store_objects (w_store w') = store_objects (w_store w)"
proof -
  obtain a w0 where ad: "put_admit env m w = (a, w0)" by fastforce
  note A = put_admit_world [OF ad]
  show ?thesis
  proof (cases "\<exists>res. a = Admit res")
    case False
    then show ?thesis using put A by (cases a) (auto simp: PutStreamVerified_def ad split: prod.splits)
  next
    case True
    then obtain res where a: "a = Admit res" by blast
    obtain b p where pp: "paths (store_root (w_store w0)) key = (b, p)" by fastforce
    obtain e1 f1 where mk: "os_MkdirAll (butlast b) (w_fs w0) = (e1, f1)" by fastforce
    obtain r1 w1 where o: "open_temp (butlast b) ''.body-'' (rnd_body env) (t_write env) (w0\<lparr>w_fs := f1\<rparr>) = (r1, w1)"
      by fastforce
    note O = open_temp_off(8,9) [OF o temp_names(1)]
    note ev = PutStreamVerified_def ad a pp mk o
    show ?thesis
    proof (cases "\<exists>bt. e1 = None \<and> r1 = Inr bt")
      case False
      then have "w' = release res (w0\<lparr>w_fs := f1\<rparr>) \<or> w' = release res w1"
        using put by (cases e1; cases r1) (auto simp: ev)
      then show ?thesis using O A by auto
    next
      case True
      then obtain bt where bt: "e1 = None" "r1 = Inr bt" by blast
      obtain result sink' f2 where cp: "copy_sink (t_write env) (chunks source) (read_error source) 0
          (new_sink bt down (fst (contentLength (Header m))) (res \<noteq> None) (w_ctl w1 \<noteq> None)) (w_fs w1) = (result, sink', f2)"
        by (metis prod_cases3)
      obtain fb f3 where fb: "finish_body verify (t_store env) (generation_path b bt) m result (overflow sink') f2 = (fb, f3)"
        by fastforce
      show ?thesis
      proof (cases fb)
        case (Failed y)
        then have "w' = release res (close_temp bt False (w1\<lparr>w_fs := f3\<rparr>))"
          using put bt by (simp add: ev cp fb Let_def del: not_None_eq)
        then show ?thesis using O A by simp
      next
        case Overflowed
        then show ?thesis using put bt by (simp add: ev cp fb Let_def del: not_None_eq)
      next
        case (Encoded m' js)
        obtain y keep res' w2 where pm: "put_metadata env b p bt (generation_path b bt) m' js res (w1\<lparr>w_fs := f3\<rparr>)
            = ((y, keep, res'), w2)" by (metis prod_cases3 surj_pair)
        have "y = Some x" "w' = release res' (close_temp bt keep w2)"
          using put bt by (simp_all add: ev cp fb Encoded pm Let_def del: not_None_eq)
        then show ?thesis using put_metadata_store [OF pm [unfolded \<open>y = Some x\<close>]] O A by simp
      qed
    qed
  qed
qed

text \<open>C31.
  
  The usage counters stay exact. If they agree with the directory before a put, they agree
  with it afterwards in two cases: the response can be stored (no system call fails, the
  reservation admits it, its metadata can be read back, its source ends without an error,
  the client takes all of it and its verification accepts it), whether the put creates an
  entry or replaces one; or the put reports an error, whichever call failed, that is none of
  the three that can occur after its body has been renamed into place. The metadata limit
  matters: a response with larger metadata is counted and never found.
\<close>

theorem put_keeps_counters:
  assumes "counted (w_store w) (w_fs w)"
    "PutStreamVerified env key m source down verify w = (e, d, w')"
    "(storable env key m (concat (chunks source)) w \<and> read_error source = None \<and> tape down = [] \<and>
        (case verify of None \<Rightarrow> True | Some v \<Rightarrow> v (int (length (concat (chunks source)))) = None)) \<or>
     (\<exists>x. e = Some x \<and> \<not> late_error x)"
  shows "counted (w_store w') (w_fs w')"
  using assms(3)
proof
  obtain b p where pp: "paths (store_root (w_store w)) key = (b, p)" by fastforce
  note P = paths_meta [OF pp] and N = put_near [OF assms(2) pp]
  {
    let ?body = "concat (chunks source)"
    assume ok: "storable env key m ?body w \<and> read_error source = None \<and> tape down = [] \<and>
      (case verify of None \<Rightarrow> True | Some v \<Rightarrow> v (int (length ?body)) = None)"
    then have src: "source = \<lparr>chunks = chunks source, read_error = None\<rparr>" by (cases source) simp
    obtain k where E: "entry_of (w_fs w') p = Some (read_back (stored_metadata env p m ?body k),
        butlast p @ [stem_of p @ ''.body.'' @ dec_digits k], ?body)"
      and S: "store_bytes (w_store w') = store_bytes (w_store w) + (int (length ?body) - entry_size (w_fs w) p)"
        "store_objects (w_store w') = store_objects (w_store w) + (1 - entry_count (w_fs w) p)"
      using put_ok [OF _ _ _ pp, of env m "chunks source" down verify] ok src assms(2) by auto
    have "usage (store_root (w_store w)) (w_fs w') =
        (fst (usage (store_root (w_store w)) (w_fs w)) + (entry_size (w_fs w') p - entry_size (w_fs w) p),
         snd (usage (store_root (w_store w)) (w_fs w)) + (entry_count (w_fs w') p - entry_count (w_fs w) p))"
      by (rule usage_change [OF P(3)]) (use near_other N P(2) in blast)
    moreover have "entry_size (w_fs w') p = int (length ?body)" "entry_count (w_fs w') p = 1"
      using E by (simp_all add: entry_size_def entry_count_def)
    ultimately show ?thesis using assms(1) S N by (simp add: counted_def prod_eq_iff)
  next
    assume "\<exists>x. e = Some x \<and> \<not> late_error x"
    then obtain x where x: "e = Some x" "\<not> late_error x" by blast
    with N have off: "off_entries (w_fs w) (w_fs w')" by blast
    have "usage (store_root (w_store w)) (w_fs w') = usage (store_root (w_store w)) (w_fs w)"
      by (rule usage_same) (rule off_entry [OF off])
    then show ?thesis using assms(1) N put_failed_store [OF assms(2) [unfolded x(1)]] by (simp add: counted_def prod_eq_iff)
  }
qed

lemma sample_counted: "counted (w_store sample_world) (w_fs sample_world)"
  by (simp add: counted_def usage_def walk_list_def sample_world_def)

theorem put_keeps_counters_witness:
  "case PutStreamVerified sample_env ''k'' sample_metadata \<lparr>chunks = [''abc''], read_error = None\<rparr>
      \<lparr>received = [], tape = []\<rparr> None sample_world of (e, d, w') \<Rightarrow> counted (w_store w') (w_fs w')"
proof -
  obtain e d w' where put: "PutStreamVerified sample_env ''k'' sample_metadata \<lparr>chunks = [''abc''], read_error = None\<rparr>
      \<lparr>received = [], tape = []\<rparr> None sample_world = (e, d, w')" by (metis prod_cases3)
  show ?thesis using put_keeps_counters [OF sample_counted put] sample_storable by (simp add: put)
qed

section \<open>Atomicity and provenance under failures\<close>

text \<open>C1.
  
  Atomicity: whichever system calls, reads or client writes fail, after a put the entry of
  its key is the one before, or none, or a complete new one: all the bytes of a source
  that ended without an error, delivered to the client too, and accepted by the
  verification.
\<close>

theorem put_is_atomic:
  assumes "new_numbers env (key_path w key) (w_fs w)" "encodable m (concat (chunks source))"
  shows "case PutStreamVerified env key m source down verify w of (e, d, w') \<Rightarrow>
    entry_for w' key = entry_for w key \<or> entry_for w' key = None \<or>
    (\<exists>m' q. entry_for w' key = Some (m', q, concat (chunks source)) \<and>
       Status m' = Status m \<and> ContentDigest m' = ContentDigest m \<and>
       Header m' = read_header (CacheMetadataHeaders (Header m)) \<and>
       StoredAt m' = t_store env \<and> read_error source = None \<and>
       received d = received down @ concat (chunks source) \<and>
       (case verify of None \<Rightarrow> True | Some u \<Rightarrow> u (int (length (concat (chunks source)))) = None))"
proof -
  obtain e d w' where put: "PutStreamVerified env key m source down verify w = (e, d, w')" by (metis prod_cases3)
  obtain b where pp: "paths (store_root (w_store w)) key = (b, key_path w key)"
    by (metis key_path_def prod.collapse)
  have en: "entry_for w' key = entry_of (w_fs w') (key_path w key)"
    using put_root(1) [OF put] by (simp add: entry_for_def)
  show ?thesis
    unfolding put prod.case en
    using put_atomic [OF put pp assms] by (auto simp: entry_for_def read_back_def stored_metadata_def)
qed

theorem put_is_atomic_witness:
  "case PutStreamVerified sample_env ''k'' sample_metadata \<lparr>chunks = [''abc''], read_error = Some ''reset''\<rparr>
      \<lparr>received = [], tape = []\<rparr> None sample_world of (e, d, w') \<Rightarrow>
    entry_for w' ''k'' = entry_for sample_world ''k'' \<or> entry_for w' ''k'' = None"
proof -
  have "new_numbers sample_env (key_path sample_world ''k'') (w_fs sample_world)"
    by (simp add: new_numbers_def meta_at_def)
  then show ?thesis
    using put_is_atomic [of sample_env sample_world "''k''" sample_metadata
        "\<lparr>chunks = [''abc''], read_error = Some ''reset''\<rparr>" "\<lparr>received = [], tape = []\<rparr>" None]
      sample_recordable [OF key_path_meta] by (auto simp: recordable_def split: prod.splits)
qed

text \<open>
  A body that its verification rejects is never stored: whatever else happens, every entry
  of the cache is afterwards what it was before.
\<close>

theorem rejected_body_not_stored:
  assumes "v (int (length (concat (chunks source)))) \<noteq> None" "is_meta q"
  shows "case PutStreamVerified env key m source down (Some v) w of (e, d, w') \<Rightarrow>
    entry_of (w_fs w') q = entry_of (w_fs w) q"
proof -
  obtain e d w' where put: "PutStreamVerified env key m source down (Some v) w = (e, d, w')" by (metis prod_cases3)
  obtain b p where pp: "paths (store_root (w_store w)) key = (b, p)" by fastforce
  from put pp have "off_entries (w_fs w) (w_fs w')"
    by (cases rule: put_cases) (use assms(1) in auto)
  then show ?thesis using off_entry [OF _ assms(2)] by (simp add: put)
qed

theorem rejected_body_not_stored_witness:
  "case PutStreamVerified sample_env ''k'' sample_metadata \<lparr>chunks = [''abc''], read_error = None\<rparr>
      \<lparr>received = [], tape = []\<rparr> (Some (\<lambda>n. Some ''digest mismatch'')) sample_world of (e, d, w') \<Rightarrow>
    entry_of (w_fs w') (key_path sample_world ''k'') = None"
  using rejected_body_not_stored [where v = "\<lambda>n. Some ''digest mismatch''" and w = sample_world and env = sample_env
      and source = "\<lparr>chunks = [''abc''], read_error = None\<rparr>" and q = "key_path sample_world ''k''" and key = "''k''"
      and m = sample_metadata and down = "\<lparr>received = [], tape = []\<rparr>"]
    key_path_meta [of sample_world "''k''"]
  by (simp add: entry_of_def meta_at_def split: prod.splits)

text \<open>
  Errors before the commit: a put that fails, with any error but the three that can occur
  after its body has been renamed into place, leaves every entry as it was.
\<close>

theorem put_error_keeps_entries:
  assumes "PutStreamVerified env key m source down verify w = (Some x, d, w')" "\<not> late_error x" "is_meta q"
  shows "entry_of (w_fs w') q = entry_of (w_fs w) q"
proof -
  obtain b p where pp: "paths (store_root (w_store w)) key = (b, p)" by fastforce
  show ?thesis using put_near [OF assms(1) pp] off_entry [OF _ assms(3)] assms(2) by blast
qed

theorem put_error_keeps_entries_witness:
  "\<exists>d w'. PutStreamVerified sample_env ''k'' sample_metadata \<lparr>chunks = [], read_error = None\<rparr>
      \<lparr>received = [], tape = []\<rparr> None (sample_world\<lparr>w_fs := \<lparr>nodes = [], faults = [Some OtherError]\<rparr>\<rparr>) =
      (Some (ErrCreateShard OtherError), d, w') \<and> \<not> late_error (ErrCreateShard OtherError) \<and>
    entry_of (w_fs w') (key_path sample_world ''k'') = None"
proof -
  let ?w = "sample_world\<lparr>w_fs := \<lparr>nodes = [], faults = [Some OtherError]\<rparr>\<rparr>"
  obtain b p where pp: "paths [''cache''] ''k'' = (b, p)" by fastforce
  have "\<exists>d w'. PutStreamVerified sample_env ''k'' sample_metadata \<lparr>chunks = [], read_error = None\<rparr>
      \<lparr>received = [], tape = []\<rparr> None ?w = (Some (ErrCreateShard OtherError), d, w')"
    by (simp add: PutStreamVerified_def put_admit_def sample_world_def pp os_MkdirAll_def next_fault_def)
  then obtain d w' where put: "PutStreamVerified sample_env ''k'' sample_metadata \<lparr>chunks = [], read_error = None\<rparr>
      \<lparr>received = [], tape = []\<rparr> None ?w = (Some (ErrCreateShard OtherError), d, w')" by blast
  have "entry_of (w_fs ?w) (key_path sample_world ''k'') = None" by (simp add: entry_of_def meta_at_def node_at_def)
  then show ?thesis
    using put put_error_keeps_entries [OF put _ key_path_meta [of sample_world "''k''"]] by simp
qed

text \<open>C2.
  
  Provenance: run any operations in any order, with any failures. An entry found for a key
  afterwards was there from the start and no operation wrote the key, or it is the entry
  that the last put of the key left: no operation on another key, no lookup, collection,
  eviction or clean-up ever alters it.
\<close>

theorem entry_from_last_put:
  assumes "entry_for (fold store_step xs w) key = Some en"
  shows "entry_for w key = Some en \<and> (\<forall>x \<in> set xs. \<not> writes_key x key) \<or>
    (\<exists>ys x zs. xs = ys @ x # zs \<and> writes_key x key \<and> (\<forall>z \<in> set zs. \<not> writes_key z key) \<and>
       entry_for (store_step x (fold store_step ys w)) key = Some en)"
  using assms by (rule responses.last_writer)

lemma stored_entry:
  "\<exists>en. entry_for (store_step (Put sample_env ''k'' sample_metadata \<lparr>chunks = [''abc''], read_error = None\<rparr>
     \<lparr>received = [], tape = []\<rparr> None) sample_world) ''k'' = Some en"
proof -
  obtain b where pp: "paths (store_root (w_store sample_world)) ''k'' = (b, key_path sample_world ''k'')"
    by (metis key_path_def prod.collapse)
  have "storable sample_env ''k'' sample_metadata (concat [''abc'']) sample_world" using sample_storable by simp
  from put_ok [OF this _ _ pp, of "\<lparr>received = [], tape = []\<rparr>" None] obtain e d w' en where
    put: "PutStreamVerified sample_env ''k'' sample_metadata \<lparr>chunks = [''abc''], read_error = None\<rparr>
      \<lparr>received = [], tape = []\<rparr> None sample_world = (e, d, w')"
    and en: "entry_of (w_fs w') (key_path sample_world ''k'') = Some en" by auto
  then show ?thesis using put_root(1) [OF put, of "''k''"] by (cases en) (simp add: entry_for_def)
qed

theorem entry_from_last_put_witness:
  "\<exists>en. entry_for (fold store_step [Put sample_env ''k'' sample_metadata \<lparr>chunks = [''abc''], read_error = None\<rparr>
      \<lparr>received = [], tape = []\<rparr> None] sample_world) ''k'' = Some en \<and>
    (\<exists>ys x zs. [Put sample_env ''k'' sample_metadata \<lparr>chunks = [''abc''], read_error = None\<rparr>
      \<lparr>received = [], tape = []\<rparr> None] = ys @ x # zs \<and> writes_key x ''k'')"
proof -
  let ?xs = "[Put sample_env ''k'' sample_metadata \<lparr>chunks = [''abc''], read_error = None\<rparr>
      \<lparr>received = [], tape = []\<rparr> None]"
  obtain en where en: "entry_for (fold store_step ?xs sample_world) ''k'' = Some en"
    using stored_entry by (auto simp del: store_step.simps)
  have "entry_for sample_world ''k'' = None" by (simp add: entry_for_def entry_of_def meta_at_def)
  then have "entry_for sample_world ''k'' \<noteq> Some en" by simp
  with entry_from_last_put [OF en] have "\<exists>ys x zs. ?xs = ys @ x # zs \<and> writes_key x ''k''" by metis
  with en show ?thesis by (intro exI [of _ en] conjI)
qed

text \<open>C32.
  
  Files that are neither metadata nor bodies nor temporary files, such as the private
  packages of a PyPI repository in the same directory, survive every sequence of cache
  operations unchanged.
\<close>

theorem foreign_files_untouched:
  assumes "foreign q" "\<not> isTempName (path_last q)" "node_at (w_fs w) q \<noteq> None"
  shows "node_at (w_fs (fold store_step xs w)) q = node_at (w_fs w) q"
  using assms(3)
proof (induction xs arbitrary: w)
  case (Cons x xs)
  have "node_at (w_fs (store_step x w)) q = node_at (w_fs w) q"
    using step_keeps [of w x] assms(1,2) Cons.prems unfolding keeps_def by blast
  then show ?case using Cons by simp
qed simp

theorem foreign_files_untouched_witness:
  "node_at (w_fs (fold store_step [Collect 1000 1, Sweep 1000 1]
      (sample_world\<lparr>w_fs := \<lparr>nodes = [([''cache'', ''packages'', ''demo-1.0.tar.gz''], Regular ''data'' 0)], faults = []\<rparr>\<rparr>)))
     [''cache'', ''packages'', ''demo-1.0.tar.gz''] = Some (Regular ''data'' 0)"
proof -
  have "foreign [''cache'', ''packages'', ''demo-1.0.tar.gz'']"
    by (simp add: foreign_def is_meta_def bodyPathForMetadata_def is_body_def stem_of_def path_last_def)
      code_simp
  then show ?thesis
    using foreign_files_untouched [of "[''cache'', ''packages'', ''demo-1.0.tar.gz'']"
      "sample_world\<lparr>w_fs := \<lparr>nodes = [([''cache'', ''packages'', ''demo-1.0.tar.gz''], Regular ''data'' 0)], faults = []\<rparr>\<rparr>"
      "[Collect 1000 1, Sweep 1000 1]"]
    by (simp add: node_at_def path_last_def isTempName_def HasPrefix_def del: store_step.simps)
qed

section \<open>Retention, eviction and clean-up\<close>

text \<open>C11.
  
  Retention: with a working file system a collection removes exactly the complete entries
  below the root that were stored at or before the cutoff, keeps every other entry, and
  reports their number and bytes; an age that is not positive is an error that changes
  nothing.
\<close>

theorem GC_retention_exact:
  assumes "faults f = []" "node_at f (store_root s) \<noteq> None" "is_meta q"
  shows "case GC now maxAge s f of ((r, err), s', g) \<Rightarrow>
    if maxAge \<le> 0 then err = Some ErrAgeNotPositive \<and> g = f \<and> s' = s
    else err = None \<and>
      entry_of g q = (if prefix (store_root s) q \<and> expired (now - maxAge) f q then None else entry_of f q) \<and>
      gc_Objects r = int (length (filter (expired (now - maxAge) f) (walk_list (store_root s) f))) \<and>
      gc_Bytes r = sum_list (map (entry_size f) (filter (expired (now - maxAge) f) (walk_list (store_root s) f)))"
proof (cases "maxAge \<le> 0")
  case True
  then show ?thesis by (simp add: GC_def)
next
  case False
  obtain r err s' g where gc: "GC now maxAge s f = ((r, err), s', g)" by (metis prod_cases3 surj_pair)
  have E: "err = None \<and> gc_done (now - maxAge) (walk_list (store_root s) f) f
      \<lparr>gc_Objects = 0, gc_Bytes = 0, gc_Skipped = 0\<rparr> g r"
    by (rule GC_exact [OF assms(1,2) _ gc]) (use False in simp)
  have "expired (now - maxAge) f q \<Longrightarrow> node_at f q \<noteq> None"
    using entry_of_node [of f q] by (auto simp: expired_def split: option.splits)
  then show ?thesis
    using E False assms(3) by (auto simp: gc gc_done_def set_walk_list)
qed

theorem GC_retention_exact_witness:
  "case GC 100 10 (w_store sample_world) full_fs of ((r, err), s', g) \<Rightarrow>
    err = None \<and> entry_of full_fs full_meta \<noteq> None \<and> entry_of g full_meta = None"
proof -
  have n: "node_at full_fs (store_root (w_store sample_world)) \<noteq> None" "faults full_fs = []"
    by (simp_all add: sample_world_def node_at_def full_fs_def)
  have "expired 90 full_fs full_meta" by (simp add: expired_def full_entry full_metadata_def)
  moreover have "prefix (store_root (w_store sample_world)) full_meta" by (simp add: full_meta_def sample_world_def)
  ultimately show ?thesis
    using GC_retention_exact [OF n(2,1) full_entry(1), where now = 100 and maxAge = 10] full_entry(2)
    by (auto split: prod.splits)
qed

text \<open>C12.
  
  The books of a collection under any failures: counters that agree with the directory
  still agree afterwards, what the counters lost is exactly what the result reports, and
  no file outside the entries is touched.
\<close>

theorem GC_books_any_failure:
  assumes "counted s f"
  shows "case GC now maxAge s f of ((r, err), s', g) \<Rightarrow>
    counted s' g \<and> store_bytes s' + gc_Bytes r = store_bytes s \<and> store_objects s' + gc_Objects r = store_objects s \<and>
    activeTemps s' = activeTemps s \<and> (foreign q \<longrightarrow> node_at g q = node_at f q)"
proof -
  obtain r err s' g where gc: "GC now maxAge s f = ((r, err), s', g)" by (metis prod_cases3 surj_pair)
  show ?thesis using GC_inv [OF gc assms] by (simp add: gc gc_inv_def)
qed

theorem GC_books_any_failure_witness:
  "counted (w_store sample_world) (w_fs sample_world) \<and>
   (case GC 100 10 (w_store sample_world) ((w_fs sample_world)\<lparr>faults := [Some OtherError]\<rparr>) of
      ((r, err), s', g) \<Rightarrow> counted s' g \<and> store_bytes s' + gc_Bytes r = 0)"
proof -
  have c: "counted (w_store sample_world) ((w_fs sample_world)\<lparr>faults := [Some OtherError]\<rparr>)"
    by (simp add: counted_def usage_def walk_list_def sample_world_def)
  have z: "store_bytes (w_store sample_world) = 0" by (simp add: sample_world_def)
  show ?thesis
    using GC_books_any_failure [OF c, where now = 100 and maxAge = 10] sample_counted z by (auto split: prod.splits)
qed

text \<open>
  Eviction candidates: with a working file system they are exactly the complete entries
  below the root, each once with its size, and the least recently used come first.
\<close>

theorem Candidates_exact_order:
  assumes "faults f = []" "node_at f (store_root s) \<noteq> None"
  shows "case Candidates s f of ((cs, err), g) \<Rightarrow>
    err = None \<and> g = f \<and> sorted (map LastUsed cs) \<and> distinct (map metadataPath cs) \<and>
    (\<forall>c. c \<in> set cs \<longleftrightarrow> (\<exists>p. prefix (store_root s) p \<and> candidate_of f p = Some c))"
proof -
  let ?W = "walk_list (store_root s) f"
  let ?cs = "List.map_filter (candidate_of f) ?W"
  have mp: "candidate_of f p = Some c \<Longrightarrow> metadataPath c = p" for p c
    by (auto simp: candidate_of_def Let_def split: option.splits)
  have "node_at f p \<noteq> None" if "candidate_of f p = Some c" for p c
    using that entry_of_node [of f p] by (auto simp: candidate_of_def split: option.splits)
  then have S: "c \<in> set ?cs \<longleftrightarrow> (\<exists>p. prefix (store_root s) p \<and> candidate_of f p = Some c)" for c
    by (fastforce simp: List.map_filter_def set_walk_list image_iff)
  have "map metadataPath (List.map_filter (candidate_of f) ps) = filter (\<lambda>p. candidate_of f p \<noteq> None) ps" for ps
    using mp by (induction ps) (auto simp: map_filter_simps split: option.splits)
  then have D: "distinct (map metadataPath ?cs)" by (simp add: distinct_walk_list)
  have "distinct (map metadataPath (sort_key LastUsed ?cs))"
    using D by (auto simp: distinct_map distinct_sort)
  then show ?thesis using Candidates_exact [OF assms] S by simp
qed

theorem Candidates_exact_order_witness:
  "case Candidates (w_store sample_world) full_fs of ((cs, err), g) \<Rightarrow>
    err = None \<and> sorted (map LastUsed cs) \<and> full_candidate \<in> set cs"
proof -
  have n: "node_at full_fs (store_root (w_store sample_world)) \<noteq> None" "faults full_fs = []"
    by (simp_all add: sample_world_def node_at_def full_fs_def)
  have "node_at full_fs full_body = Some (Regular ''abc'' 6)" by code_simp
  then have "candidate_of full_fs full_meta = Some full_candidate"
    by (simp add: candidate_of_def full_entry full_candidate_def file_mtime_def)
  moreover have "prefix (store_root (w_store sample_world)) full_meta" by (simp add: full_meta_def sample_world_def)
  ultimately show ?thesis
    using Candidates_exact_order [OF n(2,1)] by (auto split: prod.splits)
qed

text \<open>C36.
  
  Evicting a candidate never removes a newer generation: it removes a body only when the
  metadata still names that body with that size, it touches no other file, and it lowers
  the counters by exactly the candidate; in every other case nothing changes. This holds
  under any failures.
\<close>

theorem RemoveCandidate_same_generation:
  "case RemoveCandidate c s f of ((ok, err), s', g) \<Rightarrow>
    if ok then
      (\<exists>m. meta_at f (metadataPath c) = Some m \<and> resolve (metadataPath c) m = Some (bodyPath c) \<and>
         ContentBytes m = cand_Bytes c) \<and>
      entry_of g (metadataPath c) = None \<and>
      (q \<noteq> bodyPath c \<and> q \<noteq> metadataPath c \<longrightarrow> node_at g q = node_at f q) \<and>
      store_bytes s' = store_bytes s - cand_Bytes c \<and> store_objects s' = store_objects s - 1
    else node_at g = node_at f \<and> s' = s"
proof -
  obtain ok err s' g where r: "RemoveCandidate c s f = ((ok, err), s', g)" by (metis prod_cases3 surj_pair)
  show ?thesis
  proof (cases ok)
    case False
    then show ?thesis using RemoveCandidate_cases [OF r] by (simp add: r)
  next
    case True
    then obtain m where m: "meta_at f (metadataPath c) = Some m" "resolve (metadataPath c) m = Some (bodyPath c)"
      "ContentBytes m = cand_Bytes c" "node_at g (bodyPath c) = None"
      "node_at g (metadataPath c) = node_at f (metadataPath c) \<or> node_at g (metadataPath c) = None"
      "\<forall>q. q \<noteq> bodyPath c \<longrightarrow> q \<noteq> metadataPath c \<longrightarrow> node_at g q = node_at f q"
      "s' = s\<lparr>store_bytes := store_bytes s - cand_Bytes c, store_objects := store_objects s - 1\<rparr>"
      using RemoveCandidate_cases [OF r] by blast
    then show ?thesis using True entry_of_lost [OF m(1,2,4,5)] by (simp add: r)
  qed
qed

theorem RemoveCandidate_same_generation_witness:
  "case RemoveCandidate (full_candidate\<lparr>cand_Bytes := 4\<rparr>) (w_store sample_world) full_fs of ((ok, err), s', g) \<Rightarrow>
    \<not> ok \<and> node_at g = node_at full_fs \<and> s' = w_store sample_world"
proof -
  have "meta_at full_fs full_meta = Some full_metadata" "ContentBytes full_metadata = 3" "cand_Bytes (full_candidate\<lparr>cand_Bytes := 4\<rparr>) = 4"
    "metadataPath (full_candidate\<lparr>cand_Bytes := 4\<rparr>) = full_meta"
    using full_entry(2) by (simp_all add: entry_of_Some full_candidate_def full_metadata_def)
  then show ?thesis
    using RemoveCandidate_same_generation [where s = "w_store sample_world" and f = full_fs
      and c = "full_candidate\<lparr>cand_Bytes := 4\<rparr>" and q = "[]"] by (auto split: prod.splits if_splits)
qed

text \<open>
  Clean-up of temporary files, under any failures: a file that disappears is a temporary
  file below the root, is not being written by an active put, and is at least as old as
  the limit; every other file is unchanged.
\<close>

theorem CleanupStaleTemps_safe:
  "case CleanupStaleTemps now maxAge s f of ((r, err), g) \<Rightarrow>
    node_at g q = node_at f q \<or>
    isTempName (path_last q) \<and> q \<notin> set (activeTemps s) \<and> prefix (store_root s) q \<and> node_at g q = None \<and>
      file_mtime (the (node_at f q)) \<le> now - maxAge"
proof -
  obtain r err g where c: "CleanupStaleTemps now maxAge s f = ((r, err), g)" by (metis surj_pair)
  show ?thesis using Cleanup_inv [OF c] unfolding cleanup_inv_def c prod.case by blast
qed

section \<open>Hits, reservations and metadata\<close>

text \<open>
  A hit is complete and fresh, under any failures: what a lookup serves is the entry of
  the key, with as many bytes as its metadata records, stored less than the time to live
  ago; and a lookup changes no entry.
\<close>

theorem Lookup_hit_complete:
  assumes "Lookup t1 t2 key ttl s f = (Inr (Some en), g)" "\<And>q. is_body q \<Longrightarrow> node_at f q \<noteq> Some Directory"
  shows "entry_of f (snd (paths (store_root s) key)) = Some (entry_Metadata en, BodyPath en, Body en) \<and>
    int (length (Body en)) = ContentBytes (entry_Metadata en) \<and>
    time_Sub t1 (StoredAt (entry_Metadata en)) < ttl \<and> file_at g = file_at f"
proof -
  obtain b p where pp: "paths (store_root s) key = (b, p)" by fastforce
  have "node_at f q \<noteq> Some Directory" if "meta_at f p = Some m" "resolve p m = Some q" for m q
    using assms(2) resolveE(2) [OF that(2)] by blast
  then have E: "entry_of f p = Some (entry_Metadata en, BodyPath en, Body en) \<and>
      time_Sub t1 (StoredAt (entry_Metadata en)) < ttl"
    by (rule Lookup_hit [OF assms(1) pp])
  have "file_at g = file_at f"
    using Lookup_frame [OF assms(1)] by (auto simp: file_at_def fun_eq_iff)
  with E show ?thesis by (auto simp: pp entry_of_Some)
qed

theorem Lookup_hit_complete_witness:
  "\<exists>s f en g. Lookup 6 7 ''k'' 10 s f = (Inr (Some en), g) \<and> int (length (Body en)) = ContentBytes (entry_Metadata en)"
proof -
  obtain b p where pp: "paths [''cache''] ''k'' = (b, p)" by fastforce
  note P = paths_meta [OF pp]
  obtain js where js: "marshal_Metadata (stored_metadata sample_env p sample_metadata ''abc'' 7) = Some js"
      "length js \<le> maxMetadataBytes"
      "unmarshal_Metadata js = Some (read_back (stored_metadata sample_env p sample_metadata ''abc'' 7))"
    using stored_unmarshal [OF sample_recordable [OF P(2)] P(2), of 7] by (auto simp: sample_env_def)
  let ?gen = "butlast p @ [stem_of p @ ''.body.'' @ dec_digits 7]"
  let ?f = "\<lparr>nodes = [(p, Regular js 0), (?gen, Regular ''abc'' 0)], faults = []\<rparr>"
  note rs = stored_resolves [OF pp, of sample_env sample_metadata "''abc''" 7]
  have nd: "node_at ?f p = Some (Regular js 0)" "node_at ?f ?gen = Some (Regular ''abc'' 0)"
    using resolve_not_meta [OF rs] by (simp_all add: node_at_def del: append_Cons append_assoc)
  have E: "entry_of ?f p = Some (read_back (stored_metadata sample_env p sample_metadata ''abc'' 7), ?gen, ''abc'')"
    using nd js rs by (simp add: entry_of_def meta_at_def read_back_def stored_metadata_def del: append_Cons append_assoc)
  let ?s = "\<lparr>store_root = [''cache''], store_bytes = 3, store_objects = 1, activeTemps = []\<rparr>"
  have "fst (Lookup 6 7 ''k'' 10 ?s ?f) = Inr (Some \<lparr>entry_Metadata =
      read_back (stored_metadata sample_env p sample_metadata ''abc'' 7), BodyPath = ?gen, Body = ''abc''\<rparr>)"
    by (rule Lookup_exact [OF _ _ E]) (simp_all add: pp time_Sub_def read_back_def stored_metadata_def sample_env_def)
  then obtain g en where lk: "Lookup 6 7 ''k'' 10 ?s ?f = (Inr (Some en), g)" by (metis prod.collapse)
  have "node_at ?f q \<noteq> Some Directory" for q by (simp add: node_at_def)
  with Lookup_hit_complete [OF lk] lk show ?thesis by blast
qed

text \<open>
  The bounded sink: however the chunks arrive and whichever writes fail, the body file
  never grows past the reserved size, no other file changes, and a copy that ends without
  an error has delivered every byte to the client even when the file stopped growing.
\<close>

theorem sink_bounded:
  assumes "node_at f p = Some (Regular [] t)" "0 \<le> n"
  shows "case copy_sink now cs er 0 (new_sink p down n True True) f of ((k, e), w, g) \<Rightarrow>
    (\<exists>d u. node_at g p = Some (Regular d u) \<and> int (length d) \<le> n \<and>
       (e = None \<and> \<not> overflow w \<longrightarrow> d = concat cs)) \<and>
    (q \<noteq> p \<longrightarrow> node_at g q = node_at f q) \<and>
    (e = None \<longrightarrow> received (downstream w) = received down @ concat cs \<and>
       (overflow w \<longleftrightarrow> int (length (concat cs)) > n))"
proof -
  let ?s = "new_sink p down n True True"
  obtain k e w g where cp: "copy_sink now cs er 0 ?s f = ((k, e), w, g)" by (metis prod_cases3 surj_pair)
  have I: "sink_inv w g \<and> cache w = p \<and> limit w = n \<and> (\<forall>q. q \<noteq> p \<longrightarrow> node_at g q = node_at f q)"
    using copy_sink_inv [OF cp new_sink_inv [OF assms(1)]] by (simp add: new_sink_def)
  then obtain d u where d: "node_at g p = Some (Regular d u)" "int (length d) \<le> n"
    using assms(2) by (auto simp: sink_inv_def)
  have C: "received (downstream w) = received down @ concat cs \<and>
      (overflow w \<longleftrightarrow> int (length (concat cs)) > n) \<and> (\<not> overflow w \<longrightarrow> d = concat cs)" if "e = None"
    using copy_sink_ok [of now cs er 0 ?s f k w g "[]" t] cp that assms d(1) by (auto simp: new_sink_def)
  show ?thesis using I C d by (auto simp: cp)
qed

theorem sink_bounded_witness:
  "case copy_sink 0 [''abcd'', ''efgh''] None 0 (new_sink [''t''] \<lparr>received = [], tape = []\<rparr> 5 True True)
      \<lparr>nodes = [([''t''], Regular [] 0)], faults = []\<rparr> of ((k, e), w, g) \<Rightarrow>
    (\<exists>d u. node_at g [''t''] = Some (Regular d u) \<and> int (length d) \<le> 5) \<and> e = None \<and>
    received (downstream w) = ''abcdefgh'' \<and> overflow w"
proof -
  let ?c = "copy_sink 0 [''abcd'', ''efgh''] None 0 (new_sink [''t''] \<lparr>received = [], tape = []\<rparr> 5 True True)
      \<lparr>nodes = [([''t''], Regular [] 0)], faults = []\<rparr>"
  have "snd (fst ?c) = None" by code_simp
  then show ?thesis
    using sink_bounded [where f = "\<lparr>nodes = [([''t''], Regular [] 0)], faults = []\<rparr>" and p = "[''t'']" and t = 0 and n = 5
        and now = 0 and cs = "[''abcd'', ''efgh'']" and er = None and down = "\<lparr>received = [], tape = []\<rparr>" and q = "[]"]
    by (auto simp: node_at_def simp del: copy_sink.simps split: prod.splits)
qed

text \<open>
  Metadata round trip: the JSON text of any metadata with 64-bit numbers, UTF-8 text and
  distinct header keys decodes to the same metadata, with the header keys sorted.
\<close>

theorem metadata_json_roundtrip:
  assumes "marshal_Metadata m = Some js" "plain_metadata m"
  shows "unmarshal_Metadata js = Some (m\<lparr>Header := sort_key fst (Header m)\<rparr>)"
  using assms by (rule unmarshal_marshal)

theorem metadata_json_roundtrip_witness:
  "\<exists>js. marshal_Metadata full_metadata = Some js \<and> unmarshal_Metadata js = Some full_metadata"
proof -
  have p: "plain_metadata full_metadata" by code_simp
  have h: "sort_key fst (Header full_metadata) = Header full_metadata"
    by (simp add: full_metadata_def sample_metadata_def)
  have "marshal_Metadata full_metadata \<noteq> None" by code_simp
  then obtain js where js: "marshal_Metadata full_metadata = Some js" by blast
  show ?thesis using metadata_json_roundtrip [OF js p] js h by simp
qed

end
