(* ===== verification/Maintenance.thy ===== *)
theory Maintenance
  imports Prelude
begin

text \<open>
  The single-flight garbage-collection coordinator of
  \<^verbatim>\<open>src/internal/maintenance/coordinator.go\<close>. \<open>Run\<close> holds the mutex only at its
  start and at its end; in between it calls the runner and fills in the \<^verbatim>\<open>Run\<close>
  value that \<^verbatim>\<open>current\<close> already points to. The model keeps these values in an
  explicit heap, so that what \<open>Snapshot\<close> reads through the pointer is visible, and
  splits \<open>Run\<close> at every statement that touches shared state.
\<close>

section \<open>Data\<close>

datatype trigger = TriggerStartup | TriggerSchedule | TriggerPressure | TriggerOperator

record gc_result =
  RemovedObjects :: int
  RemovedBytes :: int
  SkippedObjects :: int
  Errors :: int

abbreviation no_result :: gc_result where
  "no_result \<equiv> \<lparr>RemovedObjects = 0, RemovedBytes = 0, SkippedObjects = 0, Errors = 0\<rparr>"

record gc_run =
  ID :: int
  Trigger :: trigger
  StartedAt :: int
  FinishedAt :: "int option"
  Result :: gc_result
  Error :: string

record gc_snapshot =
  State :: string
  Current :: "gc_run option"
  Last :: "gc_run option"

text \<open>
  \<open>heap ! a\<close> is the \<^verbatim>\<open>run\<close> variable of the \<open>a\<close>-th accepted call;
  \<open>current\<close> and \<open>last_run\<close> are the pointers of the source.
\<close>

record coordinator =
  nextID :: int
  current :: "nat option"
  last_run :: "nat option"
  heap :: "gc_run list"

definition New_coordinator :: coordinator where
  "New_coordinator = \<lparr>nextID = 0, current = None, last_run = None, heap = []\<rparr>"

section \<open>Operations\<close>

text \<open>The first critical section: reuse the current run, or start one.\<close>

definition run_begin :: "int \<Rightarrow> trigger \<Rightarrow> coordinator \<Rightarrow> gc_run + (nat \<times> coordinator)" where
  "run_begin now trig c =
     (case current c of
        Some a \<Rightarrow> Inl (heap c ! a)
      | None \<Rightarrow>
          let n = u64 (nextID c + 1); a = length (heap c);
              r = \<lparr>ID = n, Trigger = trig, StartedAt = now, FinishedAt = None,
                   Result = no_result, Error = []\<rparr>
          in Inr (a, c\<lparr>nextID := n, heap := heap c @ [r], current := Some a\<rparr>))"

text \<open>The unlocked writes to the shared \<^verbatim>\<open>Run\<close>, one per statement.\<close>

definition write_Result :: "nat \<Rightarrow> gc_result \<Rightarrow> coordinator \<Rightarrow> coordinator" where
  "write_Result a res c = c\<lparr>heap := (heap c)[a := (heap c ! a)\<lparr>Result := res\<rparr>]\<rparr>"

definition write_FinishedAt :: "nat \<Rightarrow> int \<Rightarrow> coordinator \<Rightarrow> coordinator" where
  "write_FinishedAt a fin c = c\<lparr>heap := (heap c)[a := (heap c ! a)\<lparr>FinishedAt := Some fin\<rparr>]\<rparr>"

definition write_Error :: "nat \<Rightarrow> string \<Rightarrow> coordinator \<Rightarrow> coordinator" where
  "write_Error a msg c = c\<lparr>heap := (heap c)[a := (heap c ! a)\<lparr>Error := msg\<rparr>]\<rparr>"

definition write_Errors :: "nat \<Rightarrow> coordinator \<Rightarrow> coordinator" where
  "write_Errors a c =
     (let r = heap c ! a; res = Result r
      in c\<lparr>heap := (heap c)[a := r\<lparr>Result := res\<lparr>Errors := i64 (Errors res + 1)\<rparr>\<rparr>]\<rparr>)"

text \<open>The last critical section.\<close>

definition run_end :: "nat \<Rightarrow> coordinator \<Rightarrow> coordinator" where
  "run_end a c = c\<lparr>current := None, last_run := Some a\<rparr>"

text \<open>
  The whole call without interference; the runner's outcome and the two clock readings
  are arguments. It returns the run, whether it was accepted, and the coordinator.
\<close>

definition Run ::
  "int \<Rightarrow> int \<Rightarrow> trigger \<Rightarrow> gc_result \<times> string option \<Rightarrow> coordinator \<Rightarrow> gc_run \<times> bool \<times> coordinator"
where
  "Run now fin trig outcome c =
     (case run_begin now trig c of
        Inl r \<Rightarrow> (r, False, c)
      | Inr (a, c1) \<Rightarrow>
          let c2 = write_FinishedAt a fin (write_Result a (fst outcome) c1);
              c3 = (case snd outcome of None \<Rightarrow> c2
                    | Some msg \<Rightarrow> write_Errors a (write_Error a msg c2));
              c4 = run_end a c3
          in (heap c4 ! a, True, c4))"

definition Snapshot :: "coordinator \<Rightarrow> gc_snapshot" where
  "Snapshot c =
     \<lparr>State = (if current c \<noteq> None then ''running'' else ''idle''),
      Current = map_option ((!) (heap c)) (current c),
      Last = map_option ((!) (heap c)) (last_run c)\<rparr>"

lemmas [op_defs] = write_Result_def write_FinishedAt_def write_Error_def write_Errors_def
  run_end_def

section \<open>Concurrent callers\<close>

text \<open>
  Where a caller of \<open>Run\<close> is: not in a call, at the runner, before each of the writes,
  before the final critical section, or returned with what the call returns.
\<close>

datatype pc =
    Outside
  | AtRunner nat
  | AtResult nat "gc_result \<times> string option" int
  | AtFinished nat "string option" int
  | AtError nat "string option"
  | AtErrors nat
  | AtEnd nat
  | Returned gc_run bool

fun in_flight :: "pc \<Rightarrow> nat option" where
  "in_flight (AtRunner a) = Some a"
| "in_flight (AtResult a _ _) = Some a"
| "in_flight (AtFinished a _ _) = Some a"
| "in_flight (AtError a _) = Some a"
| "in_flight (AtErrors a) = Some a"
| "in_flight (AtEnd a) = Some a"
| "in_flight _ = None"

type_synonym sys = "coordinator \<times> (nat \<Rightarrow> pc)"

inductive co_step :: "sys \<Rightarrow> sys \<Rightarrow> bool" where
  call_refused: "pcs t = Outside \<Longrightarrow> run_begin now trig c = Inl r \<Longrightarrow>
     co_step (c, pcs) (c, pcs(t := Returned r False))"
| call_accepted: "pcs t = Outside \<Longrightarrow> run_begin now trig c = Inr (a, c') \<Longrightarrow>
     co_step (c, pcs) (c', pcs(t := AtRunner a))"
| runner: "pcs t = AtRunner a \<Longrightarrow> co_step (c, pcs) (c, pcs(t := AtResult a outcome fin))"
| store_result: "pcs t = AtResult a outcome fin \<Longrightarrow>
     co_step (c, pcs) (write_Result a (fst outcome) c, pcs(t := AtFinished a (snd outcome) fin))"
| store_finished: "pcs t = AtFinished a err fin \<Longrightarrow>
     co_step (c, pcs) (write_FinishedAt a fin c, pcs(t := AtError a err))"
| no_error: "pcs t = AtError a None \<Longrightarrow> co_step (c, pcs) (c, pcs(t := AtEnd a))"
| store_error: "pcs t = AtError a (Some msg) \<Longrightarrow>
     co_step (c, pcs) (write_Error a msg c, pcs(t := AtErrors a))"
| count_error: "pcs t = AtErrors a \<Longrightarrow> co_step (c, pcs) (write_Errors a c, pcs(t := AtEnd a))"
| finish: "pcs t = AtEnd a \<Longrightarrow>
     co_step (c, pcs) (run_end a c, pcs(t := Returned (heap c ! a) True))"
| leave: "pcs t = Returned r acc \<Longrightarrow> co_step (c, pcs) (c, pcs(t := Outside))"

abbreviation co_reach :: "sys \<Rightarrow> bool" where
  "co_reach \<equiv> reach (\<lambda>s. s = (New_coordinator, \<lambda>_. Outside)) co_step"

definition past_finish :: "pc \<Rightarrow> bool" where
  "past_finish p \<longleftrightarrow> (case p of AtError _ _ \<Rightarrow> True | AtErrors _ \<Rightarrow> True | AtEnd _ \<Rightarrow> True | _ \<Rightarrow> False)"

text \<open>
  The invariant, with \<open>owner\<close> the only caller inside: the run \<open>current\<close> points to is
  the run of that caller; the identifiers count the accepted calls; every run but the
  current one is finished, and \<open>last_run\<close> is one of them.
\<close>

definition sole_owner :: "coordinator \<Rightarrow> (nat \<Rightarrow> pc) \<Rightarrow> nat \<Rightarrow> nat \<Rightarrow> bool" where
  "sole_owner c pcs t a \<longleftrightarrow>
     in_flight (pcs t) = Some a \<and> (\<forall>t'. t' \<noteq> t \<longrightarrow> in_flight (pcs t') = None) \<and>
     a < length (heap c) \<and> (past_finish (pcs t) \<longrightarrow> FinishedAt (heap c ! a) \<noteq> None)"

definition heap_inv :: "coordinator \<Rightarrow> bool" where
  "heap_inv c \<longleftrightarrow>
     nextID c = u64 (int (length (heap c))) \<and>
     (\<forall>a < length (heap c). ID (heap c ! a) = u64 (int a + 1)) \<and>
     (\<forall>a < length (heap c). current c \<noteq> Some a \<longrightarrow> FinishedAt (heap c ! a) \<noteq> None) \<and>
     (\<forall>a. last_run c = Some a \<longrightarrow> a < length (heap c) \<and> current c \<noteq> Some a)"

definition co_inv :: "sys \<Rightarrow> bool" where
  "co_inv s \<longleftrightarrow>
     (case s of (c, pcs) \<Rightarrow>
        heap_inv c \<and>
        (case current c of
           None \<Rightarrow> \<forall>t. in_flight (pcs t) = None
         | Some a \<Rightarrow> \<exists>t. sole_owner c pcs t a))"

lemma co_inv_owner:
  assumes "co_inv (c, pcs)" "in_flight (pcs t) = Some a"
  shows "current c = Some a \<and> sole_owner c pcs t a \<and> heap_inv c"
proof -
  from assms obtain a' t' where cur: "current c = Some a'" and own: "sole_owner c pcs t' a'"
    by (auto simp: co_inv_def split: option.splits)
  from own assms(2) have "t' = t" by (auto simp: sole_owner_def)
  with own assms cur show ?thesis by (auto simp: co_inv_def sole_owner_def)
qed

lemma co_inv_write:
  assumes "co_inv (c, pcs)" "in_flight (pcs t) = Some a" "in_flight p = Some a"
    and "ID r = ID (heap c ! a)" "past_finish p \<Longrightarrow> FinishedAt r \<noteq> None"
  shows "co_inv (c\<lparr>heap := (heap c)[a := r]\<rparr>, pcs(t := p))"
proof -
  note own = co_inv_owner [OF assms(1,2)]
  then have "sole_owner (c\<lparr>heap := (heap c)[a := r]\<rparr>) (pcs(t := p)) t a"
    using assms(3,5) by (auto simp: sole_owner_def)
  moreover have "heap_inv (c\<lparr>heap := (heap c)[a := r]\<rparr>)"
    using own assms(4) by (auto simp: heap_inv_def sole_owner_def nth_list_update)
  ultimately show ?thesis using own by (auto simp: co_inv_def)
qed

lemma co_inv_pc:
  assumes "co_inv (c, pcs)" "in_flight (pcs t) = Some a" "in_flight p = Some a"
    and "past_finish p \<Longrightarrow> past_finish (pcs t)"
  shows "co_inv (c, pcs(t := p))"
  using co_inv_write [OF assms(1-3), of "heap c ! a"] co_inv_owner [OF assms(1,2)] assms(4)
  by (auto simp: sole_owner_def)

lemma co_inv_outside:
  assumes "co_inv (c, pcs)" "in_flight (pcs t) = None" "in_flight p = None"
  shows "co_inv (c, pcs(t := p))"
proof (cases "current c")
  case None
  with assms show ?thesis by (auto simp: co_inv_def)
next
  case (Some a)
  with assms(1) obtain t' where "sole_owner c pcs t' a" by (auto simp: co_inv_def)
  with assms(2,3) have "sole_owner c (pcs(t := p)) t' a" by (auto simp: sole_owner_def)
  with Some assms(1) show ?thesis by (auto simp: co_inv_def)
qed

lemma less_Suc_last: "\<not> a < length xs \<Longrightarrow> a < Suc (length xs) \<Longrightarrow> a = length xs"
  by simp

lemma co_inv_begin:
  assumes "co_inv (c, pcs)" "in_flight (pcs t) = None" "run_begin now trig c = Inr (a, c')"
  shows "co_inv (c', pcs(t := AtRunner a))"
proof -
  from assms(3) have cur: "current c = None"
    and a: "a = length (heap c)"
    and c': "c' = c\<lparr>nextID := u64 (nextID c + 1), heap := heap c @ [\<lparr>ID = u64 (nextID c + 1),
      Trigger = trig, StartedAt = now, FinishedAt = None, Result = no_result, Error = []\<rparr>],
      current := Some a\<rparr>"
    by (auto simp: run_begin_def Let_def split: option.splits)
  have "heap_inv c'"
    using assms(1) cur unfolding c' a
    by (auto simp: co_inv_def heap_inv_def u64_add_left nth_append add.commute [of 1]
        dest: less_Suc_last)
  moreover have "sole_owner c' (pcs(t := AtRunner a)) t a"
    using assms(1,2) cur unfolding c' a by (auto simp: co_inv_def sole_owner_def past_finish_def)
  moreover have "current c' = Some a" by (simp add: c')
  ultimately show ?thesis by (auto simp: co_inv_def)
qed

lemma co_inv_end:
  assumes "co_inv (c, pcs)" "pcs t = AtEnd a"
  shows "co_inv (run_end a c, pcs(t := Returned r True))"
proof -
  have own: "current c = Some a" "sole_owner c pcs t a" "heap_inv c"
    using co_inv_owner [OF assms(1), of t a] assms(2) by auto
  then have "heap_inv (run_end a c)"
    using assms(2) by (auto simp: heap_inv_def run_end_def sole_owner_def past_finish_def)
  with own show ?thesis by (auto simp: co_inv_def run_end_def sole_owner_def)
qed

lemma co_inv_step: "co_step s s' \<Longrightarrow> co_inv s \<Longrightarrow> co_inv s'"
proof (induction rule: co_step.induct)
  case (call_refused pcs t now trig c r)
  then show ?case by (intro co_inv_outside) auto
next
  case (call_accepted pcs t now trig c a c')
  then show ?case by (intro co_inv_begin) auto
next
  case (finish pcs t a c)
  then show ?case by (intro co_inv_end)
next
  case (leave pcs t r acc c)
  then show ?case by (intro co_inv_outside) auto
next
  case (runner pcs t a c outcome fin)
  then show ?case by (intro co_inv_pc [of _ _ _ a]) (auto simp: past_finish_def)
next
  case (no_error pcs t a c)
  then show ?case by (intro co_inv_pc [of _ _ _ a]) (auto simp: past_finish_def)
next
  case (store_result pcs t a outcome fin c)
  then show ?case unfolding write_Result_def
    by (intro co_inv_write) (auto simp: past_finish_def)
next
  case (store_finished pcs t a err fin c)
  then show ?case unfolding write_FinishedAt_def
    by (intro co_inv_write) (auto simp: past_finish_def)
next
  case (store_error pcs t a msg c)
  then show ?case unfolding write_Error_def
    using co_inv_owner [of c pcs t a]
    by (intro co_inv_write) (auto simp: past_finish_def sole_owner_def)
next
  case (count_error pcs t a c)
  then show ?case unfolding write_Errors_def Let_def
    using co_inv_owner [of c pcs t a]
    by (intro co_inv_write) (auto simp: past_finish_def sole_owner_def)
qed

lemma co_reach_inv: "co_reach s \<Longrightarrow> co_inv s"
proof (induction rule: reach_invariant)
  case (start s)
  then show ?case by (simp add: co_inv_def heap_inv_def New_coordinator_def u64_def)
next
  case (step s t)
  then show ?case by (blast intro: co_inv_step)
qed

section \<open>The single-flight interface\<close>

text \<open>
  What the server relies on when it triggers a collection: the call either reports the
  run that is already in progress, or performs one whole collection with a fresh
  identifier and leaves the coordinator idle again.
\<close>

text \<open>Triggers one after the other: each call returns before the next.\<close>

fun run_all :: "('t \<Rightarrow> 'o \<Rightarrow> 'c \<Rightarrow> 'r \<times> bool \<times> 'c) \<Rightarrow> ('t \<times> 'o) list \<Rightarrow> 'c \<Rightarrow> 'r list \<times> 'c" where
  "run_all run [] c = ([], c)"
| "run_all run ((t, out) # rest) c =
     (case run t out c of (r, _, c') \<Rightarrow> let (rs, c'') = run_all run rest c' in (r # rs, c''))"

locale single_flight =
  fixes run :: "'t \<Rightarrow> 'o \<Rightarrow> 'c \<Rightarrow> 'r \<times> bool \<times> 'c"
    and busy :: "'c \<Rightarrow> 'r option"
    and latest :: "'c \<Rightarrow> 'r option"
    and ident :: "'r \<Rightarrow> int"
    and issued :: "'c \<Rightarrow> int"
  assumes busy_refuses: "busy c = Some r \<Longrightarrow> run t out c = (r, False, c)"
    and idle_accepts:
      "busy c = None \<Longrightarrow> run t out c = (r, acc, c') \<Longrightarrow>
         acc \<and> busy c' = None \<and> latest c' = Some r \<and> issued c' = u64 (issued c + 1) \<and>
         ident r = issued c'"
begin

text \<open>Sequential triggers get consecutive identifiers and end idle.\<close>

lemma run_all_consecutive:
  assumes "busy c = None" "run_all run ts c = (rs, c')"
  shows "busy c' = None \<and> map ident rs = map (\<lambda>i. u64 (issued c + int i + 1)) [0..<length ts]
    \<and> u64 (issued c') = u64 (issued c + int (length ts))"
  using assms
proof (induction ts arbitrary: c rs)
  case Nil
  then show ?case by simp
next
  case (Cons x ts)
  obtain t out where x: "x = (t, out)" by fastforce
  obtain r acc c1 where R: "run t out c = (r, acc, c1)" by (cases "run t out c") auto
  obtain rs1 where rest: "run_all run ts c1 = (rs1, c')" and rs: "rs = r # rs1"
    using Cons.prems(2) x R by (auto simp: Let_def split: prod.splits)
  note idle = idle_accepts [OF Cons.prems(1) R]
  note IH = Cons.IH [OF _ rest]
  have shift: "u64 (issued c1 + int i + 1) = u64 (issued c + int (Suc i) + 1)" for i
    using idle u64_add_left [of "issued c + 1" "int i + 1"] by (simp add: algebra_simps)
  have "map ident rs = map (\<lambda>i. u64 (issued c + int i + 1)) (0 # map Suc [0..<length ts])"
    using IH idle shift by (simp add: rs comp_def)
  moreover have "u64 (issued c1 + int (length ts)) = u64 (issued c + int (length (x # ts)))"
    using idle u64_add_left [of "issued c + 1" "int (length ts)"] by (simp add: algebra_simps)
  ultimately show ?case
    using IH idle by (simp add: upt_conv_Cons map_Suc_upt del: upt_Suc)
qed

end

definition busy_run :: "coordinator \<Rightarrow> gc_run option" where
  "busy_run c = map_option ((!) (heap c)) (current c)"

definition latest_run :: "coordinator \<Rightarrow> gc_run option" where
  "latest_run c = map_option ((!) (heap c)) (last_run c)"

lemma Run_idle:
  assumes "current c = None"
  shows "\<exists>r c'. Run now fin trig out c = (r, True, c') \<and> current c' = None \<and>
     latest_run c' = Some r \<and> nextID c' = u64 (nextID c + 1) \<and> ID r = nextID c' \<and>
     Trigger r = trig \<and> StartedAt r = now \<and> FinishedAt r = Some fin \<and>
     Error r = (case snd out of None \<Rightarrow> [] | Some m \<Rightarrow> m) \<and>
     Result r = (case snd out of None \<Rightarrow> fst out
                 | Some m \<Rightarrow> (fst out)\<lparr>Errors := i64 (Errors (fst out) + 1)\<rparr>)"
  using assms
  by (auto simp: Run_def run_begin_def Let_def op_defs latest_run_def nth_append
      split: option.splits)

definition trigger_run ::
  "trigger \<times> int \<times> int \<Rightarrow> gc_result \<times> string option \<Rightarrow> coordinator \<Rightarrow> gc_run \<times> bool \<times> coordinator"
where
  "trigger_run t out c = (case t of (trig, now, fin) \<Rightarrow> Run now fin trig out c)"

interpretation gc: single_flight trigger_run busy_run latest_run ID nextID
proof
  fix c r t out
  assume "busy_run c = Some r"
  then show "trigger_run t out c = (r, False, c)"
    by (auto simp: trigger_run_def busy_run_def Run_def run_begin_def split: option.splits prod.splits)
next
  fix c r t out acc c'
  assume "busy_run c = None"
    and R: "trigger_run t out c = (r, acc, c')"
  then have cur: "current c = None" by (simp add: busy_run_def)
  obtain trig now fin where t: "t = (trig, now, fin)" by (cases t) auto
  from Run_idle [OF cur, of now fin trig out] R [unfolded trigger_run_def t]
  show "acc \<and> busy_run c' = None \<and> latest_run c' = Some r \<and> nextID c' = u64 (nextID c + 1) \<and>
      ID r = nextID c'"
    by (auto simp: busy_run_def)
qed

section \<open>Properties\<close>

text \<open>C21.
  
  Collections never overlap: in every reachable state of any number of concurrent callers
  of \<open>Run\<close>, two callers that are past the first critical section and not yet past the
  last are the same caller, and its run is the one \<^verbatim>\<open>current\<close> points to.\<close>

theorem gc_single_flight:
  assumes "co_reach (c, pcs)" "in_flight (pcs t) = Some a" "in_flight (pcs t') = Some b"
  shows "t = t' \<and> a = b \<and> current c = Some a"
  using co_inv_owner [OF co_reach_inv [OF assms(1)] assms(2)]
    co_inv_owner [OF co_reach_inv [OF assms(1)] assms(3)] assms(2,3)
  by (auto simp: sole_owner_def)

text \<open>Two callers: the first is at the runner when the second is refused.\<close>

definition example_start :: "coordinator \<times> gc_run" where
  "example_start =
     (let r = \<lparr>ID = 1, Trigger = TriggerSchedule, StartedAt = 10, FinishedAt = None,
               Result = no_result, Error = []\<rparr>
      in (\<lparr>nextID = 1, current = Some 0, last_run = None, heap = [r]\<rparr>, r))"

lemma example_reach:
  "co_reach (fst example_start, (\<lambda>_. Outside)(0 := AtRunner 0))"
proof -
  have "co_reach (New_coordinator, \<lambda>_. Outside)" by (rule reach_start) simp
  moreover have "co_step (New_coordinator, \<lambda>_. Outside)
      (fst example_start, (\<lambda>_. Outside)(0 := AtRunner 0))"
    by (rule call_accepted [where now = 10 and trig = TriggerSchedule])
      (simp_all add: run_begin_def New_coordinator_def example_start_def Let_def u64_def)
  ultimately show ?thesis by (rule reach_step)
qed

theorem gc_single_flight_witness:
  "\<exists>pcs. co_reach (fst example_start, pcs) \<and> in_flight (pcs 0) = Some 0 \<and>
     pcs 1 = Returned (snd example_start) False \<and> current (fst example_start) = Some 0"
proof -
  let ?pcs = "(\<lambda>_. Outside)(0 := AtRunner 0, Suc 0 := Returned (snd example_start) False)"
  have "co_step (fst example_start, (\<lambda>_. Outside)(0 := AtRunner 0)) (fst example_start, ?pcs)"
    by (rule call_refused [where now = 11 and trig = TriggerOperator])
      (simp_all add: run_begin_def example_start_def Let_def)
  with example_reach have R: "co_reach (fst example_start, ?pcs)" by (rule reach_step)
  from gc_single_flight [OF R, of 0 0 0 0] R show ?thesis
    by (intro exI [of _ ?pcs]) simp
qed

text \<open>
  A call of \<open>Run\<close> on an idle coordinator performs exactly one collection: it is accepted,
  gets the next identifier, records trigger, times and the runner's result (one error
  more when the runner failed, with its message), and afterwards the coordinator is idle
  with this run as the last one. A call while a run is in progress returns that run,
  unaccepted, and changes nothing.\<close>

theorem Run_idle_or_busy:
  "(current c = None \<longrightarrow>
      (\<exists>r c'. Run now fin trig out c = (r, True, c') \<and>
         State (Snapshot c') = ''idle'' \<and> Last (Snapshot c') = Some r \<and>
         ID r = u64 (nextID c + 1) \<and> Trigger r = trig \<and>
         StartedAt r = now \<and> FinishedAt r = Some fin \<and>
         (case snd out of
            None \<Rightarrow> Error r = [] \<and> Result r = fst out
          | Some m \<Rightarrow> Error r = m \<and> Result r = (fst out)\<lparr>Errors := i64 (Errors (fst out) + 1)\<rparr>)))
   \<and> (\<forall>a. current c = Some a \<longrightarrow> Run now fin trig out c = (heap c ! a, False, c))"
proof (intro conjI impI allI)
  assume cur: "current c = None"
  from Run_idle [OF cur, of now fin trig out] obtain r c' where
    "Run now fin trig out c = (r, True, c')" "current c' = None" "latest_run c' = Some r"
    "nextID c' = u64 (nextID c + 1)" "ID r = nextID c'" "Trigger r = trig" "StartedAt r = now"
    "FinishedAt r = Some fin" "Error r = (case snd out of None \<Rightarrow> [] | Some m \<Rightarrow> m)"
    "Result r = (case snd out of None \<Rightarrow> fst out
       | Some m \<Rightarrow> (fst out)\<lparr>Errors := i64 (Errors (fst out) + 1)\<rparr>)" by blast
  then show "\<exists>r c'. Run now fin trig out c = (r, True, c') \<and>
         State (Snapshot c') = ''idle'' \<and> Last (Snapshot c') = Some r \<and>
         ID r = u64 (nextID c + 1) \<and> Trigger r = trig \<and>
         StartedAt r = now \<and> FinishedAt r = Some fin \<and>
         (case snd out of
            None \<Rightarrow> Error r = [] \<and> Result r = fst out
          | Some m \<Rightarrow> Error r = m \<and> Result r = (fst out)\<lparr>Errors := i64 (Errors (fst out) + 1)\<rparr>)"
    by (intro exI [of _ r] exI [of _ c'])
      (simp add: Snapshot_def latest_run_def split: option.splits)
next
  fix a assume "current c = Some a"
  then show "Run now fin trig out c = (heap c ! a, False, c)"
    by (simp add: Run_def run_begin_def)
qed

theorem Run_idle_or_busy_witness:
  "fst (snd (Run 10 20 TriggerStartup (no_result, None) New_coordinator)) \<and>
   Run 30 40 TriggerOperator (no_result, None) (fst example_start)
     = (snd example_start, False, fst example_start)"
proof -
  have "current New_coordinator = None" "current (fst example_start) = Some 0"
    and h: "heap (fst example_start) ! 0 = snd example_start"
    by (simp_all add: New_coordinator_def example_start_def Let_def)
  with Run_idle_or_busy [of New_coordinator 10 20 TriggerStartup "(no_result, None)"]
    Run_idle_or_busy [of "fst example_start" 30 40 TriggerOperator "(no_result, None)"]
  show ?thesis by auto
qed

text \<open>
  Triggers that run one after the other on an idle coordinator get consecutive
  identifiers, wrapping as \<^verbatim>\<open>uint64\<close> does, and leave it idle.\<close>

theorem gc_ids_consecutive:
  assumes "current c = None" "run_all trigger_run ts c = (rs, c')"
  shows "current c' = None \<and>
     map ID rs = map (\<lambda>i. u64 (nextID c + int i + 1)) [0..<length ts]"
  using gc.run_all_consecutive [of c ts rs c'] assms by (simp add: busy_run_def)

theorem gc_ids_consecutive_witness:
  "map ID (fst (run_all trigger_run [((TriggerStartup, 1, 2), (no_result, None)),
      ((TriggerSchedule, 3, 4), (no_result, Some ''disk''))] New_coordinator)) = [1, 2]"
proof -
  let ?ts = "[((TriggerStartup, 1, 2), (no_result, None)),
      ((TriggerSchedule, 3, 4), (no_result, Some ''disk''))]"
  obtain rs c' where R: "run_all trigger_run ?ts New_coordinator = (rs, c')" by fastforce
  have "current New_coordinator = None" by (simp add: New_coordinator_def)
  from gc_ids_consecutive [OF this R] R show ?thesis
    by (simp add: New_coordinator_def u64_def)
qed

text \<open>
  A reported last run is complete: whatever the concurrent callers do, \<open>Last\<close> of a
  snapshot is a run with its finish time recorded, and its identifier is below that of
  every later run (up to the wrap-around of \<^verbatim>\<open>uint64\<close>).\<close>

theorem gc_last_is_finished:
  assumes "co_reach (c, pcs)" "Last (Snapshot c) = Some r"
  shows "FinishedAt r \<noteq> None \<and>
     (\<exists>a < length (heap c). r = heap c ! a \<and> ID r = u64 (int a + 1))"
proof -
  have "heap_inv c" using co_reach_inv [OF assms(1)] by (simp add: co_inv_def)
  with assms(2) show ?thesis by (auto simp: Snapshot_def heap_inv_def)
qed

lemma example_finished:
  defines "c1 \<equiv> write_FinishedAt 0 20 (write_Result 0 no_result (fst example_start))"
  shows "co_reach (c1, (\<lambda>_. Outside)(0 := AtError 0 None))"
    "co_reach (run_end 0 c1, (\<lambda>_. Outside)(0 := Returned (heap c1 ! 0) True))"
proof -
  let ?p = "\<lambda>p. (\<lambda>_. Outside)(0 := p)"
  have "co_step (fst example_start, ?p (AtRunner 0))
      (fst example_start, ?p (AtResult 0 (no_result, None) 20))"
    using runner [of "?p (AtRunner 0)" 0 0 "fst example_start" "(no_result, None)" 20] by simp
  with example_reach have 1: "co_reach (fst example_start, ?p (AtResult 0 (no_result, None) 20))"
    by (rule reach_step)
  have "co_reach (write_Result 0 no_result (fst example_start), ?p (AtFinished 0 None 20))"
    using reach_step [OF 1 store_result [of _ 0 0 "(no_result, None)" 20]] by simp
  from reach_step [OF this store_finished [of _ 0 0 None 20]]
  show 2: "co_reach (c1, ?p (AtError 0 None))" by (simp add: c1_def)
  from reach_step [OF 2 no_error [of _ 0 0]] have 3: "co_reach (c1, ?p (AtEnd 0))" by simp
  from reach_step [OF 3 finish [of _ 0 0]]
  show "co_reach (run_end 0 c1, ?p (Returned (heap c1 ! 0) True))" by simp
qed

theorem gc_last_is_finished_witness:
  "\<exists>c pcs r. co_reach (c, pcs) \<and> Last (Snapshot c) = Some r \<and> FinishedAt r \<noteq> None"
proof -
  let ?c1 = "write_FinishedAt 0 20 (write_Result 0 no_result (fst example_start))"
  have L: "Last (Snapshot (run_end 0 ?c1)) = Some (heap ?c1 ! 0)"
    by (simp add: Snapshot_def run_end_def)
  from gc_last_is_finished [OF example_finished(2) L] L example_finished(2)
  show ?thesis by blast
qed

text \<open>
  \<open>Run\<close> fills in the run that \<^verbatim>\<open>current\<close> points to without holding the
  mutex, so a concurrent \<open>Snapshot\<close> can report a collection as running although its
  finish time and result are already written: such a state is reachable.\<close>

theorem gc_snapshot_sees_unlocked_writes:
  "\<exists>c pcs r. co_reach (c, pcs) \<and> State (Snapshot c) = ''running'' \<and>
     Current (Snapshot c) = Some r \<and> FinishedAt r \<noteq> None \<and> Last (Snapshot c) = None"
proof -
  let ?c1 = "write_FinishedAt 0 20 (write_Result 0 no_result (fst example_start))"
  have "State (Snapshot ?c1) = ''running''"
    "Current (Snapshot ?c1) = Some (heap ?c1 ! 0)"
    "FinishedAt (heap ?c1 ! 0) \<noteq> None" "Last (Snapshot ?c1) = None"
    by (simp_all add: Snapshot_def example_start_def Let_def op_defs)
  with example_finished(1) show ?thesis by blast
qed

end
