(* ===== verification/Server_Collect.thy ===== *)
theory Server_Collect
  imports Cache_Theorems Maintenance
begin

text \<open>
  The collections that the server runs over all its stores
  (\<^verbatim>\<open>src/internal/httpserver/server.go\<close>): retention by age, and under pressure the
  eviction of the least recently used entries down to the low watermark. The stores share
  one file system and one controller. The answers of \<^verbatim>\<open>ctx.Err()\<close> are a tape, with
  \<open>None\<close> beyond its end. The bytes that a run has removed are summed as unbounded integers,
  and \<^verbatim>\<open>sort.Slice\<close> is a stable sort, so candidates of equal age keep the order of the walk.
\<close>

section \<open>Data\<close>

record managedStore =
  ms_name :: string
  ms_store :: store

record server =
  sv_stores :: "managedStore list"
  sv_fs :: fs
  sv_storage :: "controller option"
  sv_maxAge :: int

datatype collect_error =
    CtxError string
  | RepositoryGC string cache_error
  | ListCandidates string os_error

type_synonym ctx = "string option list"

definition ctx_Err :: "ctx \<Rightarrow> string option" where
  "ctx_Err c = (case c of [] \<Rightarrow> None | e # _ \<Rightarrow> e)"

section \<open>Retention over all stores\<close>

text \<open>\<open>clock i\<close> is the time that the \<open>i\<close>-th store reads.\<close>

fun collect_stores ::
  "(nat \<Rightarrow> int) \<Rightarrow> int \<Rightarrow> nat \<Rightarrow> ctx \<Rightarrow> managedStore list \<Rightarrow> gc_result \<Rightarrow> fs \<Rightarrow> controller option
     \<Rightarrow> (gc_result \<times> collect_error option) \<times> managedStore list \<times> fs \<times> controller option" where
  "collect_stores clock maxAge i ctx [] r f ctl = ((r, None), [], f, ctl)"
| "collect_stores clock maxAge i ctx (ms # rest) r f ctl =
     (case ctx_Err ctx of
        Some e \<Rightarrow> ((r, Some (CtxError e)), ms # rest, f, ctl)
      | None \<Rightarrow>
          (case GC (clock i) maxAge (ms_store ms) f of
             ((g, Some e), s', f') \<Rightarrow>
               ((r, Some (RepositoryGC (ms_name ms) e)), ms\<lparr>ms_store := s'\<rparr> # rest, f', ctl)
           | ((g, None), s', f') \<Rightarrow>
               let r' = r\<lparr>RemovedObjects := RemovedObjects r + gc_Objects g,
                          RemovedBytes := RemovedBytes r + gc_Bytes g,
                          SkippedObjects := SkippedObjects r + gc_Skipped g\<rparr>;
                   ctl' = map_option (Remove (gc_Bytes g)) ctl
               in (case collect_stores clock maxAge (Suc i) (tl ctx) rest r' f' ctl' of
                     (out, rest', f'', ctl'') \<Rightarrow> (out, ms\<lparr>ms_store := s'\<rparr> # rest', f'', ctl''))))"

section \<open>Eviction under pressure\<close>

text \<open>A candidate and the store it belongs to, by its position.\<close>

record pressureCandidate =
  pc_store :: nat
  pc_candidate :: Candidate

fun list_candidates ::
  "nat \<Rightarrow> managedStore list \<Rightarrow> fs \<Rightarrow> (collect_error + pressureCandidate list) \<times> fs" where
  "list_candidates i [] f = (Inr [], f)"
| "list_candidates i (ms # rest) f =
     (case Candidates (ms_store ms) f of
        ((_, Some e), f') \<Rightarrow> (Inl (ListCandidates (ms_name ms) e), f')
      | ((cs, None), f') \<Rightarrow>
          (case list_candidates (Suc i) rest f' of
             (Inl e, f'') \<Rightarrow> (Inl e, f'')
           | (Inr ps, f'') \<Rightarrow> (Inr (map (\<lambda>c. \<lparr>pc_store = i, pc_candidate = c\<rparr>) cs @ ps), f'')))"

fun evict ::
  "int \<Rightarrow> ctx \<Rightarrow> pressureCandidate list \<Rightarrow> gc_result \<Rightarrow> managedStore list \<Rightarrow> fs \<Rightarrow> controller
     \<Rightarrow> (gc_result \<times> collect_error option) \<times> managedStore list \<times> fs \<times> controller" where
  "evict toRemove ctx [] r mss f c = ((r, None), mss, f, c)"
| "evict toRemove ctx (item # items) r mss f c =
     (case ctx_Err ctx of
        Some e \<Rightarrow> ((r, Some (CtxError e)), mss, f, c)
      | None \<Rightarrow>
          if RemovedBytes r \<ge> toRemove then ((r, None), mss, f, c)
          else
            let ms = mss ! pc_store item; cand = pc_candidate item in
            case RemoveCandidate cand (ms_store ms) f of
              ((removed, err), s', f') \<Rightarrow>
                let r1 = (if removed
                          then r\<lparr>RemovedObjects := RemovedObjects r + 1,
                                 RemovedBytes := RemovedBytes r + cand_Bytes cand\<rparr>
                          else r);
                    c1 = (if removed then Remove (cand_Bytes cand) c else c);
                    r2 = (if err \<noteq> None then r1\<lparr>SkippedObjects := SkippedObjects r1 + 1\<rparr> else r1)
                in evict toRemove (tl ctx) items r2 (mss[pc_store item := ms\<lparr>ms_store := s'\<rparr>]) f' c1)"

definition collectPressure ::
  "ctx \<Rightarrow> managedStore list \<Rightarrow> fs \<Rightarrow> controller
     \<Rightarrow> (gc_result \<times> collect_error option) \<times> managedStore list \<times> fs \<times> controller" where
  "collectPressure ctx mss f c =
     (let state = Storage_Controller.Snapshot c; toRemove = i64 (CommittedBytes state - LowBytes state)
      in if toRemove \<le> 0 then ((no_result, None), mss, f, c)
         else (case list_candidates 0 mss f of
                 (Inl e, f') \<Rightarrow> ((no_result, Some e), mss, f', c)
               | (Inr ps, f') \<Rightarrow>
                   evict toRemove ctx (sort_key (\<lambda>p. LastUsed (pc_candidate p)) ps) no_result mss f' c))"

definition collect :: "(nat \<Rightarrow> int) \<Rightarrow> ctx \<Rightarrow> server \<Rightarrow> (gc_result \<times> collect_error option) \<times> server" where
  "collect clock ctx sv =
     (case sv_storage sv of
        Some c \<Rightarrow>
          if Pressure (Storage_Controller.Snapshot c)
          then (case collectPressure ctx (sv_stores sv) (sv_fs sv) c of
                  (out, mss, f, c') \<Rightarrow>
                    (out, sv\<lparr>sv_stores := mss, sv_fs := f, sv_storage := Some c'\<rparr>))
          else (case collect_stores clock (sv_maxAge sv) 0 ctx (sv_stores sv) no_result (sv_fs sv) (Some c) of
                  (out, mss, f, ctl) \<Rightarrow> (out, sv\<lparr>sv_stores := mss, sv_fs := f, sv_storage := ctl\<rparr>))
      | None \<Rightarrow>
          (case collect_stores clock (sv_maxAge sv) 0 ctx (sv_stores sv) no_result (sv_fs sv) None of
             (out, mss, f, ctl) \<Rightarrow> (out, sv\<lparr>sv_stores := mss, sv_fs := f, sv_storage := ctl\<rparr>)))"

section \<open>One eviction\<close>

lemma candidate_ofE:
  assumes "candidate_of f p = Some c"
  obtains m d t where "entry_of f p = Some (m, bodyPath c, d)" "metadataPath c = p" "cand_Bytes c = int (length d)"
    "node_at f (bodyPath c) = Some (Regular d t)" "node_at f p \<noteq> None"
proof -
  obtain m b d where e: "entry_of f p = Some (m, b, d)"
    using assms by (auto simp: candidate_of_def split: option.splits)
  then obtain t where "node_at f b = Some (Regular d t)" by (auto simp: entry_of_Some)
  then show ?thesis using that e assms entry_of_node [of f p] by (auto simp: candidate_of_def Let_def)
qed

text \<open>A candidate that is still current is removed, and only it.\<close>

lemma RemoveCandidate_current:
  assumes "faults f = []" "candidate_of f p = Some c" "p = metadataPath c"
  shows "\<exists>g. RemoveCandidate c s f =
      ((True, None), s\<lparr>store_bytes := store_bytes s - cand_Bytes c, store_objects := store_objects s - 1\<rparr>, g) \<and>
    faults g = [] \<and> node_at g = (node_at f)(bodyPath c := None, metadataPath c := None)"
proof -
  obtain m d t where e: "entry_of f p = Some (m, bodyPath c, d)" and cb: "cand_Bytes c = int (length d)"
    and b: "node_at f (bodyPath c) = Some (Regular d t)"
    using candidate_ofE [OF assms(2)] by metis
  have mt: "meta_at f p = Some m" "resolve p m = Some (bodyPath c)" "ContentBytes m = cand_Bytes c"
    using e cb by (auto simp: entry_of_Some)
  obtain legacy where lg: "bodyPathForMetadata p = Some legacy" "bodyPathForEntry p legacy m = Inr (bodyPath c)"
    using mt(2) by (auto simp: resolve_def split: option.splits sum.splits)
  have rd: "readMetadata p f = (Inr m, f)"
    using no_faults_read_meta [OF assms(1), of p] mt(1) by (auto split: prod.splits sum.splits)
  obtain d' t' where p: "node_at f p = Some (Regular d' t')" using entry_regular [OF e] by blast
  have ne: "bodyPath c \<noteq> p" by (rule resolve_not_meta [OF mt(2)])
  let ?f1 = "del_node (bodyPath c) f"
  have r1: "os_Remove (bodyPath c) f = (None, ?f1)" by (rule no_faults_Remove_file [OF assms(1) b])
  have r2: "os_Remove p ?f1 = (None, del_node p ?f1)"
    by (rule no_faults_Remove_file) (use assms(1) p ne in auto)
  show ?thesis
    using assms(1,3) lg rd r1 r2 mt(3) by (simp add: RemoveCandidate_def)
qed

text \<open>How many of the candidates, in order, have to go to free \<open>need\<close> bytes.\<close>

fun evict_count :: "int \<Rightarrow> int list \<Rightarrow> nat" where
  "evict_count need [] = 0"
| "evict_count need (n # ns) = (if need \<le> 0 then 0 else Suc (evict_count (need - n) ns))"

lemma evict_count_le: "evict_count need ns \<le> length ns"
  by (induction ns arbitrary: need) auto

lemma evict_count_enough: "evict_count need ns = length ns \<or> need \<le> sum_list (take (evict_count need ns) ns)"
proof (induction ns arbitrary: need)
  case (Cons n ns)
  show ?case using Cons.IH [of "need - n"] by auto
qed simp

lemma evict_count_minimal:
  "k < evict_count need ns \<Longrightarrow> sum_list (take k ns) < need"
proof (induction ns arbitrary: need k)
  case (Cons n ns)
  show ?case using Cons.IH [of "k - 1" "need - n"] Cons.prems by (cases k) (auto split: if_splits)
qed simp

lemma fold_Remove:
  assumes "\<forall>n \<in> set ns. 0 \<le> n" "sum_list ns \<le> committedBytes c" "committedBytes c \<le> MaxInt64"
  shows "committedBytes (fold Remove ns c) = committedBytes c - sum_list ns"
  using assms
proof (induction ns arbitrary: c)
  case (Cons n ns)
  have n: "0 \<le> n" "0 \<le> sum_list ns" using Cons.prems(1) by (auto intro: sum_list_nonneg)
  have r: "i64 (committedBytes c - n) = committedBytes c - n"
    using Cons.prems(2,3) n unfolding MaxInt64_def by (intro i64_in_range) auto
  have "committedBytes (Remove n c) = committedBytes c - n"
    using n Cons.prems(2) r by (auto simp: Remove_def Let_def)
  then show ?case using Cons.IH [of "Remove n c"] Cons.prems n by simp
qed simp

definition total_bytes :: "managedStore list \<Rightarrow> int" where
  "total_bytes mss = sum_list (map (\<lambda>ms. store_bytes (ms_store ms)) mss)"

lemma total_bytes_update:
  assumes "i < length mss"
  shows "total_bytes (mss[i := ms]) = total_bytes mss - store_bytes (ms_store (mss ! i)) + store_bytes (ms_store ms)"
  using assms
proof (induction mss arbitrary: i)
  case (Cons x mss)
  then show ?case by (cases i) (auto simp: total_bytes_def)
qed simp

lemma candidate_of_kept:
  assumes c: "candidate_of f p = Some c" and q: "candidate_of f q = Some d" and ne: "p \<noteq> q"
    and g: "node_at g = (node_at f)(bodyPath c := None, p := None)"
  shows "candidate_of g q = Some d"
proof -
  obtain m u t where e: "entry_of f p = Some (m, bodyPath c, u)" "node_at f (bodyPath c) = Some (Regular u t)"
    using candidate_ofE [OF c] by metis
  have rm: "removed_entry f p m u g" unfolding removed_entry_def using e g by auto
  have mq: "is_meta q" using q entry_of_is_meta [of f q] by (auto simp: candidate_of_def split: option.splits)
  have eq: "entry_of g q = entry_of f q" using removed_entryD(2) [OF rm mq] ne by simp
  obtain m' u' where e': "entry_of f q = Some (m', bodyPath d, u')" using candidate_ofE [OF q] by metis
  have rs: "resolve p m = Some (bodyPath c)" "resolve q m' = Some (bodyPath d)"
    using e e' by (simp_all add: entry_of_Some)
  have "bodyPath d \<noteq> bodyPath c" using resolve_inj [OF rs(2)] rs(1) ne by auto
  moreover have "bodyPath d \<noteq> p" using is_body_not_meta [OF resolveE(2) [OF rs(2)]] resolveE(1) [OF rs(1)] by auto
  ultimately have "node_at g (bodyPath d) = node_at f (bodyPath d)" using g by simp
  then show ?thesis using q eq e' by (simp add: candidate_of_def)
qed

lemma candidate_removed:
  assumes "candidate_of f p = Some c" "node_at g = (node_at f)(bodyPath c := None, p := None)"
  shows "\<exists>m d. removed_entry f p m d g \<and> cand_Bytes c = int (length d)"
proof -
  obtain m d t where "entry_of f p = Some (m, bodyPath c, d)" "cand_Bytes c = int (length d)"
    using candidate_ofE [OF assms(1)] by metis
  then show ?thesis unfolding removed_entry_def using assms(2) by auto
qed

lemma candidate_gone:
  assumes c: "candidate_of f p = Some c" and g: "node_at g = (node_at f)(bodyPath c := None, p := None)"
    and mq: "is_meta q"
  shows "entry_of g q = (if q = p then None else entry_of f q)"
proof -
  obtain m u t where e: "entry_of f p = Some (m, bodyPath c, u)" using candidate_ofE [OF c] by metis
  have rm: "removed_entry f p m u g" unfolding removed_entry_def using e g by auto
  show ?thesis using removed_entryD(1,2) [OF rm] mq by auto
qed

abbreviation item_path :: "pressureCandidate \<Rightarrow> path" where
  "item_path it \<equiv> metadataPath (pc_candidate it)"

abbreviation item_bytes :: "pressureCandidate \<Rightarrow> int" where
  "item_bytes it \<equiv> cand_Bytes (pc_candidate it)"

definition current_items :: "managedStore list \<Rightarrow> fs \<Rightarrow> pressureCandidate list \<Rightarrow> bool" where
  "current_items mss f items \<longleftrightarrow>
     distinct (map item_path items) \<and>
     (\<forall>it \<in> set items. pc_store it < length mss \<and> candidate_of f (item_path it) = Some (pc_candidate it))"

lemma current_items_step:
  assumes "current_items mss f (it # items)" "node_at g = (node_at f)(bodyPath (pc_candidate it) := None, item_path it := None)"
  shows "current_items (mss[i := ms]) g items"
  unfolding current_items_def
proof (intro conjI ballI)
  show "distinct (map item_path items)" using assms(1) by (simp add: current_items_def)
  fix x
  assume x: "x \<in> set items"
  have it: "candidate_of f (item_path it) = Some (pc_candidate it)" using assms(1) by (simp add: current_items_def)
  have "candidate_of f (item_path x) = Some (pc_candidate x)" "item_path it \<noteq> item_path x"
    using assms(1) x by (auto simp: current_items_def)
  from candidate_of_kept [OF it this assms(2)] show "candidate_of g (item_path x) = Some (pc_candidate x)" .
  show "pc_store x < length (mss[i := ms])" using x assms(1) by (simp add: current_items_def)
qed

lemma evict_exact:
  assumes "faults f = []" "current_items mss f items"
    and "k = evict_count (toRemove - RemovedBytes r) (map item_bytes items)"
  shows "\<exists>mss' g. evict toRemove [] items r mss f c =
      ((r\<lparr>RemovedObjects := RemovedObjects r + int k,
          RemovedBytes := RemovedBytes r + sum_list (map item_bytes (take k items))\<rparr>, None),
       mss', g, fold Remove (map item_bytes (take k items)) c) \<and>
    (\<forall>q. is_meta q \<longrightarrow> entry_of g q = (if q \<in> item_path ` set (take k items) then None else entry_of f q)) \<and>
    total_bytes mss' = total_bytes mss - sum_list (map item_bytes (take k items))"
  using assms
proof (induction items arbitrary: r mss f c k)
  case Nil
  then show ?case by simp
next
  case (Cons it items)
  show ?case
  proof (cases "RemovedBytes r \<ge> toRemove")
    case True
    then show ?thesis using Cons.prems by (simp add: ctx_Err_def)
  next
    case False
    let ?c = "pc_candidate it" and ?ms = "mss ! pc_store it"
    let ?s = "(ms_store ?ms)\<lparr>store_bytes := store_bytes (ms_store ?ms) - cand_Bytes ?c,
      store_objects := store_objects (ms_store ?ms) - 1\<rparr>"
    let ?mss = "mss[pc_store it := ?ms\<lparr>ms_store := ?s\<rparr>]"
    let ?r = "r\<lparr>RemovedObjects := RemovedObjects r + 1, RemovedBytes := RemovedBytes r + cand_Bytes ?c\<rparr>"
    have it: "pc_store it < length mss" "candidate_of f (item_path it) = Some ?c" "item_path it \<notin> item_path ` set items"
      using Cons.prems(2) by (auto simp: current_items_def)
    obtain f1 where rc: "RemoveCandidate ?c (ms_store ?ms) f = ((True, None), ?s, f1)" and F: "faults f1 = []"
      and N: "node_at f1 = (node_at f)(bodyPath ?c := None, item_path it := None)"
      using RemoveCandidate_current [OF Cons.prems(1) it(2) refl] by blast
    have ci: "current_items ?mss f1 items" using current_items_step [OF Cons.prems(2) N] by simp
    define j where "j = evict_count (toRemove - RemovedBytes ?r) (map item_bytes items)"
    have k: "k = Suc j" using Cons.prems(3) False by (simp add: j_def algebra_simps)
    obtain mss' g where ev: "evict toRemove [] items ?r ?mss f1 (Remove (cand_Bytes ?c) c) =
        ((?r\<lparr>RemovedObjects := RemovedObjects ?r + int j,
            RemovedBytes := RemovedBytes ?r + sum_list (map item_bytes (take j items))\<rparr>, None),
         mss', g, fold Remove (map item_bytes (take j items)) (Remove (cand_Bytes ?c) c))"
      and E: "\<forall>q. is_meta q \<longrightarrow> entry_of g q = (if q \<in> item_path ` set (take j items) then None else entry_of f1 q)"
      and T: "total_bytes mss' = total_bytes ?mss - sum_list (map item_bytes (take j items))"
      using Cons.IH [OF F ci j_def, of "Remove (cand_Bytes ?c) c"] by blast
    have "evict toRemove [] (it # items) r mss f c = evict toRemove [] items ?r ?mss f1 (Remove (cand_Bytes ?c) c)"
      using False rc by (simp add: ctx_Err_def Let_def)
    moreover have "entry_of g q = (if q \<in> item_path ` set (take k (it # items)) then None else entry_of f q)"
      if "is_meta q" for q
      using E that candidate_gone [OF it(2) N that] by (auto simp: k)
    moreover have "total_bytes mss' = total_bytes mss - sum_list (map item_bytes (take k (it # items)))"
      using T total_bytes_update [OF it(1)] by (simp add: k)
    ultimately show ?thesis using ev by (simp add: k add.assoc)
  qed
qed

section \<open>The candidates of all stores\<close>

text \<open>Store directories that are not inside one another.\<close>

definition separate :: "managedStore list \<Rightarrow> bool" where
  "separate mss \<longleftrightarrow>
     sorted_wrt (\<lambda>a b. \<not> prefix a b \<and> \<not> prefix b a) (map (\<lambda>ms. store_root (ms_store ms)) mss)"

definition rooted :: "managedStore list \<Rightarrow> fs \<Rightarrow> bool" where
  "rooted mss f \<longleftrightarrow> (\<forall>ms \<in> set mss. node_at f (store_root (ms_store ms)) \<noteq> None)"

definition owned :: "managedStore list \<Rightarrow> path \<Rightarrow> bool" where
  "owned mss p \<longleftrightarrow> (\<exists>ms \<in> set mss. prefix (store_root (ms_store ms)) p)"

lemma Candidates_listed:
  assumes "faults f = []" "node_at f (store_root s) \<noteq> None"
  obtains cs where "Candidates s f = ((cs, None), f)" "distinct (map metadataPath cs)"
    "\<And>c. c \<in> set cs \<longleftrightarrow> (\<exists>p. prefix (store_root s) p \<and> candidate_of f p = Some c)"
proof -
  let ?W = "walk_list (store_root s) f"
  let ?cs = "List.map_filter (candidate_of f) ?W"
  have mp: "candidate_of f p = Some c \<Longrightarrow> metadataPath c = p" for p c using candidate_ofE by metis
  have nd: "candidate_of f p = Some c \<Longrightarrow> node_at f p \<noteq> None" for p c using candidate_ofE by metis
  have S: "c \<in> set ?cs \<longleftrightarrow> (\<exists>p. prefix (store_root s) p \<and> candidate_of f p = Some c)" for c
    using nd by (fastforce simp: List.map_filter_def set_walk_list image_iff)
  have "map metadataPath (List.map_filter (candidate_of f) ps) = filter (\<lambda>p. candidate_of f p \<noteq> None) ps" for ps
    using mp by (induction ps) (auto simp: map_filter_simps split: option.splits)
  then have D: "distinct (map metadataPath ?cs)" by (simp add: distinct_walk_list)
  have D': "distinct (map metadataPath (sort_key LastUsed ?cs))" using D by (auto simp: distinct_map distinct_sort)
  show ?thesis
    by (rule that [of "sort_key LastUsed ?cs"]) (use Candidates_exact [OF assms] D' S in auto)
qed

lemma list_candidates_exact:
  assumes "faults f = []" "rooted mss f" "separate mss"
  shows "\<exists>ps. list_candidates i mss f = (Inr ps, f) \<and> distinct (map item_path ps) \<and>
    (\<forall>it \<in> set ps. i \<le> pc_store it \<and> pc_store it < i + length mss \<and>
       candidate_of f (item_path it) = Some (pc_candidate it)) \<and>
    item_path ` set ps = {p. owned mss p \<and> entry_of f p \<noteq> None}"
  using assms
proof (induction mss arbitrary: i)
  case Nil
  then show ?case by (simp add: owned_def)
next
  case (Cons ms mss)
  let ?rt = "store_root (ms_store ms)"
  have rt: "node_at f ?rt \<noteq> None" and r: "rooted mss f" and sp: "separate mss"
    and apart: "\<And>x. x \<in> set mss \<Longrightarrow> \<not> prefix ?rt (store_root (ms_store x)) \<and> \<not> prefix (store_root (ms_store x)) ?rt"
    using Cons.prems(2,3) by (auto simp: rooted_def separate_def)
  obtain cs where cs: "Candidates (ms_store ms) f = ((cs, None), f)" "distinct (map metadataPath cs)"
    "\<And>c. c \<in> set cs \<longleftrightarrow> (\<exists>p. prefix ?rt p \<and> candidate_of f p = Some c)"
    by (rule Candidates_listed [OF Cons.prems(1) rt]) blast
  obtain ps where ps: "list_candidates (Suc i) mss f = (Inr ps, f)" "distinct (map item_path ps)"
    "\<forall>it \<in> set ps. Suc i \<le> pc_store it \<and> pc_store it < Suc i + length mss \<and>
       candidate_of f (item_path it) = Some (pc_candidate it)"
    "item_path ` set ps = {p. owned mss p \<and> entry_of f p \<noteq> None}"
    using Cons.IH [OF Cons.prems(1) r sp, of "Suc i"] by blast
  let ?new = "map (\<lambda>c. \<lparr>pc_store = i, pc_candidate = c\<rparr>) cs"
  have mp: "candidate_of f p = Some c \<Longrightarrow> metadataPath c = p" for p c using candidate_ofE by metis
  have ex: "(\<exists>c. candidate_of f p = Some c) \<longleftrightarrow> entry_of f p \<noteq> None" for p
    by (auto simp: candidate_of_def Let_def split: option.splits)
  have new: "item_path ` set ?new = {p. prefix ?rt p \<and> entry_of f p \<noteq> None}"
    using cs(3) mp ex by (auto simp: image_iff) (metis mp)+
  have "{p. prefix ?rt p} \<inter> {p. owned mss p} = {}"
    using apart by (auto simp: owned_def dest: prefix_same_cases)
  then have dj: "item_path ` set ?new \<inter> item_path ` set ps = {}" unfolding new ps(4) by blast
  have un: "item_path ` set (?new @ ps) = {p. owned (ms # mss) p \<and> entry_of f p \<noteq> None}"
    unfolding set_append image_Un new ps(4) by (auto simp: owned_def)
  have "list_candidates i (ms # mss) f = (Inr (?new @ ps), f)" using cs(1) ps(1) by simp
  moreover have "distinct (map item_path (?new @ ps))"
    using cs(2) ps(2) dj by (simp add: comp_def image_image)
  moreover have "\<forall>it \<in> set (?new @ ps). i \<le> pc_store it \<and> pc_store it < i + length (ms # mss) \<and>
      candidate_of f (item_path it) = Some (pc_candidate it)"
    using ps(3) cs(3) mp by auto
  ultimately show ?case using un by blast
qed

section \<open>Pressure relief\<close>

lemma snapshot_fields:
  "CommittedBytes (Storage_Controller.Snapshot c) = committedBytes c"
  "LowBytes (Storage_Controller.Snapshot c) = scaleBasisPoints (maxBytes c) (lowBasisPoints c)"
  by (simp_all add: Storage_Controller.Snapshot_def Let_def)

lemma low_bytes_range:
  assumes "ctl_ok c" "0 \<le> lowBasisPoints c" "lowBasisPoints c \<le> 10000"
  shows "i64 (committedBytes c - scaleBasisPoints (maxBytes c) (lowBasisPoints c)) =
    committedBytes c - scaleBasisPoints (maxBytes c) (lowBasisPoints c)"
  using scaleBasisPoints_floor [of "maxBytes c" "lowBasisPoints c"]
    scaleBasisPoints_parts(5,6) [of "maxBytes c" "lowBasisPoints c"] assms
  by (intro i64_in_range) (auto simp: ctl_ok_def MaxInt64_def)

text \<open>The result of an eviction, in terms of the sorted candidates.\<close>

lemma collectPressure_exact:
  assumes "faults f = []" "rooted mss f" "separate mss" "ctl_ok c" "0 \<le> lowBasisPoints c" "lowBasisPoints c \<le> 10000"
    and need: "need = committedBytes c - scaleBasisPoints (maxBytes c) (lowBasisPoints c)" "0 < need"
  obtains items k mss' g where
    "collectPressure [] mss f c =
      ((\<lparr>RemovedObjects = int k, RemovedBytes = sum_list (map item_bytes (take k items)), SkippedObjects = 0, Errors = 0\<rparr>, None),
       mss', g, fold Remove (map item_bytes (take k items)) c)"
    "k = evict_count need (map item_bytes items)" "sorted (map (\<lambda>it. LastUsed (pc_candidate it)) items)"
    "current_items mss f items" "item_path ` set items = {p. owned mss p \<and> entry_of f p \<noteq> None}"
    "\<And>q. is_meta q \<Longrightarrow> entry_of g q = (if q \<in> item_path ` set (take k items) then None else entry_of f q)"
    "total_bytes mss' = total_bytes mss - sum_list (map item_bytes (take k items))"
proof -
  obtain ps where ps: "list_candidates 0 mss f = (Inr ps, f)" "distinct (map item_path ps)"
    "\<forall>it \<in> set ps. pc_store it < length mss \<and> candidate_of f (item_path it) = Some (pc_candidate it)"
    "item_path ` set ps = {p. owned mss p \<and> entry_of f p \<noteq> None}"
    using list_candidates_exact [OF assms(1-3), of 0] by auto
  define items where "items = sort_key (\<lambda>p. LastUsed (pc_candidate p)) ps"
  have ci: "current_items mss f items"
    using ps(2,3) by (auto simp: current_items_def items_def distinct_map distinct_sort)
  have ip: "item_path ` set items = {p. owned mss p \<and> entry_of f p \<noteq> None}" using ps(4) by (simp add: items_def)
  define k where "k = evict_count (need - RemovedBytes no_result) (map item_bytes items)"
  obtain mss' g where ev: "evict need [] items no_result mss f c =
      ((no_result\<lparr>RemovedObjects := RemovedObjects no_result + int k,
          RemovedBytes := RemovedBytes no_result + sum_list (map item_bytes (take k items))\<rparr>, None),
       mss', g, fold Remove (map item_bytes (take k items)) c)"
    and E: "\<forall>q. is_meta q \<longrightarrow> entry_of g q = (if q \<in> item_path ` set (take k items) then None else entry_of f q)"
    and T: "total_bytes mss' = total_bytes mss - sum_list (map item_bytes (take k items))"
    using evict_exact [OF assms(1) ci k_def, of c] by blast
  have "i64 (committedBytes c - scaleBasisPoints (maxBytes c) (lowBasisPoints c)) = need"
    using low_bytes_range [OF assms(4-6)] need(1) by simp
  then have cp: "collectPressure [] mss f c = evict need [] items no_result mss f c"
    using need(2) ps(1) by (simp add: collectPressure_def snapshot_fields Let_def items_def)
  show ?thesis
    by (rule that [of k items mss' g]) (use cp ev E T ci ip in \<open>simp_all add: k_def items_def\<close>)
qed

lemma evicted_before:
  assumes "sorted (map h xs)" "x \<in> set (take k xs)" "y \<in> set xs" "y \<notin> set (take k xs)"
  shows "h x \<le> h y"
proof -
  have "y \<in> set (drop k xs)" using assms(3,4) by (metis Un_iff append_take_drop_id set_append)
  moreover have "sorted (map h (take k xs) @ map h (drop k xs))"
    using assms(1) by (metis append_take_drop_id map_append)
  ultimately show ?thesis using assms(2) by (auto simp: sorted_append)
qed

text \<open>C13.
  
  Pressure relief: on a working file system an uncancelled collection under pressure ends
  without an error and evicts the least recently used entries of all stores, no more than
  needed. Afterwards the committed bytes are at most the low watermark or no cache entry is
  left; every evicted entry was last used no later than every surviving one; without the
  last eviction the goal would have been missed; and the controller and the stores are
  lowered by exactly the removed bytes.
\<close>

theorem pressure_evicts_least_recent:
  assumes "faults f = []" "rooted mss f" "separate mss" "ctl_ok c" "0 \<le> lowBasisPoints c" "lowBasisPoints c \<le> 10000"
    and known: "sum_list (map (entry_size f) ps) \<le> committedBytes c" "distinct ps"
      "set ps = {p. owned mss p \<and> entry_of f p \<noteq> None}"
  shows "case collectPressure [] mss f c of ((r, err), mss', g, c') \<Rightarrow>
    err = None \<and> SkippedObjects r = 0 \<and>
    committedBytes c' = committedBytes c - RemovedBytes r \<and> total_bytes mss' = total_bytes mss - RemovedBytes r \<and>
    (committedBytes c' \<le> LowBytes (Storage_Controller.Snapshot c) \<or> (\<forall>p \<in> set ps. entry_of g p = None)) \<and>
    (\<forall>p \<in> set ps. \<forall>q \<in> set ps. entry_of g p = None \<and> entry_of g q \<noteq> None \<longrightarrow>
       LastUsed (the (candidate_of f p)) \<le> LastUsed (the (candidate_of f q))) \<and>
    (RemovedObjects r > 0 \<longrightarrow>
       (\<exists>p \<in> set ps. entry_of g p = None \<and>
          committedBytes c' + entry_size f p > LowBytes (Storage_Controller.Snapshot c)))"
proof (cases "committedBytes c - scaleBasisPoints (maxBytes c) (lowBasisPoints c) \<le> 0")
  case True
  then have "collectPressure [] mss f c = ((no_result, None), mss, f, c)"
    using low_bytes_range [OF assms(4-6)] by (simp add: collectPressure_def snapshot_fields Let_def)
  then show ?thesis using True known(3) by (auto simp: snapshot_fields)
next
  case False
  let ?low = "scaleBasisPoints (maxBytes c) (lowBasisPoints c)"
  define need where "need = committedBytes c - ?low"
  have n0: "0 < need" using False by (simp add: need_def)
  obtain items k mss' g where
    cp: "collectPressure [] mss f c =
      ((\<lparr>RemovedObjects = int k, RemovedBytes = sum_list (map item_bytes (take k items)), SkippedObjects = 0, Errors = 0\<rparr>, None),
       mss', g, fold Remove (map item_bytes (take k items)) c)"
    and k: "k = evict_count need (map item_bytes items)" and srt: "sorted (map (\<lambda>it. LastUsed (pc_candidate it)) items)"
    and ci: "current_items mss f items" and ip: "item_path ` set items = {p. owned mss p \<and> entry_of f p \<noteq> None}"
    and E: "\<And>q. is_meta q \<Longrightarrow> entry_of g q = (if q \<in> item_path ` set (take k items) then None else entry_of f q)"
    and T: "total_bytes mss' = total_bytes mss - sum_list (map item_bytes (take k items))"
    by (rule collectPressure_exact [OF assms(1-6) need_def n0]) (rule that)
  have sp: "set ps = item_path ` set items" using known(3) ip by simp
  have cand: "candidate_of f (item_path it) = Some (pc_candidate it)" if "it \<in> set items" for it
    using ci that by (simp add: current_items_def)
  have size: "item_bytes it = entry_size f (item_path it)" if "it \<in> set items" for it
    by (rule candidate_ofE [OF cand [OF that]]) (simp add: entry_size_def)
  have mt: "is_meta p" "entry_of f p \<noteq> None" if "p \<in> set ps" for p
    using that known(3) entry_of_is_meta [of f p] by auto
  have gone: "entry_of g p = None \<longleftrightarrow> p \<in> item_path ` set (take k items)" if "p \<in> set ps" for p
    using E [OF mt(1) [OF that]] mt(2) [OF that] by auto
  let ?sum = "sum_list (map item_bytes (take k items))"
  have le: "?sum \<le> committedBytes c"
  proof -
    have "sum_list (map item_bytes items) = sum_list (map (entry_size f) (map item_path items))"
      using size by (simp add: comp_def cong: map_cong)
    also have "\<dots> = sum (entry_size f) (set ps)"
      using ci sp by (simp only: sum_list_distinct_conv_sum_set current_items_def set_map)
    also have "\<dots> = sum_list (map (entry_size f) ps)" using known(2) by (simp only: sum_list_distinct_conv_sum_set)
    finally have "?sum + sum_list (map item_bytes (drop k items)) \<le> committedBytes c"
      using known(1) by (metis append_take_drop_id map_append sum_list_append)
    moreover have "0 \<le> sum_list (map item_bytes (drop k items))"
      using size entry_size_nonneg by (intro sum_list_nonneg_map) (auto dest: in_set_dropD)
    ultimately show ?thesis by linarith
  qed
  have cm: "committedBytes (fold Remove (map item_bytes (take k items)) c) = committedBytes c - ?sum"
    by (rule fold_Remove [OF _ le]) (use assms(4) size entry_size_nonneg in \<open>auto simp: ctl_ok_def dest: in_set_takeD\<close>)
  have kl: "k \<le> length items" using evict_count_le [of need "map item_bytes items"] by (simp add: k)
  have enough: "committedBytes c - ?sum \<le> ?low \<or> (\<forall>p \<in> set ps. entry_of g p = None)"
  proof -
    have "k = length items \<or> need \<le> ?sum"
      using evict_count_enough [of need "map item_bytes items", folded k] by (simp add: take_map)
    then show ?thesis using gone sp need_def by auto
  qed
  have lru: "LastUsed (the (candidate_of f p)) \<le> LastUsed (the (candidate_of f q))"
    if pq: "p \<in> set ps" "q \<in> set ps" "entry_of g p = None" "entry_of g q \<noteq> None" for p q
  proof -
    obtain x where x: "x \<in> set (take k items)" "p = item_path x" using gone [OF pq(1)] pq(3) by auto
    obtain y where y: "y \<in> set items" "q = item_path y" using pq(2) sp by auto
    have "y \<notin> set (take k items)" using gone [OF pq(2)] pq(4) y(2) by auto
    from evicted_before [OF srt x(1) y(1) this] show ?thesis
      using cand [OF in_set_takeD [OF x(1)]] cand [OF y(1)] by (simp add: x(2) y(2))
  qed
  have least: "\<exists>p \<in> set ps. entry_of g p = None \<and> committedBytes c - ?sum + entry_size f p > ?low" if "k > 0"
  proof -
    let ?it = "items ! (k - 1)"
    have tk: "take k items = take (k - 1) items @ [?it]"
      using that kl take_Suc_conv_app_nth [of "k - 1" items] by simp
    have i: "?it \<in> set (take k items)" by (simp add: tk)
    have "?sum = sum_list (map item_bytes (take (k - 1) items)) + item_bytes ?it" by (simp add: tk)
    moreover have "sum_list (take (k - 1) (map item_bytes items)) < need"
      by (rule evict_count_minimal) (use that k in simp)
    ultimately have "committedBytes c - ?sum + entry_size f (item_path ?it) > ?low"
      using size [OF in_set_takeD [OF i]] by (simp add: need_def take_map)
    then show ?thesis using gone [of "item_path ?it"] sp i in_set_takeD [OF i] by auto
  qed
  show ?thesis using cm T enough lru least by (simp add: cp snapshot_fields)
qed

definition sample_stores :: "managedStore list" where
  "sample_stores = [\<lparr>ms_name = ''npm'', ms_store = \<lparr>store_root = [''cache''], store_bytes = 3, store_objects = 1,
     activeTemps = []\<rparr>\<rparr>]"

definition sample_controller :: controller where
  "sample_controller = \<lparr>maxBytes = 4, highBasisPoints = 5000, lowBasisPoints = 2500, minFreeBytes = 0,
     committedBytes = 3, reservedBytes = 0, bypassObjects = 0, bypassBytes = 0\<rparr>"

lemma full_entries: "{p. owned sample_stores p \<and> entry_of full_fs p \<noteq> None} = {full_meta}"
proof -
  have "is_meta p \<Longrightarrow> node_at full_fs p \<noteq> None \<Longrightarrow> p = full_meta" for p
    using full_not_meta by (auto simp: full_fs_def node_at_def split: if_splits)
  then show ?thesis
    using full_entry(2) entry_of_is_meta [of full_fs] entry_of_node [of full_fs]
    by (auto simp: owned_def sample_stores_def full_meta_def)
qed

theorem pressure_evicts_least_recent_witness:
  "case collectPressure [] sample_stores full_fs sample_controller of ((r, err), mss', g, c') \<Rightarrow>
    err = None \<and> committedBytes c' = 3 - RemovedBytes r \<and>
    (committedBytes c' \<le> 1 \<or> entry_of g full_meta = None)"
proof -
  have R: "faults full_fs = []" "rooted sample_stores full_fs" "separate sample_stores"
    by (simp_all add: rooted_def separate_def sample_stores_def node_at_def full_fs_def)
  have C: "ctl_ok sample_controller" "0 \<le> lowBasisPoints sample_controller" "lowBasisPoints sample_controller \<le> 10000"
    by (simp_all add: ctl_ok_def sample_controller_def MaxInt64_def)
  have V: "LowBytes (Storage_Controller.Snapshot sample_controller) = 1" "committedBytes sample_controller = 3"
    by code_simp+
  have B: "sum_list (map (entry_size full_fs) [full_meta]) \<le> committedBytes sample_controller"
    by (simp add: entry_size_def full_entry sample_controller_def)
  have S: "set [full_meta] = {p. owned sample_stores p \<and> entry_of full_fs p \<noteq> None}" using full_entries by simp
  show ?thesis
    using pressure_evicts_least_recent [OF R C B _ S] V by (auto split: prod.splits)
qed

section \<open>Retention over all stores\<close>

lemma GC_store_books:
  assumes "GC now maxAge s f = ((r, err), s', g)"
  shows "store_bytes s' + gc_Bytes r = store_bytes s" "0 \<le> gc_Bytes r"
proof -
  let ?I = "\<lambda>(g :: fs) (rs :: GCResult \<times> store).
    store_bytes (snd rs) + gc_Bytes (fst rs) = store_bytes s \<and> 0 \<le> gc_Bytes (fst rs)"
  have visit: "?I g' rs'" if "?I g rs" "GC_visit cutoff p n g rs = (e, g', rs')" for cutoff p n g rs e g' rs'
  proof -
    obtain r s r' s' where rs: "rs = (r, s)" "rs' = (r', s')" by fastforce
    show ?thesis using that(1) GC_visit_cases [OF that(2) [unfolded rs]] by (auto simp: rs)
  qed
  have "store_bytes s' + gc_Bytes r = store_bytes s \<and> 0 \<le> gc_Bytes r"
  proof (cases "maxAge \<le> 0")
    case True
    then show ?thesis using assms by (auto simp: GC_def)
  next
    case False
    then obtain e where w: "WalkDir (store_root s) (GC_visit (now - maxAge)) f
        (\<lparr>gc_Objects = 0, gc_Bytes = 0, gc_Skipped = 0\<rparr>, s) = (e, g, r, s')"
      using assms by (auto simp: GC_def split: prod.splits)
    have "?I g (r, s')"
    proof (rule WalkDir_invariant [where P = ?I, OF w])
      show "?I g' rs'" if "?I g rs" "GC_visit (now - maxAge) p n g rs = (e, g', rs')" for p n g rs e g' rs'
        by (rule visit [OF that])
    qed simp_all
    then show ?thesis by simp
  qed
  then show "store_bytes s' + gc_Bytes r = store_bytes s" "0 \<le> gc_Bytes r" by simp_all
qed

lemma total_bytes_Cons: "total_bytes (ms # mss) = store_bytes (ms_store ms) + total_bytes mss"
  by (simp add: total_bytes_def)

lemma Remove_committed:
  assumes "0 \<le> n" "n \<le> committedBytes c" "committedBytes c \<le> MaxInt64"
  shows "committedBytes (Remove n c) = committedBytes c - n"
  using fold_Remove [of "[n]" c] assms by simp

lemma collect_stores_step:
  assumes "collect_stores clock maxAge i ctx (ms # mss) r f (Some c) = ((r', None), mss', g, ctl')"
  obtains x s' f1 rest where "GC (clock i) maxAge (ms_store ms) f = ((x, None), s', f1)"
    "collect_stores clock maxAge (Suc i) (tl ctx) mss
       (r\<lparr>RemovedObjects := RemovedObjects r + gc_Objects x, RemovedBytes := RemovedBytes r + gc_Bytes x,
          SkippedObjects := SkippedObjects r + gc_Skipped x\<rparr>) f1 (Some (Remove (gc_Bytes x) c)) =
      ((r', None), rest, g, ctl')" "mss' = ms\<lparr>ms_store := s'\<rparr> # rest"
proof -
  have ce: "ctx_Err ctx = None" using assms by (auto split: option.splits)
  obtain x err s' f1 where gc: "GC (clock i) maxAge (ms_store ms) f = ((x, err), s', f1)" by (metis prod_cases3 surj_pair)
  have e: "err = None" using assms ce gc by (auto split: option.splits)
  show ?thesis
    by (rule that [of x s' f1 "tl mss'"]) (use assms ce gc e in \<open>auto simp: Let_def split: prod.splits\<close>)
qed

lemma collect_stores_mono:
  "collect_stores clock maxAge i ctx mss r f (Some c) = ((r', None), mss', g, ctl') \<Longrightarrow> RemovedBytes r \<le> RemovedBytes r'"
proof (induction mss arbitrary: i ctx r f c mss')
  case (Cons ms mss)
  from Cons.prems show ?case
  proof (rule collect_stores_step)
    fix x s' f1 rest
    assume gc: "GC (clock i) maxAge (ms_store ms) f = ((x, None), s', f1)"
      and rest: "collect_stores clock maxAge (Suc i) (tl ctx) mss
       (r\<lparr>RemovedObjects := RemovedObjects r + gc_Objects x, RemovedBytes := RemovedBytes r + gc_Bytes x,
          SkippedObjects := SkippedObjects r + gc_Skipped x\<rparr>) f1 (Some (Remove (gc_Bytes x) c)) =
      ((r', None), rest, g, ctl')"
    show ?thesis using Cons.IH [OF rest] GC_store_books(2) [OF gc] by simp
  qed
qed simp

lemma retention_balance:
  assumes "collect_stores clock maxAge i ctx mss r f (Some c) = ((r', None), mss', g, ctl')"
    "RemovedBytes r' - RemovedBytes r \<le> committedBytes c" "committedBytes c \<le> MaxInt64"
  shows "total_bytes mss' + RemovedBytes r' = total_bytes mss + RemovedBytes r \<and>
    (\<exists>c'. ctl' = Some c' \<and> committedBytes c' + RemovedBytes r' = committedBytes c + RemovedBytes r)"
  using assms
proof (induction mss arbitrary: i ctx r f c mss')
  case Nil
  then show ?case by (auto simp: total_bytes_def)
next
  case (Cons ms mss)
  from Cons.prems(1) show ?case
  proof (rule collect_stores_step)
    fix x s' f1 rest
    assume gc: "GC (clock i) maxAge (ms_store ms) f = ((x, None), s', f1)"
      and rest: "collect_stores clock maxAge (Suc i) (tl ctx) mss
       (r\<lparr>RemovedObjects := RemovedObjects r + gc_Objects x, RemovedBytes := RemovedBytes r + gc_Bytes x,
          SkippedObjects := SkippedObjects r + gc_Skipped x\<rparr>) f1 (Some (Remove (gc_Bytes x) c)) =
      ((r', None), rest, g, ctl')" and m: "mss' = ms\<lparr>ms_store := s'\<rparr> # rest"
    note B = GC_store_books [OF gc]
    have "RemovedBytes r + gc_Bytes x \<le> RemovedBytes r'" using collect_stores_mono [OF rest] by simp
    then have cb: "committedBytes (Remove (gc_Bytes x) c) = committedBytes c - gc_Bytes x"
      using B(2) Cons.prems(2,3) by (intro Remove_committed) auto
    show ?thesis
      using Cons.IH [OF rest] B cb Cons.prems(2,3) by (auto simp: m total_bytes_Cons)
  qed
qed

text \<open>C14.
  
  The books of a retention run over all stores, under any failures of the file system: if
  the run ends without an error, the bytes it reports are exactly what the stores and the
  controller have lost, provided the controller had counted those bytes.
\<close>

theorem retention_books:
  assumes "collect_stores clock maxAge i ctx mss r f (Some c) = ((r', None), mss', g, ctl')"
    "RemovedBytes r' - RemovedBytes r \<le> committedBytes c" "committedBytes c \<le> MaxInt64"
  shows "total_bytes mss' + RemovedBytes r' = total_bytes mss + RemovedBytes r \<and>
    (\<exists>c'. ctl' = Some c' \<and> committedBytes c' + RemovedBytes r' = committedBytes c + RemovedBytes r)"
  by (rule retention_balance [OF assms])

theorem retention_books_witness:
  "\<exists>r' mss' g c'. collect_stores (\<lambda>_. 100) 10 0 [] sample_stores no_result (full_fs\<lparr>nodes := []\<rparr>) (Some sample_controller) =
      ((r', None), mss', g, Some c') \<and> total_bytes mss' + RemovedBytes r' = 3 \<and> committedBytes c' + RemovedBytes r' = 3"
proof -
  let ?run = "collect_stores (\<lambda>_. 100) 10 0 [] sample_stores no_result (full_fs\<lparr>nodes := []\<rparr>) (Some sample_controller)"
  obtain r' mss' g ctl' where run: "?run = ((r', None), mss', g, ctl')" and z: "RemovedBytes r' = 0"
    by (auto simp: sample_stores_def ctx_Err_def GC_def WalkDir_def full_fs_def os_Stat_def node_at_def next_fault_def)
  have "total_bytes sample_stores = 3" "committedBytes sample_controller = 3"
    by (simp_all add: total_bytes_def sample_stores_def sample_controller_def)
  then show ?thesis
    using retention_books [OF run] run z by (auto simp: MaxInt64_def)
qed

section \<open>A failed retention run\<close>

text \<open>
  A directory whose second shard cannot be listed, and a store with one expired entry in
  the first shard, in the format without a generation.
\<close>

definition leaky_text :: string where
  "leaky_text = [CHR 0x7B, CHR 0x22] @ ''stored_at'' @ [CHR 0x22, CHR '':'', CHR 0x22] @ ''0001-01-01T00:00:01Z'' @
     [CHR 0x22, CHR '','', CHR 0x22] @ ''content_bytes'' @ [CHR 0x22, CHR '':'', CHR ''3'', CHR 0x7D]"

definition leaky_fs :: fs where
  "leaky_fs = \<lparr>nodes = [([''cache''], Directory), ([''cache'', ''0a''], Directory),
     ([''cache'', ''0a'', full_stem @ ''.body''], Regular ''abc'' 6),
     ([''cache'', ''0a'', full_stem @ ''.json''], Regular leaky_text 5), ([''cache'', ''1b''], Directory)],
     faults = replicate 8 None @ [Some OtherError]\<rparr>"

lemma leaky_GC:
  "case GC 10000000000 10 \<lparr>store_root = [''cache''], store_bytes = 3, store_objects = 1, activeTemps = []\<rparr> leaky_fs of
     ((r, e), s, f) \<Rightarrow> e = Some (ErrOs OtherError) \<and> gc_Bytes r = 3 \<and> store_bytes s = 0"
  by code_simp

text \<open>
  A failed run loses its books: when a store's collection fails after it has removed
  entries, the run reports nothing and the controller keeps counting the removed bytes,
  although the store itself has given them up.
\<close>

theorem failed_retention_keeps_budget:
  "case collect_stores (\<lambda>_. 10000000000) 10 0 [] sample_stores no_result leaky_fs (Some sample_controller) of
     ((r, err), mss, f, ctl) \<Rightarrow>
       err = Some (RepositoryGC ''npm'' (ErrOs OtherError)) \<and> r = no_result \<and>
       total_bytes sample_stores = 3 \<and> total_bytes mss = 0 \<and> ctl = Some sample_controller \<and>
       committedBytes sample_controller = 3"
  using leaky_GC
  by (auto simp: sample_stores_def ctx_Err_def total_bytes_def sample_controller_def split: prod.splits option.splits)

end
