(* ===== verification/Proxy_Runtime.thy ===== *)
theory Proxy_Runtime
  imports Cache_Theorems
begin

text \<open>
  What the proxies share of \<^verbatim>\<open>net/http\<close> and \<^verbatim>\<open>io\<close>: a response writer whose
  body may fail, the answers of the upstream server, bounded reads, and the counters. The
  upstream is a parameter: a function from the method, the URL and the header of a request
  to an error or a response.
\<close>

section \<open>The client's side\<close>

record reply =
  rp_header :: header
  rp_sent :: "(int \<times> header) option"
  rp_body :: writer

definition rp_Set :: "string \<Rightarrow> string \<Rightarrow> reply \<Rightarrow> reply" where
  "rp_Set k v w = w\<lparr>rp_header := Header_Set (rp_header w) k v\<rparr>"

text \<open>The status and the header go out once; what is set later is lost.\<close>

definition rp_WriteHeader :: "int \<Rightarrow> reply \<Rightarrow> reply" where
  "rp_WriteHeader code w = (case rp_sent w of None \<Rightarrow> w\<lparr>rp_sent := Some (code, rp_header w)\<rparr> | Some _ \<Rightarrow> w)"

definition rp_Write :: "string \<Rightarrow> reply \<Rightarrow> reply" where
  "rp_Write s w = (let w' = rp_WriteHeader 200 w in w'\<lparr>rp_body := snd (snd (writer_Write s (rp_body w')))\<rparr>)"

text \<open>\<^verbatim>\<open>io.Copy(writer, source)\<close> to a reply whose header has been sent.\<close>

definition rp_Copy :: "string list \<Rightarrow> string option \<Rightarrow> reply \<Rightarrow> io_error option \<times> reply" where
  "rp_Copy cs er w = (case copy_through cs er (rp_body w) of (e, d) \<Rightarrow> (e, w\<lparr>rp_body := d\<rparr>))"

definition rp_Error :: "string \<Rightarrow> int \<Rightarrow> reply \<Rightarrow> reply" where
  "rp_Error msg code w =
     rp_Write (msg @ [CHR 0x0A])
       (rp_WriteHeader code
         (rp_Set ''X-Content-Type-Options'' ''nosniff''
           (rp_Set ''Content-Type'' ''text/plain; charset=utf-8''
             (w\<lparr>rp_header := Header_Del (rp_header w) ''Content-Length''\<rparr>))))"

definition rp_NotFound :: "reply \<Rightarrow> reply" where
  "rp_NotFound w = rp_Error ''404 page not found'' 404 w"

text \<open>
  A request; \<open>pr_canceled\<close> says whether its context has been cancelled when a failing call
  is reported, or the error of that call is a cancellation.
\<close>

record proxy_request =
  pr_method :: string
  pr_url :: url
  pr_header :: header
  pr_canceled :: bool

section \<open>The upstream's side\<close>

record client_error =
  ce_text :: string
  ce_canceled :: bool

record upstream_response =
  ur_status :: int
  ur_header :: header
  ur_body :: reader

type_synonym client = "string \<Rightarrow> string \<Rightarrow> header \<Rightarrow> client_error + upstream_response"

text \<open>\<^verbatim>\<open>http.NewRequestWithContext\<close> fails when the URL does not parse.\<close>

definition new_request_ok :: "url \<Rightarrow> bool" where
  "new_request_ok target \<longleftrightarrow> url_Parse (url_String target) \<noteq> None"

text \<open>\<^verbatim>\<open>io.ReadAll(io.LimitReader(body, limit + 1))\<close>.\<close>

definition read_limited :: "int \<Rightarrow> reader \<Rightarrow> string + string" where
  "read_limited bound body =
     (let d = concat (chunks body)
      in if int (length d) > bound then Inr (take (nat (bound + 1)) d)
         else (case read_error body of Some e \<Rightarrow> Inl e | None \<Rightarrow> Inr d))"

section \<open>Counters\<close>

record counters =
  requests :: int
  hits :: int
  misses :: int
  errors :: int
  clientCanceled :: int
  rangeRequests :: int

definition bump :: "int \<Rightarrow> int" where
  "bump n = u64 (n + 1)"

text \<open>The state of a proxy that requests change.\<close>

record proxy_state =
  ps_world :: world
  ps_stats :: counters

abbreviation stat_errors :: "proxy_state \<Rightarrow> proxy_state" where
  "stat_errors st \<equiv> st\<lparr>ps_stats := (ps_stats st)\<lparr>errors := bump (errors (ps_stats st))\<rparr>\<rparr>"

abbreviation stat_canceled :: "proxy_state \<Rightarrow> proxy_state" where
  "stat_canceled st \<equiv> st\<lparr>ps_stats := (ps_stats st)\<lparr>clientCanceled := bump (clientCanceled (ps_stats st))\<rparr>\<rparr>"

abbreviation stat_hit :: "proxy_state \<Rightarrow> proxy_state" where
  "stat_hit st \<equiv> st\<lparr>ps_stats := (ps_stats st)\<lparr>hits := bump (hits (ps_stats st))\<rparr>\<rparr>"

abbreviation stat_miss :: "proxy_state \<Rightarrow> proxy_state" where
  "stat_miss st \<equiv> st\<lparr>ps_stats := (ps_stats st)\<lparr>misses := bump (misses (ps_stats st))\<rparr>\<rparr>"

text \<open>\<^verbatim>\<open>fail\<close> and \<^verbatim>\<open>recordStreamError\<close>, the same in the npm and the OCI proxy.\<close>

definition fail :: "bool \<Rightarrow> int \<Rightarrow> string \<Rightarrow> reply \<Rightarrow> proxy_state \<Rightarrow> reply \<times> proxy_state" where
  "fail canceled status message w st =
     (if canceled then (w, stat_canceled st) else (rp_Error message status w, stat_errors st))"

definition recordStreamError :: "bool \<Rightarrow> proxy_state \<Rightarrow> proxy_state" where
  "recordStreamError canceled st = (if canceled then stat_canceled st else stat_errors st)"

text \<open>
  The \<^verbatim>\<open>Age\<close> of an entry in whole seconds. Go goes through a \<^verbatim>\<open>float64\<close>, which
  can differ by one second within a microsecond of a full second after several months.
\<close>

definition age_seconds :: "int \<Rightarrow> int \<Rightarrow> int" where
  "age_seconds now stored = time_Sub now stored sdiv 1000000000"

section \<open>Facts the proxies share\<close>

lemma Lookup_files:
  assumes "Lookup t1 t2 key ttl s f = (r, g)"
  shows "file_at g = file_at f" "node_at g q = Some Directory \<longleftrightarrow> node_at f q = Some Directory"
proof -
  show "file_at g = file_at f" using Lookup_frame [OF assms] by (auto simp: file_at_def fun_eq_iff)
  show "node_at g q = Some Directory \<longleftrightarrow> node_at f q = Some Directory"
    using Lookup_frame [OF assms] by (auto split: if_splits)
qed

text \<open>Worlds that differ in access times and in the calls that will fail only.\<close>

definition same_files :: "world \<Rightarrow> world \<Rightarrow> bool" where
  "same_files w' w \<longleftrightarrow>
     w_store w' = w_store w \<and> file_at (w_fs w') = file_at (w_fs w) \<and>
     (\<forall>q. node_at (w_fs w') q = Some Directory \<longleftrightarrow> node_at (w_fs w) q = Some Directory)"

lemma new_numbers_files: "file_at f = file_at g \<Longrightarrow> new_numbers env p f = new_numbers env p g"
  by (simp add: new_numbers_def meta_at_file)

lemma fail_hits [simp]: "hits (ps_stats (snd (fail c s msg w st))) = hits (ps_stats st)"
  by (simp add: fail_def)

lemma copy_through_plain:
  "tape w = [] \<Longrightarrow> copy_through cs None w = (None, w\<lparr>received := received w @ concat cs\<rparr>)"
  by (induction cs arbitrary: w) (simp_all add: writer_Write_def)

lemma rp_body_set [simp]: "rp_body (rp_Set k v w) = rp_body w" "rp_body (rp_WriteHeader c w) = rp_body w"
  by (simp_all add: rp_Set_def rp_WriteHeader_def split: option.split)

lemma fail_world [simp]: "ps_world (snd (fail c s msg w st)) = ps_world st"
  by (simp add: fail_def)

lemma recordStreamError_world [simp]: "ps_world (recordStreamError c st) = ps_world st"
  by (simp add: recordStreamError_def)

lemma concat_chunks_of: "n > 0 \<Longrightarrow> concat (chunks_of n s) = s"
  by (induction n s rule: chunks_of.induct) (simp add: chunks_of.simps [where s = s for s])

lemma concat_bytesReader [simp]: "concat (chunks (bytesReader body)) = body"
  by (simp add: bytesReader_def concat_chunks_of)

text \<open>Fresh counters and a reply to a client that takes everything.\<close>

definition no_counts :: counters where
  "no_counts = \<lparr>requests = 0, hits = 0, misses = 0, errors = 0, clientCanceled = 0, rangeRequests = 0\<rparr>"

definition open_reply :: reply where
  "open_reply = \<lparr>rp_header = [], rp_sent = None, rp_body = \<lparr>received = [], tape = []\<rparr>\<rparr>"

end
