(* ===== verification/Go_Mime.thy ===== *)
theory Go_Mime
  imports Go_Strings "HOL-Library.AList"
begin

text \<open>
  \<^verbatim>\<open>mime.ParseMediaType\<close>, as far as the proxies use it: the media type in lower
  case, or an error. The values of the parameters matter only for the error of a parameter
  that is given twice with two values, and are kept for that.
\<close>

definition isTSpecial :: "char \<Rightarrow> bool" where
  "isTSpecial c \<longleftrightarrow> c \<in> set [CHR ''('', CHR '')'', CHR ''<'', CHR ''>'', CHR ''@'', CHR '','', CHR '';'', CHR '':'',
     CHR 0x5C, CHR 0x22, CHR ''/'', CHR ''['', CHR '']'', CHR ''?'', CHR ''='']"

definition isTokenChar :: "char \<Rightarrow> bool" where
  "isTokenChar c \<longleftrightarrow> 32 < byte c \<and> byte c < 127 \<and> \<not> isTSpecial c"

definition consumeToken :: "string \<Rightarrow> string \<times> string" where
  "consumeToken v = (takeWhile isTokenChar v, dropWhile isTokenChar v)"

text \<open>The rest of a quoted string; \<open>None\<close> when it does not end or holds a line break.\<close>

fun quoted_value :: "string \<Rightarrow> (string \<times> string) option" where
  "quoted_value [] = None"
| "quoted_value (r # v) =
     (if r = CHR 0x22 then Some ([], v)
      else if r = CHR 0x5C \<and> v \<noteq> [] \<and> isTSpecial (hd v) then map_option (apfst ((#) (hd v))) (quoted_value (tl v))
      else if r = CHR 0x0D \<or> r = CHR 0x0A then None
      else map_option (apfst ((#) r)) (quoted_value v))"

definition consumeValue :: "string \<Rightarrow> string \<times> string" where
  "consumeValue v =
     (if v = [] then ([], [])
      else if hd v \<noteq> CHR 0x22 then consumeToken v
      else (case quoted_value (tl v) of None \<Rightarrow> ([], v) | Some r \<Rightarrow> r))"

definition skip_space :: "string \<Rightarrow> string" where
  "skip_space v = TrimLeft v ascii_spaces"

text \<open>A parameter, its value and the rest; \<open>None\<close> where Go returns an empty name.\<close>

definition consumeMediaParam :: "string \<Rightarrow> (string \<times> string \<times> string) option" where
  "consumeMediaParam v =
     (let r0 = skip_space v in
      if \<not> HasPrefix r0 '';'' then None
      else
        let (param, r1) = consumeToken (skip_space (tl r0)) in
        if param = [] then None
        else
          let r2 = skip_space r1 in
          if \<not> HasPrefix r2 ''='' then None
          else
            let r3 = skip_space (tl r2); (v', r4) = consumeValue r3 in
            if v' = [] \<and> r4 = r3 then None else Some (ToLower param, v', r4))"

lemma length_skip_space: "length (skip_space v) \<le> length v"
  by (simp add: skip_space_def TrimLeft_def length_dropWhile_le)

lemma length_quoted_value: "quoted_value v = Some (a, r) \<Longrightarrow> length r \<le> length v"
proof (induction v arbitrary: a r rule: quoted_value.induct)
  case (2 c v)
  show ?case
  proof (cases "c = CHR 0x5C \<and> v \<noteq> [] \<and> isTSpecial (hd v)")
    case True
    then obtain a' where "quoted_value (tl v) = Some (a', r)" using "2.prems" by (auto split: if_splits)
    then show ?thesis using "2.IH"(1) True by (fastforce simp: le_diff_conv)
  next
    case False
    then show ?thesis using "2.prems" "2.IH"(2) by (fastforce split: if_splits)
  qed
qed simp

lemma length_consumeValue: "length (snd (consumeValue v)) \<le> length v"
  using length_quoted_value [of "tl v"]
  by (fastforce simp: consumeValue_def consumeToken_def length_dropWhile_le split: option.splits)

lemma length_consumeMediaParam:
  assumes "consumeMediaParam v = Some (p, x, r)"
  shows "length r < length v"
proof -
  let ?r0 = "skip_space v"
  let ?r1 = "snd (consumeToken (skip_space (tl ?r0)))"
  let ?r2 = "skip_space ?r1"
  let ?r3 = "skip_space (tl ?r2)"
  have a: "?r0 \<noteq> []" "r = snd (consumeValue ?r3)"
    using assms by (auto simp: consumeMediaParam_def Let_def HasPrefix_def split: if_splits prod.splits)
  have "length r \<le> length ?r3" using length_consumeValue a(2) by simp
  also have "\<dots> \<le> length ?r2" using length_skip_space [of "tl ?r2"] by (simp add: le_diff_conv)
  also have "\<dots> \<le> length ?r1" by (rule length_skip_space)
  also have "\<dots> \<le> length (skip_space (tl ?r0))" by (simp add: consumeToken_def length_dropWhile_le)
  also have "\<dots> \<le> length (tl ?r0)" by (rule length_skip_space)
  also have "\<dots> < length ?r0" using a(1) by simp
  also have "\<dots> \<le> length v" by (rule length_skip_space)
  finally show ?thesis .
qed

text \<open>The loop over the parameters: whether it ends without an error.\<close>

function params_ok :: "string \<Rightarrow> (string \<times> string) list \<Rightarrow> bool" where
  "params_ok v seen =
     (let u = skip_space v in
      if u = [] then True
      else (case consumeMediaParam u of
        None \<Rightarrow> TrimSpace u = '';''
      | Some (key, x, rest) \<Rightarrow>
          (case map_of seen key of
             Some y \<Rightarrow> if y \<noteq> x then False else params_ok rest ((key, x) # seen)
           | None \<Rightarrow> params_ok rest ((key, x) # seen))))"
  by pat_completeness auto
termination
proof (relation "measure (\<lambda>(v, seen). length v)")
  fix v seen u key x rest kx xr y
  assume "u = skip_space v" "u \<noteq> []" "consumeMediaParam u = Some kx" "(key, xr) = kx" "(x, rest) = xr"
  then have "length rest < length u" using length_consumeMediaParam by metis
  also have "\<dots> \<le> length v" using length_skip_space \<open>u = skip_space v\<close> by simp
  finally show "((rest, (key, x) # seen), v, seen) \<in> measure (\<lambda>(v, seen). length v)" by simp
  then show "((rest, (key, x) # seen), v, seen) \<in> measure (\<lambda>(v, seen). length v)" .
qed simp

declare params_ok.simps [simp del]

definition checkMediaTypeDisposition :: "string \<Rightarrow> bool" where
  "checkMediaTypeDisposition s =
     (let (typ, rest) = consumeToken s in
      if typ = [] then False
      else if rest = [] then True
      else if \<not> HasPrefix rest ''/'' then False
      else let (subtype, rest') = consumeToken (tl rest) in subtype \<noteq> [] \<and> rest' = [])"

definition ParseMediaType :: "string \<Rightarrow> string option" where
  "ParseMediaType v =
     (let base = fst (Cut v '';''); mediatype = TrimSpace (ToLower base) in
      if \<not> checkMediaTypeDisposition mediatype then None
      else if params_ok (drop (length base) v) [] then Some mediatype else None)"

end
