(* ===== verification/Npm_Proxy.thy ===== *)
theory Npm_Proxy
  imports Proxy_Runtime Go_Mime
begin

text \<open>
  The npm proxy (\<^verbatim>\<open>src/internal/npmproxy/proxy.go\<close>): package metadata is rewritten to
  point at the proxy, tarballs are streamed, and both are cached under the URL and the
  \<^verbatim>\<open>Accept\<close> header of the request.
\<close>

record npm_proxy =
  npm_name :: string
  npm_path :: string
  npm_upstream :: url
  npm_proxyBaseURL :: string
  npm_ttl :: int
  npm_forwardAuthorization :: bool

definition npm_maxMetadataBytes :: int where
  "npm_maxMetadataBytes = 67108864"

text \<open>
  \<^verbatim>\<open>New\<close>: \<open>None\<close> when the upstream does not parse. The store, the client and the logger
  are not part of the record.
\<close>

definition npm_New :: "string \<Rightarrow> string \<Rightarrow> string \<Rightarrow> string \<Rightarrow> int \<Rightarrow> bool \<Rightarrow> npm_proxy option" where
  "npm_New name path upstream publicBaseURL ttl forwardAuthorization =
     (case url_Parse upstream of
        None \<Rightarrow> None
      | Some u \<Rightarrow> Some \<lparr>npm_name = name, npm_path = path, npm_upstream = u,
          npm_proxyBaseURL = TrimRight publicBaseURL ''/'' @ TrimSuffix path ''/'',
          npm_ttl = ttl, npm_forwardAuthorization = forwardAuthorization\<rparr>)"

definition npm_SetupSnippet :: "npm_proxy \<Rightarrow> string" where
  "npm_SetupSnippet p = ''npm config set registry '' @ npm_proxyBaseURL p @ ''/'' @ [CHR 0x0A]"

text \<open>
  What a request takes from its environment: the clock, the upstream, whether the request's
  context has ended when the upstream fails, what other requests do while this one waits
  for the lock of its key, and what the cache write draws.
\<close>

record npm_env =
  ne_now :: int
  ne_client :: client
  ne_context_ended :: bool
  ne_wait :: "world \<Rightarrow> world"
  ne_put :: put_env

definition npm_targetURL :: "npm_proxy \<Rightarrow> url \<Rightarrow> url option" where
  "npm_targetURL p requestURL =
     (let relativePath = TrimPrefix (EscapedPath requestURL) (npm_path p)
      in case url_Parse (TrimRight (url_String (npm_upstream p)) ''/'' @ ''/'' @ relativePath) of
           None \<Rightarrow> None
         | Some target \<Rightarrow> Some (target\<lparr>RawQuery := RawQuery requestURL\<rparr>))"

definition npm_cacheKey :: "npm_proxy \<Rightarrow> url \<Rightarrow> string \<Rightarrow> string" where
  "npm_cacheKey p target accept =
     npm_name p @ [CHR 0x0A] @ url_String target @ [CHR 0x0A] @ ''accept:'' @ accept"

definition isJSON :: "string \<Rightarrow> bool" where
  "isJSON contentType =
     (case ParseMediaType contentType of
        None \<Rightarrow> Contains (ToLower contentType) ''json''
      | Some mediaType \<Rightarrow> mediaType = ''application/json'' \<or> HasSuffix mediaType ''+json'')"

definition npm_serveHit :: "npm_env \<Rightarrow> proxy_request \<Rightarrow> Entry \<Rightarrow> reply \<Rightarrow> reply" where
  "npm_serveHit env req en w =
     (let m = entry_Metadata en;
          w1 = rp_Set ''Content-Length'' (FormatInt (ContentBytes m))
                 (rp_Set ''Age'' (FormatInt (age_seconds (ne_now env) (StoredAt m)))
                   (rp_Set ''X-N0ding-Cache'' ''HIT''
                     (w\<lparr>rp_header := CopyHeaders (rp_header w) (Header m)\<rparr>)));
          w2 = rp_WriteHeader (Status m) w1
      in if pr_method req = ''HEAD'' then w2
         else snd (rp_Copy (chunks_of 32768 (Body en)) None w2))"

definition npm_serveMetadata ::
  "npm_proxy \<Rightarrow> npm_env \<Rightarrow> proxy_request \<Rightarrow> upstream_response \<Rightarrow> header \<Rightarrow> header \<Rightarrow> string \<Rightarrow> bool \<Rightarrow> reply \<Rightarrow> proxy_state
     \<Rightarrow> reply \<times> proxy_state" where
  "npm_serveMetadata p env req resp headers cacheHeaders key cacheable w st =
     (case read_limited npm_maxMetadataBytes (ur_body resp) of
        Inl _ \<Rightarrow> fail (pr_canceled req) 502 ''could not read upstream metadata'' w st
      | Inr raw \<Rightarrow>
          if int (length raw) \<le> npm_maxMetadataBytes then
            let body = ReplaceAll raw (TrimRight (url_String (npm_upstream p)) ''/'') (npm_proxyBaseURL p);
                n = FormatInt (int (length body));
                m = zero_metadata\<lparr>Status := ur_status resp, Header := Header_Set cacheHeaders ''Content-Length'' n\<rparr>;
                st' = (if cacheable then st\<lparr>ps_world := snd (PutBytes (ne_put env) key m body (ps_world st))\<rparr> else st);
                w1 = rp_WriteHeader (ur_status resp)
                       (w\<lparr>rp_header := CopyHeaders (rp_header w) (Header_Set headers ''Content-Length'' n)\<rparr>)
            in (if pr_method req \<noteq> ''HEAD'' then rp_Write body w1 else w1, st')
          else
            let w1 = rp_WriteHeader (ur_status resp)
                       (w\<lparr>rp_header := CopyHeaders (rp_header w) (Header_Del headers ''Content-Length'')\<rparr>)
            in (if pr_method req \<noteq> ''HEAD''
                then snd (rp_Copy [raw, drop (length raw) (concat (chunks (ur_body resp)))] (read_error (ur_body resp)) w1)
                else w1, st))"

definition npm_serveMiss ::
  "npm_proxy \<Rightarrow> npm_env \<Rightarrow> proxy_request \<Rightarrow> url \<Rightarrow> string \<Rightarrow> bool \<Rightarrow> reply \<Rightarrow> proxy_state \<Rightarrow> reply \<times> proxy_state" where
  "npm_serveMiss p env req target key cacheableRequest w st =
     (if \<not> new_request_ok target then fail (pr_canceled req) 502 ''could not create upstream request'' w st
      else (case ne_client env (pr_method req) (url_String target)
              (Header_Set (ForwardRequestHeaders [] (pr_header req) (npm_forwardAuthorization p)) ''Accept-Encoding'' ''identity'') of
        Inl e \<Rightarrow>
          fail (ce_canceled e \<or> pr_canceled req) (if ne_context_ended env then 499 else 502) ''upstream request failed'' w st
      | Inr resp \<Rightarrow>
          let headers = Header_Set (Header_Del (ResponseHeaders (ur_header resp)) ''Content-Encoding'') ''X-N0ding-Cache'' ''MISS'';
              cacheable = (cacheableRequest \<and> pr_method req = ''GET'' \<and> ur_status resp = 200 \<and>
                 ResponseAllowsStorage (pr_header req) (ur_header resp) [''Accept'', ''Accept-Encoding'']);
              cacheHeaders = CacheMetadataHeaders headers
          in if isJSON (Get (ur_header resp) ''Content-Type'') then
               npm_serveMetadata p env req resp headers cacheHeaders key cacheable w st
             else
               let w1 = rp_WriteHeader (ur_status resp) (w\<lparr>rp_header := CopyHeaders (rp_header w) headers\<rparr>)
               in if pr_method req = ''HEAD'' then (w1, st)
                  else if cacheable then
                    (case PutStream (ne_put env) key (zero_metadata\<lparr>Status := ur_status resp, Header := cacheHeaders\<rparr>)
                            (ur_body resp) (rp_body w1) (ps_world st) of
                       (err, d, world') \<Rightarrow>
                         let st' = st\<lparr>ps_world := world'\<rparr>
                         in (w1\<lparr>rp_body := d\<rparr>, if err = None then st' else recordStreamError (pr_canceled req) st'))
                  else (snd (rp_Copy (chunks (ur_body resp)) (read_error (ur_body resp)) w1), st)))"

text \<open>A lookup when the request is cacheable; an error counts as a miss.\<close>

definition npm_find :: "npm_proxy \<Rightarrow> npm_env \<Rightarrow> bool \<Rightarrow> string \<Rightarrow> world \<Rightarrow> Entry option \<times> world" where
  "npm_find p env cacheable key w =
     (if \<not> cacheable then (None, w)
      else (case Lookup (ne_now env) (ne_now env) key (npm_ttl p) (w_store w) (w_fs w) of
        (Inl _, f) \<Rightarrow> (None, w\<lparr>w_fs := f\<rparr>)
      | (Inr r, f) \<Rightarrow> (r, w\<lparr>w_fs := f\<rparr>)))"

definition npm_cacheable :: "npm_proxy \<Rightarrow> proxy_request \<Rightarrow> bool" where
  "npm_cacheable p req \<longleftrightarrow>
     Get (pr_header req) ''Range'' = [] \<and> \<not> RequestBypassesCache (pr_header req) \<and>
     (\<not> npm_forwardAuthorization p \<or> Get (pr_header req) ''Authorization'' = [])"

definition npm_ServeHTTP :: "npm_proxy \<Rightarrow> npm_env \<Rightarrow> proxy_request \<Rightarrow> reply \<Rightarrow> proxy_state \<Rightarrow> reply \<times> proxy_state" where
  "npm_ServeHTTP p env req w st0 =
     (let st = st0\<lparr>ps_stats := (ps_stats st0)\<lparr>requests := bump (requests (ps_stats st0))\<rparr>\<rparr> in
      if pr_method req \<noteq> ''GET'' \<and> pr_method req \<noteq> ''HEAD'' then
        (rp_Error ''method not allowed'' 405 (rp_Set ''Allow'' ''GET, HEAD'' w), st)
      else if \<not> HasPrefix (Path (pr_url req)) (npm_path p) then (rp_NotFound w, st)
      else (case npm_targetURL p (pr_url req) of
        None \<Rightarrow> fail (pr_canceled req) 400 ''invalid upstream URL'' w st
      | Some target \<Rightarrow>
          let cacheable = npm_cacheable p req;
              key = npm_cacheKey p target (Get (pr_header req) ''Accept'')
          in case npm_find p env cacheable key (ps_world st) of
               (Some en, w1) \<Rightarrow> (npm_serveHit env req en w, stat_hit (st\<lparr>ps_world := w1\<rparr>))
             | (None, w1) \<Rightarrow>
                 (case npm_find p env cacheable key (ne_wait env w1) of
                    (Some en, w2) \<Rightarrow> (npm_serveHit env req en w, stat_hit (st\<lparr>ps_world := w2\<rparr>))
                  | (None, w2) \<Rightarrow> npm_serveMiss p env req target key cacheable w (stat_miss (st\<lparr>ps_world := w2\<rparr>)))))"

end
