(* ===== verification/Oci_Digest.thy ===== *)
theory Oci_Digest
  imports Go_Strings Go_Sha256 "HOL-Library.Word"
begin

unbundle bit_operations_syntax

text \<open>
  SHA-256 digests of the OCI proxy (\<^verbatim>\<open>src/internal/ociproxy/proxy.go\<close>): which
  references are digests, which resources are cacheable, and the check of a body against
  the digest it was announced with.
\<close>

section \<open>Digests\<close>

text \<open>The comparison without early exit, on bytes as 8-bit words.\<close>

definition byte_word :: "char \<Rightarrow> 8 word" where
  "byte_word c = word_of_nat (byte c)"

fun difference :: "8 word \<Rightarrow> string \<Rightarrow> string \<Rightarrow> 8 word" where
  "difference d (x # xs) (y # ys) = difference (d OR (byte_word x XOR byte_word y)) xs ys"
| "difference d _ _ = d"

definition equalBytes :: "string \<Rightarrow> string \<Rightarrow> bool" where
  "equalBytes left right = (if length left \<noteq> length right then False else difference 0 left right = 0)"

definition decodeSHA256 :: "string \<Rightarrow> string option" where
  "decodeSHA256 v =
     (case Cut (ToLower v) '':'' of (algorithm, encoded, ok) \<Rightarrow>
        if \<not> ok \<or> algorithm \<noteq> ''sha256'' \<or> length encoded \<noteq> 64 then None
        else hex_DecodeString encoded)"

datatype digest_error = InvalidExpected string | DigestMismatch string string

definition verifySum :: "string \<Rightarrow> string \<Rightarrow> digest_error option" where
  "verifySum actual expected =
     (case decodeSHA256 expected of
        None \<Rightarrow> Some (InvalidExpected expected)
      | Some expectedBytes \<Rightarrow>
          if \<not> equalBytes actual expectedBytes
          then Some (DigestMismatch (hex_EncodeToString actual) expected) else None)"

text \<open>
  The text of the error. The quoting of \<^verbatim>\<open>%q\<close> is left out: the proxy verifies only
  against digests that decode, so that branch is not taken.
\<close>

definition digest_text :: "digest_error \<Rightarrow> string" where
  "digest_text e =
     (case e of
        InvalidExpected s \<Rightarrow> ''invalid expected digest '' @ s
      | DigestMismatch a s \<Rightarrow> ''sha256:'' @ a @ '' does not match '' @ s)"

definition classify :: "string \<Rightarrow> string \<times> string \<times> bool" where
  "classify p =
     (case Index p ''/manifests/'' of
        Some i \<Rightarrow>
          let reference = drop (i + 11) p in
          if decodeSHA256 reference \<noteq> None then (''manifest'', reference, True)
          else (''manifest'', [], reference \<noteq> [])
      | None \<Rightarrow>
          (case Index p ''/blobs/'' of
             Some i \<Rightarrow>
               let digest = drop (i + 7) p in
               if decodeSHA256 digest \<noteq> None then (''blob'', digest, True) else ([], [], False)
           | None \<Rightarrow> ([], [], False)))"

section \<open>What the check accepts\<close>

lemma byte_word_inject [simp]: "byte_word c = byte_word d \<longleftrightarrow> c = d"
proof -
  have "unat (byte_word x) = byte x" for x by (simp add: byte_word_def unat_of_nat)
  then show ?thesis by (metis byte_inject)
qed

lemma or_word_zero: "(a OR b = (0 :: 'a :: len word)) \<longleftrightarrow> a = 0 \<and> b = 0"
  by (auto simp: bit_eq_iff bit_or_iff)

lemma xor_word_zero: "(a XOR b = (0 :: 'a :: len word)) \<longleftrightarrow> a = b"
  by (auto simp: bit_eq_iff bit_xor_iff)

lemma difference_zero: "length l = length r \<Longrightarrow> difference d l r = 0 \<longleftrightarrow> d = 0 \<and> l = r"
  by (induction d l r rule: difference.induct) (auto simp: or_word_zero xor_word_zero)

lemma equalBytes_eq [simp]: "equalBytes left right \<longleftrightarrow> left = right"
  by (auto simp: equalBytes_def difference_zero)

lemma hex_digit_unhex:
  assumes "is_hex c" "lower c = c"
  shows "hex_digit (unhex c) = c" "unhex c < 16"
proof -
  have "\<not> is_upper c" using assms(2) lower_not_upper by metis
  then have r: "is_digit c \<or> (97 \<le> byte c \<and> byte c \<le> 102)"
    using assms(1) by (auto simp: is_hex_def is_upper_def)
  then show "unhex c < 16" by (auto simp: unhex_def is_digit_def)
  have "byte (hex_digit (unhex c)) = byte c"
    using r by (auto simp: hex_digit_def unhex_def is_digit_def)
  then show "hex_digit (unhex c) = c" by simp
qed

lemma hex_Encode_Decode: "hex_DecodeString s = Some t \<Longrightarrow> ToLower s = s \<Longrightarrow> hex_EncodeToString t = s"
proof (induction s arbitrary: t rule: hex_DecodeString.induct)
  case (3 a b s)
  then obtain t' where t: "is_hex a" "is_hex b" "hex_DecodeString s = Some t'"
    "t = char_of (16 * unhex a + unhex b) # t'" by (auto split: if_splits)
  have low: "lower a = a" "lower b = b" "ToLower s = s" using "3.prems"(2) by (simp_all add: ToLower_def)
  note a = hex_digit_unhex [OF t(1) low(1)] and b = hex_digit_unhex [OF t(2) low(2)]
  have n: "byte (char_of (16 * unhex a + unhex b)) = 16 * unhex a + unhex b" using a(2) b(2) by simp
  show ?case using "3.IH" t low a b by (simp add: n)
qed (simp_all add: ToLower_def)

lemma ToLower_hex_Encode: "ToLower (hex_EncodeToString s) = hex_EncodeToString s"
proof -
  have "lower (hex_digit n) = hex_digit n" if "n < 16" for n
    using that by (auto simp: lower_def is_upper_def hex_digit_def)
  then show ?thesis by (induction s) (auto simp: ToLower_def hex_nibbles)
qed

lemma Cut_colon: "CHR '':'' \<notin> set a \<Longrightarrow> Cut (a @ CHR '':'' # s) '':'' = (a, s, True)"
proof -
  assume "CHR '':'' \<notin> set a"
  then have "Index (a @ CHR '':'' # s) '':'' = Some (length a)"
    by (induction a) (auto simp: HasPrefix_def)
  then show ?thesis by (simp add: Cut_def)
qed

lemma Index_colon: "Index s '':'' = Some i \<Longrightarrow> s = take i s @ CHR '':'' # drop (Suc i) s"
proof (induction s arbitrary: i)
  case (Cons c s)
  show ?case
  proof (cases "c = CHR '':''")
    case True
    then show ?thesis using Cons.prems by (simp add: HasPrefix_def)
  next
    case False
    then obtain j where "Index s '':'' = Some j" "i = Suc j" using Cons.prems by (auto simp: HasPrefix_def)
    then show ?thesis using Cons.IH by simp
  qed
qed simp

lemma Cut_colonD: "Cut s '':'' = (a, e, True) \<Longrightarrow> s = a @ CHR '':'' # e"
  using Index_colon [of s] by (auto simp: Cut_def split: option.splits)

lemma decodeSHA256_iff:
  "decodeSHA256 d = Some s \<longleftrightarrow> length s = 32 \<and> ToLower d = ''sha256:'' @ hex_EncodeToString s"
proof
  assume L: "decodeSHA256 d = Some s"
  obtain a e ok where c: "Cut (ToLower d) '':'' = (a, e, ok)" by (metis prod_cases3)
  with L have e: "ok" "a = ''sha256''" "length e = 64" "hex_DecodeString e = Some s"
    by (auto simp: decodeSHA256_def split: if_splits)
  then have d: "ToLower d = ''sha256'' @ CHR '':'' # e" using Cut_colonD [of "ToLower d" a e] c by simp
  have "ToLower (ToLower d) = ToLower d" by simp
  then have "ToLower e = e" unfolding d by (simp add: ToLower_def)
  then show "length s = 32 \<and> ToLower d = ''sha256:'' @ hex_EncodeToString s"
    using hex_Encode_Decode [OF e(4)] hex_Decode_length [OF e(4)] e(3) d by simp
next
  assume R: "length s = 32 \<and> ToLower d = ''sha256:'' @ hex_EncodeToString s"
  then have "Cut (ToLower d) '':'' = (''sha256'', hex_EncodeToString s, True)"
    using Cut_colon [of "''sha256''" "hex_EncodeToString s"] by simp
  then show "decodeSHA256 d = Some s" using R by (simp add: decodeSHA256_def hex_Decode_Encode)
qed

lemma verifySum_iff:
  "verifySum (sha256_Sum256 body) d = None \<longleftrightarrow>
     ToLower d = ''sha256:'' @ hex_EncodeToString (sha256_Sum256 body)"
proof -
  have "verifySum (sha256_Sum256 body) d = None \<longleftrightarrow> decodeSHA256 d = Some (sha256_Sum256 body)"
    by (auto simp: verifySum_def split: option.splits if_splits)
  then show ?thesis by (simp only: decodeSHA256_iff length_Sum256) simp
qed

text \<open>
  A body passes the check against a digest exactly when the digest, in lower case, is
  \<^verbatim>\<open>sha256:\<close> and the hexadecimal SHA-256 of the body: the comparison without early
  exit decides equality. A digest of another sum is a mismatch, which reports the sum that
  was found; another algorithm, length or encoding is an invalid digest.
\<close>

theorem verifySum_exact:
  "verifySum (sha256_Sum256 body) d =
     (if ToLower d = ''sha256:'' @ hex_EncodeToString (sha256_Sum256 body) then None
      else if \<exists>s. length s = 32 \<and> ToLower d = ''sha256:'' @ hex_EncodeToString s
      then Some (DigestMismatch (hex_EncodeToString (sha256_Sum256 body)) d)
      else Some (InvalidExpected d))"
proof (cases "decodeSHA256 d")
  case None
  then have "\<not> (length s = 32 \<and> ToLower d = ''sha256:'' @ hex_EncodeToString s)" for s
    using decodeSHA256_iff [of d s] by simp
  then show ?thesis using None verifySum_iff [of body d] by (simp add: verifySum_def del: append.simps)
next
  case (Some s)
  then have "length s = 32 \<and> ToLower d = ''sha256:'' @ hex_EncodeToString s" using decodeSHA256_iff by blast
  then show ?thesis using Some verifySum_iff [of body d] by (auto simp: verifySum_def hex_Encode_inj)
qed

end
