(* ===== verification/Oci_Proxy.thy ===== *)
theory Oci_Proxy
  imports Proxy_Runtime Oci_Digest
begin

text \<open>
  The OCI pull-through proxy (\<^verbatim>\<open>src/internal/ociproxy/proxy.go\<close>): manifests and blobs
  are cached with their SHA-256 digest, a hit is served only after the upstream has
  confirmed that digest for the caller's credentials, and a body is stored only when it
  hashes to the digest it was requested or announced with.
\<close>

section \<open>The proxy\<close>

record oci_proxy =
  oci_name :: string
  oci_path :: string
  oci_upstream :: url
  oci_registry :: string
  oci_ttl :: int

text \<open>
  \<^verbatim>\<open>New\<close>, without the store, the client and the logger, which are not part of the record.
\<close>

datatype oci_error = OciUpstream | OciPublicURL | OciPath

definition oci_New :: "string \<Rightarrow> string \<Rightarrow> string \<Rightarrow> string \<Rightarrow> int \<Rightarrow> oci_error + oci_proxy" where
  "oci_New name path upstream publicBaseURL ttl =
     (case url_Parse upstream of
        None \<Rightarrow> Inl OciUpstream
      | Some u \<Rightarrow>
          if Scheme u = [] \<or> Host u = [] then Inl OciUpstream
          else (case url_Parse publicBaseURL of
            None \<Rightarrow> Inl OciPublicURL
          | Some public \<Rightarrow>
              if Host public = [] then Inl OciPublicURL
              else if path \<noteq> ''/v2/'' then Inl OciPath
              else Inr \<lparr>oci_name = name, oci_path = path, oci_upstream = u, oci_registry = Host public, oci_ttl = ttl\<rparr>))"

definition oci_SetupSnippet :: "oci_proxy \<Rightarrow> string" where
  "oci_SetupSnippet p = ''docker pull '' @ oci_registry p @ ''/library/alpine:3.20'' @ [CHR 0x0A]"

definition immutableTTL :: int where
  "immutableTTL = 10 * 365 * 24 * 3600 * 1000000000"

definition maxManifestBytes :: int where
  "maxManifestBytes = 16777216"

text \<open>
  What a request takes from its environment: the clock, the two authorization answers and
  the answer to the miss, what other requests do while this one waits for the lock of its
  key, and what the cache write draws.
\<close>

record oci_env =
  oe_now :: int
  oe_auth1 :: client
  oe_auth2 :: client
  oe_miss :: client
  oe_wait :: "world \<Rightarrow> world"
  oe_put :: put_env

definition oci_targetURL :: "oci_proxy \<Rightarrow> url \<Rightarrow> url option" where
  "oci_targetURL p requestURL =
     (case url_Parse (TrimRight (url_String (oci_upstream p)) ''/'' @ EscapedPath requestURL) of
        None \<Rightarrow> None
      | Some target \<Rightarrow> Some (target\<lparr>RawQuery := RawQuery requestURL\<rparr>))"

definition oci_cacheKey :: "oci_proxy \<Rightarrow> url \<Rightarrow> string \<Rightarrow> string" where
  "oci_cacheKey p target accept =
     oci_name p @ [CHR 0x0A] @ url_String target @ [CHR 0x0A] @ ''accept:'' @ accept"

definition cacheTTL :: "oci_proxy \<Rightarrow> string \<Rightarrow> string \<Rightarrow> int" where
  "cacheTTL p kind requestedDigest =
     (if kind = ''blob'' \<or> requestedDigest \<noteq> [] then immutableTTL else oci_ttl p)"

definition oci_lookup :: "oci_env \<Rightarrow> string \<Rightarrow> int \<Rightarrow> world \<Rightarrow> Entry option \<times> world" where
  "oci_lookup env key ttl w =
     (case Lookup (oe_now env) (oe_now env) key ttl (w_store w) (w_fs w) of
        (Inl _, f) \<Rightarrow> (None, w\<lparr>w_fs := f\<rparr>)
      | (Inr r, f) \<Rightarrow> (r, w\<lparr>w_fs := f\<rparr>))"

definition forwarded :: "header \<Rightarrow> header" where
  "forwarded h = Header_Set (ForwardRequestHeaders [] h True) ''Accept-Encoding'' ''identity''"

definition authorizeCacheHit :: "client \<Rightarrow> proxy_request \<Rightarrow> url \<Rightarrow> string \<Rightarrow> bool" where
  "authorizeCacheHit client req target cachedDigest =
     (if \<not> new_request_ok target then False
      else (case client ''HEAD'' (url_String target) (forwarded (pr_header req)) of
        Inl _ \<Rightarrow> False
      | Inr resp \<Rightarrow>
          if ur_status resp < 200 \<or> ur_status resp \<ge> 300 then False
          else let upstreamDigest = Get (ur_header resp) ''Docker-Content-Digest''
               in upstreamDigest \<noteq> [] \<and> cachedDigest \<noteq> [] \<and> EqualFold upstreamDigest cachedDigest))"

definition oci_serveHit :: "oci_env \<Rightarrow> proxy_request \<Rightarrow> Entry \<Rightarrow> reply \<Rightarrow> proxy_state \<Rightarrow> reply \<times> proxy_state" where
  "oci_serveHit env req en w st =
     (let m = entry_Metadata en;
          w1 = w\<lparr>rp_header := CopyHeaders (rp_header w) (Header m)\<rparr>;
          w2 = rp_Set ''Content-Length'' (FormatInt (ContentBytes m))
                 (rp_Set ''Age'' (FormatInt (age_seconds (oe_now env) (StoredAt m)))
                   (rp_Set ''X-N0ding-Cache'' ''HIT'' w1));
          w3 = (if ContentDigest m \<noteq> [] then rp_Set ''Docker-Content-Digest'' (ContentDigest m) w2 else w2);
          w4 = rp_WriteHeader (Status m) w3
      in if pr_method req = ''HEAD'' then (w4, st)
         else (case rp_Copy (chunks_of 32768 (Body en)) None w4 of
           (Some _, w5) \<Rightarrow> (w5, st)
         | (None, w5) \<Rightarrow>
             if ContentDigest m \<noteq> [] \<and> verifySum (sha256_Sum256 (Body en)) (ContentDigest m) \<noteq> None
             then (w5, stat_errors st) else (w5, st)))"

definition passThrough :: "proxy_request \<Rightarrow> upstream_response \<Rightarrow> header \<Rightarrow> reply \<Rightarrow> reply" where
  "passThrough req resp headers w =
     (let w1 = rp_WriteHeader (ur_status resp) (w\<lparr>rp_header := CopyHeaders (rp_header w) headers\<rparr>)
      in if pr_method req = ''HEAD'' then w1
         else snd (rp_Copy (chunks (ur_body resp)) (read_error (ur_body resp)) w1))"

definition cacheManifest ::
  "oci_env \<Rightarrow> proxy_request \<Rightarrow> upstream_response \<Rightarrow> header \<Rightarrow> header \<Rightarrow> string \<Rightarrow> string \<Rightarrow> reply \<Rightarrow> proxy_state
     \<Rightarrow> reply \<times> proxy_state" where
  "cacheManifest env req resp headers cacheHeaders key expectedDigest w st =
     (case read_limited maxManifestBytes (ur_body resp) of
        Inl _ \<Rightarrow> fail (pr_canceled req) 502 ''could not read OCI manifest'' w st
      | Inr body \<Rightarrow>
          if int (length body) > maxManifestBytes then
            let w1 = rp_WriteHeader (ur_status resp)
                       (w\<lparr>rp_header := CopyHeaders (rp_header w) (Header_Del headers ''Content-Length'')\<rparr>)
            in (snd (rp_Copy [body, drop (length body) (concat (chunks (ur_body resp)))]
                       (read_error (ur_body resp)) w1), st)
          else if verifySum (sha256_Sum256 body) expectedDigest \<noteq> None then
            fail (pr_canceled req) 502 ''upstream OCI manifest digest mismatch'' w st
          else
            let n = FormatInt (int (length body));
                m = zero_metadata\<lparr>Status := ur_status resp, Header := Header_Set cacheHeaders ''Content-Length'' n,
                                  ContentDigest := expectedDigest\<rparr>;
                w' = snd (PutBytes (oe_put env) key m body (ps_world st));
                w1 = rp_WriteHeader (ur_status resp)
                       (w\<lparr>rp_header := CopyHeaders (rp_header w) (Header_Set headers ''Content-Length'' n)\<rparr>)
            in (rp_Write body w1, st\<lparr>ps_world := w'\<rparr>))"

definition cacheBlob ::
  "oci_env \<Rightarrow> proxy_request \<Rightarrow> upstream_response \<Rightarrow> header \<Rightarrow> header \<Rightarrow> string \<Rightarrow> string \<Rightarrow> reply \<Rightarrow> proxy_state
     \<Rightarrow> reply \<times> proxy_state" where
  "cacheBlob env req resp headers cacheHeaders key expectedDigest w st =
     (let w1 = rp_WriteHeader (ur_status resp) (w\<lparr>rp_header := CopyHeaders (rp_header w) headers\<rparr>);
          m = zero_metadata\<lparr>Status := ur_status resp, Header := cacheHeaders, ContentDigest := expectedDigest\<rparr>;
          verify = (\<lambda>_. map_option digest_text
                      (verifySum (sha256_Sum256 (concat (chunks (ur_body resp)))) expectedDigest))
      in case PutStreamVerified (oe_put env) key m (ur_body resp) (rp_body w1) (Some verify) (ps_world st) of
           (err, d, world') \<Rightarrow>
             let st' = st\<lparr>ps_world := world'\<rparr>
             in (w1\<lparr>rp_body := d\<rparr>, if err = None then st' else recordStreamError (pr_canceled req) st'))"

definition oci_serveMiss ::
  "oci_env \<Rightarrow> proxy_request \<Rightarrow> url \<Rightarrow> string \<Rightarrow> string \<Rightarrow> string \<Rightarrow> bool \<Rightarrow> reply \<Rightarrow> proxy_state
     \<Rightarrow> reply \<times> proxy_state" where
  "oci_serveMiss env req target key kind requestedDigest cacheableRequest w st =
     (if \<not> new_request_ok target then fail (pr_canceled req) 502 ''could not create upstream request'' w st
      else (case oe_miss env (pr_method req) (url_String target) (forwarded (pr_header req)) of
        Inl e \<Rightarrow> fail (ce_canceled e \<or> pr_canceled req) 502 ''upstream request failed'' w st
      | Inr resp \<Rightarrow>
          let headers = Header_Set (ResponseHeaders (ur_header resp)) ''X-N0ding-Cache'' ''MISS'';
              cacheable = (cacheableRequest \<and> pr_method req = ''GET'' \<and> ur_status resp = 200 \<and>
                 ResponseAllowsStorage (pr_header req) (ur_header resp) [''Accept'', ''Accept-Encoding''])
          in if \<not> cacheable then (passThrough req resp headers w, st)
             else
               let expectedDigest = (if requestedDigest = [] then Get (ur_header resp) ''Docker-Content-Digest''
                                     else requestedDigest)
               in if decodeSHA256 expectedDigest = None then (passThrough req resp headers w, st)
                  else
                    let headers' = Header_Set headers ''Docker-Content-Digest'' expectedDigest;
                        cacheHeaders = CacheMetadataHeaders headers'
                    in if kind = ''manifest'' then
                         cacheManifest env req resp headers' cacheHeaders key expectedDigest w st
                       else if kind = ''blob'' then
                         cacheBlob env req resp headers' cacheHeaders key expectedDigest w st
                       else (passThrough req resp headers' w, st)))"

text \<open>A lookup and, on a hit, the authorization; the entry when it may be served.\<close>

definition authorized_lookup ::
  "oci_env \<Rightarrow> client \<Rightarrow> proxy_request \<Rightarrow> url \<Rightarrow> string \<Rightarrow> int \<Rightarrow> world \<Rightarrow> Entry option \<times> world" where
  "authorized_lookup env auth req target key ttl w =
     (case oci_lookup env key ttl w of
        (Some en, w') \<Rightarrow>
          if authorizeCacheHit auth req target (ContentDigest (entry_Metadata en)) then (Some en, w') else (None, w')
      | (None, w') \<Rightarrow> (None, w'))"

definition oci_ServeHTTP ::
  "oci_proxy \<Rightarrow> oci_env \<Rightarrow> proxy_request \<Rightarrow> reply \<Rightarrow> proxy_state \<Rightarrow> reply \<times> proxy_state" where
  "oci_ServeHTTP p env req w st0 =
     (let st = st0\<lparr>ps_stats := (ps_stats st0)\<lparr>requests := bump (requests (ps_stats st0))\<rparr>\<rparr> in
      if pr_method req \<noteq> ''GET'' \<and> pr_method req \<noteq> ''HEAD'' then
        (rp_Error ''OCI pull-through spike is read-only'' 405 (rp_Set ''Allow'' ''GET, HEAD'' w), st)
      else if \<not> HasPrefix (Path (pr_url req)) (oci_path p) then (rp_NotFound w, st)
      else (case oci_targetURL p (pr_url req) of
        None \<Rightarrow> fail (pr_canceled req) 400 ''invalid upstream URL'' w st
      | Some target \<Rightarrow>
          let (kind, requestedDigest, cacheResource) = classify (Path (pr_url req));
              rangeRequest = (Get (pr_header req) ''Range'' \<noteq> []);
              st1 = (if rangeRequest
                     then st\<lparr>ps_stats := (ps_stats st)\<lparr>rangeRequests := bump (rangeRequests (ps_stats st))\<rparr>\<rparr>
                     else st);
              cacheableRequest = (cacheResource \<and> \<not> rangeRequest \<and> \<not> RequestBypassesCache (pr_header req));
              key = oci_cacheKey p target (Get (pr_header req) ''Accept'');
              ttl = cacheTTL p kind requestedDigest
          in if \<not> cacheableRequest then
               oci_serveMiss env req target key kind requestedDigest False w st1
             else (case authorized_lookup env (oe_auth1 env) req target key ttl (ps_world st1) of
               (Some en, w1) \<Rightarrow> oci_serveHit env req en w (stat_hit (st1\<lparr>ps_world := w1\<rparr>))
             | (None, w1) \<Rightarrow>
                 (case authorized_lookup env (oe_auth2 env) req target key ttl (oe_wait env w1) of
                    (Some en, w2) \<Rightarrow> oci_serveHit env req en w (stat_hit (st1\<lparr>ps_world := w2\<rparr>))
                  | (None, w2) \<Rightarrow>
                      oci_serveMiss env req target key kind requestedDigest True w
                        (stat_miss (st1\<lparr>ps_world := w2\<rparr>))))))"

section \<open>Stored bodies hash to their digest\<close>

definition verified :: "fs \<Rightarrow> bool" where
  "verified f \<longleftrightarrow>
     (\<forall>q. is_meta q \<longrightarrow>
        (case entry_of f q of
           None \<Rightarrow> True
         | Some (m, _, body) \<Rightarrow> verifySum (sha256_Sum256 body) (ContentDigest m) = None))"

lemma verified_drops: "drops w w' \<Longrightarrow> verified (w_fs w) \<Longrightarrow> verified (w_fs w')"
  unfolding drops_def verified_def by (metis (no_types, lifting) option.simps(4))

lemma verified_files: "file_at f = file_at g \<Longrightarrow> verified f \<Longrightarrow> verified g"
proof -
  assume fg: "file_at f = file_at g" and v: "verified f"
  have "entry_of g q = entry_of f q" if "is_meta q" for q
    using entry_of_file_cong [OF that, of g f] fg by simp
  then show "verified g" using v by (simp add: verified_def)
qed

lemma put_verified:
  assumes put: "PutStreamVerified env key m source down verify w = (e, d, w')"
    and new: "new_numbers env (key_path w key) (w_fs w)" and E: "encodable m (concat (chunks source))"
    and V: "(case verify of None \<Rightarrow> True | Some u \<Rightarrow> u (int (length (concat (chunks source)))) = None) \<Longrightarrow>
      verifySum (sha256_Sum256 (concat (chunks source))) (ContentDigest m) = None"
    and old: "verified (w_fs w)"
  shows "verified (w_fs w')"
  unfolding verified_def
proof (intro allI impI)
  fix q assume q: "is_meta q"
  obtain b where pp: "paths (store_root (w_store w)) key = (b, key_path w key)"
    by (metis key_path_def prod.collapse)
  note P = paths_meta [OF pp]
  have oldq: "case entry_of (w_fs w) q of None \<Rightarrow> True
      | Some (m, _, body) \<Rightarrow> verifySum (sha256_Sum256 body) (ContentDigest m) = None"
    using old q by (simp add: verified_def)
  show "case entry_of (w_fs w') q of None \<Rightarrow> True
      | Some (m, _, body) \<Rightarrow> verifySum (sha256_Sum256 body) (ContentDigest m) = None"
  proof (cases "q = key_path w key")
    case False
    then have "entry_of (w_fs w') q = entry_of (w_fs w) q"
      using put_near [OF put pp] near_other [OF _ P(2) q] by blast
    then show ?thesis using oldq by simp
  next
    case True
    then show ?thesis
      using put_atomic [OF put pp new E] oldq V unfolding True
      by (elim disjE bexE conjE) (simp_all add: read_back_def stored_metadata_def)
  qed
qed

lemma digest_utf8: "decodeSHA256 d \<noteq> None \<Longrightarrow> valid_utf8 d"
proof -
  assume "decodeSHA256 d \<noteq> None"
  then obtain s where "ToLower d = ''sha256:'' @ hex_EncodeToString s" by (auto simp: decodeSHA256_iff)
  moreover have "is_ascii (hex_EncodeToString s)" by (rule hex_ascii [OF hex_Encode_hex])
  ultimately have "is_ascii (ToLower d)" by (simp add: byte_def)
  moreover have "byte (lower c) < 128 \<Longrightarrow> byte c < 128" for c
    by (auto simp: lower_def is_upper_def split: if_splits)
  ultimately have "is_ascii d" by (auto simp: is_ascii_def ToLower_def list_all_iff)
  then show ?thesis by (rule valid_utf8_ascii)
qed

lemma cacheManifest_verified:
  assumes "new_numbers (oe_put env) (key_path (ps_world st) key) (w_fs (ps_world st))"
    "decodeSHA256 d \<noteq> None" "is_i64 (ur_status resp)" "verified (w_fs (ps_world st))"
  shows "verified (w_fs (ps_world (snd (cacheManifest env req resp hs chs key d w st))))"
proof (cases "read_limited maxManifestBytes (ur_body resp)")
  case (Inl e)
  then show ?thesis using assms(4) by (simp add: cacheManifest_def)
next
  case (Inr body)
  show ?thesis
  proof (cases "int (length body) > maxManifestBytes \<or> verifySum (sha256_Sum256 body) d \<noteq> None")
    case True
    then show ?thesis using assms(4) by (auto simp: cacheManifest_def Inr Let_def simp del: not_None_eq)
  next
    case False
    let ?m = "zero_metadata\<lparr>Status := ur_status resp,
      Header := Header_Set chs ''Content-Length'' (FormatInt (int (length body))), ContentDigest := d\<rparr>"
    obtain e dn w' where put: "PutStreamVerified (oe_put env) key ?m (bytesReader body) \<lparr>received = [], tape = []\<rparr> None
        (ps_world st) = (e, dn, w')" by (metis prod_cases3)
    have "encodable ?m (concat (chunks (bytesReader body)))"
      using False digest_utf8 [OF assms(2)] assms(3) by (simp add: encodable_def is_i64_def maxManifestBytes_def)
    then have "verified (w_fs w')"
      by (rule put_verified [OF put assms(1) _ _ assms(4)]) (use False in simp)
    moreover have "ps_world (snd (cacheManifest env req resp hs chs key d w st)) = w'"
      using False put by (simp add: cacheManifest_def Inr Let_def PutBytes_def PutStream_def)
    ultimately show ?thesis by simp
  qed
qed

lemma cacheBlob_verified:
  assumes "new_numbers (oe_put env) (key_path (ps_world st) key) (w_fs (ps_world st))"
    "decodeSHA256 d \<noteq> None" "is_i64 (ur_status resp)" "verified (w_fs (ps_world st))"
    "is_i64 (int (length (concat (chunks (ur_body resp)))))"
  shows "verified (w_fs (ps_world (snd (cacheBlob env req resp hs chs key d w st))))"
proof -
  let ?m = "zero_metadata\<lparr>Status := ur_status resp, Header := chs, ContentDigest := d\<rparr>"
  let ?v = "\<lambda>_ :: int. map_option digest_text (verifySum (sha256_Sum256 (concat (chunks (ur_body resp)))) d)"
  let ?down = "rp_body (rp_WriteHeader (ur_status resp) (w\<lparr>rp_header := CopyHeaders (rp_header w) hs\<rparr>))"
  obtain e dn w' where put: "PutStreamVerified (oe_put env) key ?m (ur_body resp) ?down (Some ?v) (ps_world st) = (e, dn, w')"
    by (metis prod_cases3)
  have "encodable ?m (concat (chunks (ur_body resp)))"
    using digest_utf8 [OF assms(2)] assms(3,5) by (simp add: encodable_def)
  then have "verified (w_fs w')"
    by (rule put_verified [OF put assms(1) _ _ assms(4)]) simp
  moreover have "ps_world (snd (cacheBlob env req resp hs chs key d w st)) = w'"
    using put by (simp add: cacheBlob_def Let_def)
  ultimately show ?thesis by simp
qed

lemma serveMiss_verified:
  assumes "new_numbers (oe_put env) (key_path (ps_world st) key) (w_fs (ps_world st))"
    "verified (w_fs (ps_world st))"
    "\<And>resp. oe_miss env (pr_method req) (url_String target) (forwarded (pr_header req)) = Inr resp \<Longrightarrow>
       is_i64 (int (length (concat (chunks (ur_body resp)))))"
  shows "verified (w_fs (ps_world (snd (oci_serveMiss env req target key kind rd c w st))))"
proof -
  have st: "is_i64 200" by (simp add: is_i64_def)
  show ?thesis
    using assms st cacheManifest_verified [OF assms(1) _ _ assms(2)] cacheBlob_verified [OF assms(1) _ _ assms(2)]
    by (auto simp: oci_serveMiss_def Let_def split: sum.splits simp del: not_None_eq)
qed

end
