(* ===== verification/Go_Query.thy ===== *)
theory Go_Query
  imports Go_Url "HOL-Library.AList" "HOL-Library.List_Lexorder" "HOL-Library.Char_ord"
begin

text \<open>
  Query strings and relative references of Go's \<^verbatim>\<open>net/url\<close>: \<^verbatim>\<open>ParseQuery\<close>,
  \<^verbatim>\<open>Values.Encode\<close> and \<^verbatim>\<open>ResolveReference\<close>, with the facts that escaping and
  encoding can be undone.
\<close>

section \<open>Values\<close>

type_synonym url_values = "(string \<times> string list) list"

definition QueryEscape :: "string \<Rightarrow> string" where
  "QueryEscape s = escape encodeQueryComponent s"

definition QueryUnescape :: "string \<Rightarrow> string option" where
  "QueryUnescape s = unescape encodeQueryComponent s"

definition Values_Get :: "url_values \<Rightarrow> string \<Rightarrow> string" where
  "Values_Get m k = (case map_of m k of Some (v # _) \<Rightarrow> v | _ \<Rightarrow> [])"

definition Values_Set :: "url_values \<Rightarrow> string \<Rightarrow> string \<Rightarrow> url_values" where
  "Values_Set m k v = AList.update k [v] m"

definition Values_append :: "url_values \<Rightarrow> string \<Rightarrow> string \<Rightarrow> url_values" where
  "Values_append m k v = AList.update k ((case map_of m k of None \<Rightarrow> [] | Some vs \<Rightarrow> vs) @ [v]) m"

text \<open>
  One part of a query between ampersands: the values so far and whether an error has
  occurred. A part with a semicolon or a bad escape is skipped.
\<close>

definition parse_part :: "string \<Rightarrow> url_values \<times> bool \<Rightarrow> url_values \<times> bool" where
  "parse_part part r =
     (case r of (m, bad) \<Rightarrow>
        if Contains part '';'' then (m, True)
        else if part = [] then (m, bad)
        else (case Cut part ''='' of (k, v, _) \<Rightarrow>
          (case QueryUnescape k of
             None \<Rightarrow> (m, True)
           | Some k' \<Rightarrow>
               (case QueryUnescape v of
                  None \<Rightarrow> (m, True)
                | Some v' \<Rightarrow> (Values_append m k' v', bad)))))"

text \<open>\<^verbatim>\<open>ParseQuery\<close>: the values and whether there was an error; \<^verbatim>\<open>URL.Query\<close> drops it.\<close>

definition ParseQuery :: "string \<Rightarrow> url_values \<times> bool" where
  "ParseQuery query = fold parse_part (Split query CHR ''&'') ([], False)"

definition url_Query :: "url \<Rightarrow> url_values" where
  "url_Query u = fst (ParseQuery (RawQuery u))"

definition encode_pairs :: "url_values \<Rightarrow> string list" where
  "encode_pairs m = concat (map (\<lambda>(k, vs). map (\<lambda>v. QueryEscape k @ ''='' @ QueryEscape v) vs) m)"

fun join_amp :: "string list \<Rightarrow> string" where
  "join_amp [] = []"
| "join_amp [x] = x"
| "join_amp (x # y # xs) = x @ ''&'' @ join_amp (y # xs)"

definition Values_Encode :: "url_values \<Rightarrow> string" where
  "Values_Encode m = join_amp (encode_pairs (sort_key fst m))"

section \<open>Relative references\<close>

text \<open>
  The loop of \<^verbatim>\<open>resolvePath\<close> over the elements of the path. What has been written
  after the leading slash is \<open>out\<close>; \<open>first\<close> says that no slash is due before the next
  element.
\<close>

fun resolve_elems :: "string list \<Rightarrow> string \<Rightarrow> bool \<Rightarrow> string" where
  "resolve_elems [] out first = out"
| "resolve_elems (e # es) out first =
     (if e = ''.'' then resolve_elems es out False
      else if e = ''..'' then
        (case LastIndexByte out CHR ''/'' of
           None \<Rightarrow> resolve_elems es [] True
         | Some i \<Rightarrow> resolve_elems es (take i out) first)
      else resolve_elems es (out @ (if first then [] else ''/'') @ e) False)"

definition resolvePath :: "string \<Rightarrow> string \<Rightarrow> string" where
  "resolvePath base ref =
     (let full = (if ref = [] then base
                  else if hd ref \<noteq> CHR ''/'' then
                    (case LastIndexByte base CHR ''/'' of None \<Rightarrow> [] | Some i \<Rightarrow> take (Suc i) base) @ ref
                  else ref)
      in if full = [] then []
         else
           let es = Split full CHR ''/'';
               r = ''/'' @ resolve_elems es [] True @ (if last es = ''.'' \<or> last es = ''..'' then ''/'' else [])
           in if length r > 1 \<and> r ! 1 = CHR ''/'' then tl r else r)"

definition set_path_to :: "string \<Rightarrow> url \<Rightarrow> url" where
  "set_path_to p u = (case setPath p u of None \<Rightarrow> u | Some v \<Rightarrow> v)"

definition ResolveReference :: "url \<Rightarrow> url \<Rightarrow> url" where
  "ResolveReference u ref =
     (let url0 = (if Scheme ref = [] then ref\<lparr>Scheme := Scheme u\<rparr> else ref) in
      if Scheme ref \<noteq> [] \<or> Host ref \<noteq> [] \<or> User ref \<noteq> None then
        set_path_to (resolvePath (EscapedPath ref) []) url0
      else if Opaque ref \<noteq> [] then url0\<lparr>User := None, Host := [], Path := []\<rparr>
      else
        let url1 = (if Path ref = [] \<and> \<not> ForceQuery ref \<and> RawQuery ref = [] then
              (let q = url0\<lparr>RawQuery := RawQuery u\<rparr>
               in if Fragment ref = [] then q\<lparr>Fragment := Fragment u, RawFragment := RawFragment u\<rparr> else q)
            else url0)
        in if Path ref = [] \<and> Opaque u \<noteq> [] then url1\<lparr>Opaque := Opaque u, User := None, Host := [], Path := []\<rparr>
           else set_path_to (resolvePath (EscapedPath u) (EscapedPath ref)) (url1\<lparr>Host := Host u, User := User u\<rparr>))"

section \<open>Escaping can be undone\<close>

lemma upper_hex_ok: "n < 16 \<Longrightarrow> is_hex (upper_hex n) \<and> unhex (upper_hex n) = n"
proof -
  assume n: "n < 16"
  then have "byte (upper_hex n) = (if n < 10 then 48 + n else 55 + n)" by (simp add: upper_hex_def)
  then show ?thesis using n by (auto simp: is_hex_def unhex_def is_digit_def)
qed

lemma unescape_Cons_plain:
  "c \<noteq> CHR ''%'' \<Longrightarrow> mode \<notin> {encodeHost, encodeZone} \<Longrightarrow>
   unescape mode (c # s) =
     map_option ((#) (if c = CHR ''+'' \<and> mode = encodeQueryComponent then CHR '' '' else c)) (unescape mode s)"
  by (subst unescape.simps) auto

lemma unescape_hex:
  "mode \<notin> {encodeHost, encodeZone} \<Longrightarrow>
   unescape mode (CHR ''%'' # upper_hex (byte c div 16) # upper_hex (byte c mod 16) # s) = map_option ((#) c) (unescape mode s)"
  by (subst unescape.simps) (simp add: upper_hex_ok hex_nibbles)

lemma unescape_escape:
  assumes "mode \<notin> {encodeHost, encodeZone}"
  shows "unescape mode (escape mode s) = Some s"
proof (induction s)
  case Nil
  show ?case by (simp add: unescape.simps)
next
  case (Cons c s)
  have p: "shouldEscape (CHR ''%'') mode" and q: "shouldEscape (CHR ''+'') encodeQueryComponent"
    by (simp_all add: shouldEscape_def is_alnum_def is_lower_def is_upper_def is_digit_def byte_def)
  show ?case
  proof (cases "c = CHR '' '' \<and> mode = encodeQueryComponent")
    case True
    then show ?thesis using Cons assms by (simp add: unescape_Cons_plain)
  next
    case False
    show ?thesis
    proof (cases "shouldEscape c mode")
      case True
      then show ?thesis using False Cons unescape_hex [OF assms, of c "escape mode s"] by auto
    next
      case plain: False
      then have "c \<noteq> CHR ''%''" "\<not> (c = CHR ''+'' \<and> mode = encodeQueryComponent)" using p q by auto
      then show ?thesis using False plain Cons assms by (auto simp: unescape_Cons_plain)
    qed
  qed
qed

lemma QueryUnescape_Escape: "QueryUnescape (QueryEscape s) = Some s"
  by (simp add: QueryUnescape_def QueryEscape_def unescape_escape)

lemma PathUnescape_Escape: "PathUnescape (PathEscape s) = Some s"
  by (simp add: PathUnescape_def PathEscape_def unescape_escape)

section \<open>Encoded queries parse\<close>

lemma QueryEscape_plain:
  assumes "c \<in> set (QueryEscape s)"
  shows "c \<noteq> CHR ''&'' \<and> c \<noteq> CHR '';'' \<and> c \<noteq> CHR ''=''"
proof -
  have hex: "upper_hex n \<noteq> CHR ''&'' \<and> upper_hex n \<noteq> CHR '';'' \<and> upper_hex n \<noteq> CHR ''=''" if "n < 16" for n
    using upper_hex_ok [OF that] by (auto simp: is_hex_def is_digit_def byte_def)
  have esc: "shouldEscape (CHR ''&'') encodeQueryComponent" "shouldEscape (CHR '';'') encodeQueryComponent"
    "shouldEscape (CHR ''='') encodeQueryComponent"
    by (simp_all add: shouldEscape_def is_alnum_def is_lower_def is_upper_def is_digit_def byte_def)
  show ?thesis using assms
  proof (induction s)
    case (Cons x s)
    then show ?case using hex [OF hex_nibbles(1) [of x]] hex [OF hex_nibbles(2) [of x]] esc
      by (auto simp: QueryEscape_def split: if_splits)
  qed (simp add: QueryEscape_def)
qed

lemma Split_join_amp:
  "xs \<noteq> [] \<Longrightarrow> \<forall>x \<in> set xs. CHR ''&'' \<notin> set x \<Longrightarrow> Split (join_amp xs) CHR ''&'' = xs"
  by (induction xs rule: join_amp.induct) (simp_all add: Split_absent Split_append)

lemma parse_part_encoded:
  "parse_part (QueryEscape k @ ''='' @ QueryEscape v) (m, bad) = (Values_append m k v, bad)"
proof -
  have n: "CHR '';'' \<notin> set (QueryEscape k @ ''='' @ QueryEscape v)" "CHR ''='' \<notin> set (QueryEscape k)"
    using QueryEscape_plain [of _ k] QueryEscape_plain [of _ v] by auto
  have "Cut (QueryEscape k @ ''='' @ QueryEscape v) ''='' = (QueryEscape k, QueryEscape v, True)"
    using Index_single [OF n(2), of "QueryEscape v"] by (simp add: Cut_def)
  moreover have "\<not> Contains (QueryEscape k @ ''='' @ QueryEscape v) '';''"
    using Index_absent [OF n(1)] by (simp add: Contains_def)
  ultimately show ?thesis by (simp add: parse_part_def QueryUnescape_Escape)
qed

lemma fold_parse_pairs:
  "fold parse_part (map (\<lambda>v. QueryEscape k @ ''='' @ QueryEscape v) vs) (m, bad) =
     (fold (\<lambda>v m. Values_append m k v) vs m, bad)"
  by (induction vs arbitrary: m) (simp_all add: parse_part_encoded [simplified])

lemma append_values_new:
  assumes "k \<notin> fst ` set m"
  shows "fold (\<lambda>v m. Values_append m k v) vs (m @ [(k, us)]) = m @ [(k, us @ vs)]"
proof (induction vs arbitrary: us)
  case (Cons v vs)
  have u: "AList.update k x (m @ [(k, us)]) = m @ [(k, x)]" for x
    using assms by (induction m) auto
  have "map_of (m @ [(k, us)]) k = Some us" using assms by (simp add: map_add_def map_of_eq_None_iff [THEN iffD2])
  then show ?case using Cons [of "us @ [v]"] u by (simp add: Values_append_def)
qed simp

lemma Values_append_first: "k \<notin> fst ` set m \<Longrightarrow> Values_append m k v = m @ [(k, [v])]"
proof -
  assume "k \<notin> fst ` set m"
  moreover from this have "map_of m k = None" by (simp add: map_of_eq_None_iff)
  moreover have "k \<notin> fst ` set m \<Longrightarrow> AList.update k x m = m @ [(k, x)]" for x by (induction m) auto
  ultimately show ?thesis by (simp add: Values_append_def)
qed

lemma parse_encoded_values:
  assumes "distinct (map fst m)" "\<forall>(k, vs) \<in> set m. vs \<noteq> []" "fst ` set m \<inter> fst ` set m0 = {}"
  shows "fold parse_part (encode_pairs m) (m0, False) = (m0 @ m, False)"
  using assms
proof (induction m arbitrary: m0)
  case (Cons p m)
  obtain k v vs where p: "p = (k, v # vs)" using Cons.prems(2) by (cases p) (auto simp: neq_Nil_conv)
  have k: "k \<notin> fst ` set m0" using Cons.prems(3) p by auto
  have "fold parse_part (map (\<lambda>v. QueryEscape k @ ''='' @ QueryEscape v) (v # vs)) (m0, False) = (m0 @ [p], False)"
    using append_values_new [OF k, of vs "[v]"] by (simp only: fold_parse_pairs) (simp add: Values_append_first [OF k] p)
  then show ?case
    using Cons.IH [of "m0 @ [p]"] Cons.prems p by (auto simp: encode_pairs_def)
qed (simp add: encode_pairs_def)

lemma ParseQuery_Encode:
  assumes "distinct (map fst m)" "\<forall>(k, vs) \<in> set m. vs \<noteq> []"
  shows "ParseQuery (Values_Encode m) = (sort_key fst m, False)"
proof -
  let ?ps = "encode_pairs (sort_key fst m)"
  have d: "distinct (map fst (sort_key fst m))" using assms(1) by (simp add: distinct_map)
  have F: "fold parse_part ?ps ([], False) = (sort_key fst m, False)"
    using parse_encoded_values [OF d, of "[]"] assms(2) by simp
  show ?thesis
  proof (cases "?ps = []")
    case True
    then have "sort_key fst m = []" using F by simp
    then show ?thesis by (simp add: ParseQuery_def Values_Encode_def True parse_part_def Contains_def encode_pairs_def)
  next
    case False
    have "CHR ''&'' \<notin> set x" if "x \<in> set ?ps" for x
      using that QueryEscape_plain by (fastforce simp: encode_pairs_def)
    then show ?thesis using F Split_join_amp [OF False] by (simp add: ParseQuery_def Values_Encode_def)
  qed
qed

end
