(* ===== verification/Pypi_Links.thy ===== *)
theory Pypi_Links
  imports Go_Query Go_Mime Go_Json Http_Policy
begin

text \<open>
  Names and links of the PyPI proxy (\<^verbatim>\<open>src/internal/pypiproxy/proxy.go\<close>): project and
  distribution names, origins, the rewriting of links in simple pages, and the resolution
  of a rewritten link back to the upstream file. The HTML parser and renderer of
  \<^verbatim>\<open>golang.org/x/net/html\<close> are parameters.
\<close>

section \<open>The proxy's configuration\<close>

record pypi_proxy =
  py_name :: string
  py_path :: string
  py_filePath :: string
  py_uploadPath :: string
  py_packagePath :: string
  py_upstream :: url
  py_proxySimpleBaseURL :: string
  py_proxyFileBaseURL :: string
  py_proxyPackageBaseURL :: string
  py_ttl :: int
  py_forwardAuthorization :: bool
  py_publishToken :: string
  py_allowedFileOrigins :: "string list"
  py_localPath :: "string list"

definition originKey :: "url \<Rightarrow> string" where
  "originKey value = ToLower (Scheme value) @ ''://'' @ ToLower (Hostname value) @ '':'' @ effectivePort value"

definition fileOriginAllowed :: "pypi_proxy \<Rightarrow> url \<Rightarrow> bool" where
  "fileOriginAllowed p target \<longleftrightarrow> originKey target \<in> set (py_allowedFileOrigins p)"

definition ensureTrailingSlash :: "string \<Rightarrow> string" where
  "ensureTrailingSlash s = (if s = [] then ''/'' else if \<not> HasSuffix s ''/'' then s @ ''/'' else s)"

section \<open>Names\<close>

text \<open>The loop of \<^verbatim>\<open>normalizeProjectName\<close>; \<open>None\<close> for a character that is not allowed.\<close>

fun normalize_loop :: "string \<Rightarrow> bool \<Rightarrow> string \<Rightarrow> string option" where
  "normalize_loop out separator [] = Some out"
| "normalize_loop out separator (c # s) =
     (if c = CHR ''-'' \<or> c = CHR ''_'' \<or> c = CHR ''.'' then normalize_loop out (out \<noteq> []) s
      else if \<not> is_lower c \<and> \<not> is_digit c then None
      else normalize_loop (out @ (if separator then ''-'' else []) @ [c]) False s)"

definition normalizeProjectName :: "string \<Rightarrow> string" where
  "normalizeProjectName name =
     (case normalize_loop [] False (TrimSpace (ToLower name)) of None \<Rightarrow> [] | Some n \<Rightarrow> n)"

definition safeDistributionFilename :: "string \<Rightarrow> bool" where
  "safeDistributionFilename f =
     (if f = [] \<or> CHR ''/'' \<in> set f \<or> CHR 0x5C \<in> set f \<or> HasPrefix f ''.'' then False
      else HasSuffix f ''.whl'' \<or> HasSuffix f ''.tar.gz'' \<or> HasSuffix f ''.zip'')"

definition simpleProject :: "pypi_proxy \<Rightarrow> string \<Rightarrow> string" where
  "simpleProject p requestPath =
     (let relative = Trim (TrimPrefix requestPath (py_path p)) ''/'' in
      if relative = [] \<or> Contains relative ''/'' then []
      else (case PathUnescape relative of None \<Rightarrow> [] | Some decoded \<Rightarrow> normalizeProjectName decoded))"

text \<open>The replacer of \<^verbatim>\<open>htmlEscape\<close>: every pattern is one byte.\<close>

definition escape_char :: "char \<Rightarrow> string" where
  "escape_char c =
     (if c = CHR ''&'' then ''&amp;'' else if c = CHR 0x22 then ''&#34;'' else if c = CHR 0x27 then ''&#39;''
      else if c = CHR ''<'' then ''&lt;'' else if c = CHR ''>'' then ''&gt;'' else [c])"

definition htmlEscape :: "string \<Rightarrow> string" where
  "htmlEscape value = concat (map escape_char value)"

definition isHTML :: "string \<Rightarrow> bool" where
  "isHTML contentType =
     (case ParseMediaType contentType of
        None \<Rightarrow> Contains (ToLower contentType) ''html''
      | Some mediaType \<Rightarrow> mediaType = ''text/html'' \<or> mediaType = ''application/vnd.pypi.simple.v1+html'')"

definition pypi_isJSON :: "string \<Rightarrow> bool" where
  "pypi_isJSON contentType =
     (case ParseMediaType contentType of
        None \<Rightarrow> Contains (ToLower contentType) ''json''
      | Some mediaType \<Rightarrow> mediaType = ''application/json'' \<or> HasSuffix mediaType ''+json'')"

section \<open>Rewriting links\<close>

definition sha256FromFragment :: "string \<Rightarrow> string" where
  "sha256FromFragment fragment =
     (case ParseQuery fragment of (values, bad) \<Rightarrow>
        if bad then []
        else let sha = ToLower (TrimSpace (Values_Get values ''sha256'')) in
             if length sha \<noteq> 64 then [] else if hex_DecodeString sha = None then [] else sha)"

definition isSimpleURL :: "pypi_proxy \<Rightarrow> url \<Rightarrow> bool" where
  "isSimpleURL p target \<longleftrightarrow> sameOrigin (Some target) (Some (py_upstream p)) \<and>
     HasPrefix (ensureTrailingSlash (EscapedPath target)) (ensureTrailingSlash (EscapedPath (py_upstream p)))"

definition proxySimpleURL :: "pypi_proxy \<Rightarrow> url \<Rightarrow> string \<Rightarrow> string" where
  "proxySimpleURL p target fragment =
     (let relative = TrimPrefix (EscapedPath target) (ensureTrailingSlash (EscapedPath (py_upstream p)))
      in py_proxySimpleBaseURL p @ ''/'' @ relative
         @ (if RawQuery target \<noteq> [] then ''?'' @ RawQuery target else [])
         @ (if fragment \<noteq> [] then ''#'' @ fragment else []))"

definition file_values :: "url \<Rightarrow> string \<Rightarrow> url_values" where
  "file_values target sha =
     (let values = [(''url'', [url_String (target\<lparr>Fragment := []\<rparr>)])]
      in if sha \<noteq> [] then Values_Set values ''sha256'' sha else values)"

definition file_name :: "url \<Rightarrow> string" where
  "file_name target =
     (let filename = path_Base (Path target)
      in if filename = ''.'' \<or> filename = ''/'' \<or> filename = [] then ''artifact'' else filename)"

definition proxyFileURL :: "pypi_proxy \<Rightarrow> url \<Rightarrow> string \<Rightarrow> string" where
  "proxyFileURL p target fragment =
     py_proxyFileBaseURL p @ ''/'' @ PathEscape (file_name target) @ ''?''
     @ Values_Encode (file_values target (sha256FromFragment fragment))
     @ (if fragment \<noteq> [] then ''#'' @ fragment else [])"

definition rewriteHref :: "pypi_proxy \<Rightarrow> string \<Rightarrow> url \<Rightarrow> string" where
  "rewriteHref p raw pageURL =
     (case url_Parse (TrimSpace raw) of
        None \<Rightarrow> raw
      | Some link \<Rightarrow>
          if Scheme link = ''mailto'' \<or> Scheme link = ''data'' then raw
          else
            let resolved0 = ResolveReference pageURL link; fragment = Fragment resolved0;
                resolved = resolved0\<lparr>Fragment := []\<rparr>
            in if isSimpleURL p resolved then proxySimpleURL p resolved fragment
               else if fileOriginAllowed p resolved then proxyFileURL p resolved fragment
               else raw)"

definition rewriteJSONHref :: "pypi_proxy \<Rightarrow> string \<Rightarrow> string \<Rightarrow> url \<Rightarrow> string" where
  "rewriteJSONHref p raw sha pageURL =
     (if sha = [] then rewriteHref p raw pageURL
      else (case url_Parse (TrimSpace raw) of
        None \<Rightarrow> rewriteHref p raw pageURL
      | Some link \<Rightarrow>
          let resolved = ResolveReference pageURL link in
          if \<not> fileOriginAllowed p resolved then rewriteHref p raw pageURL
          else
            let existing = sha256FromFragment (Fragment resolved) in
            if existing \<noteq> [] \<and> existing \<noteq> sha then raw
            else
              let fragment = (case ParseQuery (Fragment link) of (m, bad) \<Rightarrow> if bad then [] else m);
                  link' = (if existing = []
                           then link\<lparr>Fragment := Values_Encode (Values_Set fragment ''sha256'' sha)\<rparr> else link)
              in rewriteHref p (url_String link') pageURL))"

text \<open>
  Decoding into \<^verbatim>\<open>any\<close> makes a map of an object, where the last of equal keys counts,
  and \<^verbatim>\<open>json.Marshal\<close> writes the keys in order. Only the first value of the text is
  decoded; Go's limit of 10000 nested values is not modelled.
\<close>

fun json_any :: "json \<Rightarrow> json" where
  "json_any (JArr vs) = JArr (map json_any vs)"
| "json_any (JObj ms) = JObj (sort_key fst (fold (\<lambda>p m. AList.update (fst p) (snd p) m)
     (map (\<lambda>p. (fst p, json_any (snd p))) ms) []))"
| "json_any j = j"

definition json_decode_any :: "string \<Rightarrow> json option" where
  "json_decode_any s = map_option (\<lambda>(j, _). json_any j) (parse_value (length s + 1) s)"

definition object_sha :: "(string \<times> json) list \<Rightarrow> string" where
  "object_sha ms =
     (case map_of ms ''hashes'' of
        Some (JObj hs) \<Rightarrow>
          (case map_of hs ''sha256'' of Some (JStr raw) \<Rightarrow> sha256FromFragment (''sha256='' @ raw) | _ \<Rightarrow> [])
      | _ \<Rightarrow> [])"

fun is_string :: "json \<Rightarrow> bool" where
  "is_string (JStr _) \<longleftrightarrow> True"
| "is_string _ \<longleftrightarrow> False"

fun rewriteJSONValue :: "pypi_proxy \<Rightarrow> url \<Rightarrow> json \<Rightarrow> json" where
  "rewriteJSONValue p page (JObj ms) =
     JObj (map (\<lambda>m. (fst m,
        if EqualFold (fst m) ''url'' \<and> is_string (snd m)
        then (case snd m of JStr raw \<Rightarrow> JStr (rewriteJSONHref p raw (object_sha ms) page) | v \<Rightarrow> v)
        else rewriteJSONValue p page (snd m))) ms)"
| "rewriteJSONValue p page (JArr vs) = JArr (map (rewriteJSONValue p page) vs)"
| "rewriteJSONValue p page j = j"

datatype html_node = HtmlNode (is_element: bool) (node_data: string) (node_attrs: "(string \<times> string) list")
  (node_children: "html_node list")

fun rewriteHTMLNode :: "pypi_proxy \<Rightarrow> url \<Rightarrow> html_node \<Rightarrow> html_node" where
  "rewriteHTMLNode p page (HtmlNode el data attrs children) =
     HtmlNode el data
       (if el \<and> data = ''a''
        then map (\<lambda>(k, v). (k, if EqualFold k ''href'' then rewriteHref p v page else v)) attrs else attrs)
       (map (rewriteHTMLNode p page) children)"

text \<open>The HTML library: parsing may fail, and so may rendering.\<close>

record html_library =
  html_Parse :: "string \<Rightarrow> html_node option"
  html_Render :: "html_node \<Rightarrow> string option"

definition rewriteSimple :: "html_library \<Rightarrow> pypi_proxy \<Rightarrow> string \<Rightarrow> string \<Rightarrow> url \<Rightarrow> string option" where
  "rewriteSimple lib p body contentType pageURL =
     (if pypi_isJSON contentType then
        map_option (\<lambda>v. json_print (rewriteJSONValue p pageURL v)) (json_decode_any body)
      else if isHTML contentType then
        (case html_Parse lib body of
           None \<Rightarrow> None
         | Some document \<Rightarrow> html_Render lib (rewriteHTMLNode p pageURL document))
      else Some body)"

definition rewrittenLocation :: "string \<Rightarrow> url \<Rightarrow> url \<Rightarrow> string \<Rightarrow> string" where
  "rewrittenLocation raw pageURL upstream proxySimpleBaseURL =
     (if raw = [] then []
      else (case url_Parse raw of
        None \<Rightarrow> []
      | Some location \<Rightarrow>
          let resolved = ResolveReference pageURL location in
          if \<not> sameOrigin (Some resolved) (Some upstream) then raw
          else
            let upstreamPath = ensureTrailingSlash (EscapedPath upstream) in
            if \<not> HasPrefix (ensureTrailingSlash (EscapedPath resolved)) upstreamPath then raw
            else
              let relative = TrimPrefix (EscapedPath resolved) upstreamPath
              in proxySimpleBaseURL @ ''/'' @ relative
                 @ (if RawQuery resolved \<noteq> [] then ''?'' @ RawQuery resolved else [])
                 @ (if Fragment resolved \<noteq> [] then ''#'' @ Fragment resolved else [])))"

section \<open>Resolving links\<close>

definition simpleTargetURL :: "pypi_proxy \<Rightarrow> url \<Rightarrow> url option" where
  "simpleTargetURL p requestURL =
     (let relativePath = TrimPrefix (EscapedPath requestURL) (py_path p)
      in case url_Parse (TrimRight (url_String (py_upstream p)) ''/'' @ ''/'' @ relativePath) of
           None \<Rightarrow> None
         | Some target \<Rightarrow> Some (target\<lparr>RawQuery := RawQuery requestURL\<rparr>))"

datatype file_url_error =
    MissingURL | NotAbsolute | NotHTTP | UserinfoOrFragment | OriginNotAllowed | ShaLength | ShaHex

definition fileTargetURL :: "pypi_proxy \<Rightarrow> url \<Rightarrow> file_url_error + url \<times> string" where
  "fileTargetURL p requestURL =
     (let query = url_Query requestURL; raw = Values_Get query ''url'' in
      if raw = [] then Inl MissingURL
      else (case url_Parse raw of
        None \<Rightarrow> Inl NotAbsolute
      | Some target \<Rightarrow>
          if Scheme target = [] \<or> Host target = [] then Inl NotAbsolute
          else if Scheme target \<noteq> ''http'' \<and> Scheme target \<noteq> ''https'' then Inl NotHTTP
          else if User target \<noteq> None \<or> Fragment target \<noteq> [] then Inl UserinfoOrFragment
          else if \<not> fileOriginAllowed p target then Inl OriginNotAllowed
          else
            let proxyMetadataRequest = HasSuffix (path_Base (Path requestURL)) ''.metadata'';
                targetMetadataRequest = HasSuffix (path_Base (Path target)) ''.metadata'';
                target' = (if proxyMetadataRequest \<and> \<not> targetMetadataRequest then
                   target\<lparr>Path := Path target @ ''.metadata'',
                     RawPath := if RawPath target \<noteq> [] then RawPath target @ ''.metadata'' else []\<rparr> else target);
                expectedSHA256 = (if proxyMetadataRequest \<or> targetMetadataRequest then []
                   else ToLower (TrimSpace (Values_Get query ''sha256'')))
            in if expectedSHA256 \<noteq> [] \<and> length expectedSHA256 \<noteq> 64 then Inl ShaLength
               else if expectedSHA256 \<noteq> [] \<and> hex_DecodeString expectedSHA256 = None then Inl ShaHex
               else Inr (target', expectedSHA256)))"

end
