(* ===== verification/Go_Base64.thy ===== *)
theory Go_Base64
  imports Go_Strings
begin

text \<open>
  Go's \<^verbatim>\<open>base64.StdEncoding\<close>: line breaks are skipped, padding is required, and the bits
  of the last group that no byte needs are ignored. Decoding undoes encoding.
\<close>

definition b64_value :: "char \<Rightarrow> nat option" where
  "b64_value c =
     (if is_upper c then Some (byte c - 65) else if is_lower c then Some (byte c - 71)
      else if is_digit c then Some (byte c + 4) else if c = CHR ''+'' then Some 62
      else if c = CHR ''/'' then Some 63 else None)"

definition b64_char :: "nat \<Rightarrow> char" where
  "b64_char n =
     (if n < 26 then char_of (n + 65) else if n < 52 then char_of (n + 71) else if n < 62 then char_of (n - 4)
      else if n = 62 then CHR ''+'' else CHR ''/'')"

fun b64_groups :: "string \<Rightarrow> string option" where
  "b64_groups [] = Some []"
| "b64_groups (a # b # c # d # s) =
     (case (b64_value a, b64_value b) of
        (Some va, Some vb) \<Rightarrow>
          let x = char_of (4 * va + vb div 16) in
          (case b64_value c of
             None \<Rightarrow> if c = CHR ''='' \<and> d = CHR ''='' \<and> s = [] then Some [x] else None
           | Some vc \<Rightarrow>
               let y = char_of (16 * (vb mod 16) + vc div 4) in
               (case b64_value d of
                  None \<Rightarrow> if d = CHR ''='' \<and> s = [] then Some [x, y] else None
                | Some vd \<Rightarrow>
                    map_option (\<lambda>r. x # y # char_of (64 * (vc mod 4) + vd) # r) (b64_groups s)))
      | _ \<Rightarrow> None)"
| "b64_groups _ = None"

definition base64_DecodeString :: "string \<Rightarrow> string option" where
  "base64_DecodeString s = b64_groups (filter (\<lambda>c. c \<noteq> CHR 0x0A \<and> c \<noteq> CHR 0x0D) s)"

fun base64_EncodeToString :: "string \<Rightarrow> string" where
  "base64_EncodeToString [] = []"
| "base64_EncodeToString [x] = [b64_char (byte x div 4), b64_char (16 * (byte x mod 4)), CHR ''='', CHR ''='']"
| "base64_EncodeToString [x, y] =
     [b64_char (byte x div 4), b64_char (16 * (byte x mod 4) + byte y div 16), b64_char (4 * (byte y mod 16)), CHR ''='']"
| "base64_EncodeToString (x # y # z # s) =
     b64_char (byte x div 4) # b64_char (16 * (byte x mod 4) + byte y div 16)
     # b64_char (4 * (byte y mod 16) + byte z div 64) # b64_char (byte z mod 64) # base64_EncodeToString s"

lemma b64_value_char: "n < 64 \<Longrightarrow> b64_value (b64_char n) = Some n"
proof -
  assume n: "n < 64"
  consider "n < 26" | "26 \<le> n" "n < 52" | "52 \<le> n" "n < 62" | "n = 62" | "n = 63" using n by linarith
  then show ?thesis
  proof cases
    case 1
    then have "byte (b64_char n) = n + 65" by (simp add: b64_char_def)
    then show ?thesis using 1 by (simp add: b64_value_def is_upper_def)
  next
    case 2
    then have "byte (b64_char n) = n + 71" by (simp add: b64_char_def)
    then show ?thesis using 2 by (simp add: b64_value_def is_upper_def is_lower_def)
  next
    case 3
    then have "byte (b64_char n) = n - 4" by (simp add: b64_char_def)
    then show ?thesis using 3 by (simp add: b64_value_def is_upper_def is_lower_def is_digit_def) arith
  qed (simp_all add: b64_char_def b64_value_def is_upper_def is_lower_def is_digit_def byte_def)
qed

lemma b64_value_pad: "b64_value CHR ''='' = None"
  by (simp add: b64_value_def is_upper_def is_lower_def is_digit_def byte_def)

lemma byte_parts:
  "byte x div 4 < 64" "16 * (byte x mod 4) + byte y div 16 < 64" "4 * (byte y mod 16) + byte z div 64 < 64"
  "4 * (byte y mod 16) < 64" "16 * (byte x mod 4) < 64"
  using byte_less [of x] byte_less [of y] byte_less [of z] by linarith+

lemma b64_groups_encode: "b64_groups (base64_EncodeToString s) = Some s"
proof -
  have q: "(16 * a + b) div 16 = a" "(16 * a + b) mod 16 = b" if "b < 16" for a b :: nat using that by simp_all
  have r: "(4 * a + b) div 4 = a" "(4 * a + b) mod 4 = b" if "b < 4" for a b :: nat using that by simp_all
  have d: "byte y div 16 < 16" "byte z div 64 < 4" for y z using byte_less [of y] byte_less [of z] by linarith+
  show ?thesis
    by (induction s rule: base64_EncodeToString.induct)
      (simp_all add: b64_value_char b64_value_pad byte_parts q r d)
qed

lemma b64_char_plain: "b64_char n \<noteq> CHR 0x0A \<and> b64_char n \<noteq> CHR 0x0D"
proof -
  have "byte (b64_char n) \<ge> 43" by (auto simp: b64_char_def byte_def)
  then show ?thesis by (auto simp: byte_def)
qed

lemma base64_Decode_Encode: "base64_DecodeString (base64_EncodeToString s) = Some s"
proof -
  have "filter (\<lambda>c. c \<noteq> CHR 0x0A \<and> c \<noteq> CHR 0x0D) (base64_EncodeToString s) = base64_EncodeToString s"
    by (induction s rule: base64_EncodeToString.induct) (simp_all add: b64_char_plain)
  then show ?thesis by (simp add: base64_DecodeString_def b64_groups_encode)
qed

end
