(* ===== verification/Pypi_Private.thy ===== *)
theory Pypi_Private
  imports Pypi_Links Go_Base64 Proxy_Runtime
begin

text \<open>
  Private packages of the PyPI proxy (\<^verbatim>\<open>src/internal/pypiproxy/proxy.go\<close>): who may
  publish, how an upload becomes a release, the index of a project, and the download of a
  release. Releases live in the file system of the cache, below a directory of their own.
\<close>

section \<open>The file system calls that publishing needs\<close>

text \<open>\<^verbatim>\<open>os.Link\<close>: a second name for a file, never over an existing name.\<close>

datatype link_error = LinkExists | LinkFailed os_error

definition os_Link :: "path \<Rightarrow> path \<Rightarrow> fs \<Rightarrow> link_error option \<times> fs" where
  "os_Link p q f =
     (case next_fault f of
        Some e \<Rightarrow> (Some (LinkFailed e), tick f)
      | None \<Rightarrow>
          (case node_at f p of
             Some (Regular d t) \<Rightarrow>
               if node_at f q \<noteq> None then (Some LinkExists, tick f) else (None, set_node q (Regular d t) (tick f))
           | Some Directory \<Rightarrow> (Some (LinkFailed OtherError), tick f)
           | None \<Rightarrow> (Some (LinkFailed NotExist), tick f)))"

text \<open>\<^verbatim>\<open>os.WriteFile\<close>: open and truncate, write, close; a failing write leaves an empty file.\<close>

definition os_WriteFile :: "path \<Rightarrow> string \<Rightarrow> int \<Rightarrow> fs \<Rightarrow> os_error option \<times> fs" where
  "os_WriteFile p d now f =
     (case next_fault f of
        Some e \<Rightarrow> (Some e, tick f)
      | None \<Rightarrow>
          if node_at f p = Some Directory then (Some OtherError, tick f)
          else if node_at f (butlast p) \<noteq> Some Directory then (Some NotExist, tick f)
          else (case file_Write p d now (set_node p (Regular [] now) (tick f)) of
            (Some e, f2) \<Rightarrow> (Some e, snd (sys_plain f2))
          | (None, f2) \<Rightarrow> sys_plain f2))"

text \<open>\<^verbatim>\<open>os.ReadDir\<close>: the entries of a directory by name.\<close>

definition os_ReadDir :: "path \<Rightarrow> fs \<Rightarrow> (os_error + (string \<times> node) list) \<times> fs" where
  "os_ReadDir p f =
     (case next_fault f of
        Some e \<Rightarrow> (Inl e, tick f)
      | None \<Rightarrow>
          (case node_at f p of
             None \<Rightarrow> (Inl NotExist, tick f)
           | Some (Regular _ _) \<Rightarrow> (Inl OtherError, tick f)
           | Some Directory \<Rightarrow>
               (Inr (map (\<lambda>q. (last q, the (node_at f q)))
                  (filter (\<lambda>q. length q = Suc (length p)) (walk_list p f))), tick f)))"

text \<open>\<^verbatim>\<open>io.Copy\<close> from a source to an open file, and the error that ends it.\<close>

datatype copy_error = CopyRead string | CopyWrite os_error

fun copy_file :: "path \<Rightarrow> int \<Rightarrow> string list \<Rightarrow> string option \<Rightarrow> fs \<Rightarrow> copy_error option \<times> fs" where
  "copy_file p now [] er f = (map_option CopyRead er, f)"
| "copy_file p now (c # cs) er f =
     (case file_Write p c now f of
        (Some e, f1) \<Rightarrow> (Some (CopyWrite e), f1)
      | (None, f1) \<Rightarrow> copy_file p now cs er f1)"

section \<open>Who may publish\<close>

definition authorizedUpload :: "pypi_proxy \<Rightarrow> string \<Rightarrow> bool" where
  "authorizedUpload p header =
     (if py_publishToken p = [] \<or> header = [] then False
      else (case Cut header '' '' of (scheme, credentials, ok) \<Rightarrow>
        if \<not> ok then False
        else if ToLower scheme = ''bearer'' then credentials = py_publishToken p
        else if ToLower scheme = ''basic'' then
          (case base64_DecodeString credentials of
             None \<Rightarrow> False
           | Some decoded \<Rightarrow>
               (case Cut decoded '':'' of (_, provided, ok') \<Rightarrow> ok' \<and> provided = py_publishToken p))
        else False))"

section \<open>Releases\<close>

record localPackage =
  lp_Filename :: string
  lp_Hash :: string
  lp_Size :: int
  lp_RequiresPython :: string
  lp_UploadedAt :: int

definition package_json :: "string \<Rightarrow> localPackage \<Rightarrow> json" where
  "package_json uploaded k =
     JObj ([(''filename'', JStr (lp_Filename k)), (''sha256'', JStr (lp_Hash k)), (''size'', JNum (FormatInt (lp_Size k)))]
       @ (if lp_RequiresPython k = [] then [] else [(''requires_python'', JStr (lp_RequiresPython k))])
       @ [(''uploaded_at'', JStr uploaded)])"

definition marshal_package :: "localPackage \<Rightarrow> string option" where
  "marshal_package k = map_option (\<lambda>t. json_print (package_json t k)) (time_Format (lp_UploadedAt k))"

definition zero_package :: localPackage where
  "zero_package = \<lparr>lp_Filename = [], lp_Hash = [], lp_Size = 0, lp_RequiresPython = [], lp_UploadedAt = 0\<rparr>"

definition package_field :: "string \<Rightarrow> json \<Rightarrow> localPackage \<Rightarrow> localPackage option" where
  "package_field n v k =
     (if EqualFold n ''filename'' then map_option (\<lambda>x. k\<lparr>lp_Filename := x\<rparr>) (decode_string v (lp_Filename k))
      else if EqualFold n ''sha256'' then map_option (\<lambda>x. k\<lparr>lp_Hash := x\<rparr>) (decode_string v (lp_Hash k))
      else if EqualFold n ''size'' then map_option (\<lambda>x. k\<lparr>lp_Size := x\<rparr>) (decode_int v (lp_Size k))
      else if EqualFold n ''requires_python'' then
        map_option (\<lambda>x. k\<lparr>lp_RequiresPython := x\<rparr>) (decode_string v (lp_RequiresPython k))
      else if EqualFold n ''uploaded_at'' then map_option (\<lambda>x. k\<lparr>lp_UploadedAt := x\<rparr>) (decode_time v (lp_UploadedAt k))
      else Some k)"

fun package_fields :: "(string \<times> json) list \<Rightarrow> localPackage \<Rightarrow> localPackage option" where
  "package_fields [] k = Some k"
| "package_fields ((n, v) # ms) k =
     (case package_field n v k of None \<Rightarrow> None | Some k' \<Rightarrow> package_fields ms k')"

definition unmarshal_package :: "string \<Rightarrow> localPackage option" where
  "unmarshal_package s =
     (case json_parse s of
        Some (JObj ms) \<Rightarrow> package_fields ms zero_package
      | Some JNull \<Rightarrow> Some zero_package
      | _ \<Rightarrow> None)"

text \<open>\<^verbatim>\<open>filepath.Join(p.localPath, project)\<close>; joining an empty name adds nothing.\<close>

definition localProjectPath :: "pypi_proxy \<Rightarrow> string \<Rightarrow> path" where
  "localProjectPath p project = py_localPath p @ (if project = [] then [] else [project])"

text \<open>
  What an upload takes from its environment: the numbers of the temporary name, the time of
  the writes and the time stamped, the wait for the lock of the release, the free bytes,
  and the request's body as \<^verbatim>\<open>ParseMultipartForm\<close> reads it: its declared length, the
  bytes that reading it takes, and, unless it is malformed, the values and the file of the
  field \<^verbatim>\<open>content\<close>.
\<close>

record upload_file =
  uf_Filename :: string
  uf_source :: "os_error + reader"

record upload_env =
  ue_rnd :: "nat list"
  ue_write :: int
  ue_now :: int
  ue_wait :: "world \<Rightarrow> world"
  ue_free :: "os_error + int"
  ue_ContentLength :: int
  ue_length :: int
  ue_form :: "(url_values \<times> upload_file option) option"

datatype store_error = UnsafeName | ReleaseExists | StoreOs os_error | StoreCopy copy_error | StoreEncode

text \<open>From the temporary file to the release; the temporary is removed by the caller.\<close>

definition store_temp ::
  "upload_env \<Rightarrow> path \<Rightarrow> path \<Rightarrow> string \<Rightarrow> string \<Rightarrow> reader \<Rightarrow> fs \<Rightarrow> (store_error + localPackage) \<times> fs" where
  "store_temp env temp directory filename requiresPython source f0 =
     (let target = directory @ [filename]; data = concat (chunks source) in
      case copy_file temp (ue_write env) (chunks source) (read_error source) f0 of
        (Some e, f1) \<Rightarrow> (Inl (StoreCopy e), snd (sys_plain f1))
      | (None, f1) \<Rightarrow>
      case sys_plain f1 of
        (Some e, f2) \<Rightarrow> (Inl (StoreOs e), snd (sys_plain f2))
      | (None, f2) \<Rightarrow>
      case sys_plain f2 of
        (Some e, f3) \<Rightarrow> (Inl (StoreOs e), f3)
      | (None, f3) \<Rightarrow>
      case sys_plain f3 of
        (Some e, f4) \<Rightarrow> (Inl (StoreOs e), f4)
      | (None, f4) \<Rightarrow>
      case os_Link temp target f4 of
        (Some LinkExists, f5) \<Rightarrow> (Inl ReleaseExists, f5)
      | (Some (LinkFailed e), f5) \<Rightarrow> (Inl (StoreOs e), f5)
      | (None, f5) \<Rightarrow>
      case os_Remove temp f5 of
        (Some e, f6) \<Rightarrow> (Inl (StoreOs e), snd (os_Remove target f6))
      | (None, f6) \<Rightarrow>
          let pkg = \<lparr>lp_Filename = filename, lp_Hash = hex_EncodeToString (sha256_Sum256 data), lp_Size = int (length data),
                lp_RequiresPython = requiresPython, lp_UploadedAt = ue_now env\<rparr>
          in (case marshal_package pkg of
                None \<Rightarrow> (Inl StoreEncode, f6)
              | Some js \<Rightarrow>
                  (case os_WriteFile (directory @ [filename @ ''.json'']) js (ue_write env) f6 of
                     (Some e, f7) \<Rightarrow> (Inl (StoreOs e), snd (os_Remove target f7))
                   | (None, f7) \<Rightarrow> (Inr pkg, f7))))"

definition store_locked ::
  "upload_env \<Rightarrow> path \<Rightarrow> string \<Rightarrow> string \<Rightarrow> reader \<Rightarrow> fs \<Rightarrow> (store_error + localPackage) \<times> fs" where
  "store_locked env directory filename requiresPython source f =
     (case os_MkdirAll directory f of
        (Some e, f1) \<Rightarrow> (Inl (StoreOs e), f1)
      | (None, f1) \<Rightarrow>
      case os_Stat (directory @ [filename]) f1 of
        (Inr _, f2) \<Rightarrow> (Inl ReleaseExists, f2)
      | (Inl e, f2) \<Rightarrow>
      if e \<noteq> NotExist then (Inl (StoreOs e), f2)
      else (case os_CreateTemp directory ''.upload-'' (ue_rnd env) (ue_write env) f2 of
        (Inl e, f3) \<Rightarrow> (Inl (StoreOs e), f3)
      | (Inr temp, f3) \<Rightarrow>
          (case store_temp env temp directory filename requiresPython source f3 of
             (r, f4) \<Rightarrow> (r, snd (os_Remove temp f4)))))"

definition storeLocalPackage ::
  "pypi_proxy \<Rightarrow> upload_env \<Rightarrow> string \<Rightarrow> string \<Rightarrow> string \<Rightarrow> reader \<Rightarrow> world \<Rightarrow> (store_error + localPackage) \<times> world" where
  "storeLocalPackage p env project filename requiresPython source w0 =
     (if project = [] \<or> normalizeProjectName project \<noteq> project \<or> \<not> safeDistributionFilename filename
      then (Inl UnsafeName, w0)
      else
        let w = ue_wait env w0 in
        case store_locked env (localProjectPath p project) filename requiresPython source (w_fs w) of
          (r, f) \<Rightarrow> (r, w\<lparr>w_fs := f\<rparr>))"

section \<open>The index of a project\<close>

text \<open>Open a file, hash what can be read, and close it.\<close>

definition hash_file :: "path \<Rightarrow> fs \<Rightarrow> (os_error + string) \<times> fs" where
  "hash_file p f =
     (case os_Stat p f of
        (Inl e, f1) \<Rightarrow> (Inl e, f1)
      | (Inr n, f1) \<Rightarrow>
          (case (next_fault f1, n) of
             (Some e, _) \<Rightarrow> (Inl e, snd (sys_plain (tick f1)))
           | (None, Directory) \<Rightarrow> (Inl OtherError, snd (sys_plain (tick f1)))
           | (None, Regular d _) \<Rightarrow>
               (case sys_plain (tick f1) of (Some e, f2) \<Rightarrow> (Inl e, f2) | (None, f2) \<Rightarrow> (Inr d, f2))))"

datatype index_error = IndexOs os_error | IndexDecode

definition package_of :: "path \<Rightarrow> string \<Rightarrow> fs \<Rightarrow> (index_error + localPackage) \<times> fs" where
  "package_of directory name f =
     (case os_ReadFile (directory @ [name @ ''.json'']) f of
        (Inr data, f1) \<Rightarrow>
          (case unmarshal_package data of None \<Rightarrow> (Inl IndexDecode, f1) | Some k \<Rightarrow> (Inr k, f1))
      | (Inl e, f1) \<Rightarrow>
          if e \<noteq> NotExist then (Inl (IndexOs e), f1)
          else (case hash_file (directory @ [name]) f1 of
            (Inl e, f2) \<Rightarrow> (Inl (IndexOs e), f2)
          | (Inr d, f2) \<Rightarrow>
              (Inr (zero_package\<lparr>lp_Filename := name, lp_Hash := hex_EncodeToString (sha256_Sum256 d),
                 lp_Size := int (length d)\<rparr>), f2)))"

fun packages_loop ::
  "path \<Rightarrow> (string \<times> node) list \<Rightarrow> localPackage list \<Rightarrow> fs \<Rightarrow> (index_error + localPackage list) \<times> fs" where
  "packages_loop directory [] acc f = (Inr acc, f)"
| "packages_loop directory ((name, n) # es) acc f =
     (if n = Directory \<or> HasSuffix name ''.json'' \<or> \<not> safeDistributionFilename name
      then packages_loop directory es acc f
      else (case package_of directory name f of
        (Inl e, f1) \<Rightarrow> (Inl e, f1)
      | (Inr k, f1) \<Rightarrow> packages_loop directory es (acc @ [k]) f1))"

text \<open>\<^verbatim>\<open>sort.Slice\<close> leaves the order of equal names open; here they keep their order.\<close>

definition localPackages :: "pypi_proxy \<Rightarrow> string \<Rightarrow> fs \<Rightarrow> (index_error + localPackage list) \<times> fs" where
  "localPackages p project f =
     (case os_ReadDir (localProjectPath p project) f of
        (Inl e, f1) \<Rightarrow> if e = NotExist then (Inr [], f1) else (Inl (IndexOs e), f1)
      | (Inr es, f1) \<Rightarrow>
          (case packages_loop (localProjectPath p project) es [] f1 of
             (Inl e, f2) \<Rightarrow> (Inl e, f2)
           | (Inr ks, f2) \<Rightarrow> (Inr (sort_key lp_Filename ks), f2)))"

definition localPackageURL :: "pypi_proxy \<Rightarrow> string \<Rightarrow> localPackage \<Rightarrow> string" where
  "localPackageURL p project k =
     py_proxyPackageBaseURL p @ ''/'' @ PathEscape project @ ''/'' @ PathEscape (lp_Filename k) @ ''#sha256='' @ lp_Hash k"

text \<open>The file of a release in the JSON index; Go writes the keys of a map in order.\<close>

definition index_file :: "pypi_proxy \<Rightarrow> string \<Rightarrow> localPackage \<Rightarrow> json" where
  "index_file p project k =
     JObj ([(''filename'', JStr (lp_Filename k)), (''hashes'', JObj [(''sha256'', JStr (lp_Hash k))])]
       @ (if lp_RequiresPython k = [] then [] else [(''requires-python'', JStr (lp_RequiresPython k))])
       @ [(''url'', JStr (localPackageURL p project k))])"

definition index_json :: "pypi_proxy \<Rightarrow> string \<Rightarrow> localPackage list \<Rightarrow> json" where
  "index_json p project ks =
     JObj [(''files'', JArr (map (index_file p project) ks)), (''meta'', JObj [(''api-version'', JStr ''1.0'')]),
       (''name'', JStr project)]"

definition index_anchor :: "pypi_proxy \<Rightarrow> string \<Rightarrow> localPackage \<Rightarrow> string" where
  "index_anchor p project k =
     ''<a href='' @ [CHR 0x22] @ htmlEscape (localPackageURL p project k) @ [CHR 0x22]
     @ (if lp_RequiresPython k = [] then []
        else '' data-requires-python='' @ [CHR 0x22] @ htmlEscape (lp_RequiresPython k) @ [CHR 0x22])
     @ ''>'' @ htmlEscape (lp_Filename k) @ ''</a>'' @ [CHR 0x0A]"

definition index_html :: "pypi_proxy \<Rightarrow> string \<Rightarrow> localPackage list \<Rightarrow> string" where
  "index_html p project ks =
     ''<!doctype html><html><body>'' @ [CHR 0x0A] @ concat (map (index_anchor p project) ks)
     @ ''</body></html>'' @ [CHR 0x0A]"

definition serveLocalProject :: "pypi_proxy \<Rightarrow> proxy_request \<Rightarrow> string \<Rightarrow> localPackage list \<Rightarrow> reply \<Rightarrow> reply" where
  "serveLocalProject p req project ks w =
     (let w1 = rp_Set ''X-N0ding-Cache'' ''LOCAL'' (rp_Set ''Cache-Control'' ''no-store'' w) in
      if Contains (Get (pr_header req) ''Accept'') ''application/vnd.pypi.simple.v1+json'' then
        let w2 = rp_Set ''Content-Type'' ''application/vnd.pypi.simple.v1+json'' w1
        in if pr_method req = ''HEAD'' then w2
           else rp_Write (json_print (index_json p project ks) @ [CHR 0x0A]) w2
      else
        let w2 = rp_Set ''Content-Type'' ''application/vnd.pypi.simple.v1+html; charset=utf-8'' w1
        in if pr_method req = ''HEAD'' then w2 else rp_Write (index_html p project ks) w2)"

section \<open>Downloads\<close>

text \<open>
  \<^verbatim>\<open>http.ServeContent\<close>, with ranges and conditions, is a parameter: a function of the
  request's header and method, the name, the modification time, the bytes and the reply.
\<close>

type_synonym serve_content = "string \<Rightarrow> header \<Rightarrow> string \<Rightarrow> int \<Rightarrow> string \<Rightarrow> reply \<Rightarrow> reply"

text \<open>Which release a request path names, if any.\<close>

definition local_file :: "pypi_proxy \<Rightarrow> string \<Rightarrow> (string \<times> string) option" where
  "local_file p requestPath =
     (case Cut (TrimPrefix requestPath (py_packagePath p)) ''/'' of (escapedProject, escapedFilename, ok) \<Rightarrow>
        if \<not> ok \<or> Contains escapedFilename ''/'' then None
        else (case (PathUnescape escapedProject, PathUnescape escapedFilename) of
          (Some project, Some filename) \<Rightarrow>
            if normalizeProjectName project \<noteq> project \<or> \<not> safeDistributionFilename filename then None
            else Some (project, filename)
        | _ \<Rightarrow> None))"

definition serveLocalFile ::
  "pypi_proxy \<Rightarrow> serve_content \<Rightarrow> proxy_request \<Rightarrow> reply \<Rightarrow> proxy_state \<Rightarrow> reply \<times> proxy_state" where
  "serveLocalFile p serveContent req w st =
     (if pr_method req \<noteq> ''GET'' \<and> pr_method req \<noteq> ''HEAD'' then
        (rp_Error ''method not allowed'' 405 (rp_Set ''Allow'' ''GET, HEAD'' w), st)
      else (case local_file p (Path (pr_url req)) of
        None \<Rightarrow> (rp_NotFound w, st)
      | Some (project, filename) \<Rightarrow>
          let path = localProjectPath p project @ [filename]; world = ps_world st in
          (case os_Stat path (w_fs world) of
             (Inl _, f1) \<Rightarrow> (rp_NotFound w, st\<lparr>ps_world := world\<lparr>w_fs := f1\<rparr>\<rparr>)
           | (Inr _, f1) \<Rightarrow>
               (case os_Stat path f1 of
                  (Inl _, f2) \<Rightarrow> (rp_NotFound w, st\<lparr>ps_world := world\<lparr>w_fs := f2\<rparr>\<rparr>)
                | (Inr Directory, f2) \<Rightarrow> (rp_NotFound w, st\<lparr>ps_world := world\<lparr>w_fs := f2\<rparr>\<rparr>)
                | (Inr (Regular d t), f2) \<Rightarrow>
                    (serveContent (pr_method req) (pr_header req) filename t d
                       (rp_Set ''X-N0ding-Cache'' ''LOCAL'' (rp_Set ''Content-Type'' ''application/octet-stream'' w)),
                     stat_hit (st\<lparr>ps_world := world\<lparr>w_fs := f2\<rparr>\<rparr>))))))"

section \<open>Uploads\<close>

definition maxUploadBytes :: int where
  "maxUploadBytes = 536870912"

text \<open>
  \<^verbatim>\<open>FormValue\<close> after \<^verbatim>\<open>ParseMultipartForm\<close>: the values of the query come before
  those of the form.
\<close>

definition FormValue :: "url_values \<Rightarrow> url_values \<Rightarrow> string \<Rightarrow> string" where
  "FormValue query form k = (case map_of query k of Some (v # _) \<Rightarrow> v | _ \<Rightarrow> Values_Get form k)"

text \<open>The reservation of an upload: refused before the body is read, or granted when there is a controller.\<close>

definition reserve_upload ::
  "upload_env \<Rightarrow> world \<Rightarrow> (os_error option + reservation option) \<times> world" where
  "reserve_upload env w =
     (case w_ctl w of
        None \<Rightarrow> (Inr None, w)
      | Some c \<Rightarrow>
          (case ue_free env of
             Inl e \<Rightarrow> (Inl (Some e), w)
           | Inr freeBytes \<Rightarrow>
               (case Reserve (ue_ContentLength env) freeBytes c of
                  (None, c') \<Rightarrow> (Inl None, w\<lparr>w_ctl := Some c'\<rparr>)
                | (Some r, c') \<Rightarrow> (Inr (Some r), w\<lparr>w_ctl := Some c'\<rparr>))))"

text \<open>
  The part of \<^verbatim>\<open>serveUpload\<close> that runs with a reservation: the reply, the state, and the
  reservation that is still to be released.
\<close>

definition upload_reserved ::
  "pypi_proxy \<Rightarrow> upload_env \<Rightarrow> proxy_request \<Rightarrow> reservation option \<Rightarrow> reply \<Rightarrow> proxy_state
     \<Rightarrow> (reply \<times> proxy_state) \<times> reservation option" where
  "upload_reserved p env req res w st =
     (case (ue_form env, ParseQuery (RawQuery (pr_url req))) of
        (Some (form, file), (query, False)) \<Rightarrow>
          if ue_length env > maxUploadBytes then (fail (pr_canceled req) 400 ''invalid PyPI upload'' w st, res)
          else
            let project = normalizeProjectName (FormValue query form ''name'') in
            if project = [] then (fail (pr_canceled req) 400 ''PyPI upload is missing package name'' w st, res)
            else (case file of
              None \<Rightarrow> (fail (pr_canceled req) 400 ''PyPI upload is missing distribution content'' w st, res)
            | Some u \<Rightarrow>
                (case uf_source u of
                   Inl _ \<Rightarrow> (fail (pr_canceled req) 400 ''PyPI upload is missing distribution content'' w st, res)
                 | Inr source \<Rightarrow>
                     (case storeLocalPackage p env project (uf_Filename u) (FormValue query form ''requires_python'') source
                             (ps_world st) of
                        (Inl e, world') \<Rightarrow>
                          (fail (pr_canceled req) (if e = ReleaseExists then 409 else 400) ''could not store PyPI package'' w
                             (st\<lparr>ps_world := world'\<rparr>), res)
                      | (Inr pkg, world') \<Rightarrow>
                          (case settle (lp_Size pkg) 0 res (w_ctl world') of
                             (False, res', ctl') \<Rightarrow>
                               let d = localProjectPath p project;
                                   f1 = snd (os_Remove (d @ [lp_Filename pkg]) (w_fs world'));
                                   f2 = snd (os_Remove (d @ [lp_Filename pkg @ ''.json'']) f1)
                               in (fail (pr_canceled req) 507 ''could not commit PyPI storage reservation'' w
                                     (st\<lparr>ps_world := world'\<lparr>w_fs := f2, w_ctl := ctl'\<rparr>\<rparr>), res')
                           | (True, res', ctl') \<Rightarrow>
                               ((rp_Write (''stored '' @ lp_Filename pkg @ '' sha256:'' @ lp_Hash pkg @ [CHR 0x0A])
                                   (rp_WriteHeader 201 (rp_Set ''Content-Type'' ''text/plain; charset=utf-8'' w)),
                                 st\<lparr>ps_world := world'\<lparr>w_ctl := ctl'\<rparr>\<rparr>), res')))))
      | _ \<Rightarrow> (fail (pr_canceled req) 400 ''invalid PyPI upload'' w st, res))"

definition serveUpload :: "pypi_proxy \<Rightarrow> upload_env \<Rightarrow> proxy_request \<Rightarrow> reply \<Rightarrow> proxy_state \<Rightarrow> reply \<times> proxy_state" where
  "serveUpload p env req w st =
     (if pr_method req \<noteq> ''POST'' then (rp_Error ''method not allowed'' 405 (rp_Set ''Allow'' ''POST'' w), st)
      else if \<not> authorizedUpload p (Get (pr_header req) ''Authorization'') then
        (rp_Error ''upload authorization required'' 401
           (rp_Set ''WWW-Authenticate'' (''Basic realm='' @ [CHR 0x22] @ ''n0ding-pypi'' @ [CHR 0x22]) w), st)
      else (case reserve_upload env (ps_world st) of
        (Inl (Some e), world') \<Rightarrow>
          fail (pr_canceled req) 507 ''could not verify PyPI storage capacity'' w (st\<lparr>ps_world := world'\<rparr>)
      | (Inl None, world') \<Rightarrow> (rp_Error ''insufficient storage for PyPI upload'' 507 w, st\<lparr>ps_world := world'\<rparr>)
      | (Inr res, world') \<Rightarrow>
          (case upload_reserved p env req res w (st\<lparr>ps_world := world'\<rparr>) of
             ((w', st'), res') \<Rightarrow> (w', st'\<lparr>ps_world := release res' (ps_world st')\<rparr>))))"

section \<open>The size of the private packages\<close>

definition private_visit :: "int walk_fn" where
  "private_visit q n f acc =
     (if n = Directory \<or> HasSuffix (path_last q) ''.json'' then (None, f, acc)
      else (case os_Stat q f of
        (Inl e, f1) \<Rightarrow> (Some e, f1, acc)
      | (Inr info, f1) \<Rightarrow>
          if info = Directory then (None, f1, acc)
          else if file_size info > 0 \<and> acc > i64 (9223372036854775807 - file_size info) then (Some OtherError, f1, acc)
          else (None, f1, i64 (acc + file_size info))))"

definition PrivateSize :: "pypi_proxy \<Rightarrow> fs \<Rightarrow> (int \<times> os_error option) \<times> fs" where
  "PrivateSize p f = (case WalkDir (py_localPath p) private_visit f 0 of (e, f', n) \<Rightarrow> ((n, e), f'))"

end
