(* ===== verification/Pypi_Proxy.thy ===== *)
theory Pypi_Proxy
  imports Pypi_Private
begin

text \<open>
  The PyPI proxy itself (\<^verbatim>\<open>src/internal/pypiproxy/proxy.go\<close>): its construction, the
  pages of the simple index, which are rewritten and cached, the files, which are checked
  against the checksum of the link and cached, and the dispatch of a request.
\<close>

section \<open>Construction\<close>

record pypi_options =
  po_Name :: string
  po_Path :: string
  po_Upstream :: string
  po_PublicBaseURL :: string
  po_TTL :: int
  po_ForwardAuthorization :: bool
  po_PublishToken :: string
  po_AllowedFileOrigins :: "string list"
  po_LocalPath :: path

datatype pypi_error = ParseUpstream | PathSuffix | LocalPathRequired | CreateLocal os_error | ParseOrigin string

text \<open>The keys of the allowed origins, or the first that does not parse.\<close>

fun origin_keys :: "string list \<Rightarrow> pypi_error + string list" where
  "origin_keys [] = Inr []"
| "origin_keys (origin # os) =
     (case url_Parse origin of
        None \<Rightarrow> Inl (ParseOrigin origin)
      | Some parsed \<Rightarrow>
          if Scheme parsed = [] \<or> Host parsed = [] then Inl (ParseOrigin origin)
          else (case origin_keys os of Inl e \<Rightarrow> Inl e | Inr ks \<Rightarrow> Inr (originKey parsed # ks)))"

text \<open>\<^verbatim>\<open>New\<close>; the store, the client and the logger are not part of the record. A local path is given by its elements, none when it is empty.\<close>

definition pypi_New :: "pypi_options \<Rightarrow> fs \<Rightarrow> (pypi_error + pypi_proxy) \<times> fs" where
  "pypi_New opts f =
     (case url_Parse (po_Upstream opts) of
        None \<Rightarrow> (Inl ParseUpstream, f)
      | Some upstream \<Rightarrow>
          if Scheme upstream = [] \<or> Host upstream = [] then (Inl ParseUpstream, f)
          else if \<not> HasSuffix (po_Path opts) ''/simple/'' then (Inl PathSuffix, f)
          else if po_PublishToken opts \<noteq> [] \<and> po_LocalPath opts = [] then (Inl LocalPathRequired, f)
          else (case (if po_LocalPath opts \<noteq> [] then os_MkdirAll (po_LocalPath opts) f else (None, f)) of
            (Some e, f1) \<Rightarrow> (Inl (CreateLocal e), f1)
          | (None, f1) \<Rightarrow>
              (case origin_keys (po_AllowedFileOrigins opts) of
                 Inl e \<Rightarrow> (Inl e, f1)
               | Inr keys \<Rightarrow>
                   let stem = TrimSuffix (po_Path opts) ''simple/''; base = TrimRight (po_PublicBaseURL opts) ''/'' in
                   (Inr \<lparr>py_name = po_Name opts, py_path = po_Path opts, py_filePath = stem @ ''files/'',
                      py_uploadPath = stem @ ''legacy/'', py_packagePath = stem @ ''packages/'', py_upstream = upstream,
                      py_proxySimpleBaseURL = base @ TrimSuffix (po_Path opts) ''/'',
                      py_proxyFileBaseURL = base @ TrimSuffix (stem @ ''files/'') ''/'',
                      py_proxyPackageBaseURL = base @ TrimSuffix (stem @ ''packages/'') ''/'',
                      py_ttl = po_TTL opts, py_forwardAuthorization = po_ForwardAuthorization opts,
                      py_publishToken = po_PublishToken opts, py_allowedFileOrigins = originKey upstream # keys,
                      py_localPath = po_LocalPath opts\<rparr>, f1))))"

definition pypi_SetupSnippet :: "pypi_proxy \<Rightarrow> string" where
  "pypi_SetupSnippet p =
     ''python -m pip install --index-url '' @ py_proxySimpleBaseURL p @ ''/ PACKAGE'' @ [CHR 0x0A]
     @ ''uv pip install --index-url '' @ py_proxySimpleBaseURL p @ ''/ PACKAGE'' @ [CHR 0x0A]"

section \<open>What a request takes from its environment\<close>

record pypi_env =
  pe_now :: int
  pe_client :: client
  pe_context_ended :: bool
  pe_wait :: "world \<Rightarrow> world"
  pe_put :: put_env
  pe_html :: html_library
  pe_upload :: upload_env
  pe_serveContent :: serve_content

definition maxSimpleBytes :: int where
  "maxSimpleBytes = 67108864"

section \<open>Upstream\<close>

text \<open>An error is a request that cannot be made or a failure of the client.\<close>

definition doUpstream :: "pypi_proxy \<Rightarrow> pypi_env \<Rightarrow> proxy_request \<Rightarrow> url \<Rightarrow> bool + upstream_response" where
  "doUpstream p env req target =
     (if \<not> new_request_ok target then Inl False
      else (case pe_client env (pr_method req) (url_String target)
              (Header_Set (ForwardRequestHeaders [] (pr_header req) (py_forwardAuthorization p)) ''Accept-Encoding'' ''identity'') of
        Inl e \<Rightarrow> Inl (ce_canceled e)
      | Inr resp \<Rightarrow> Inr resp))"

definition proxyFailure :: "pypi_env \<Rightarrow> proxy_request \<Rightarrow> bool \<Rightarrow> reply \<Rightarrow> proxy_state \<Rightarrow> reply \<times> proxy_state" where
  "proxyFailure env req canceled w st =
     fail (canceled \<or> pr_canceled req) (if pe_context_ended env then 499 else 502) ''upstream request failed'' w st"

definition pypi_cacheKey :: "pypi_proxy \<Rightarrow> string \<Rightarrow> url \<Rightarrow> string \<Rightarrow> string \<Rightarrow> string" where
  "pypi_cacheKey p kind target accept sha =
     py_name p @ [CHR 0x0A] @ kind @ [CHR 0x0A] @ url_String target @ [CHR 0x0A] @ ''accept:'' @ accept @ [CHR 0x0A]
     @ ''sha256:'' @ sha"

definition pypi_serveHit :: "pypi_env \<Rightarrow> proxy_request \<Rightarrow> Entry \<Rightarrow> reply \<Rightarrow> reply" where
  "pypi_serveHit env req en w =
     (let m = entry_Metadata en;
          w1 = rp_Set ''Content-Length'' (FormatInt (ContentBytes m))
                 (rp_Set ''Age'' (FormatInt (age_seconds (pe_now env) (StoredAt m)))
                   (rp_Set ''X-N0ding-Cache'' ''HIT''
                     (w\<lparr>rp_header := CopyHeaders (rp_header w) (Header m)\<rparr>)));
          w2 = rp_WriteHeader (Status m) w1
      in if pr_method req = ''HEAD'' then w2
         else snd (rp_Copy (chunks_of 32768 (Body en)) None w2))"

text \<open>The verifier of a checksum, over the bytes read from the upstream.\<close>

definition checksum_verifier :: "string \<Rightarrow> string \<Rightarrow> int \<Rightarrow> string option" where
  "checksum_verifier expected data n =
     (let got = hex_EncodeToString (sha256_Sum256 data)
      in if got \<noteq> expected then Some (''sha256 mismatch: got '' @ got @ '', want '' @ expected) else None)"

definition streamResponse ::
  "pypi_env \<Rightarrow> proxy_request \<Rightarrow> upstream_response \<Rightarrow> header \<Rightarrow> header \<Rightarrow> string \<Rightarrow> bool \<Rightarrow> string
     \<Rightarrow> (string \<Rightarrow> int \<Rightarrow> string option) option \<Rightarrow> reply \<Rightarrow> proxy_state \<Rightarrow> reply \<times> proxy_state" where
  "streamResponse env req resp headers cacheHeaders key cacheable contentDigest verifierFactory w st =
     (let w1 = rp_WriteHeader (ur_status resp) (w\<lparr>rp_header := CopyHeaders (rp_header w) headers\<rparr>) in
      if pr_method req = ''HEAD'' then (w1, st)
      else if cacheable then
        (case PutStreamVerified (pe_put env) key
                (zero_metadata\<lparr>Status := ur_status resp, Header := cacheHeaders, ContentDigest := contentDigest\<rparr>)
                (ur_body resp) (rp_body w1) (map_option (\<lambda>v. v (concat (chunks (ur_body resp)))) verifierFactory) (ps_world st) of
           (err, d, world') \<Rightarrow>
             let st' = st\<lparr>ps_world := world'\<rparr>
             in (w1\<lparr>rp_body := d\<rparr>, if err = None then st' else recordStreamError (pr_canceled req) st'))
      else (snd (rp_Copy (chunks (ur_body resp)) (read_error (ur_body resp)) w1), st))"

section \<open>Pages of the index\<close>

text \<open>A page that has been read: the headers, the rewritten body and the store.\<close>

definition simple_page ::
  "pypi_env \<Rightarrow> proxy_request \<Rightarrow> upstream_response \<Rightarrow> header \<Rightarrow> header \<Rightarrow> string \<Rightarrow> bool \<Rightarrow> string \<Rightarrow> reply \<Rightarrow> proxy_state
     \<Rightarrow> reply \<times> proxy_state" where
  "simple_page env req resp headers cacheHeaders key cacheable rewritten w st =
     (let n = FormatInt (int (length rewritten));
          m = zero_metadata\<lparr>Status := ur_status resp, Header := Header_Set cacheHeaders ''Content-Length'' n\<rparr>;
          st' = (if cacheable then st\<lparr>ps_world := snd (PutBytes (pe_put env) key m rewritten (ps_world st))\<rparr> else st);
          w1 = rp_WriteHeader (ur_status resp)
                 (w\<lparr>rp_header := CopyHeaders (rp_header w) (Header_Set headers ''Content-Length'' n)\<rparr>)
      in (if pr_method req \<noteq> ''HEAD'' then rp_Write rewritten w1 else w1, st'))"

definition serveSimpleMiss ::
  "pypi_proxy \<Rightarrow> pypi_env \<Rightarrow> proxy_request \<Rightarrow> url \<Rightarrow> string \<Rightarrow> bool \<Rightarrow> reply \<Rightarrow> proxy_state \<Rightarrow> reply \<times> proxy_state" where
  "serveSimpleMiss p env req target key cacheableRequest w st =
     (case doUpstream p env req target of
        Inl canceled \<Rightarrow> proxyFailure env req canceled w st
      | Inr resp \<Rightarrow>
          let contentType = Get (ur_header resp) ''Content-Type'';
              headers0 = Header_Set (Header_Del (ResponseHeaders (ur_header resp)) ''Content-Encoding'') ''X-N0ding-Cache'' ''MISS'';
              location = rewrittenLocation (Get headers0 ''Location'') target (py_upstream p) (py_proxySimpleBaseURL p);
              headers = (if location \<noteq> [] then Header_Set headers0 ''Location'' location else headers0);
              cacheable = (cacheableRequest \<and> pr_method req = ''GET'' \<and> ur_status resp = 200 \<and>
                 ResponseAllowsStorage (pr_header req) (ur_header resp) [''Accept'', ''Accept-Encoding'']);
              cacheHeaders = CacheMetadataHeaders headers
          in if \<not> isHTML contentType \<and> \<not> pypi_isJSON contentType then
               streamResponse env req resp headers cacheHeaders key cacheable [] None w st
             else (case read_limited maxSimpleBytes (ur_body resp) of
               Inl _ \<Rightarrow> fail (pr_canceled req) 502 ''could not read upstream PyPI metadata'' w st
             | Inr body \<Rightarrow>
                 if int (length body) > maxSimpleBytes then
                   let w1 = rp_WriteHeader (ur_status resp)
                              (w\<lparr>rp_header := CopyHeaders (rp_header w) (Header_Del headers ''Content-Length'')\<rparr>)
                   in (if pr_method req \<noteq> ''HEAD''
                       then snd (rp_Copy [body, drop (length body) (concat (chunks (ur_body resp)))] (read_error (ur_body resp)) w1)
                       else w1, st)
                 else (case rewriteSimple (pe_html env) p body contentType target of
                   None \<Rightarrow> fail (pr_canceled req) 502 ''could not rewrite PyPI metadata'' w st
                 | Some rewritten \<Rightarrow> simple_page env req resp headers cacheHeaders key cacheable rewritten w st)))"

section \<open>Files\<close>

definition serveFileMiss ::
  "pypi_proxy \<Rightarrow> pypi_env \<Rightarrow> string \<Rightarrow> proxy_request \<Rightarrow> url \<Rightarrow> string \<Rightarrow> bool \<Rightarrow> reply \<Rightarrow> proxy_state \<Rightarrow> reply \<times> proxy_state" where
  "serveFileMiss p env expectedSHA256 req target key cacheableRequest w st =
     (case doUpstream p env req target of
        Inl canceled \<Rightarrow> proxyFailure env req canceled w st
      | Inr resp \<Rightarrow>
          let headers = Header_Set (Header_Del (ResponseHeaders (ur_header resp)) ''Content-Encoding'') ''X-N0ding-Cache'' ''MISS'';
              cacheable = (cacheableRequest \<and> pr_method req = ''GET'' \<and> ur_status resp = 200 \<and>
                 ResponseAllowsStorage (pr_header req) (ur_header resp) [''Accept-Encoding''])
          in streamResponse env req resp headers (CacheMetadataHeaders headers) key cacheable
               (if expectedSHA256 \<noteq> [] then ''sha256:'' @ expectedSHA256 else [])
               (if expectedSHA256 \<noteq> [] then Some (checksum_verifier expectedSHA256) else None) w st)"

section \<open>Dispatch\<close>

definition pypi_cacheable :: "pypi_proxy \<Rightarrow> proxy_request \<Rightarrow> bool" where
  "pypi_cacheable p req \<longleftrightarrow>
     Get (pr_header req) ''Range'' = [] \<and> \<not> RequestBypassesCache (pr_header req) \<and>
     (\<not> py_forwardAuthorization p \<or> Get (pr_header req) ''Authorization'' = [])"

text \<open>A lookup when the request is cacheable; an error counts as a miss.\<close>

definition pypi_find :: "pypi_proxy \<Rightarrow> pypi_env \<Rightarrow> bool \<Rightarrow> string \<Rightarrow> world \<Rightarrow> Entry option \<times> world" where
  "pypi_find p env cacheable key w =
     (if \<not> cacheable then (None, w)
      else (case Lookup (pe_now env) (pe_now env) key (py_ttl p) (w_store w) (w_fs w) of
        (Inl _, f) \<Rightarrow> (None, w\<lparr>w_fs := f\<rparr>)
      | (Inr r, f) \<Rightarrow> (r, w\<lparr>w_fs := f\<rparr>)))"

type_synonym miss_handler = "proxy_request \<Rightarrow> url \<Rightarrow> string \<Rightarrow> bool \<Rightarrow> reply \<Rightarrow> proxy_state \<Rightarrow> reply \<times> proxy_state"

definition serveCached ::
  "pypi_proxy \<Rightarrow> pypi_env \<Rightarrow> miss_handler \<Rightarrow> proxy_request \<Rightarrow> url \<Rightarrow> string \<Rightarrow> bool \<Rightarrow> reply \<Rightarrow> proxy_state \<Rightarrow> reply \<times> proxy_state" where
  "serveCached p env serveMiss req target key cacheable w st =
     (case pypi_find p env cacheable key (ps_world st) of
        (Some en, w1) \<Rightarrow> (pypi_serveHit env req en w, stat_hit (st\<lparr>ps_world := w1\<rparr>))
      | (None, w1) \<Rightarrow>
          (case pypi_find p env cacheable key (pe_wait env w1) of
             (Some en, w2) \<Rightarrow> (pypi_serveHit env req en w, stat_hit (st\<lparr>ps_world := w2\<rparr>))
           | (None, w2) \<Rightarrow> serveMiss req target key cacheable w (stat_miss (st\<lparr>ps_world := w2\<rparr>))))"

text \<open>The releases of the project that a page is asked for, when private packages are configured.\<close>

definition private_project :: "pypi_proxy \<Rightarrow> proxy_request \<Rightarrow> fs \<Rightarrow> (index_error + localPackage list) \<times> fs" where
  "private_project p req f =
     (let project = simpleProject p (Path (pr_url req))
      in if project \<noteq> [] \<and> py_localPath p \<noteq> [] then localPackages p project f else (Inr [], f))"

definition serveSimple :: "pypi_proxy \<Rightarrow> pypi_env \<Rightarrow> proxy_request \<Rightarrow> reply \<Rightarrow> proxy_state \<Rightarrow> reply \<times> proxy_state" where
  "serveSimple p env req w st0 =
     (case private_project p req (w_fs (ps_world st0)) of (packages, f) \<Rightarrow>
      let st = st0\<lparr>ps_world := (ps_world st0)\<lparr>w_fs := f\<rparr>\<rparr> in
      case packages of
        Inl _ \<Rightarrow> fail (pr_canceled req) 500 ''read private PyPI package index'' w st
      | Inr ks \<Rightarrow>
          if ks \<noteq> [] then (serveLocalProject p req (simpleProject p (Path (pr_url req))) ks w, st)
          else (case simpleTargetURL p (pr_url req) of
            None \<Rightarrow> fail (pr_canceled req) 400 ''invalid upstream URL'' w st
          | Some target \<Rightarrow>
              serveCached p env (serveSimpleMiss p env) req target
                (pypi_cacheKey p ''simple'' target (Get (pr_header req) ''Accept'') []) (pypi_cacheable p req) w st))"

definition serveFile :: "pypi_proxy \<Rightarrow> pypi_env \<Rightarrow> proxy_request \<Rightarrow> reply \<Rightarrow> proxy_state \<Rightarrow> reply \<times> proxy_state" where
  "serveFile p env req w st =
     (case fileTargetURL p (pr_url req) of
        Inl _ \<Rightarrow> fail (pr_canceled req) 400 ''invalid PyPI file URL'' w st
      | Inr (target, expectedSHA256) \<Rightarrow>
          serveCached p env (serveFileMiss p env expectedSHA256) req target
            (pypi_cacheKey p ''file'' target (Get (pr_header req) ''Accept'') expectedSHA256) (pypi_cacheable p req) w st)"

definition pypi_ServeHTTP :: "pypi_proxy \<Rightarrow> pypi_env \<Rightarrow> proxy_request \<Rightarrow> reply \<Rightarrow> proxy_state \<Rightarrow> reply \<times> proxy_state" where
  "pypi_ServeHTTP p env req w st0 =
     (let st = st0\<lparr>ps_stats := (ps_stats st0)\<lparr>requests := bump (requests (ps_stats st0))\<rparr>\<rparr> in
      if Path (pr_url req) = py_uploadPath p then serveUpload p (pe_upload env) req w st
      else if HasPrefix (Path (pr_url req)) (py_packagePath p) then serveLocalFile p (pe_serveContent env) req w st
      else if pr_method req \<noteq> ''GET'' \<and> pr_method req \<noteq> ''HEAD'' then
        (rp_Error ''method not allowed'' 405 (rp_Set ''Allow'' ''GET, HEAD'' w), st)
      else
        let st1 = (if Get (pr_header req) ''Range'' \<noteq> []
                   then st\<lparr>ps_stats := (ps_stats st)\<lparr>rangeRequests := bump (rangeRequests (ps_stats st))\<rparr>\<rparr> else st)
        in if HasPrefix (Path (pr_url req)) (py_path p) then serveSimple p env req w st1
           else if HasPrefix (Path (pr_url req)) (py_filePath p) then serveFile p env req w st1
           else (rp_NotFound w, st1))"

end
