(* ===== verification/Go_Strconv.thy ===== *)
theory Go_Strconv
  imports Go_Json Complex_Main
begin

text \<open>
  The conversions of Go's standard library that the configuration uses: \<^verbatim>\<open>strconv.ParseFloat\<close>,
  \<^verbatim>\<open>ParseBool\<close> and \<^verbatim>\<open>Unquote\<close>, \<^verbatim>\<open>os.Expand\<close> and \<^verbatim>\<open>time.ParseDuration\<close>. A \<^verbatim>\<open>float64\<close> is NaN, an
  infinity or a rational; the two zeros are not told apart.
\<close>

section \<open>float64\<close>

datatype float64 = NaN | Infinite bool | Finite rat

fun bits :: "nat \<Rightarrow> nat" where
  "bits n = (if n = 0 then 0 else Suc (bits (n div 2)))"

declare bits.simps [simp del]

text \<open>Rounding to the nearest, ties to even, at 53 bits with the exponent range of a double.\<close>

definition round_even :: "rat \<Rightarrow> int" where
  "round_even q =
     (let n = \<lfloor>q\<rfloor>; r = q - of_int n
      in if r < 1 / 2 \<or> r = 1 / 2 \<and> even n then n else n + 1)"

definition exponent64 :: "rat \<Rightarrow> int" where
  "exponent64 q =
     (case quotient_of q of (a, b) \<Rightarrow>
        let e = int (bits (nat a)) - int (bits (nat b));
            k = (if q \<ge> 2 powi e then e else e - 1)
        in max (k - 52) (- 1074))"

definition round64 :: "rat \<Rightarrow> float64" where
  "round64 q =
     (if q = 0 then Finite 0
      else let u = 2 powi exponent64 \<bar>q\<bar>; v = of_int (round_even (\<bar>q\<bar> / u)) * u
           in if v \<ge> 2 ^ 1024 then Infinite (q < 0) else Finite (if q < 0 then - v else v))"

fun finite_part :: "float64 \<Rightarrow> rat" where
  "finite_part (Finite q) = q"
| "finite_part _ = 0"

section \<open>strconv.ParseFloat\<close>

text \<open>\<^verbatim>\<open>underscoreOK\<close>: \<open>saw\<close> is the class of the last character, as in the source.\<close>

fun underscore_loop :: "bool \<Rightarrow> char \<Rightarrow> string \<Rightarrow> bool" where
  "underscore_loop hex saw [] \<longleftrightarrow> saw \<noteq> CHR ''_''"
| "underscore_loop hex saw (c # s) \<longleftrightarrow>
     (if is_digit c \<or> hex \<and> is_hex c then underscore_loop hex (CHR ''0'') s
      else if c = CHR ''_'' then saw = CHR ''0'' \<and> underscore_loop hex (CHR ''_'') s
      else saw \<noteq> CHR ''_'' \<and> underscore_loop hex (CHR ''!'') s)"

definition drop_sign :: "string \<Rightarrow> bool \<times> string" where
  "drop_sign s =
     (case s of [] \<Rightarrow> (False, s)
      | c # r \<Rightarrow> if c = CHR ''-'' then (True, r) else if c = CHR ''+'' then (False, r) else (False, s))"

definition underscoreOK :: "string \<Rightarrow> bool" where
  "underscoreOK s0 =
     (let s = snd (drop_sign s0) in
      if length s \<ge> 2 \<and> s ! 0 = CHR ''0'' \<and> lower (s ! 1) \<in> {CHR ''b'', CHR ''o'', CHR ''x''}
      then underscore_loop (lower (s ! 1) = CHR ''x'') (CHR ''0'') (drop 2 s)
      else underscore_loop False (CHR ''^'') s)"

text \<open>The digits of the mantissa: their value, how many come after the point, whether there was a digit, and the rest.\<close>

fun mantissa_loop :: "bool \<Rightarrow> bool \<Rightarrow> nat \<Rightarrow> nat \<Rightarrow> bool \<Rightarrow> string \<Rightarrow> nat \<times> nat \<times> bool \<times> string" where
  "mantissa_loop hex sawdot m places sawdigits [] = (m, places, sawdigits, [])"
| "mantissa_loop hex sawdot m places sawdigits (c # s) =
     (if c = CHR ''_'' then mantissa_loop hex sawdot m places sawdigits s
      else if c = CHR ''.'' then
        (if sawdot then (m, places, sawdigits, c # s) else mantissa_loop hex True m places sawdigits s)
      else if is_digit c \<or> hex \<and> is_hex c then
        mantissa_loop hex sawdot ((if hex then 16 else 10) * m + unhex c) (if sawdot then Suc places else places) True s
      else (m, places, sawdigits, c # s))"

text \<open>The digits of the exponent; a value of 10000 or more takes no further digit.\<close>

fun exponent_loop :: "nat \<Rightarrow> string \<Rightarrow> nat \<times> string" where
  "exponent_loop e [] = (e, [])"
| "exponent_loop e (c # s) =
     (if c = CHR ''_'' then exponent_loop e s
      else if is_digit c then exponent_loop (if e < 10000 then 10 * e + (byte c - 48) else e) s
      else (e, c # s))"

definition read_exponent :: "string \<Rightarrow> (int \<times> string) option" where
  "read_exponent s =
     (let (neg, t) = drop_sign s in
      if t = [] \<or> \<not> is_digit (hd t) then None
      else case exponent_loop 0 t of (e, r) \<Rightarrow> Some (if neg then - int e else int e, r))"

definition readFloat :: "string \<Rightarrow> rat option" where
  "readFloat s =
     (let (neg, t) = drop_sign s;
          hex = (length t > 2 \<and> t ! 0 = CHR ''0'' \<and> lower (t ! 1) = CHR ''x'')
      in case mantissa_loop hex False 0 0 False (if hex then drop 2 t else t) of (m, places, sawdigits, r) \<Rightarrow>
         if \<not> sawdigits then None
         else (case (if r \<noteq> [] \<and> lower (hd r) = (if hex then CHR ''p'' else CHR ''e'') then read_exponent (tl r)
                     else if hex then None else Some (0, r)) of
           None \<Rightarrow> None
         | Some (e, rest) \<Rightarrow>
             if rest \<noteq> [] \<or> CHR ''_'' \<in> set s \<and> \<not> underscoreOK s then None
             else let v = of_nat m * (if hex then 2 powi (e - 4 * int places) else 10 powi (e - int places))
                  in Some (if neg then - v else v)))"

definition ParseFloat :: "string \<Rightarrow> float64 option" where
  "ParseFloat s =
     (let (neg, t) = drop_sign s in
      if ToLower t = ''inf'' \<or> ToLower t = ''infinity'' then Some (Infinite neg)
      else if ToLower s = ''nan'' then Some NaN
      else case readFloat s of
        None \<Rightarrow> None
      | Some q \<Rightarrow> (case round64 q of Finite v \<Rightarrow> Some (Finite v) | _ \<Rightarrow> None))"

section \<open>strconv.ParseBool\<close>

definition ParseBool :: "string \<Rightarrow> bool option" where
  "ParseBool s =
     (if s \<in> set [''1'', ''t'', ''T'', ''true'', ''TRUE'', ''True''] then Some True
      else if s \<in> set [''0'', ''f'', ''F'', ''false'', ''FALSE'', ''False''] then Some False else None)"

section \<open>strconv.Unquote\<close>

definition simple_unquote :: "char \<Rightarrow> char option" where
  "simple_unquote c =
     (if c = CHR ''a'' then Some (CHR 0x07) else if c = CHR ''b'' then Some (CHR 0x08)
      else if c = CHR ''f'' then Some (CHR 0x0C) else if c = CHR ''n'' then Some (CHR 0x0A)
      else if c = CHR ''r'' then Some (CHR 0x0D) else if c = CHR ''t'' then Some (CHR 0x09)
      else if c = CHR ''v'' then Some (CHR 0x0B) else if c = CHR 0x5C \<or> c = CHR 0x22 then Some c else None)"

definition hex_value :: "nat \<Rightarrow> string \<Rightarrow> nat option" where
  "hex_value n s =
     (if length s \<ge> n \<and> list_all is_hex (take n s) then Some (foldl (\<lambda>v c. 16 * v + unhex c) 0 (take n s)) else None)"

definition valid_rune :: "nat \<Rightarrow> bool" where
  "valid_rune r \<longleftrightarrow> r < 0xD800 \<or> 0xDFFF < r \<and> r \<le> 0x10FFFF"

definition is_octal :: "char \<Rightarrow> bool" where
  "is_octal c \<longleftrightarrow> 48 \<le> byte c \<and> byte c \<le> 55"

text \<open>An escape sequence in double quotes, after its backslash: what it stands for and the rest.\<close>

definition unquote_escape :: "string \<Rightarrow> (string \<times> string) option" where
  "unquote_escape s =
     (case s of [] \<Rightarrow> None
      | c # t \<Rightarrow>
          if c = CHR ''x'' then map_option (\<lambda>v. ([char_of v], drop 2 t)) (hex_value 2 t)
          else if c = CHR ''u'' \<or> c = CHR ''U'' then
            (let n = (if c = CHR ''u'' then 4 else 8) in
             case hex_value n t of None \<Rightarrow> None
             | Some v \<Rightarrow> if valid_rune v then Some (utf8_encode v, drop n t) else None)
          else if is_octal c then
            (if length t \<ge> 2 \<and> is_octal (t ! 0) \<and> is_octal (t ! 1)
             then (let v = 64 * (byte c - 48) + 8 * (byte (t ! 0) - 48) + (byte (t ! 1) - 48)
                   in if v > 255 then None else Some ([char_of v], drop 2 t))
             else None)
          else map_option (\<lambda>d. ([d], t)) (simple_unquote c))"

lemma unquote_escape_length: "unquote_escape s = Some (x, r) \<Longrightarrow> length r < length s"
  by (auto simp: unquote_escape_def Let_def split: list.splits if_splits option.splits)

text \<open>Up to the closing quote; a newline is refused, and a byte that is not UTF-8 becomes the replacement rune.\<close>

function unquote_loop :: "string \<Rightarrow> (string \<times> string) option" where
  "unquote_loop s =
     (if s = [] then None
      else if hd s = CHR 0x22 then Some ([], tl s)
      else if hd s = CHR 0x0A then None
      else if hd s = CHR 0x5C then
        (case unquote_escape (tl s) of
           None \<Rightarrow> None
         | Some (x, r) \<Rightarrow> map_option (apfst ((@) x)) (unquote_loop r))
      else if utf8_len s = 0 then map_option (apfst ((@) rune_error)) (unquote_loop (tl s))
      else map_option (apfst ((@) (take (utf8_len s) s))) (unquote_loop (drop (utf8_len s) s)))"
  by pat_completeness auto
termination
proof (relation "measure length", goal_cases)
  case (2 s y x r)
  then have "length r < length (tl s)" using unquote_escape_length [of "tl s" x r] by simp
  then show ?case by simp
qed auto

declare unquote_loop.simps [simp del]

text \<open>Called only on values that start with a double quote.\<close>

definition Unquote :: "string \<Rightarrow> string option" where
  "Unquote s =
     (if length s < 2 then None
      else case unquote_loop (tl s) of Some (v, []) \<Rightarrow> Some v | _ \<Rightarrow> None)"

section \<open>os.Expand\<close>

definition isShellSpecialVar :: "char \<Rightarrow> bool" where
  "isShellSpecialVar c \<longleftrightarrow> c \<in> set ''*#$@!?-'' \<or> is_digit c"

definition isAlphaNum :: "char \<Rightarrow> bool" where
  "isAlphaNum c \<longleftrightarrow> c = CHR ''_'' \<or> is_digit c \<or> is_lower c \<or> is_upper c"

text \<open>The name after a dollar sign and how many bytes it takes; the argument is not empty.\<close>

definition getShellName :: "string \<Rightarrow> string \<times> nat" where
  "getShellName s =
     (if hd s = CHR 0x7B then
        (if length s > 2 \<and> isShellSpecialVar (s ! 1) \<and> s ! 2 = CHR 0x7D then ([s ! 1], 3)
         else let name = takeWhile (\<lambda>c. c \<noteq> CHR 0x7D) (tl s)
              in if length name = length (tl s) then ([], 1)
                 else if name = [] then ([], 2) else (name, length name + 2))
      else if isShellSpecialVar (hd s) then ([hd s], 1)
      else let name = takeWhile isAlphaNum s in (name, length name))"

function os_Expand :: "(string \<Rightarrow> string) \<Rightarrow> string \<Rightarrow> string" where
  "os_Expand getenv s =
     (if s = [] then []
      else if hd s = CHR ''$'' \<and> tl s \<noteq> [] then
        (case getShellName (tl s) of (name, w) \<Rightarrow>
           (if name = [] \<and> w > 0 then [] else if name = [] then ''$'' else getenv name)
           @ os_Expand getenv (drop w (tl s)))
      else hd s # os_Expand getenv (tl s))"
  by pat_completeness auto
termination
  by (relation "measure (\<lambda>(_, s). length s)") (auto simp: le_imp_less_Suc)

declare os_Expand.simps [simp del]

section \<open>time.ParseDuration\<close>

text \<open>The digits at the front; \<open>None\<close> when their value exceeds \<open>2 ^ 63\<close>.\<close>

fun leadingInt :: "int \<Rightarrow> string \<Rightarrow> (int \<times> string) option" where
  "leadingInt x [] = Some (x, [])"
| "leadingInt x (c # s) =
     (if \<not> is_digit c then Some (x, c # s)
      else if x > 2 ^ 63 div 10 then None
      else let y = 10 * x + digit_val c in if y > 2 ^ 63 then None else leadingInt y s)"

text \<open>The digits after the point with the power of ten they are to be divided by; digits that do not fit are dropped.\<close>

fun leadingFraction :: "bool \<Rightarrow> int \<Rightarrow> int \<Rightarrow> string \<Rightarrow> int \<times> int \<times> string" where
  "leadingFraction overflow x scale [] = (x, scale, [])"
| "leadingFraction overflow x scale (c # s) =
     (if \<not> is_digit c then (x, scale, c # s)
      else if overflow \<or> x > (2 ^ 63 - 1) div 10 then leadingFraction True x scale s
      else let y = 10 * x + digit_val c
           in if y > 2 ^ 63 then leadingFraction True x scale s else leadingFraction False y (10 * scale) s)"

definition unitMap :: "string \<Rightarrow> int option" where
  "unitMap u =
     (if u = ''ns'' then Some 1
      else if u = ''us'' \<or> u = [CHR 0xC2, CHR 0xB5, CHR ''s''] \<or> u = [CHR 0xCE, CHR 0xBC, CHR ''s''] then Some 1000
      else if u = ''ms'' then Some 1000000 else if u = ''s'' then Some 1000000000
      else if u = ''m'' then Some 60000000000 else if u = ''h'' then Some 3600000000000 else None)"

text \<open>\<^verbatim>\<open>uint64(float64(f) * (float64(unit) / scale))\<close>; the scale is a power of ten up to \<open>10 ^ 19\<close>, exact as a double.\<close>

definition fraction_part :: "int \<Rightarrow> int \<Rightarrow> int \<Rightarrow> int" where
  "fraction_part f scale unit =
     (let per = finite_part (round64 (of_int unit / of_int scale))
      in \<lfloor>finite_part (round64 (finite_part (round64 (of_int f)) * per))\<rfloor>)"

definition not_numeric :: "char \<Rightarrow> bool" where
  "not_numeric c \<longleftrightarrow> \<not> (c = CHR ''.'' \<or> is_digit c)"

text \<open>One number with its unit, in nanoseconds, and the rest.\<close>

definition duration_item :: "string \<Rightarrow> (int \<times> string) option" where
  "duration_item s =
     (if s = [] \<or> not_numeric (hd s) then None
      else case leadingInt 0 s of
        None \<Rightarrow> None
      | Some (v, s1) \<Rightarrow>
          (case (if s1 \<noteq> [] \<and> hd s1 = CHR ''.'' then leadingFraction False 0 1 (tl s1) else (0, 1, s1)) of
             (f, scale, s2) \<Rightarrow>
             let pre = (length s1 \<noteq> length s);
                 post = (s1 \<noteq> [] \<and> hd s1 = CHR ''.'' \<and> length s2 \<noteq> length (tl s1));
                 u = takeWhile not_numeric s2
             in if \<not> pre \<and> \<not> post \<or> u = [] then None
                else (case unitMap u of
                  None \<Rightarrow> None
                | Some unit \<Rightarrow>
                    if v > 2 ^ 63 div unit then None
                    else let w = v * unit + (if f > 0 then fraction_part f scale unit else 0)
                         in if f > 0 \<and> w > 2 ^ 63 then None else Some (w, drop (length u) s2))))"

lemma leadingInt_length: "leadingInt x s = Some (y, r) \<Longrightarrow> length r \<le> length s"
  by (induction x s rule: leadingInt.induct) (auto simp: Let_def split: if_splits)

lemma leadingFraction_length: "leadingFraction b x k s = (y, k', r) \<Longrightarrow> length r \<le> length s"
  by (induction b x k s rule: leadingFraction.induct) (auto simp: Let_def split: if_splits)

lemma duration_item_length:
  assumes "duration_item s = Some (w, r)"
  shows "length r < length s"
proof -
  obtain v s1 where i: "leadingInt 0 s = Some (v, s1)"
    using assms by (auto simp: duration_item_def split: if_splits option.splits)
  obtain f k s2 where f: "(if s1 \<noteq> [] \<and> hd s1 = CHR ''.'' then leadingFraction False 0 1 (tl s1) else (0, 1, s1)) = (f, k, s2)"
    by (metis prod_cases3)
  have "length s1 \<le> length s" by (rule leadingInt_length [OF i])
  moreover have "length s2 \<le> length s1"
    using f leadingFraction_length [of False 0 1 "tl s1" f k s2] by (auto split: if_splits)
  moreover have "takeWhile not_numeric s2 \<noteq> []" "r = drop (length (takeWhile not_numeric s2)) s2"
    using assms i f by (auto simp: duration_item_def Let_def split: if_splits option.splits)
  then have "0 < length (takeWhile not_numeric s2)" "length r = length s2 - length (takeWhile not_numeric s2)" by simp_all
  then have "length r < length s2" using length_takeWhile_le [of not_numeric s2] by linarith
  ultimately show ?thesis by linarith
qed

function duration_loop :: "int \<Rightarrow> string \<Rightarrow> int option" where
  "duration_loop d s =
     (if s = [] then Some d
      else case duration_item s of
        None \<Rightarrow> None
      | Some (v, r) \<Rightarrow> let d' = u64 (d + v) in if d' > 2 ^ 63 then None else duration_loop d' r)"
  by pat_completeness auto
termination
  by (relation "measure (\<lambda>(_, s). length s)") (auto dest: duration_item_length)

declare duration_loop.simps [simp del]

definition ParseDuration :: "string \<Rightarrow> int option" where
  "ParseDuration s0 =
     (let (neg, s) = drop_sign s0 in
      if s = ''0'' then Some 0
      else if s = [] then None
      else case duration_loop 0 s of
        None \<Rightarrow> None
      | Some d \<Rightarrow> if neg then Some (- d) else if d > 2 ^ 63 - 1 then None else Some d)"

end
