(* ===== verification/Repository_Status.thy ===== *)
theory Repository_Status
  imports Npm_Proxy Oci_Proxy Pypi_Proxy Go_Strconv
begin

text \<open>
  What a repository reports of itself (\<^verbatim>\<open>src/internal/repository/repository.go\<close>): the status
  of \<^verbatim>\<open>Snapshot\<close>, written three times in the sources with the type as the only difference,
  but for npm, which reports no range requests. Errors of \<^verbatim>\<open>Size\<close> do not occur.
\<close>

record repository_snapshot =
  sn_Name :: string
  sn_Type :: string
  sn_Path :: string
  sn_Upstream :: string
  sn_Requests :: int
  sn_CacheHits :: int
  sn_CacheMisses :: int
  sn_Errors :: int
  sn_ClientCanceled :: int
  sn_RangeRequests :: int
  sn_HitRatio :: float64
  sn_StorageBytes :: int
  sn_CacheObjects :: int

text \<open>\<^verbatim>\<open>float64(hits) / float64(hits+misses)\<close>, zero without a lookup.\<close>

definition hit_ratio :: "int \<Rightarrow> int \<Rightarrow> float64" where
  "hit_ratio h m =
     (if u64 (h + m) > 0
      then round64 (finite_part (round64 (of_int h)) / finite_part (round64 (of_int (u64 (h + m)))))
      else Finite 0)"

definition repository_status :: "string \<Rightarrow> string \<Rightarrow> string \<Rightarrow> url \<Rightarrow> counters \<Rightarrow> store \<Rightarrow> repository_snapshot" where
  "repository_status name kind path upstream c s =
     \<lparr>sn_Name = name, sn_Type = kind, sn_Path = path, sn_Upstream = PublicUpstreamURL (Some upstream),
      sn_Requests = requests c, sn_CacheHits = hits c, sn_CacheMisses = misses c, sn_Errors = errors c,
      sn_ClientCanceled = clientCanceled c, sn_RangeRequests = rangeRequests c, sn_HitRatio = hit_ratio (hits c) (misses c),
      sn_StorageBytes = fst (Size s), sn_CacheObjects = snd (Size s)\<rparr>"

definition npm_Snapshot :: "npm_proxy \<Rightarrow> counters \<Rightarrow> store \<Rightarrow> repository_snapshot" where
  "npm_Snapshot p c s = (repository_status (npm_name p) ''npm'' (npm_path p) (npm_upstream p) c s)\<lparr>sn_RangeRequests := 0\<rparr>"

definition oci_Snapshot :: "oci_proxy \<Rightarrow> counters \<Rightarrow> store \<Rightarrow> repository_snapshot" where
  "oci_Snapshot p c s = repository_status (oci_name p) ''oci'' (oci_path p) (oci_upstream p) c s"

definition pypi_Snapshot :: "pypi_proxy \<Rightarrow> counters \<Rightarrow> store \<Rightarrow> repository_snapshot" where
  "pypi_Snapshot p c s = repository_status (py_name p) ''pypi'' (py_path p) (py_upstream p) c s"

section \<open>The interface repository.Handler\<close>

datatype repo_handler = NpmHandler npm_proxy | OciHandler oci_proxy | PypiHandler pypi_proxy

fun handler_Snapshot :: "repo_handler \<Rightarrow> counters \<Rightarrow> store \<Rightarrow> repository_snapshot" where
  "handler_Snapshot (NpmHandler p) c s = npm_Snapshot p c s"
| "handler_Snapshot (OciHandler p) c s = oci_Snapshot p c s"
| "handler_Snapshot (PypiHandler p) c s = pypi_Snapshot p c s"

fun SetupSnippet :: "repo_handler \<Rightarrow> string" where
  "SetupSnippet (NpmHandler p) = npm_SetupSnippet p"
| "SetupSnippet (OciHandler p) = oci_SetupSnippet p"
| "SetupSnippet (PypiHandler p) = pypi_SetupSnippet p"

end
