(* ===== verification/Server_Http.thy ===== *)
theory Server_Http
  imports Server_Collect Repository_Status
begin

text \<open>
  The HTTP side of \<^verbatim>\<open>src/internal/httpserver/server.go\<close>: the response writer, the
  operator endpoint that triggers a collection, the maintenance loop, the small handlers
  and the sizing of the shared controller at start-up. The text of an error is a parameter
  \<open>message\<close>; a JSON value in a body stands for its encoding.
\<close>

section \<open>http.ResponseWriter\<close>

record statusResponse =
  sr_Version :: string
  sr_Status :: string
  sr_Uptime :: string
  sr_Repositories :: "repository_snapshot list"

record operatorStorage =
  os_Snapshot :: ctl_snapshot
  os_FilesystemFreeBytes :: int
  os_Bounded :: bool

record operatorResponse =
  or_GeneratedAt :: int
  or_Version :: string
  or_Status :: string
  or_UptimeSeconds :: int
  or_Storage :: operatorStorage
  or_GC :: gc_snapshot
  or_Repositories :: "repository_snapshot list"

text \<open>A page of the dashboard stands for the template with its two values.\<close>

datatype payload =
    PlainText string | RunJSON gc_run | StatusJSON statusResponse | OperatorJSON operatorResponse
  | DashboardPage string string

record response =
  rw_header :: header
  rw_sent :: "(int \<times> header) option"
  rw_body :: "payload list"

definition fresh_response :: response where
  "fresh_response = \<lparr>rw_header = [], rw_sent = None, rw_body = []\<rparr>"

definition rw_Set :: "string \<Rightarrow> string \<Rightarrow> response \<Rightarrow> response" where
  "rw_Set k v w = w\<lparr>rw_header := Header_Set (rw_header w) k v\<rparr>"

text \<open>The header goes out with the status; later changes to it are lost.\<close>

definition WriteHeader :: "int \<Rightarrow> response \<Rightarrow> response" where
  "WriteHeader code w = (case rw_sent w of None \<Rightarrow> w\<lparr>rw_sent := Some (code, rw_header w)\<rparr> | Some _ \<Rightarrow> w)"

definition rw_Write :: "payload \<Rightarrow> response \<Rightarrow> response" where
  "rw_Write p w = (let w' = WriteHeader 200 w in w'\<lparr>rw_body := rw_body w' @ [p]\<rparr>)"

text \<open>\<^verbatim>\<open>http.Error\<close> and \<^verbatim>\<open>http.NotFound\<close>.\<close>

definition http_Error :: "string \<Rightarrow> int \<Rightarrow> response \<Rightarrow> response" where
  "http_Error msg code w =
     rw_Write (PlainText (msg @ [CHR 0x0A]))
       (WriteHeader code
         (rw_Set ''X-Content-Type-Options'' ''nosniff''
           (rw_Set ''Content-Type'' ''text/plain; charset=utf-8''
             (w\<lparr>rw_header := Header_Del (rw_header w) ''Content-Length''\<rparr>))))"

definition http_NotFound :: "response \<Rightarrow> response" where
  "http_NotFound w = http_Error ''404 page not found'' 404 w"

record request =
  req_method :: string
  req_path :: string
  req_header :: header

definition writeJSON :: "payload \<Rightarrow> response \<Rightarrow> response" where
  "writeJSON v w = rw_Write v (rw_Set ''Content-Type'' ''application/json'' w)"

section \<open>Collections under the coordinator\<close>

record service =
  svc_server :: server
  svc_gc :: coordinator
  operatorToken :: string
  gcInterval :: int

text \<open>What one call of the coordinator takes from its environment.\<close>

record run_env =
  re_start :: int
  re_finish :: int
  re_clock :: "nat \<Rightarrow> int"
  re_ctx :: ctx
  re_message :: "collect_error \<Rightarrow> string"

text \<open>\<^verbatim>\<open>s.gc.Run(ctx, trigger)\<close>: the runner is \<open>collect\<close>, called only when the run is accepted.\<close>

definition gc_Run :: "run_env \<Rightarrow> trigger \<Rightarrow> service \<Rightarrow> gc_run \<times> bool \<times> service" where
  "gc_Run env trig svc =
     (if current (svc_gc svc) \<noteq> None
      then (case Run (re_start env) (re_finish env) trig (no_result, None) (svc_gc svc) of
              (run, accepted, c) \<Rightarrow> (run, accepted, svc\<lparr>svc_gc := c\<rparr>))
      else (case collect (re_clock env) (re_ctx env) (svc_server svc) of
              ((r, err), sv) \<Rightarrow>
                (case Run (re_start env) (re_finish env) trig (r, map_option (re_message env) err) (svc_gc svc) of
                   (run, accepted, c) \<Rightarrow> (run, accepted, svc\<lparr>svc_server := sv, svc_gc := c\<rparr>))))"

definition challenge :: string where
  "challenge = ''Bearer realm='' @ [CHR 0x22] @ ''n0ding-operator'' @ [CHR 0x22]"

definition operatorGC :: "run_env \<Rightarrow> request \<Rightarrow> response \<Rightarrow> service \<Rightarrow> response \<times> service" where
  "operatorGC env req w svc =
     (if req_path req \<noteq> ''/api/v1/operator/gc'' \<or> operatorToken svc = [] then (http_NotFound w, svc)
      else if req_method req \<noteq> ''POST'' then
        (http_Error ''method not allowed'' 405 (rw_Set ''Allow'' ''POST'' w), svc)
      else
        let authorization = Get (req_header req) ''Authorization'' in
        if \<not> HasPrefix authorization ''Bearer '' then
          (http_Error ''unauthorized'' 401 (rw_Set ''WWW-Authenticate'' challenge w), svc)
        else
          let provided = TrimPrefix authorization ''Bearer '' in
          if length provided \<noteq> length (operatorToken svc) \<or> provided \<noteq> operatorToken svc then
            (http_Error ''unauthorized'' 401 (rw_Set ''WWW-Authenticate'' challenge w), svc)
          else
            case gc_Run env TriggerOperator svc of
              (run, accepted, svc') \<Rightarrow>
                (writeJSON (RunJSON run)
                   (if \<not> accepted then WriteHeader 409 w
                    else if Error run \<noteq> [] then WriteHeader 500 w else w),
                 svc'))"

section \<open>The maintenance loop\<close>

text \<open>What the \<^verbatim>\<open>select\<close> of the loop receives.\<close>

datatype maintenance_event = CtxDone | PressureTick run_env | ScheduleTick run_env

fun maintenance_loop :: "maintenance_event list \<Rightarrow> service \<Rightarrow> service" where
  "maintenance_loop [] svc = svc"
| "maintenance_loop (CtxDone # _) svc = svc"
| "maintenance_loop (PressureTick env # evs) svc =
     (case sv_storage (svc_server svc) of
        None \<Rightarrow> maintenance_loop evs svc
      | Some c \<Rightarrow>
          if \<not> Pressure (Storage_Controller.Snapshot c) then maintenance_loop evs svc
          else (case gc_Run env TriggerPressure svc of (_, _, svc') \<Rightarrow> maintenance_loop evs svc'))"
| "maintenance_loop (ScheduleTick env # evs) svc =
     (case gc_Run env TriggerSchedule svc of (_, _, svc') \<Rightarrow> maintenance_loop evs svc')"

definition RunMaintenance :: "maintenance_event list \<Rightarrow> service \<Rightarrow> service" where
  "RunMaintenance evs svc = (if gcInterval svc \<le> 0 then svc else maintenance_loop evs svc)"

section \<open>Small handlers\<close>

definition health :: "request \<Rightarrow> response \<Rightarrow> response" where
  "health req w =
     (if req_path req \<noteq> ''/healthz'' then http_NotFound w
      else rw_Write (PlainText ([CHR 0x7B, CHR 0x22] @ ''status'' @ [CHR 0x22, CHR '':'', CHR 0x22] @ ''ok'' @ [CHR 0x22, CHR 0x7D]))
             (rw_Set ''Content-Type'' ''application/json'' w))"

text \<open>\<open>setup\<close> gives the setup snippet of a repository by its name.\<close>

definition repositoryAPI :: "(string \<rightharpoonup> string) \<Rightarrow> request \<Rightarrow> response \<Rightarrow> response" where
  "repositoryAPI setup req w =
     (let p = TrimPrefix (req_path req) ''/api/v1/repositories/'';
          (name, action, ok) = Cut p ''/''
      in if \<not> ok \<or> action \<noteq> ''setup'' then http_NotFound w
         else (case setup name of
                 None \<Rightarrow> http_NotFound w
               | Some snippet \<Rightarrow>
                   rw_Write (PlainText snippet) (rw_Set ''Content-Type'' ''text/plain; charset=utf-8'' w)))"

definition boolMetric :: "bool \<Rightarrow> int" where
  "boolMetric b = (if b then 1 else 0)"

text \<open>The headers with which the handler behind \<^verbatim>\<open>securityHeaders\<close> finds the response.\<close>

definition securityHeaders :: "header \<Rightarrow> header" where
  "securityHeaders h =
     Header_Set
       (Header_Set
         (Header_Set h ''Content-Security-Policy''
            (''default-src '' @ [CHR 0x27] @ ''self'' @ [CHR 0x27] @ ''; style-src '' @ [CHR 0x27] @ ''unsafe-inline''
             @ [CHR 0x27] @ ''; script-src '' @ [CHR 0x27] @ ''unsafe-inline'' @ [CHR 0x27]))
         ''Referrer-Policy'' ''no-referrer'')
       ''X-Content-Type-Options'' ''nosniff''"

section \<open>Start-up: the shared budget\<close>

text \<open>The committed bytes: the sizes of the stores, then of the private packages.\<close>

fun add_committed :: "int \<Rightarrow> int list \<Rightarrow> int" where
  "add_committed committed [] = committed"
| "add_committed committed (b # bs) =
     add_committed (if b > i64 (MaxInt64 - committed) then MaxInt64 else i64 (committed + b)) bs"

definition initial_storage ::
  "int \<Rightarrow> rat \<Rightarrow> rat \<Rightarrow> int \<Rightarrow> managedStore list \<Rightarrow> int list \<Rightarrow> controller option" where
  "initial_storage max_bytes high low min_free mss privateBytes =
     (let committed = add_committed (add_committed 0 (map (\<lambda>ms. fst (Size (ms_store ms))) mss)) privateBytes
      in if max_bytes > 0 \<or> min_free > 0
         then Some (NewController max_bytes high low min_free committed) else None)"

definition valid_token :: "string \<Rightarrow> bool" where
  "valid_token t \<longleftrightarrow> \<not> (length t < 32 \<or> length t > 4096)"

section \<open>What the operator endpoint promises\<close>

lemma prefix_split: "HasPrefix s p \<and> TrimPrefix s p = t \<longleftrightarrow> s = p @ t"
proof
  assume "HasPrefix s p \<and> TrimPrefix s p = t"
  then have "take (length p) s = p" "drop (length p) s = t" by (auto simp: HasPrefix_def TrimPrefix_def)
  then show "s = p @ t" by (metis append_take_drop_id)
qed (simp add: HasPrefix_def TrimPrefix_def)

lemma rw_Set_sent [simp]: "rw_sent (rw_Set k v w) = rw_sent w"
  by (simp add: rw_Set_def)

lemma http_Error_sent:
  "rw_sent w = None \<Longrightarrow> \<exists>h. rw_sent (http_Error msg code w) = Some (code, h)"
  by (simp add: http_Error_def rw_Write_def WriteHeader_def Let_def rw_Set_def)

text \<open>C15.
  
  Authorization of the operator: a request changes the service only if an operator token
  is configured, the path and the method are right and the header is the word
  \<open>Bearer\<close>, a space and exactly the token; otherwise nothing happens and the status is
  404, 405 or 401. No prefix or extension of the token is accepted.
\<close>

theorem operatorGC_authorised:
  assumes "rw_sent w = None"
  shows "case operatorGC env req w svc of (w', svc') \<Rightarrow>
    if req_path req = ''/api/v1/operator/gc'' \<and> operatorToken svc \<noteq> [] \<and> req_method req = ''POST'' \<and>
       Get (req_header req) ''Authorization'' = ''Bearer '' @ operatorToken svc
    then svc' = snd (snd (gc_Run env TriggerOperator svc))
    else svc' = svc \<and> (\<exists>h. rw_sent w' = Some (404, h) \<or> rw_sent w' = Some (405, h) \<or> rw_sent w' = Some (401, h))"
proof (cases "req_path req \<noteq> ''/api/v1/operator/gc'' \<or> operatorToken svc = []")
  case True
  then show ?thesis
    using http_Error_sent [OF assms] by (auto simp: operatorGC_def http_NotFound_def)
next
  case False
  note path = this
  show ?thesis
  proof (cases "req_method req \<noteq> ''POST''")
    case True
    then show ?thesis
      using path http_Error_sent [of "rw_Set ''Allow'' ''POST'' w"] assms by (auto simp: operatorGC_def)
  next
    case False
    let ?a = "Get (req_header req) ''Authorization''"
    have auth: "HasPrefix ?a ''Bearer '' \<and> TrimPrefix ?a ''Bearer '' = t \<longleftrightarrow> ?a = ''Bearer '' @ t" for t
      by (rule prefix_split)
    show ?thesis
    proof (cases "?a = ''Bearer '' @ operatorToken svc")
      case True
      then have "HasPrefix ?a ''Bearer ''" "TrimPrefix ?a ''Bearer '' = operatorToken svc" using auth by blast+
      then show ?thesis using path False True by (simp add: operatorGC_def Let_def split: prod.splits)
    next
      case no: False
      then have "\<not> HasPrefix ?a ''Bearer '' \<or> TrimPrefix ?a ''Bearer '' \<noteq> operatorToken svc" using auth by blast
      then have "operatorGC env req w svc = (http_Error ''unauthorized'' 401 (rw_Set ''WWW-Authenticate'' challenge w), svc)"
        using path False by (auto simp: operatorGC_def Let_def)
      then show ?thesis
        using no http_Error_sent [of "rw_Set ''WWW-Authenticate'' challenge w"] assms by auto
    qed
  qed
qed


definition sample_service :: service where
  "sample_service = \<lparr>svc_server = \<lparr>sv_stores = [], sv_fs = \<lparr>nodes = [], faults = []\<rparr>, sv_storage = None, sv_maxAge = 10\<rparr>,
     svc_gc = New_coordinator, operatorToken = replicate 32 (CHR ''t''), gcInterval = 60\<rparr>"

definition sample_run_env :: run_env where
  "sample_run_env = \<lparr>re_start = 1, re_finish = 2, re_clock = (\<lambda>_. 1), re_ctx = [], re_message = (\<lambda>_. ''failed'')\<rparr>"

theorem operatorGC_authorised_witness:
  "case operatorGC sample_run_env \<lparr>req_method = ''POST'', req_path = ''/api/v1/operator/gc'',
      req_header = [(''Authorization'', [''Bearer '' @ replicate 31 (CHR ''t'')])]\<rparr> fresh_response sample_service of (w', svc') \<Rightarrow>
    svc' = sample_service \<and> rw_sent w' \<noteq> None"
proof -
  have "Get [(''Authorization'', [''Bearer '' @ replicate 31 (CHR ''t'')])] ''Authorization'' \<noteq>
      ''Bearer '' @ operatorToken sample_service"
    by code_simp
  then show ?thesis
    using operatorGC_authorised [where w = fresh_response and env = sample_run_env and svc = sample_service
      and req = "\<lparr>req_method = ''POST'', req_path = ''/api/v1/operator/gc'',
        req_header = [(''Authorization'', [''Bearer '' @ replicate 31 (CHR ''t'')])]\<rparr>"]
    by (auto simp: fresh_response_def split: prod.splits)
qed

text \<open>
  The answer to an operator whose request meets a running collection: the service is
  unchanged, the status is 409 and the body is the current run, but the header that goes
  out with the status is the one from before the content type is set.
\<close>

theorem operatorGC_conflict:
  assumes "rw_sent w = None" "current (svc_gc svc) = Some a" "operatorToken svc \<noteq> []"
  shows "operatorGC env \<lparr>req_method = ''POST'', req_path = ''/api/v1/operator/gc'',
      req_header = [(''Authorization'', [''Bearer '' @ operatorToken svc])]\<rparr> w svc =
    (w\<lparr>rw_header := Header_Set (rw_header w) ''Content-Type'' ''application/json'',
       rw_sent := Some (409, rw_header w), rw_body := rw_body w @ [RunJSON (heap (svc_gc svc) ! a)]\<rparr>, svc)"
proof -
  have g: "Get [(''Authorization'', [v])] ''Authorization'' = v" for v
  proof -
    have "CanonicalHeaderKey ''Authorization'' = ''Authorization''" by code_simp
    then show ?thesis by (simp add: Get_def Values_def header_values_def)
  qed
  have p: "HasPrefix (''Bearer '' @ t) ''Bearer ''" "TrimPrefix (''Bearer '' @ t) ''Bearer '' = t" for t
    using prefix_split [of "''Bearer '' @ t" "''Bearer ''" t] by blast+
  have r: "gc_Run env TriggerOperator svc = (heap (svc_gc svc) ! a, False, svc)"
    using assms(2) by (simp add: gc_Run_def Run_def run_begin_def)
  show ?thesis
    using assms(1,3) g [of "''Bearer '' @ operatorToken svc"] p [of "operatorToken svc"] r
    by (simp add: operatorGC_def Let_def writeJSON_def rw_Write_def WriteHeader_def rw_Set_def)
qed

theorem operatorGC_conflict_witness:
  "case operatorGC sample_run_env \<lparr>req_method = ''POST'', req_path = ''/api/v1/operator/gc'',
      req_header = [(''Authorization'', [''Bearer '' @ replicate 32 (CHR ''t'')])]\<rparr> fresh_response
      (sample_service\<lparr>svc_gc := New_coordinator\<lparr>current := Some 0, heap := [\<lparr>ID = 1, Trigger = TriggerSchedule,
         StartedAt = 1, FinishedAt = None, Result = no_result, Error = []\<rparr>]\<rparr>\<rparr>) of (w', svc') \<Rightarrow>
    rw_sent w' = Some (409, [])"
  using operatorGC_conflict [of fresh_response "sample_service\<lparr>svc_gc := New_coordinator\<lparr>current := Some 0,
      heap := [\<lparr>ID = 1, Trigger = TriggerSchedule, StartedAt = 1, FinishedAt = None, Result = no_result, Error = []\<rparr>]\<rparr>\<rparr>" 0
      sample_run_env]
  by (simp add: fresh_response_def sample_service_def)

lemma add_committed_min:
  assumes "0 \<le> n" "n \<le> MaxInt64" "\<forall>b \<in> set bs. 0 \<le> b"
  shows "add_committed n bs = min MaxInt64 (n + sum_list bs)"
  using assms
proof (induction bs arbitrary: n)
  case (Cons b bs)
  have b: "0 \<le> b" "0 \<le> sum_list bs" using Cons.prems(3) by (auto intro: sum_list_nonneg)
  have r: "i64 (MaxInt64 - n) = MaxInt64 - n" using Cons.prems(1,2) by (intro i64_in_range) (auto simp: MaxInt64_def)
  let ?n = "if b > i64 (MaxInt64 - n) then MaxInt64 else i64 (n + b)"
  have n: "?n = min MaxInt64 (n + b)" using Cons.prems(1) b r by (auto simp: i64_in_range MaxInt64_def)
  then show ?case
    using Cons.IH [of ?n] Cons.prems b by (auto simp: MaxInt64_def min_def)
qed simp

text \<open>
  The budget at start-up: the controller exists exactly when a limit is configured, and it
  starts with the sum of what the stores hold and of the private packages, capped at the
  largest 64-bit integer, and with nothing reserved.
\<close>

theorem startup_budget:
  assumes "\<forall>ms \<in> set mss. 0 \<le> store_bytes (ms_store ms)" "\<forall>b \<in> set privateBytes. 0 \<le> b"
  shows "case initial_storage max_bytes high low min_free mss privateBytes of
      None \<Rightarrow> max_bytes \<le> 0 \<and> min_free \<le> 0
    | Some c \<Rightarrow> (max_bytes > 0 \<or> min_free > 0) \<and> maxBytes c = max_bytes \<and> minFreeBytes c = min_free \<and>
        committedBytes c = min MaxInt64 (total_bytes mss + sum_list privateBytes) \<and> reservedBytes c = 0"
proof -
  have s: "map (\<lambda>ms. fst (Size (ms_store ms))) mss = map (\<lambda>ms. store_bytes (ms_store ms)) mss" by (simp add: Size_def)
  have a: "add_committed 0 (map (\<lambda>ms. store_bytes (ms_store ms)) mss) = min MaxInt64 (total_bytes mss)"
    using add_committed_min [of 0 "map (\<lambda>ms. store_bytes (ms_store ms)) mss"] assms(1)
    by (auto simp: total_bytes_def MaxInt64_def)
  have t: "0 \<le> total_bytes mss" "0 \<le> sum_list privateBytes"
    using assms by (auto simp: total_bytes_def intro!: sum_list_nonneg sum_list_nonneg_map)
  have "add_committed (min MaxInt64 (total_bytes mss)) privateBytes = min MaxInt64 (total_bytes mss + sum_list privateBytes)"
    using add_committed_min [of "min MaxInt64 (total_bytes mss)" privateBytes] assms(2) t
    by (auto simp: MaxInt64_def min_def)
  then show ?thesis by (simp add: initial_storage_def s a NewController_def)
qed

theorem startup_budget_witness:
  "case initial_storage 100 (9 / 10) (3 / 4) 0 sample_stores [7] of None \<Rightarrow> False | Some c \<Rightarrow> committedBytes c = 10"
  using startup_budget [where mss = sample_stores and privateBytes = "[7]" and max_bytes = 100 and high = "9 / 10"
      and low = "3 / 4" and min_free = 0]
  by (auto simp: sample_stores_def total_bytes_def MaxInt64_def split: option.splits)

end
