(* ===== verification/Server_Status.thy ===== *)
theory Server_Status
  imports Server_Http
begin

text \<open>
  The reports of \<^verbatim>\<open>src/internal/httpserver/server.go\<close>: the status, the operator's view, the
  metrics and the dashboard, over the whole state of the server. A repository's store is the
  managed store at the same position.
\<close>

section \<open>The server\<close>

text \<open>Where a pattern of the multiplexer leads.\<close>

datatype route =
    ToRepository nat | ToHealth | ToStatus | ToOperator | ToOperatorGC | ToRepositories | ToMetrics | ToDashboard

record application = service +
  app_version :: string
  app_publicURL :: string
  app_started :: int
  app_storagePath :: string
  app_repositories :: "repo_handler list"
  app_byName :: "(string \<times> repo_handler) list"
  app_stats :: "counters list"
  app_routes :: "(string \<times> route) list"

definition app_snapshots :: "application \<Rightarrow> repository_snapshot list" where
  "app_snapshots a =
     map (\<lambda>((h, c), ms). handler_Snapshot h c (ms_store ms))
       (zip (zip (app_repositories a) (app_stats a)) (sv_stores (svc_server a)))"

section \<open>Status\<close>

text \<open>
  \<^verbatim>\<open>Round(time.Second).String()\<close> for a duration that is not negative and far from the
  largest one: hours and minutes only when they are needed.
\<close>

definition round_seconds :: "int \<Rightarrow> int" where
  "round_seconds d = (let r = d mod 1000000000; s = d div 1000000000 in if 2 * r < 1000000000 then s else s + 1)"

definition uptime :: "int \<Rightarrow> string" where
  "uptime d =
     (let s = round_seconds d; h = s div 3600; m = s div 60 mod 60
      in (if s \<ge> 3600 then FormatInt h @ ''h'' else []) @ (if s \<ge> 60 then FormatInt m @ ''m'' else [])
         @ FormatInt (s mod 60) @ ''s'')"

definition status :: "int \<Rightarrow> request \<Rightarrow> response \<Rightarrow> application \<Rightarrow> response" where
  "status now req w a =
     (if req_path req \<noteq> ''/api/v1/status'' then http_NotFound w
      else writeJSON (StatusJSON \<lparr>sr_Version = app_version a, sr_Status = ''ok'', sr_Uptime = uptime (time_Sub now (app_started a)),
             sr_Repositories = app_snapshots a\<rparr>) w)"

definition zero_snapshot :: ctl_snapshot where
  "zero_snapshot = \<lparr>MaxBytes = 0, HighBytes = 0, LowBytes = 0, MinFreeBytes = 0, CommittedBytes = 0, ReservedBytes = 0,
     BypassObjects = 0, BypassBytes = 0, Pressure = False\<rparr>"

text \<open>\<open>free\<close> is the answer of \<^verbatim>\<open>FreeBytes\<close>; the uptime in whole seconds as for an entry's age.\<close>

definition operatorStatus :: "int \<Rightarrow> os_error + int \<Rightarrow> request \<Rightarrow> response \<Rightarrow> application \<Rightarrow> response" where
  "operatorStatus now free req w a =
     (if req_path req \<noteq> ''/api/v1/operator'' then http_NotFound w
      else if req_method req \<noteq> ''GET'' \<and> req_method req \<noteq> ''HEAD'' then
        http_Error ''method not allowed'' 405 (rw_Set ''Allow'' ''GET, HEAD'' w)
      else
        let ctl = sv_storage (svc_server a);
            st = (case ctl of
                    None \<Rightarrow> \<lparr>os_Snapshot = zero_snapshot, os_FilesystemFreeBytes = 0, os_Bounded = False\<rparr>
                  | Some c \<Rightarrow> \<lparr>os_Snapshot = Storage_Controller.Snapshot c, os_FilesystemFreeBytes = 0, os_Bounded = True\<rparr>);
            st' = (case free of Inl _ \<Rightarrow> st | Inr n \<Rightarrow> st\<lparr>os_FilesystemFreeBytes := n\<rparr>);
            ok = (ctl \<noteq> None \<and> (case free of Inl _ \<Rightarrow> False | Inr _ \<Rightarrow> True))
        in writeJSON (OperatorJSON \<lparr>or_GeneratedAt = now, or_Version = app_version a,
             or_Status = (if ok then ''ok'' else ''degraded''), or_UptimeSeconds = time_Sub now (app_started a) sdiv 1000000000,
             or_Storage = st', or_GC = Maintenance.Snapshot (svc_gc a), or_Repositories = app_snapshots a\<rparr>) w)"

section \<open>Metrics\<close>

text \<open>\<^verbatim>\<open>%q\<close> of an ASCII text.\<close>

definition quote_char :: "char \<Rightarrow> string" where
  "quote_char c =
     (if c = CHR 0x22 \<or> c = CHR 0x5C then [CHR 0x5C, c]
      else if c = CHR 0x07 then [CHR 0x5C, CHR ''a''] else if c = CHR 0x08 then [CHR 0x5C, CHR ''b'']
      else if c = CHR 0x0C then [CHR 0x5C, CHR ''f''] else if c = CHR 0x0A then [CHR 0x5C, CHR ''n'']
      else if c = CHR 0x0D then [CHR 0x5C, CHR ''r''] else if c = CHR 0x09 then [CHR 0x5C, CHR ''t'']
      else if c = CHR 0x0B then [CHR 0x5C, CHR ''v'']
      else if byte c < 32 \<or> byte c = 127 then [CHR 0x5C, CHR ''x'', hex_digit (byte c div 16), hex_digit (byte c mod 16)]
      else [c])"

definition go_quote :: "string \<Rightarrow> string" where
  "go_quote s = [CHR 0x22] @ concat (map quote_char s) @ [CHR 0x22]"

text \<open>The lines that introduce a metric, and a sample.\<close>

definition about_metric :: "string \<Rightarrow> string \<Rightarrow> string \<Rightarrow> string list" where
  "about_metric name kind help = [''# HELP '' @ name @ '' '' @ help, ''# TYPE '' @ name @ '' '' @ kind]"

definition gauge :: "string \<Rightarrow> int \<Rightarrow> string" where
  "gauge name v = name @ '' '' @ FormatInt v"

definition repository_metrics :: "repository_snapshot \<Rightarrow> string list" where
  "repository_metrics s =
     (let label = [CHR 0x7B] @ ''repository='' @ go_quote (sn_Name s) @ '',type='' @ go_quote (sn_Type s) @ [CHR 0x7D]
      in [gauge (''n0ding_repository_requests_total'' @ label) (sn_Requests s),
          gauge (''n0ding_repository_cache_hits_total'' @ label) (sn_CacheHits s),
          gauge (''n0ding_repository_cache_misses_total'' @ label) (sn_CacheMisses s),
          gauge (''n0ding_repository_errors_total'' @ label) (sn_Errors s),
          gauge (''n0ding_repository_client_canceled_total'' @ label) (sn_ClientCanceled s),
          gauge (''n0ding_repository_range_requests_total'' @ label) (sn_RangeRequests s),
          gauge (''n0ding_repository_storage_bytes'' @ label) (sn_StorageBytes s),
          gauge (''n0ding_repository_cache_objects'' @ label) (sn_CacheObjects s)])"

definition repository_help :: "string list" where
  "repository_help =
     about_metric ''n0ding_repository_requests_total'' ''counter'' ''Repository requests received.'' @
     about_metric ''n0ding_repository_cache_hits_total'' ''counter'' ''Repository requests served from cache.'' @
     about_metric ''n0ding_repository_cache_misses_total'' ''counter'' ''Repository cache misses.'' @
     about_metric ''n0ding_repository_errors_total'' ''counter'' ''Repository request errors.'' @
     about_metric ''n0ding_repository_client_canceled_total'' ''counter'' ''Repository requests canceled by clients.'' @
     about_metric ''n0ding_repository_range_requests_total'' ''counter'' ''Repository byte-range requests.'' @
     about_metric ''n0ding_repository_storage_bytes'' ''gauge'' ''Complete cached body bytes by repository.'' @
     about_metric ''n0ding_repository_cache_objects'' ''gauge'' ''Complete cached objects by repository.''"

definition storage_metrics :: "ctl_snapshot \<Rightarrow> string list" where
  "storage_metrics s =
     about_metric ''n0ding_storage_committed_bytes'' ''gauge'' ''Bytes committed to complete cache objects.'' @
     [gauge ''n0ding_storage_committed_bytes'' (CommittedBytes s)] @
     about_metric ''n0ding_storage_reserved_bytes'' ''gauge'' ''Bytes reserved by in-flight cache writes.'' @
     [gauge ''n0ding_storage_reserved_bytes'' (ReservedBytes s)] @
     about_metric ''n0ding_storage_max_bytes'' ''gauge'' ''Configured global cache budget.'' @
     [gauge ''n0ding_storage_max_bytes'' (MaxBytes s)] @
     about_metric ''n0ding_storage_pressure'' ''gauge'' ''Whether usage is at or above the high watermark.'' @
     [gauge ''n0ding_storage_pressure'' (boolMetric (Pressure s))] @
     about_metric ''n0ding_storage_bypass_objects_total'' ''counter'' ''Objects proxied without cache admission.'' @
     [gauge ''n0ding_storage_bypass_objects_total'' (BypassObjects s)] @
     about_metric ''n0ding_storage_bypass_bytes_total'' ''counter'' ''Known bytes proxied without cache admission.'' @
     [gauge ''n0ding_storage_bypass_bytes_total'' (BypassBytes s)]"

text \<open>A time is a number of nanoseconds since the year 1; \<^verbatim>\<open>Unix()\<close> counts seconds since 1970.\<close>

definition time_Unix :: "int \<Rightarrow> int" where
  "time_Unix t = t div 1000000000 - 62135596800"

definition gc_metrics :: "gc_snapshot \<Rightarrow> string list" where
  "gc_metrics g =
     about_metric ''n0ding_gc_running'' ''gauge'' ''Whether a garbage collection run is active.'' @
     [gauge ''n0ding_gc_running'' (boolMetric (State g = ''running''))] @
     (case Last g of
        None \<Rightarrow> []
      | Some r \<Rightarrow>
          about_metric ''n0ding_gc_last_removed_bytes'' ''gauge'' ''Bytes removed by the last garbage collection run.'' @
          [gauge ''n0ding_gc_last_removed_bytes'' (RemovedBytes (Result r))] @
          about_metric ''n0ding_gc_last_errors'' ''gauge'' ''Errors recorded by the last garbage collection run.'' @
          [gauge ''n0ding_gc_last_errors'' (Errors (Result r))] @
          (case FinishedAt r of
             None \<Rightarrow> []
           | Some t \<Rightarrow>
               about_metric ''n0ding_gc_last_finished_timestamp_seconds'' ''gauge''
                 ''Unix timestamp when the last garbage collection run finished.'' @
               [gauge ''n0ding_gc_last_finished_timestamp_seconds'' (time_Unix t)]))"

definition metric_lines :: "application \<Rightarrow> string list" where
  "metric_lines a =
     repository_help @ concat (map repository_metrics (app_snapshots a)) @
     (case sv_storage (svc_server a) of None \<Rightarrow> [] | Some c \<Rightarrow> storage_metrics (Storage_Controller.Snapshot c)) @
     gc_metrics (Maintenance.Snapshot (svc_gc a))"

definition metrics :: "request \<Rightarrow> response \<Rightarrow> application \<Rightarrow> response" where
  "metrics req w a =
     (if req_path req \<noteq> ''/metrics'' then http_NotFound w
      else fold (\<lambda>line. rw_Write (PlainText (line @ [CHR 0x0A]))) (metric_lines a)
             (rw_Set ''Content-Type'' ''text/plain; version=0.0.4'' w))"

definition dashboard :: "request \<Rightarrow> response \<Rightarrow> application \<Rightarrow> response" where
  "dashboard req w a =
     (if req_path req \<noteq> ''/'' then http_NotFound w
      else rw_Write (DashboardPage (app_version a) (app_publicURL a)) (rw_Set ''Content-Type'' ''text/html; charset=utf-8'' w))"

end
