(* ===== verification/Go_Filepath.thy ===== *)
theory Go_Filepath
  imports Go_Json Go_Os
begin

text \<open>
  The functions of \<^verbatim>\<open>path/filepath\<close> that the program calls on paths given as text, on Unix,
  and the path of the file-system model that a text names: the elements of the cleaned
  path, with an empty first element when it is absolute.
\<close>

definition IsAbs :: "string \<Rightarrow> bool" where
  "IsAbs p \<longleftrightarrow> HasPrefix p ''/''"

text \<open>One element after the others, the last of them first.\<close>

definition clean_step :: "bool \<Rightarrow> string \<Rightarrow> string list \<Rightarrow> string list" where
  "clean_step rooted e st =
     (if e = [] \<or> e = ''.'' then st
      else if e = ''..'' then
        (if st \<noteq> [] \<and> hd st \<noteq> ''..'' then tl st else if rooted then [] else e # st)
      else e # st)"

definition clean_elements :: "string \<Rightarrow> string list" where
  "clean_elements p = rev (fold (clean_step (IsAbs p)) (Split p CHR ''/'') [])"

definition Clean :: "string \<Rightarrow> string" where
  "Clean p =
     (let es = clean_elements p
      in if IsAbs p then ''/'' @ join_with ''/'' es else if es = [] then ''.'' else join_with ''/'' es)"

definition Dir :: "string \<Rightarrow> string" where
  "Dir p = Clean (rev (dropWhile (\<lambda>c. c \<noteq> CHR ''/'') (rev p)))"

definition Join :: "string list \<Rightarrow> string" where
  "Join es = (let es' = dropWhile (\<lambda>e. e = []) es in if es' = [] then [] else Clean (join_with ''/'' es'))"

definition path_of :: "string \<Rightarrow> path" where
  "path_of p = (if IsAbs p then [[]] else []) @ clean_elements p"

lemma IsAbs_Clean [simp]: "IsAbs p \<Longrightarrow> IsAbs (Clean p)"
  by (simp add: Clean_def Let_def IsAbs_def HasPrefix_def)

lemma IsAbs_append [simp]: "p \<noteq> [] \<Longrightarrow> IsAbs (p @ q) \<longleftrightarrow> IsAbs p"
  by (cases p) (auto simp: IsAbs_def HasPrefix_def)

lemma IsAbs_Dir: "IsAbs p \<Longrightarrow> IsAbs (Dir p)"
proof -
  assume "IsAbs p"
  then obtain t where p: "p = CHR ''/'' # t" by (cases p) (auto simp: IsAbs_def HasPrefix_def)
  have "\<exists>u. dropWhile (\<lambda>c. c \<noteq> CHR ''/'') (rev t @ [CHR ''/'']) = u @ [CHR ''/'']"
  proof (cases "CHR ''/'' \<in> set (rev t)")
    case True
    then show ?thesis using dropWhile_append1 [OF True] by auto
  next
    case False
    then have "dropWhile (\<lambda>c. c \<noteq> CHR ''/'') (rev t @ [CHR ''/'']) = [CHR ''/'']"
      by (subst dropWhile_append2) auto
    then show ?thesis by simp
  qed
  then obtain u where "dropWhile (\<lambda>c. c \<noteq> CHR ''/'') (rev p) = u @ [CHR ''/'']" by (auto simp: p)
  then have "IsAbs (rev (dropWhile (\<lambda>c. c \<noteq> CHR ''/'') (rev p)))" by (simp add: IsAbs_def HasPrefix_def)
  then show ?thesis unfolding Dir_def by (rule IsAbs_Clean)
qed

lemma IsAbs_Join: "IsAbs d \<Longrightarrow> IsAbs (Join [d, x])"
proof -
  assume a: "IsAbs d"
  then have "d \<noteq> []" by (auto simp: IsAbs_def HasPrefix_def)
  then show ?thesis using a by (simp add: Join_def Let_def)
qed

text \<open>Joining one plain element appends it to the path.\<close>

definition plain_element :: "string \<Rightarrow> bool" where
  "plain_element e \<longleftrightarrow> e \<notin> {[], ''.'', ''..''} \<and> CHR ''/'' \<notin> set e"

lemma clean_plain: "plain_element e \<Longrightarrow> clean_step b e st = e # st"
  by (auto simp: plain_element_def clean_step_def)

lemma clean_elements_append:
  assumes "d \<noteq> []" "plain_element e"
  shows "clean_elements (d @ ''/'' @ e) = clean_elements d @ [e]"
proof -
  have "Split (d @ ''/'' @ e) CHR ''/'' = Split d CHR ''/'' @ [e]"
    using Split_append [of d "CHR ''/''" e] assms(2) by (simp add: Split_absent plain_element_def)
  then show ?thesis using assms by (simp add: clean_elements_def clean_plain)
qed

text \<open>Cleaning is idempotent: parent steps are left only at the front of a relative path.\<close>

fun clean_ok :: "bool \<Rightarrow> string list \<Rightarrow> bool" where
  "clean_ok rooted [] \<longleftrightarrow> True"
| "clean_ok rooted (e # st) \<longleftrightarrow>
     (plain_element e \<or> e = ''..'' \<and> \<not> rooted \<and> (st = [] \<or> hd st = ''..'')) \<and> clean_ok rooted st"

lemma clean_step_ok: "clean_ok b st \<Longrightarrow> CHR ''/'' \<notin> set e \<Longrightarrow> clean_ok b (clean_step b e st)"
  by (cases st) (auto simp: clean_step_def plain_element_def)

lemma clean_fold_ok: "clean_ok b st \<Longrightarrow> \<forall>e \<in> set es. CHR ''/'' \<notin> set e \<Longrightarrow> clean_ok b (fold (clean_step b) es st)"
  by (induction es arbitrary: st) (auto simp: clean_step_ok)

lemma clean_refold: "clean_ok b st \<Longrightarrow> fold (clean_step b) (rev st) [] = st"
proof (induction st)
  case (Cons e st)
  have "clean_step b e st = e # st"
    using Cons.prems clean_plain [of e b st] by (auto simp: clean_step_def)
  then show ?case using Cons by simp
qed simp

lemma Split_elements: "e \<in> set (Split p c) \<Longrightarrow> c \<notin> set e"
proof (induction p arbitrary: e)
  case (Cons x p)
  then show ?case by (cases "Split p c") (auto split: if_splits)
qed simp

lemma clean_ok_elements: "clean_ok (IsAbs p) (rev (clean_elements p))"
  using clean_fold_ok [of "IsAbs p" "[]" "Split p CHR ''/''"] Split_elements by (auto simp: clean_elements_def)

lemma clean_ok_slash: "clean_ok b st \<Longrightarrow> e \<in> set st \<Longrightarrow> CHR ''/'' \<notin> set e \<and> e \<noteq> []"
  by (induction st) (auto simp: plain_element_def)

lemma Split_join: "es \<noteq> [] \<Longrightarrow> \<forall>e \<in> set es. c \<notin> set e \<Longrightarrow> Split (join_with [c] es) c = es"
proof (induction es)
  case (Cons x es)
  then show ?case
    using Split_append [of x c "join_with [c] es"] by (cases es) (simp_all add: Split_absent)
qed simp

lemma join_with_start: "es \<noteq> [] \<Longrightarrow> hd es \<noteq> [] \<Longrightarrow> join_with s es \<noteq> [] \<and> hd (join_with s es) = hd (hd es)"
  by (cases "(s, es)" rule: join_with.cases) auto

lemma path_of_Clean [simp]: "path_of (Clean p) = path_of p"
proof -
  let ?es = "clean_elements p"
  have ok: "clean_ok (IsAbs p) (rev ?es)" by (rule clean_ok_elements)
  have el: "CHR ''/'' \<notin> set e" "e \<noteq> []" if "e \<in> set ?es" for e using clean_ok_slash [OF ok] that by simp_all
  have re: "rev (fold (clean_step (IsAbs p)) ?es []) = ?es" using clean_refold [OF ok] by simp
  show ?thesis
  proof (cases "IsAbs p")
    case True
    have "rev (fold (clean_step True) (Split (''/'' @ join_with ''/'' ?es) CHR ''/'') []) = ?es"
      using re True el Split_join [of ?es] by (cases "?es = []") (simp_all add: clean_step_def)
    then show ?thesis using True by (simp add: path_of_def Clean_def Let_def clean_elements_def IsAbs_def HasPrefix_def)
  next
    case False
    have "\<not> IsAbs (join_with ''/'' ?es)" if "?es \<noteq> []"
    proof -
      have "hd ?es \<noteq> []" "CHR ''/'' \<notin> set (hd ?es)" using el that by simp_all
      then show ?thesis using join_with_start [OF that, of "''/''"] that
        by (cases "join_with ''/'' ?es"; cases "hd ?es") (auto simp: IsAbs_def HasPrefix_def)
    qed
    moreover have "clean_elements (join_with ''/'' ?es) = ?es" if "?es \<noteq> []"
      using calculation [OF that] re False Split_join [OF that] el(1) by (simp add: clean_elements_def [of "join_with ''/'' ?es"])
    moreover have "clean_elements ''.'' = []" "\<not> IsAbs ''.''" by code_simp+
    ultimately show ?thesis using False by (cases "?es = []") (simp_all add: path_of_def Clean_def)
  qed
qed

lemma path_of_Join:
  assumes "d \<noteq> []" "plain_element e"
  shows "path_of (Join [d, e]) = path_of d @ [e]"
proof -
  have "e \<noteq> []" using assms(2) by (simp add: plain_element_def)
  then have "Join [d, e] = Clean (d @ ''/'' @ e)" using assms(1) by (simp add: Join_def Let_def)
  then have "path_of (Join [d, e]) = path_of (d @ ''/'' @ e)" by simp
  then show ?thesis using clean_elements_append [OF assms] assms(1) by (simp add: path_of_def)
qed

end
