(* ===== verification/Go_Mux.thy ===== *)
theory Go_Mux
  imports Go_Url Go_Filepath
begin

text \<open>
  What the server uses of \<^verbatim>\<open>http.ServeMux\<close>: patterns without a method, a host and
  wildcards. The patterns of a validated configuration start with a slash; in such a pattern a
  blank or a tab would end the method, and what stands before it is none, so registering it
  panics. Validation lets braces through as well; a segment in braces is a wildcard for
  \<^verbatim>\<open>ServeMux\<close>, which is not modelled: here a brace is a character like the others. A
  pattern that ends in a slash matches everything below it, any
  other only itself; the most specific match wins. Segments are compared unescaped. A request
  whose path is not clean, or that lacks only the slash of a pattern, is redirected; of
  the target of a redirect only the path is kept.
\<close>

definition segment :: "string \<Rightarrow> string" where
  "segment s = (case PathUnescape s of None \<Rightarrow> s | Some t \<Rightarrow> t)"

text \<open>The segments after the leading slash; the last is empty when the path ends in a slash.\<close>

definition segments :: "string \<Rightarrow> string list" where
  "segments p = map segment (Split (tl p) CHR ''/'')"

definition pattern_matches :: "string list \<Rightarrow> string list \<Rightarrow> bool" where
  "pattern_matches ps qs \<longleftrightarrow>
     (if last ps = [] then length ps \<le> length qs \<and> take (length ps - 1) qs = butlast ps else ps = qs)"

text \<open>A longer pattern is more specific, and one for a single path more than one of its length for a tree.\<close>

definition specificity :: "string list \<Rightarrow> nat" where
  "specificity ps = 2 * length ps + (if last ps = [] then 0 else 1)"

fun mux_match :: "(string \<times> 'h) list \<Rightarrow> string \<Rightarrow> (string \<times> 'h) option" where
  "mux_match [] path = None"
| "mux_match ((p, h) # rs) path =
     (case mux_match rs path of
        None \<Rightarrow> if pattern_matches (segments p) (segments path) then Some (p, h) else None
      | Some (q, k) \<Rightarrow>
          if pattern_matches (segments p) (segments path) \<and> specificity (segments q) < specificity (segments p)
          then Some (p, h) else Some (q, k))"

definition exactMatch :: "(string \<times> 'h) option \<Rightarrow> string \<Rightarrow> bool" where
  "exactMatch n path \<longleftrightarrow>
     (case n of
        None \<Rightarrow> False
      | Some (p, _) \<Rightarrow>
          last (segments p) \<noteq> [] \<or> HasSuffix path ''/'' \<and> length (segments p) = length (segments path))"

definition cleanPath :: "string \<Rightarrow> string" where
  "cleanPath p =
     (if p = [] then ''/''
      else let q = (if hd p \<noteq> CHR ''/'' then ''/'' @ p else p); np = Clean q
           in if HasSuffix q ''/'' \<and> np \<noteq> ''/'' then np @ ''/'' else np)"

datatype 'h found = Redirect string | Route 'h | NoRoute

definition mux_find :: "(string \<times> 'h) list \<Rightarrow> string \<Rightarrow> url \<Rightarrow> 'h found" where
  "mux_find routes verb u =
     (let escaped = EscapedPath u;
          path = (if verb = ''CONNECT'' then escaped else cleanPath escaped);
          n = mux_match routes path
      in if \<not> exactMatch n path \<and> \<not> HasSuffix path ''/'' \<and> exactMatch (mux_match routes (path @ ''/'')) (path @ ''/'')
         then Redirect (cleanPath (Path u) @ ''/'')
         else if path \<noteq> escaped then Redirect path
         else (case n of None \<Rightarrow> NoRoute | Some (_, h) \<Rightarrow> Route h))"

text \<open>\<^verbatim>\<open>mux.Handle\<close>; registering a pattern with a blank or a tab, or one a second time, panics.\<close>

definition plain_pattern :: "string \<Rightarrow> bool" where
  "plain_pattern p \<longleftrightarrow> CHR '' '' \<notin> set p \<and> CHR 0x09 \<notin> set p"

definition mux_Handle :: "string \<Rightarrow> 'h \<Rightarrow> (string \<times> 'h) list \<Rightarrow> string + (string \<times> 'h) list" where
  "mux_Handle p h routes =
     (if \<not> plain_pattern p \<or> segments p \<in> set (map (segments \<circ> fst) routes) then Inl p
      else Inr (routes @ [(p, h)]))"

fun mux_register :: "(string \<times> 'h) list \<Rightarrow> (string \<times> 'h) list \<Rightarrow> string + (string \<times> 'h) list" where
  "mux_register [] routes = Inr routes"
| "mux_register ((p, h) # ps) routes =
     (case mux_Handle p h routes of Inl e \<Rightarrow> Inl e | Inr routes' \<Rightarrow> mux_register ps routes')"

section \<open>The most specific pattern wins\<close>

lemma mux_match_Some:
  "mux_match rs path = Some (p, h) \<Longrightarrow>
     (p, h) \<in> set rs \<and> pattern_matches (segments p) (segments path) \<and>
     (\<forall>(q, k) \<in> set rs. pattern_matches (segments q) (segments path) \<longrightarrow> specificity (segments q) \<le> specificity (segments p))"
proof (induction rs arbitrary: p h)
  case (Cons r rs)
  obtain q k where r: "r = (q, k)" by fastforce
  show ?case
  proof (cases "mux_match rs path")
    case None
    have "\<not> pattern_matches (segments x) (segments path)" if "(x, y) \<in> set rs" for x y
      using None that by (induction rs) (auto split: option.splits prod.splits if_splits)
    then show ?thesis using Cons.prems None by (auto simp: r split: if_splits)
  next
    case (Some x)
    then obtain q' k' where x: "mux_match rs path = Some (q', k')" by (cases x) auto
    show ?thesis using Cons.IH [OF x] Cons.prems x by (fastforce simp: r split: if_splits)
  qed
qed simp

lemma mux_match_None: "mux_match rs path = None \<Longrightarrow> (q, k) \<in> set rs \<Longrightarrow> \<not> pattern_matches (segments q) (segments path)"
  by (induction rs) (auto split: option.splits prod.splits if_splits)

lemma root_matches: "pattern_matches (segments ''/'') (segments path)"
proof -
  have "segments ''/'' = [[]]" by code_simp
  moreover have "segments path \<noteq> []" by (cases "tl path") (auto simp: segments_def split: list.splits)
  ultimately show ?thesis by (cases "segments path") (simp_all add: pattern_matches_def)
qed

lemma mux_find_Route:
  assumes "mux_find routes verb u = Route h"
  shows "\<exists>p. mux_match routes (EscapedPath u) = Some (p, h)"
  using assms by (auto simp: mux_find_def Let_def split: if_splits option.splits)

lemma mux_find_total:
  assumes "(''/'', h) \<in> set routes"
  shows "mux_find routes verb u \<noteq> NoRoute"
proof -
  define path where "path = (if verb = ''CONNECT'' then EscapedPath u else cleanPath (EscapedPath u))"
  have "mux_match routes path \<noteq> None" using mux_match_None [OF _ assms] root_matches by blast
  then obtain p k where "mux_match routes path = Some (p, k)" by fastforce
  then show ?thesis unfolding mux_find_def Let_def path_def [symmetric] by (cases "path = EscapedPath u") auto
qed

lemma mux_register_Inr:
  "mux_register ps routes = Inr table \<Longrightarrow> table = routes @ ps \<and> list_all (plain_pattern \<circ> fst) ps \<and>
     (distinct (map (segments \<circ> fst) routes) \<longrightarrow> distinct (map (segments \<circ> fst) table))"
proof (induction ps routes arbitrary: table rule: mux_register.induct)
  case (2 p h ps routes)
  then have new: "plain_pattern p" "segments p \<notin> set (map (segments \<circ> fst) routes)"
    and rest: "mux_register ps (routes @ [(p, h)]) = Inr table"
    by (simp_all add: mux_Handle_def split: if_splits)
  have handle: "mux_Handle p h routes = Inr (routes @ [(p, h)])" using new by (simp add: mux_Handle_def)
  have d: "distinct (map (segments \<circ> fst) (routes @ [(p, h)]))" if "distinct (map (segments \<circ> fst) routes)"
    using new that by simp
  note IH = 2(1) [OF handle rest]
  have "table = routes @ (p, h) # ps" using IH by simp
  moreover have "list_all (plain_pattern \<circ> fst) ((p, h) # ps)" using IH new(1) by (simp add: comp_def)
  moreover have "distinct (map (segments \<circ> fst) table)" if "distinct (map (segments \<circ> fst) routes)"
    using IH d [OF that] by blast
  ultimately show ?case by blast
qed simp

text \<open>A pattern on which registering panics has a blank or a tab, or stands after one with the same segments.\<close>

definition refused :: "string list \<Rightarrow> string \<Rightarrow> bool" where
  "refused ps p \<longleftrightarrow> p \<in> set ps \<and> (\<not> plain_pattern p \<or> 1 < count_list (map segments ps) (segments p))"

lemma refusedI:
  assumes "\<not> plain_pattern p \<or> segments p \<in> segments ` set xs"
  shows "refused (xs @ p # ys) p"
proof -
  have "0 < count_list (map segments xs) (segments p)" if "segments p \<in> segments ` set xs"
    using that count_list_0_iff [of "map segments xs" "segments p"] by auto
  then show ?thesis using assms by (auto simp: refused_def)
qed

lemma mux_register_Inl:
  "mux_register ps routes = Inl p \<Longrightarrow> refused (map fst (routes @ ps) @ rest) p"
proof (induction ps routes rule: mux_register.induct)
  case (2 q h ps routes)
  show ?case
  proof (cases "mux_Handle q h routes")
    case (Inl e)
    with 2 have "p = q" "\<not> plain_pattern q \<or> segments q \<in> segments ` set (map fst routes)"
      by (auto simp: mux_Handle_def split: if_splits)
    then show ?thesis using refusedI [of p "map fst routes" "map fst ps @ rest"] by simp
  next
    case (Inr table)
    with 2(1) [OF Inr] 2(2) show ?thesis by (auto simp: mux_Handle_def split: if_splits)
  qed
qed simp

lemma count_twice: "(\<exists>x\<in>set xs. 1 < count_list xs x) \<longleftrightarrow> \<not> distinct xs"
proof
  have one: "distinct xs \<Longrightarrow> count_list xs x \<le> 1" for x
    by (induction xs) (auto simp: count_list_0_iff)
  assume "\<exists>x\<in>set xs. 1 < count_list xs x"
  then show "\<not> distinct xs" using one leD by blast
next
  assume "\<not> distinct xs"
  then obtain as bs cs x where "xs = as @ [x] @ bs @ [x] @ cs" using not_distinct_decomp by blast
  then show "\<exists>x\<in>set xs. 1 < count_list xs x" by auto
qed

lemma refused_iff:
  "(\<exists>p. refused ps p) \<longleftrightarrow> \<not> (distinct (map segments ps) \<and> list_all plain_pattern ps)"
  using count_twice [of "map segments ps"] by (auto simp: refused_def list_all_iff)

end
