(* ===== verification/Config.thy ===== *)
theory Config
  imports Go_Url Go_Strconv
begin

text \<open>
  The validation of a configuration (\<^verbatim>\<open>src/internal/config/config.go\<close>), its
  scanner for comments, the checks on repository names and routes, and what a configuration
  that passes guarantees to the rest of the program. Durations are integers in nanoseconds.
\<close>

section \<open>Data\<close>

record server_config =
  Listen :: string
  PublicBaseURL :: string
  Log :: string

record storage_config =
  storage_Path :: string
  MaxAge :: int
  GCInterval :: int
  StaleTempAge :: int
  cfg_MaxBytes :: int
  HighWatermark :: float64
  LowWatermark :: float64
  cfg_MinFreeBytes :: int

record repository_config =
  repo_Name :: string
  repo_Type :: string
  repo_Path :: string
  Upstream :: string
  TTL :: int
  ForwardAuthorization :: bool
  PublishTokenFile :: string
  AllowedFileOrigins :: "string list"

record config =
  cfg_Server :: server_config
  cfg_Storage :: storage_config
  TokenFile :: string
  Repositories :: "repository_config list"

datatype log_level = LevelDebug | LevelInfo | LevelWarn | LevelError

definition LogLevel :: "server_config \<Rightarrow> log_level" where
  "LogLevel s =
     (let l = ToLower (Log s)
      in if l = ''debug'' then LevelDebug else if l = ''warn'' then LevelWarn
         else if l = ''error'' then LevelError else LevelInfo)"

text \<open>One constructor per message.\<close>

datatype config_error =
    ListenEmpty | PublicURLAbsolute | PublicURLScheme | StoragePathEmpty | MaxAgePositive
  | GCIntervalPositive | StaleTempAgePositive | MaxBytesNegative | MinFreeBytesNegative
  | LowWatermarkRange | HighWatermarkRange | NoRepository
  | BadName string | DuplicateName string | UnsupportedType string string | OCIPath string
  | PublishTokenType string | PyPIPath string | PathSlashes string
  | SameRoute string string string | UpstreamAbsolute string | UpstreamScheme string
  | TTLPositive string | OriginAbsolute string | OriginScheme string | OriginParts string

section \<open>Helpers\<close>

text \<open>
  The range over a Go string yields runes; a byte above 127 makes a rune above the ASCII
  range or the replacement rune, so the test fails on it as it does on the bytes.
\<close>

fun name_chars :: "nat \<Rightarrow> string \<Rightarrow> bool" where
  "name_chars i [] \<longleftrightarrow> True"
| "name_chars i (c # s) \<longleftrightarrow>
     byte c \<le> 127 \<and> (is_lower c \<or> is_digit c \<or> i > 0 \<and> (c = CHR ''.'' \<or> c = CHR ''_'' \<or> c = CHR ''-''))
     \<and> name_chars (Suc i) s"

definition validRepositoryName :: "string \<Rightarrow> bool" where
  "validRepositoryName name \<longleftrightarrow>
     \<not> (length name = 0 \<or> length name > 63 \<or> name = ''.'' \<or> name = ''..'') \<and> name_chars 0 name"

definition splitCSV :: "string \<Rightarrow> string list" where
  "splitCSV v = filter (\<lambda>i. i \<noteq> []) (map TrimSpace (Split v CHR '',''))"

text \<open>The loop of \<^verbatim>\<open>stripComment\<close>; all the characters it looks at are ASCII.\<close>

fun strip_loop :: "bool \<Rightarrow> bool \<Rightarrow> string \<Rightarrow> string" where
  "strip_loop quoted escaped [] = []"
| "strip_loop quoted escaped (c # s) =
     (if escaped then c # strip_loop quoted False s
      else if c = CHR 0x5C \<and> quoted then c # strip_loop quoted True s
      else if c = CHR 0x22 then c # strip_loop (\<not> quoted) False s
      else if c = CHR ''#'' \<and> \<not> quoted then []
      else c # strip_loop quoted False s)"

definition stripComment :: "string \<Rightarrow> string" where
  "stripComment line = strip_loop False False line"

section \<open>Validate\<close>

definition http_url :: "config_error \<Rightarrow> config_error \<Rightarrow> string \<Rightarrow> config_error + url" where
  "http_url e1 e2 raw =
     (case url_Parse raw of
        None \<Rightarrow> Inl e1
      | Some u \<Rightarrow>
          if Scheme u = [] \<or> Host u = [] then Inl e1
          else if Scheme u \<noteq> ''http'' \<and> Scheme u \<noteq> ''https'' then Inl e2
          else Inr u)"

fun validate_origins :: "string \<Rightarrow> string list \<Rightarrow> config_error option" where
  "validate_origins name [] = None"
| "validate_origins name (o' # os) =
     (case http_url (OriginAbsolute name) (OriginScheme name) o' of
        Inl e \<Rightarrow> Some e
      | Inr u \<Rightarrow>
          if User u \<noteq> None \<or> RawQuery u \<noteq> [] \<or> Fragment u \<noteq> [] \<or> (Path u \<noteq> [] \<and> Path u \<noteq> ''/'')
          then Some (OriginParts name)
          else validate_origins name os)"

definition files_route :: "string \<Rightarrow> string" where
  "files_route p = TrimSuffix p ''simple/'' @ ''files/''"

text \<open>
  One repository, with the routes and the names seen so far. The result is the error or
  the extended tables.
\<close>

definition validate_repository ::
  "repository_config \<Rightarrow> (string \<times> string) list \<Rightarrow> string list
     \<Rightarrow> config_error + ((string \<times> string) list \<times> string list)" where
  "validate_repository repo paths names =
     (let name = repo_Name repo; p = repo_Path repo; t = repo_Type repo in
      if \<not> validRepositoryName name then Inl (BadName name)
      else if name \<in> set names then Inl (DuplicateName name)
      else if t \<noteq> ''npm'' \<and> t \<noteq> ''oci'' \<and> t \<noteq> ''pypi'' then Inl (UnsupportedType name t)
      else if t = ''oci'' \<and> p \<noteq> ''/v2/'' then Inl (OCIPath name)
      else if PublishTokenFile repo \<noteq> [] \<and> t \<noteq> ''pypi'' then Inl (PublishTokenType name)
      else if t = ''pypi'' \<and> \<not> HasSuffix p ''/simple/'' then Inl (PyPIPath name)
      else if \<not> HasPrefix p ''/'' \<or> \<not> HasSuffix p ''/'' then Inl (PathSlashes name)
      else (case map_of paths p of
        Some previous \<Rightarrow> Inl (SameRoute previous name p)
      | None \<Rightarrow>
          let paths1 = (p, name) # paths; fp = files_route p in
          case (if t = ''pypi'' then map_of paths1 fp else None) of
            Some previous \<Rightarrow> Inl (SameRoute previous name fp)
          | None \<Rightarrow>
              let paths2 = (if t = ''pypi'' then (fp, name) # paths1 else paths1) in
              case http_url (UpstreamAbsolute name) (UpstreamScheme name) (Upstream repo) of
                Inl e \<Rightarrow> Inl e
              | Inr _ \<Rightarrow>
                  if TTL repo \<le> 0 then Inl (TTLPositive name)
                  else (case validate_origins name (AllowedFileOrigins repo) of
                          Some e \<Rightarrow> Inl e
                        | None \<Rightarrow> Inr (paths2, name # names))))"

fun validate_repositories ::
  "repository_config list \<Rightarrow> (string \<times> string) list \<Rightarrow> string list \<Rightarrow> config_error option" where
  "validate_repositories [] paths names = None"
| "validate_repositories (r # rs) paths names =
     (case validate_repository r paths names of
        Inl e \<Rightarrow> Some e
      | Inr (paths', names') \<Rightarrow> validate_repositories rs paths' names')"

text \<open>Comparisons of floats, false on NaN as in Go.\<close>

fun float_le :: "float64 \<Rightarrow> float64 \<Rightarrow> bool" where
  "float_le NaN y = False"
| "float_le x NaN = False"
| "float_le (Infinite neg) y = (neg \<or> y = Infinite False)"
| "float_le (Finite x) (Infinite neg) = (\<not> neg)"
| "float_le (Finite x) (Finite y) = (x \<le> y)"

fun is_finite :: "float64 \<Rightarrow> bool" where
  "is_finite (Finite x) = True"
| "is_finite _ = False"

definition Validate :: "config \<Rightarrow> config_error option" where
  "Validate c =
     (let st = cfg_Storage c in
      if TrimSpace (Listen (cfg_Server c)) = [] then Some ListenEmpty
      else (case http_url PublicURLAbsolute PublicURLScheme (PublicBaseURL (cfg_Server c)) of
        Inl e \<Rightarrow> Some e
      | Inr _ \<Rightarrow>
          if TrimSpace (storage_Path st) = [] then Some StoragePathEmpty
          else if MaxAge st \<le> 0 then Some MaxAgePositive
          else if GCInterval st \<le> 0 then Some GCIntervalPositive
          else if StaleTempAge st \<le> 0 then Some StaleTempAgePositive
          else if cfg_MaxBytes st < 0 then Some MaxBytesNegative
          else if cfg_MinFreeBytes st < 0 then Some MinFreeBytesNegative
          else if \<not> is_finite (LowWatermark st) \<or> float_le (LowWatermark st) (Finite 0)
                  \<or> float_le (Finite 1) (LowWatermark st) then Some LowWatermarkRange
          else if \<not> is_finite (HighWatermark st) \<or> float_le (HighWatermark st) (LowWatermark st)
                  \<or> float_le (Finite 1) (HighWatermark st) then Some HighWatermarkRange
          else if Repositories c = [] then Some NoRepository
          else validate_repositories (Repositories c) [] []))"

section \<open>What validation guarantees\<close>

lemma http_url_Inr:
  "http_url e1 e2 raw = Inr u \<longleftrightarrow>
     url_Parse raw = Some u \<and> Host u \<noteq> [] \<and> (Scheme u = ''http'' \<or> Scheme u = ''https'')"
  by (auto simp: http_url_def split: option.splits)

definition absolute_http :: "string \<Rightarrow> bool" where
  "absolute_http raw \<longleftrightarrow>
     (case url_Parse raw of None \<Rightarrow> False
      | Some u \<Rightarrow> Host u \<noteq> [] \<and> (Scheme u = ''http'' \<or> Scheme u = ''https''))"

definition plain_origin :: "string \<Rightarrow> bool" where
  "plain_origin raw \<longleftrightarrow>
     absolute_http raw \<and>
     (case url_Parse raw of None \<Rightarrow> False
      | Some u \<Rightarrow> User u = None \<and> RawQuery u = [] \<and> Fragment u = [] \<and> (Path u = [] \<or> Path u = ''/''))"

lemma http_url_absolute: "http_url e1 e2 raw = Inr u \<Longrightarrow> absolute_http raw"
  by (simp add: http_url_Inr absolute_http_def)

lemma validate_origins_None: "validate_origins name os = None \<longleftrightarrow> list_all plain_origin os"
proof (induction os)
  case (Cons o' os)
  show ?case
  proof (cases "http_url (OriginAbsolute name) (OriginScheme name) o'")
    case (Inl e)
    then have "\<not> absolute_http o'" by (auto simp: http_url_def absolute_http_def split: option.splits if_splits)
    then show ?thesis using Inl by (simp add: plain_origin_def)
  next
    case (Inr u)
    then have u: "url_Parse o' = Some u" "absolute_http o'" using http_url_Inr http_url_absolute by blast+
    then have po: "plain_origin o' \<longleftrightarrow>
        \<not> (User u \<noteq> None \<or> RawQuery u \<noteq> [] \<or> Fragment u \<noteq> [] \<or> (Path u \<noteq> [] \<and> Path u \<noteq> ''/''))"
      by (auto simp: plain_origin_def)
    show ?thesis using Cons by (auto simp: Inr po)
  qed
qed simp

definition repository_ok :: "repository_config \<Rightarrow> bool" where
  "repository_ok r \<longleftrightarrow>
     validRepositoryName (repo_Name r) \<and> repo_Type r \<in> {''npm'', ''oci'', ''pypi''} \<and>
     (repo_Type r = ''oci'' \<longrightarrow> repo_Path r = ''/v2/'') \<and>
     (repo_Type r = ''pypi'' \<longrightarrow> HasSuffix (repo_Path r) ''/simple/'') \<and>
     (PublishTokenFile r \<noteq> [] \<longrightarrow> repo_Type r = ''pypi'') \<and>
     HasPrefix (repo_Path r) ''/'' \<and> HasSuffix (repo_Path r) ''/'' \<and>
     absolute_http (Upstream r) \<and> TTL r > 0 \<and> list_all plain_origin (AllowedFileOrigins r)"

text \<open>The routes that validation keeps apart.\<close>

definition checked_routes :: "repository_config \<Rightarrow> string list" where
  "checked_routes r = repo_Path r # (if repo_Type r = ''pypi'' then [files_route (repo_Path r)] else [])"

lemma validate_repository_ok:
  assumes "validate_repository r paths names = Inr (paths', names')"
  shows "repository_ok r" "repo_Name r \<notin> set names" "names' = repo_Name r # names"
    "set (map fst paths') = set (checked_routes r) \<union> set (map fst paths)"
    "distinct (checked_routes r)" "set (checked_routes r) \<inter> set (map fst paths) = {}"
  using assms http_url_absolute [of "UpstreamAbsolute (repo_Name r)" "UpstreamScheme (repo_Name r)" "Upstream r"]
  by (auto simp: validate_repository_def Let_def repository_ok_def checked_routes_def validate_origins_None
      map_of_eq_None_iff split: if_splits option.splits sum.splits)

lemma validate_repositories_ok:
  assumes "validate_repositories rs paths names = None"
  shows "list_all repository_ok rs \<and> distinct (map repo_Name rs) \<and> set (map repo_Name rs) \<inter> set names = {} \<and>
    distinct (concat (map checked_routes rs)) \<and>
    set (concat (map checked_routes rs)) \<inter> set (map fst paths) = {}"
  using assms
proof (induction rs arbitrary: paths names)
  case (Cons r rs)
  obtain paths' names' where v: "validate_repository r paths names = Inr (paths', names')"
    and rest: "validate_repositories rs paths' names' = None"
    using Cons.prems by (auto split: sum.splits)
  note V = validate_repository_ok [OF v]
  note IH = Cons.IH [OF rest]
  have "set (checked_routes r) \<inter> set (concat (map checked_routes rs)) = {}"
    "set (map fst paths) \<inter> set (concat (map checked_routes rs)) = {}"
    using IH V(4) by blast+
  moreover have "repo_Name r \<notin> set (map repo_Name rs)" "set (map repo_Name rs) \<inter> set names = {}"
    using IH V(3) by auto
  ultimately show ?case using IH V(1,2,5,6) by auto
qed simp

text \<open>A name that passes is one plain path element.\<close>

lemma name_chars_safe: "name_chars i s \<Longrightarrow> c \<in> set s \<Longrightarrow>
    is_lower c \<or> is_digit c \<or> c = CHR ''.'' \<or> c = CHR ''_'' \<or> c = CHR ''-''"
  by (induction i s rule: name_chars.induct) auto

lemma validRepositoryName_element:
  assumes "validRepositoryName n"
  shows "n \<noteq> []" "length n \<le> 63" "n \<noteq> ''.''" "n \<noteq> ''..''" "CHR ''/'' \<notin> set n" "CHR 0x5C \<notin> set n" "hd n \<noteq> CHR ''.''"
proof -
  show "n \<noteq> []" "length n \<le> 63" "n \<noteq> ''.''" "n \<noteq> ''..''" using assms by (auto simp: validRepositoryName_def)
  have c: "name_chars 0 n" using assms by (simp add: validRepositoryName_def)
  show "CHR ''/'' \<notin> set n" "CHR 0x5C \<notin> set n"
    using name_chars_safe [OF c, of "CHR ''/''"] name_chars_safe [OF c, of "CHR 0x5C"]
    by (auto simp: is_lower_def is_digit_def byte_def)
  show "hd n \<noteq> CHR ''.''"
    using c \<open>n \<noteq> []\<close> by (cases n) (auto simp: is_lower_def is_digit_def byte_def)
qed

lemma Validate_watermarks:
  assumes "Validate c = None"
  shows "\<exists>low high. LowWatermark (cfg_Storage c) = Finite low \<and> HighWatermark (cfg_Storage c) = Finite high \<and>
    0 < low \<and> low < high \<and> high < 1"
  using assms
  by (cases "LowWatermark (cfg_Storage c)"; cases "HighWatermark (cfg_Storage c)")
    (auto simp: Validate_def Let_def split: if_splits sum.splits)

lemma Validate_repositories: "Validate c = None \<Longrightarrow> validate_repositories (Repositories c) [] [] = None"
  by (auto simp: Validate_def Let_def split: if_splits sum.splits)

lemma Validate_names:
  assumes "Validate c = None"
  shows "\<forall>r \<in> set (Repositories c). CHR ''/'' \<notin> set (repo_Name r) \<and> repo_Name r \<notin> {[], ''.'', ''..''}"
proof
  fix r assume "r \<in> set (Repositories c)"
  then show "CHR ''/'' \<notin> set (repo_Name r) \<and> repo_Name r \<notin> {[], ''.'', ''..''}"
    using validate_repositories_ok [OF Validate_repositories [OF assms]] validRepositoryName_element [of "repo_Name r"]
    by (auto simp: list_all_iff repository_ok_def)
qed

text \<open>C33.
  
  What a validated configuration guarantees: positive ages, a budget that is not negative,
  watermarks with 0 < low < high < 1, at least one repository, repository names that are
  distinct single path elements (so that the cache directories are siblings below the
  storage path), absolute HTTP(S) upstreams and positive times to live, and distinct
  repository and PyPI file routes.
\<close>

theorem Validate_guarantees:
  assumes "Validate c = None"
  shows "MaxAge (cfg_Storage c) > 0 \<and> GCInterval (cfg_Storage c) > 0 \<and> StaleTempAge (cfg_Storage c) > 0 \<and>
    cfg_MaxBytes (cfg_Storage c) \<ge> 0 \<and> cfg_MinFreeBytes (cfg_Storage c) \<ge> 0 \<and>
    (\<exists>low high. LowWatermark (cfg_Storage c) = Finite low \<and> HighWatermark (cfg_Storage c) = Finite high \<and>
       0 < low \<and> low < high \<and> high < 1) \<and>
    absolute_http (PublicBaseURL (cfg_Server c)) \<and> Repositories c \<noteq> [] \<and>
    list_all repository_ok (Repositories c) \<and> distinct (map repo_Name (Repositories c)) \<and>
    (\<forall>r \<in> set (Repositories c). CHR ''/'' \<notin> set (repo_Name r) \<and> repo_Name r \<notin> {[], ''.'', ''..''}) \<and>
    distinct (concat (map checked_routes (Repositories c)))"
proof -
  let ?st = "cfg_Storage c"
  have fin: "\<exists>low high. LowWatermark ?st = Finite low \<and> HighWatermark ?st = Finite high \<and> 0 < low \<and> low < high \<and> high < 1"
    by (rule Validate_watermarks [OF assms])
  have pos: "MaxAge ?st > 0" "GCInterval ?st > 0" "StaleTempAge ?st > 0" "cfg_MaxBytes ?st \<ge> 0" "cfg_MinFreeBytes ?st \<ge> 0"
    "Repositories c \<noteq> []" "absolute_http (PublicBaseURL (cfg_Server c))"
    using assms http_url_absolute [of PublicURLAbsolute PublicURLScheme "PublicBaseURL (cfg_Server c)"]
    by (auto simp: Validate_def Let_def split: if_splits sum.splits)
  note R = validate_repositories_ok [OF Validate_repositories [OF assms]]
  from fin pos R Validate_names [OF assms] show ?thesis by simp
qed

definition sample_repository :: repository_config where
  "sample_repository = \<lparr>repo_Name = ''py'', repo_Type = ''pypi'', repo_Path = ''/py/simple/'',
     Upstream = ''https://pypi.org/simple/'', TTL = 1, ForwardAuthorization = False, PublishTokenFile = [],
     AllowedFileOrigins = [''https://files.pythonhosted.org'']\<rparr>"

definition sample_config :: config where
  "sample_config = \<lparr>cfg_Server = \<lparr>Listen = '':8080'', PublicBaseURL = ''http://localhost:8080'', Log = ''info''\<rparr>,
     cfg_Storage = \<lparr>storage_Path = ''data'', MaxAge = 1, GCInterval = 1, StaleTempAge = 1, cfg_MaxBytes = 0,
       HighWatermark = Finite (9 / 10), LowWatermark = Finite (3 / 4), cfg_MinFreeBytes = 0\<rparr>,
     TokenFile = [], Repositories = [sample_repository]\<rparr>"

theorem Validate_guarantees_witness:
  "Validate sample_config = None \<and> list_all repository_ok (Repositories sample_config) \<and>
   distinct (concat (map checked_routes (Repositories sample_config)))"
proof -
  have v: "Validate sample_config = None" by code_simp
  show ?thesis using Validate_guarantees [OF v] v by simp
qed

text \<open>
  Comments: text without a number sign is kept as it is, a number sign outside quotes cuts
  the line, and everything inside a quoted value survives, escapes and number signs
  included.
\<close>

lemma strip_loop_prefix: "prefix (strip_loop q e s) s"
  by (induction q e s rule: strip_loop.induct) auto

fun quoted_body :: "bool \<Rightarrow> string \<Rightarrow> bool" where
  "quoted_body escaped [] \<longleftrightarrow> \<not> escaped"
| "quoted_body escaped (c # s) \<longleftrightarrow>
     (if escaped then quoted_body False s
      else if c = CHR 0x5C then quoted_body True s
      else c \<noteq> CHR 0x22 \<and> quoted_body False s)"

lemma strip_loop_quoted:
  "quoted_body e v \<Longrightarrow> strip_loop True e (v @ CHR 0x22 # rest) = v @ CHR 0x22 # strip_loop False False rest"
  by (induction e v rule: quoted_body.induct) (auto split: if_splits)

lemma strip_loop_plain:
  "CHR ''#'' \<notin> set s \<Longrightarrow> CHR 0x22 \<notin> set s \<Longrightarrow> strip_loop False False (s @ rest) = s @ strip_loop False False rest"
  by (induction s) auto

lemma stripComment_cases:
  assumes "CHR ''#'' \<notin> set s" "CHR 0x22 \<notin> set s" "quoted_body False v"
  shows "stripComment (s @ CHR ''#'' # rest) = s"
    "stripComment (s @ [CHR 0x22] @ v @ [CHR 0x22] @ CHR ''#'' # rest) = s @ [CHR 0x22] @ v @ [CHR 0x22]"
  using strip_loop_plain [OF assms(1,2)] strip_loop_quoted [OF assms(3)] by (simp_all add: stripComment_def)

end
