(* ===== verification/Config_Parse.thy ===== *)
theory Config_Parse
  imports Config Go_Filepath
begin

text \<open>
  Reading a configuration (\<^verbatim>\<open>Load\<close> and \<^verbatim>\<open>Parse\<close> of \<^verbatim>\<open>src/internal/config/config.go\<close>): the
  lines of the file, sections, keys and their values, and the resolution of relative paths.
  The process environment is the function \<open>getenv\<close>, which gives the empty text for a
  variable that is not set.
\<close>

section \<open>bufio.Scanner\<close>

definition newline :: char where
  "newline = CHR 0x0A"

definition dropCR :: "string \<Rightarrow> string" where
  "dropCR s = TrimSuffix s [CHR 0x0D]"

text \<open>A last line without a newline counts unless it is empty.\<close>

definition raw_lines :: "string \<Rightarrow> string list" where
  "raw_lines s = (let ls = Split s newline in if last ls = [] then butlast ls else ls)"

text \<open>The tokens before the first line that does not fit the buffer of 64 KiB, and whether there is one.\<close>

fun scan_lines :: "string list \<Rightarrow> string list \<times> bool" where
  "scan_lines [] = ([], False)"
| "scan_lines (l # ls) =
     (if int (length l) \<ge> 65536 then ([], True)
      else case scan_lines ls of (ts, tooLong) \<Rightarrow> (dropCR l # ts, tooLong))"

section \<open>Values\<close>

datatype line_error =
    EmptyRepositoryName | ExpectedKeyValue | EmptyValue | BadQuoted
  | UnknownKey string string | BadValue string | OutsideSection

definition parseValue :: "string \<Rightarrow> line_error + string" where
  "parseValue raw =
     (if raw = [] then Inl EmptyValue
      else if HasPrefix raw [CHR 0x22] then (case Unquote raw of None \<Rightarrow> Inl BadQuoted | Some v \<Rightarrow> Inr v)
      else Inr raw)"

definition set_server :: "string \<Rightarrow> string \<Rightarrow> server_config \<Rightarrow> line_error + server_config" where
  "set_server key v s =
     (if key = ''listen'' then Inr (s\<lparr>Listen := v\<rparr>)
      else if key = ''public_base_url'' then Inr (s\<lparr>PublicBaseURL := v\<rparr>)
      else if key = ''log_level'' then Inr (s\<lparr>Log := v\<rparr>)
      else Inl (UnknownKey ''server'' key))"

text \<open>A converted value, or the error that names the key.\<close>

definition converted :: "string \<Rightarrow> 'a option \<Rightarrow> ('a \<Rightarrow> 'b) \<Rightarrow> line_error + 'b" where
  "converted key r f = (case r of None \<Rightarrow> Inl (BadValue key) | Some x \<Rightarrow> Inr (f x))"

definition set_storage :: "string \<Rightarrow> string \<Rightarrow> storage_config \<Rightarrow> line_error + storage_config" where
  "set_storage key v s =
     (if key = ''path'' then Inr (s\<lparr>storage_Path := v\<rparr>)
      else if key = ''max_age'' then converted key (ParseDuration v) (\<lambda>d. s\<lparr>MaxAge := d\<rparr>)
      else if key = ''gc_interval'' then converted key (ParseDuration v) (\<lambda>d. s\<lparr>GCInterval := d\<rparr>)
      else if key = ''stale_temp_age'' then converted key (ParseDuration v) (\<lambda>d. s\<lparr>StaleTempAge := d\<rparr>)
      else if key = ''max_bytes'' then converted key (ParseInt v) (\<lambda>n. s\<lparr>cfg_MaxBytes := n\<rparr>)
      else if key = ''high_watermark'' then converted key (ParseFloat v) (\<lambda>x. s\<lparr>HighWatermark := x\<rparr>)
      else if key = ''low_watermark'' then converted key (ParseFloat v) (\<lambda>x. s\<lparr>LowWatermark := x\<rparr>)
      else if key = ''min_free_bytes'' then converted key (ParseInt v) (\<lambda>n. s\<lparr>cfg_MinFreeBytes := n\<rparr>)
      else Inl (UnknownKey ''storage'' key))"

definition set_repository :: "string \<Rightarrow> string \<Rightarrow> repository_config \<Rightarrow> line_error + repository_config" where
  "set_repository key v r =
     (if key = ''type'' then Inr (r\<lparr>repo_Type := v\<rparr>)
      else if key = ''path'' then Inr (r\<lparr>repo_Path := v\<rparr>)
      else if key = ''upstream'' then Inr (r\<lparr>Upstream := v\<rparr>)
      else if key = ''ttl'' then converted key (ParseDuration v) (\<lambda>d. r\<lparr>TTL := d\<rparr>)
      else if key = ''forward_authorization'' then converted key (ParseBool v) (\<lambda>b. r\<lparr>ForwardAuthorization := b\<rparr>)
      else if key = ''publish_token_file'' then Inr (r\<lparr>PublishTokenFile := v\<rparr>)
      else if key = ''allowed_file_origins'' then Inr (r\<lparr>AllowedFileOrigins := splitCSV v\<rparr>)
      else Inl (UnknownKey ''repository'' key))"

section \<open>Parse\<close>

text \<open>
  The state of the loop. \<^verbatim>\<open>current\<close> is nil or points to the last repository, so a flag is
  enough for it.
\<close>

record parser =
  p_cfg :: config
  p_section :: string
  p_current :: bool

definition new_repository :: "string \<Rightarrow> repository_config" where
  "new_repository name = \<lparr>repo_Name = name, repo_Type = name, repo_Path = ''/'' @ name @ ''/'', Upstream = [],
     TTL = 86400000000000, ForwardAuthorization = False, PublishTokenFile = [], AllowedFileOrigins = []\<rparr>"

definition parse_section :: "string \<Rightarrow> parser \<Rightarrow> line_error + parser" where
  "parse_section line p =
     (let section = TrimSpace (TrimSuffix (TrimPrefix line ''['') '']'');
          p1 = p\<lparr>p_section := section, p_current := False\<rparr>
      in if HasPrefix section ''repository.'' then
           let name = TrimSpace (TrimPrefix section ''repository.'') in
           if name = [] then Inl EmptyRepositoryName
           else Inr (p1\<lparr>p_cfg := (p_cfg p1)\<lparr>Repositories := Repositories (p_cfg p1) @ [new_repository name]\<rparr>, p_current := True\<rparr>)
         else Inr p1)"

definition assign :: "string \<Rightarrow> string \<Rightarrow> parser \<Rightarrow> line_error + parser" where
  "assign key v p =
     (let c = p_cfg p in
      if p_section p = ''server'' then
        (case set_server key v (cfg_Server c) of Inl e \<Rightarrow> Inl e | Inr s \<Rightarrow> Inr (p\<lparr>p_cfg := c\<lparr>cfg_Server := s\<rparr>\<rparr>))
      else if p_section p = ''storage'' then
        (case set_storage key v (cfg_Storage c) of Inl e \<Rightarrow> Inl e | Inr s \<Rightarrow> Inr (p\<lparr>p_cfg := c\<lparr>cfg_Storage := s\<rparr>\<rparr>))
      else if p_section p = ''operator'' then
        (if key = ''token_file'' then Inr (p\<lparr>p_cfg := c\<lparr>TokenFile := v\<rparr>\<rparr>) else Inl (UnknownKey ''operator'' key))
      else if p_current p then
        (case set_repository key v (last (Repositories c)) of
           Inl e \<Rightarrow> Inl e
         | Inr r \<Rightarrow> Inr (p\<lparr>p_cfg := c\<lparr>Repositories := butlast (Repositories c) @ [r]\<rparr>\<rparr>))
      else Inl OutsideSection)"

definition parse_line :: "(string \<Rightarrow> string) \<Rightarrow> string \<Rightarrow> parser \<Rightarrow> line_error + parser" where
  "parse_line getenv token p =
     (let line = TrimSpace (stripComment token) in
      if line = [] then Inr p
      else if HasPrefix line ''['' \<and> HasSuffix line '']'' then parse_section line p
      else (case Cut line ''='' of (key, rawValue, ok) \<Rightarrow>
        if \<not> ok then Inl ExpectedKeyValue
        else (case parseValue (TrimSpace rawValue) of
          Inl e \<Rightarrow> Inl e
        | Inr v \<Rightarrow> assign (TrimSpace key) (os_Expand getenv v) p)))"

datatype parse_error = AtLine nat line_error | TooLong | ReadFailed string | Rejected config_error

fun parse_loop :: "(string \<Rightarrow> string) \<Rightarrow> nat \<Rightarrow> string list \<Rightarrow> parser \<Rightarrow> parse_error + parser" where
  "parse_loop getenv n [] p = Inr p"
| "parse_loop getenv n (t # ts) p =
     (case parse_line getenv t p of Inl e \<Rightarrow> Inl (AtLine n e) | Inr p' \<Rightarrow> parse_loop getenv (Suc n) ts p')"

text \<open>The constants 0.90 and 0.75 as doubles; 0.75 is exact.\<close>

definition default_config :: config where
  "default_config = \<lparr>
     cfg_Server = \<lparr>Listen = '':8080'', PublicBaseURL = ''http://localhost:8080'', Log = ''info''\<rparr>,
     cfg_Storage = \<lparr>storage_Path = ''./data'', MaxAge = 2592000000000000, GCInterval = 3600000000000,
       StaleTempAge = 3600000000000, cfg_MaxBytes = 0, HighWatermark = round64 (9 / 10), LowWatermark = Finite (3 / 4),
       cfg_MinFreeBytes = 0\<rparr>,
     TokenFile = [], Repositories = []\<rparr>"

text \<open>The reader is what it gives and the error it ends with, if it does not end with \<^verbatim>\<open>io.EOF\<close>.\<close>

definition Parse :: "(string \<Rightarrow> string) \<Rightarrow> string \<Rightarrow> string option \<Rightarrow> parse_error + config" where
  "Parse getenv input readError =
     (case scan_lines (raw_lines input) of (tokens, tooLong) \<Rightarrow>
      (case parse_loop getenv 1 tokens \<lparr>p_cfg = default_config, p_section = [], p_current = False\<rparr> of
        Inl e \<Rightarrow> Inl e
      | Inr p \<Rightarrow>
          if tooLong then Inl TooLong
          else (case readError of
            Some e \<Rightarrow> Inl (ReadFailed e)
          | None \<Rightarrow> (case Validate (p_cfg p) of Some e \<Rightarrow> Inl (Rejected e) | None \<Rightarrow> Inr (p_cfg p)))))"

section \<open>Load\<close>

datatype load_error = OpenConfig os_error | ParseConfig string parse_error

definition resolve_path :: "string \<Rightarrow> string \<Rightarrow> string" where
  "resolve_path path p = (if \<not> IsAbs p then Clean (Join [Dir path, p]) else p)"

text \<open>\<open>opened\<close> is what opening and reading the file gives.\<close>

definition Load ::
  "(string \<Rightarrow> string) \<Rightarrow> string \<Rightarrow> os_error + (string \<times> string option) \<Rightarrow> load_error + config" where
  "Load getenv path opened =
     (case opened of
        Inl e \<Rightarrow> Inl (OpenConfig e)
      | Inr (input, readError) \<Rightarrow>
          (case Parse getenv input readError of
             Inl e \<Rightarrow> Inl (ParseConfig path e)
           | Inr c \<Rightarrow>
               let st = cfg_Storage c in
               Inr (c\<lparr>cfg_Storage := st\<lparr>storage_Path := resolve_path path (storage_Path st)\<rparr>,
                      TokenFile := (if TokenFile c \<noteq> [] then resolve_path path (TokenFile c) else []),
                      Repositories := map (\<lambda>r. if PublishTokenFile r \<noteq> []
                          then r\<lparr>PublishTokenFile := resolve_path path (PublishTokenFile r)\<rparr> else r) (Repositories c)\<rparr>)))"

end
