(* ===== verification/Server_New.thy ===== *)
theory Server_New
  imports Server_Status Go_Mux Config_Parse
begin

text \<open>
  The start of the server (\<^verbatim>\<open>New\<close> of \<^verbatim>\<open>src/internal/httpserver/server.go\<close>): the tokens, a
  store and a handler for every repository, the routes, the shared budget over what is on
  disk, and the first collection. A panic of the multiplexer is an error like the others.
  The watermarks of a validated configuration are finite.
\<close>

datatype new_error =
    OperatorTokenRead os_error | OperatorTokenLength
  | RepositoryCache string cache_error | RepositoryCleanup string cache_error
  | PublishTokenRead string os_error | PublishTokenLength string
  | NpmInvalid string | OciInvalid string oci_error | PypiInvalid string pypi_error | UnsupportedKind string
  | PrivateUsage string os_error | StartupGC string | RoutePanic string

text \<open>What the start takes from its environment: the time, the times the clean-ups read, and the first collection.\<close>

record start_env =
  se_now :: int
  se_clock :: "nat \<Rightarrow> int"
  se_run :: run_env

text \<open>A file with a token; the token is without the white space around it.\<close>

definition read_token :: "string \<Rightarrow> (os_error \<Rightarrow> new_error) \<Rightarrow> new_error \<Rightarrow> fs \<Rightarrow> (new_error + string) \<times> fs" where
  "read_token file unreadable badLength f =
     (case os_ReadFile (path_of file) f of
        (Inl e, f1) \<Rightarrow> (Inl (unreadable e), f1)
      | (Inr d, f1) \<Rightarrow>
          let t = TrimSpace d in (if valid_token t then Inr t else Inl badLength, f1))"

definition new_pypi :: "config \<Rightarrow> repository_config \<Rightarrow> string \<Rightarrow> fs \<Rightarrow> (new_error + repo_handler) \<times> fs" where
  "new_pypi cfg r publishToken f =
     (case pypi_New \<lparr>po_Name = repo_Name r, po_Path = repo_Path r, po_Upstream = Upstream r,
          po_PublicBaseURL = PublicBaseURL (cfg_Server cfg), po_TTL = TTL r, po_ForwardAuthorization = ForwardAuthorization r,
          po_PublishToken = publishToken, po_AllowedFileOrigins = AllowedFileOrigins r,
          po_LocalPath = path_of (Join [storage_Path (cfg_Storage cfg), repo_Name r, ''private''])\<rparr> f of
        (Inl e, f1) \<Rightarrow> (Inl (PypiInvalid (repo_Name r) e), f1)
      | (Inr p, f1) \<Rightarrow> (Inr (PypiHandler p), f1))"

definition new_handler :: "config \<Rightarrow> repository_config \<Rightarrow> fs \<Rightarrow> (new_error + repo_handler) \<times> fs" where
  "new_handler cfg r f =
     (let name = repo_Name r; base = PublicBaseURL (cfg_Server cfg) in
      if repo_Type r = ''npm'' then
        (case npm_New name (repo_Path r) (Upstream r) base (TTL r) (ForwardAuthorization r) of
           None \<Rightarrow> (Inl (NpmInvalid name), f) | Some p \<Rightarrow> (Inr (NpmHandler p), f))
      else if repo_Type r = ''oci'' then
        (case oci_New name (repo_Path r) (Upstream r) base (TTL r) of
           Inl e \<Rightarrow> (Inl (OciInvalid name e), f) | Inr p \<Rightarrow> (Inr (OciHandler p), f))
      else if repo_Type r = ''pypi'' then
        (if PublishTokenFile r \<noteq> [] then
           (case read_token (PublishTokenFile r) (PublishTokenRead name) (PublishTokenLength name) f of
              (Inl e, f1) \<Rightarrow> (Inl e, f1)
            | (Inr t, f1) \<Rightarrow> new_pypi cfg r t f1)
         else new_pypi cfg r [] f)
      else (Inl (UnsupportedKind name), f))"

text \<open>The patterns that a handler is registered for.\<close>

definition handler_patterns :: "repository_config \<Rightarrow> repo_handler \<Rightarrow> string list" where
  "handler_patterns r h =
     repo_Path r # (case h of PypiHandler p \<Rightarrow> [py_filePath p, py_uploadPath p, py_packagePath p] | _ \<Rightarrow> [])"

definition new_store :: "start_env \<Rightarrow> config \<Rightarrow> nat \<Rightarrow> repository_config \<Rightarrow> fs \<Rightarrow> (new_error + managedStore) \<times> fs" where
  "new_store env cfg i r f =
     (case New_store (path_of (Join [storage_Path (cfg_Storage cfg), repo_Name r])) f of
        (Inl e, f1) \<Rightarrow> (Inl (RepositoryCache (repo_Name r) e), f1)
      | (Inr s, f1) \<Rightarrow>
          if StaleTempAge (cfg_Storage cfg) > 0 then
            (case CleanupStaleTemps (se_clock env i) (StaleTempAge (cfg_Storage cfg)) s f1 of
               ((_, Some e), f2) \<Rightarrow> (Inl (RepositoryCleanup (repo_Name r) e), f2)
             | ((_, None), f2) \<Rightarrow> (Inr \<lparr>ms_name = repo_Name r, ms_store = s\<rparr>, f2))
          else (Inr \<lparr>ms_name = repo_Name r, ms_store = s\<rparr>, f1))"

record built =
  b_stores :: "managedStore list"
  b_handlers :: "repo_handler list"
  b_byName :: "(string \<times> repo_handler) list"
  b_routes :: "(string \<times> route) list"

fun new_repositories ::
  "start_env \<Rightarrow> config \<Rightarrow> repository_config list \<Rightarrow> built \<Rightarrow> fs \<Rightarrow> (new_error + built) \<times> fs" where
  "new_repositories env cfg [] b f = (Inr b, f)"
| "new_repositories env cfg (r # rs) b f =
     (let i = length (b_handlers b) in
      case new_store env cfg i r f of
        (Inl e, f1) \<Rightarrow> (Inl e, f1)
      | (Inr ms, f1) \<Rightarrow>
      (case new_handler cfg r f1 of
        (Inl e, f2) \<Rightarrow> (Inl e, f2)
      | (Inr h, f2) \<Rightarrow>
      (case mux_register (map (\<lambda>p. (p, ToRepository i)) (handler_patterns r h)) (b_routes b) of
        Inl p \<Rightarrow> (Inl (RoutePanic p), f2)
      | Inr table \<Rightarrow>
          new_repositories env cfg rs \<lparr>b_stores = b_stores b @ [ms], b_handlers = b_handlers b @ [h],
            b_byName = AList.update (repo_Name r) h (b_byName b), b_routes = table\<rparr> f2)))"

text \<open>The sizes of the private packages of the PyPI repositories.\<close>

fun private_sizes :: "repo_handler list \<Rightarrow> fs \<Rightarrow> (new_error + int list) \<times> fs" where
  "private_sizes [] f = (Inr [], f)"
| "private_sizes (PypiHandler p # hs) f =
     (case PrivateSize p f of
        ((n, Some e), f1) \<Rightarrow> (Inl (PrivateUsage (py_name p) e), f1)
      | ((n, None), f1) \<Rightarrow>
          (case private_sizes hs f1 of
             (Inl e, f2) \<Rightarrow> (Inl e, f2)
           | (Inr ns, f2) \<Rightarrow> (Inr (n # ns), f2)))"
| "private_sizes (_ # hs) f = private_sizes hs f"

definition own_routes :: "(string \<times> route) list" where
  "own_routes =
     [(''/healthz'', ToHealth), (''/api/v1/status'', ToStatus), (''/api/v1/operator'', ToOperator),
      (''/api/v1/operator/gc'', ToOperatorGC), (''/api/v1/repositories/'', ToRepositories), (''/metrics'', ToMetrics),
      (''/'', ToDashboard)]"

definition assemble :: "start_env \<Rightarrow> config \<Rightarrow> string \<Rightarrow> string \<Rightarrow> built \<Rightarrow> int list \<Rightarrow> fs \<Rightarrow> application" where
  "assemble env cfg version token b privateBytes f =
     (let st = cfg_Storage cfg in
      \<lparr>svc_server = \<lparr>sv_stores = b_stores b, sv_fs = f,
         sv_storage = initial_storage (cfg_MaxBytes st) (finite_part (HighWatermark st)) (finite_part (LowWatermark st))
           (cfg_MinFreeBytes st) (b_stores b) privateBytes,
         sv_maxAge = MaxAge st\<rparr>,
       svc_gc = New_coordinator, operatorToken = token, gcInterval = GCInterval st,
       app_version = version, app_publicURL = TrimRight (PublicBaseURL (cfg_Server cfg)) ''/'', app_started = se_now env,
       app_storagePath = storage_Path st, app_repositories = b_handlers b, app_byName = b_byName b,
       app_stats = map (\<lambda>_. \<lparr>requests = 0, hits = 0, misses = 0, errors = 0, clientCanceled = 0, rangeRequests = 0\<rparr>) (b_handlers b),
       app_routes = b_routes b\<rparr>)"

text \<open>The first collection, whose context never ends, and the routes of the server itself.\<close>

definition first_run :: "start_env \<Rightarrow> application \<Rightarrow> (new_error + application) \<times> fs" where
  "first_run env a =
     (case (if sv_maxAge (svc_server a) > 0
            then (case gc_Run ((se_run env)\<lparr>re_ctx := []\<rparr>) TriggerStartup (service.truncate a) of (run, _, svc) \<Rightarrow>
              (Error run, a\<lparr>svc_server := svc_server svc, svc_gc := svc_gc svc\<rparr>))
            else ([], a)) of
        (err, a') \<Rightarrow>
          if err \<noteq> [] then (Inl (StartupGC err), sv_fs (svc_server a'))
          else (case mux_register own_routes (app_routes a') of
            Inl p \<Rightarrow> (Inl (RoutePanic p), sv_fs (svc_server a'))
          | Inr table \<Rightarrow> (Inr (a'\<lparr>app_routes := table\<rparr>), sv_fs (svc_server a'))))"

definition server_New :: "start_env \<Rightarrow> config \<Rightarrow> string \<Rightarrow> fs \<Rightarrow> (new_error + application) \<times> fs" where
  "server_New env cfg version f =
     (case (if TokenFile cfg \<noteq> [] then read_token (TokenFile cfg) OperatorTokenRead OperatorTokenLength f else (Inr [], f)) of
        (Inl e, f1) \<Rightarrow> (Inl e, f1)
      | (Inr token, f1) \<Rightarrow>
      (case new_repositories env cfg (Repositories cfg)
          \<lparr>b_stores = [], b_handlers = [], b_byName = [], b_routes = []\<rparr> f1 of
        (Inl e, f2) \<Rightarrow> (Inl e, f2)
      | (Inr b, f2) \<Rightarrow>
      (case private_sizes (b_handlers b) f2 of
        (Inl e, f3) \<Rightarrow> (Inl e, f3)
      | (Inr ns, f3) \<Rightarrow> first_run env (assemble env cfg version token b ns f3))))"

end
