(* ===== verification/Server_Serve.thy ===== *)
theory Server_Serve
  imports Server_New
begin

text \<open>
  A request to the server (\<^verbatim>\<open>ServeHTTP\<close> of \<^verbatim>\<open>src/internal/httpserver/server.go\<close>): the security
  headers, the multiplexer, and the page or the repository it leads to. Everything that
  happens to the running program is an event: its start and stop, requests and the ticks
  of the maintenance loop.
\<close>

section \<open>Requests\<close>

record serve_env =
  sv_npm :: npm_env
  sv_oci :: oci_env
  sv_pypi :: pypi_env
  sv_run :: run_env
  sv_now :: int
  sv_free :: "os_error + int"
  sv_client :: writer

text \<open>
  A repository works on its own store, the shared file system and the shared controller,
  and counts in its own counters.
\<close>

definition repository_state :: "nat \<Rightarrow> application \<Rightarrow> proxy_state" where
  "repository_state i a =
     \<lparr>ps_world = \<lparr>w_store = ms_store (sv_stores (svc_server a) ! i), w_fs = sv_fs (svc_server a), w_ctl = sv_storage (svc_server a)\<rparr>,
      ps_stats = app_stats a ! i\<rparr>"

definition set_repository_state :: "nat \<Rightarrow> proxy_state \<Rightarrow> application \<Rightarrow> application" where
  "set_repository_state i st a =
     a\<lparr>svc_server := (svc_server a)
         \<lparr>sv_stores := (sv_stores (svc_server a))[i := (sv_stores (svc_server a) ! i)\<lparr>ms_store := w_store (ps_world st)\<rparr>],
          sv_fs := w_fs (ps_world st), sv_storage := w_ctl (ps_world st)\<rparr>,
       app_stats := (app_stats a)[i := ps_stats st]\<rparr>"

fun handler_ServeHTTP :: "repo_handler \<Rightarrow> serve_env \<Rightarrow> proxy_request \<Rightarrow> reply \<Rightarrow> proxy_state \<Rightarrow> reply \<times> proxy_state" where
  "handler_ServeHTTP (NpmHandler p) env req w st = npm_ServeHTTP p (sv_npm env) req w st"
| "handler_ServeHTTP (OciHandler p) env req w st = oci_ServeHTTP p (sv_oci env) req w st"
| "handler_ServeHTTP (PypiHandler p) env req w st = pypi_ServeHTTP p (sv_pypi env) req w st"

definition serve_repository :: "serve_env \<Rightarrow> nat \<Rightarrow> proxy_request \<Rightarrow> reply \<Rightarrow> application \<Rightarrow> reply \<times> application" where
  "serve_repository env i req w a =
     (case handler_ServeHTTP (app_repositories a ! i) env req w (repository_state i a) of
        (w', st) \<Rightarrow> (w', set_repository_state i st a))"

datatype answer = Redirected string | Page response | Proxied reply

text \<open>The request as the server's own pages see it.\<close>

definition page_request :: "proxy_request \<Rightarrow> request" where
  "page_request req = \<lparr>req_method = pr_method req, req_path = Path (pr_url req), req_header = pr_header req\<rparr>"

definition new_page :: response where
  "new_page = fresh_response\<lparr>rw_header := securityHeaders []\<rparr>"

definition new_reply :: "writer \<Rightarrow> reply" where
  "new_reply client = \<lparr>rp_header = securityHeaders [], rp_sent = None, rp_body = client\<rparr>"

text \<open>The handler that a route names.\<close>

fun route_ServeHTTP :: "route \<Rightarrow> serve_env \<Rightarrow> proxy_request \<Rightarrow> application \<Rightarrow> answer \<times> application" where
  "route_ServeHTTP (ToRepository i) env req a =
     (case serve_repository env i req (new_reply (sv_client env)) a of (w, a') \<Rightarrow> (Proxied w, a'))"
| "route_ServeHTTP ToHealth env req a = (Page (health (page_request req) new_page), a)"
| "route_ServeHTTP ToStatus env req a = (Page (status (sv_now env) (page_request req) new_page a), a)"
| "route_ServeHTTP ToOperator env req a = (Page (operatorStatus (sv_now env) (sv_free env) (page_request req) new_page a), a)"
| "route_ServeHTTP ToOperatorGC env req a =
     (case operatorGC (sv_run env) (page_request req) new_page (service.truncate a) of (w, svc) \<Rightarrow>
        (Page w, a\<lparr>svc_server := svc_server svc, svc_gc := svc_gc svc\<rparr>))"
| "route_ServeHTTP ToRepositories env req a =
     (Page (repositoryAPI (\<lambda>n. map_option SetupSnippet (map_of (app_byName a) n)) (page_request req) new_page), a)"
| "route_ServeHTTP ToMetrics env req a = (Page (metrics (page_request req) new_page a), a)"
| "route_ServeHTTP ToDashboard env req a = (Page (dashboard (page_request req) new_page a), a)"

definition ServeHTTP :: "serve_env \<Rightarrow> proxy_request \<Rightarrow> application \<Rightarrow> answer \<times> application" where
  "ServeHTTP env req a =
     (case mux_find (app_routes a) (pr_method req) (pr_url req) of
        Redirect target \<Rightarrow> (Redirected target, a)
      | NoRoute \<Rightarrow> (Page (http_NotFound new_page), a)
      | Route r \<Rightarrow> route_ServeHTTP r env req a)"

section \<open>The running program\<close>

text \<open>The file system outlives the program.\<close>

record machine =
  m_app :: "application option"
  m_fs :: fs

datatype event =
    Start start_env config string
  | Stop
  | Serve serve_env proxy_request
  | Maintain maintenance_event

definition maintain :: "maintenance_event \<Rightarrow> application \<Rightarrow> application" where
  "maintain ev a =
     (let svc = RunMaintenance [ev] (service.truncate a) in a\<lparr>svc_server := svc_server svc, svc_gc := svc_gc svc\<rparr>)"

text \<open>A running application reads and writes the machine's file system.\<close>

definition with_app :: "(application \<Rightarrow> application) \<Rightarrow> machine \<Rightarrow> machine" where
  "with_app h m =
     (case m_app m of
        None \<Rightarrow> m
      | Some a \<Rightarrow> (let a' = h a in m\<lparr>m_app := Some a', m_fs := sv_fs (svc_server a')\<rparr>))"

fun machine_step :: "event \<Rightarrow> machine \<Rightarrow> machine" where
  "machine_step (Start env cfg version) m =
     (case server_New env cfg version (m_fs m) of
        (Inl _, f) \<Rightarrow> \<lparr>m_app = None, m_fs = f\<rparr>
      | (Inr a, f) \<Rightarrow> \<lparr>m_app = Some a, m_fs = f\<rparr>)"
| "machine_step Stop m = m\<lparr>m_app := None\<rparr>"
| "machine_step (Serve env req) m = with_app (\<lambda>a. snd (ServeHTTP env req a)) m"
| "machine_step (Maintain ev) m = with_app (maintain ev) m"

end
