(* ===== verification/Server_Dispatch.thy ===== *)
theory Server_Dispatch
  imports Server_Serve
begin

text \<open>
  The routes of a running server: every repository has a store, counters and its own
  paths, whatever has happened since the start, and every request finds its handler.
\<close>

section \<open>A started server\<close>

text \<open>The paths that a handler answers for.\<close>

definition handler_paths :: "repo_handler \<Rightarrow> string list" where
  "handler_paths h =
     (case h of
        NpmHandler p \<Rightarrow> [npm_path p]
      | OciHandler p \<Rightarrow> [oci_path p]
      | PypiHandler p \<Rightarrow> [py_path p, py_filePath p, py_uploadPath p, py_packagePath p])"

definition route_owned :: "repo_handler list \<Rightarrow> string \<times> route \<Rightarrow> bool" where
  "route_owned hs pr = (case pr of (p, ToRepository i) \<Rightarrow> i < length hs \<and> p \<in> set (handler_paths (hs ! i)) | _ \<Rightarrow> True)"

definition well_formed :: "application \<Rightarrow> bool" where
  "well_formed a \<longleftrightarrow>
     length (sv_stores (svc_server a)) = length (app_repositories a) \<and>
     length (app_stats a) = length (app_repositories a) \<and>
     (\<exists>h. (''/'', h) \<in> set (app_routes a)) \<and>
     distinct (map (segments \<circ> fst) (app_routes a)) \<and>
     list_all (route_owned (app_repositories a)) (app_routes a)"

lemma new_handler_patterns:
  assumes "new_handler cfg r f = (Inr h, g)"
  shows "set (handler_patterns r h) \<subseteq> set (handler_paths h)"
proof -
  have npm: "npm_path p = repo_Path r" if "npm_New n (repo_Path r) u b t w = Some p" for n u b t w p
    using that by (auto simp: npm_New_def Let_def split: option.splits if_splits)
  have oci: "oci_path p = repo_Path r" if "oci_New n (repo_Path r) u b t = Inr p" for n u b t p
    using that by (auto simp: oci_New_def Let_def split: option.splits if_splits)
  have pypi: "\<exists>p. h = PypiHandler p \<and> py_path p = repo_Path r" if "new_pypi cfg r t f' = (Inr h, g)" for t f'
    using that by (auto simp: new_pypi_def pypi_New_def Let_def split: option.splits if_splits prod.splits sum.splits)
  consider p where "h = NpmHandler p" "npm_path p = repo_Path r" | p where "h = OciHandler p" "oci_path p = repo_Path r"
    | p where "h = PypiHandler p" "py_path p = repo_Path r"
    using assms by (auto simp: new_handler_def Let_def split: if_splits option.splits sum.splits prod.splits
        dest!: npm oci pypi)
  then show ?thesis by cases (simp_all add: handler_patterns_def handler_paths_def)
qed

lemma route_owned_append: "route_owned hs pr \<Longrightarrow> route_owned (hs @ hs') pr"
  by (auto simp: route_owned_def nth_append split: prod.splits route.splits)

definition built_ok :: "built \<Rightarrow> bool" where
  "built_ok b \<longleftrightarrow> length (b_stores b) = length (b_handlers b) \<and> distinct (map (segments \<circ> fst) (b_routes b)) \<and>
     list_all (route_owned (b_handlers b)) (b_routes b)"

lemma new_repositories_ok:
  "new_repositories env cfg rs b f = (Inr b', g) \<Longrightarrow> built_ok b \<Longrightarrow> built_ok b'"
proof (induction rs arbitrary: b f)
  case (Cons r rs)
  let ?i = "length (b_handlers b)"
  from Cons.prems(1) obtain ms f1 h f2 table where
    h: "new_handler cfg r f1 = (Inr h, f2)" and t: "mux_register (map (\<lambda>p. (p, ToRepository ?i)) (handler_patterns r h)) (b_routes b) = Inr table"
    and rest: "new_repositories env cfg rs \<lparr>b_stores = b_stores b @ [ms], b_handlers = b_handlers b @ [h],
            b_byName = AList.update (repo_Name r) h (b_byName b), b_routes = table\<rparr> f2 = (Inr b', g)"
    by (auto simp: Let_def split: prod.splits sum.splits)
  note T = mux_register_Inr [OF t]
  have "list_all (route_owned (b_handlers b @ [h])) table"
    using T Cons.prems(2) new_handler_patterns [OF h] route_owned_append
    by (auto simp: built_ok_def list_all_iff) (auto simp: route_owned_def)
  moreover have "distinct (map (segments \<circ> fst) table)" "length (b_stores b) = length (b_handlers b)"
    using T Cons.prems(2) unfolding built_ok_def by blast+
  ultimately have "built_ok \<lparr>b_stores = b_stores b @ [ms], b_handlers = b_handlers b @ [h],
            b_byName = AList.update (repo_Name r) h (b_byName b), b_routes = table\<rparr>"
    by (simp add: built_ok_def)
  from Cons.IH [OF rest this] show ?case .
qed simp

section \<open>Collections keep the list of stores\<close>

lemma collect_stores_length:
  "collect_stores clock maxAge i ctx mss r f ctl = (out, mss', g, ctl') \<Longrightarrow> length mss' = length mss"
  by (induction mss arbitrary: i ctx r f ctl mss')
    (auto simp: Let_def split: option.splits prod.splits)

lemma evict_length:
  "evict need ctx items r mss f c = (out, mss', g, c') \<Longrightarrow> length mss' = length mss"
proof (induction items arbitrary: ctx r mss f c)
  case (Cons item items)
  obtain ok err s1 f1 where e: "RemoveCandidate (pc_candidate item) (ms_store (mss ! pc_store item)) f = ((ok, err), s1, f1)"
    by (metis surj_pair)
  show ?case
  proof (cases "ctx_Err ctx = None \<and> RemovedBytes r < need")
    case True
    then show ?thesis using Cons.prems Cons.IH [where mss = "mss[pc_store item := (mss ! pc_store item)\<lparr>ms_store := s1\<rparr>]"]
      unfolding evict.simps Let_def e by simp
  next
    case False
    then show ?thesis using Cons.prems by (auto split: option.splits)
  qed
qed simp

lemma collect_length:
  assumes "collect clock ctx sv = (out, sv')"
  shows "length (sv_stores sv') = length (sv_stores sv)"
proof -
  have pressure: "length mss' = length (sv_stores sv)" if "collectPressure ctx (sv_stores sv) (sv_fs sv) c = (o', mss', g, c')" for c o' mss' g c'
    using that by (auto simp: collectPressure_def Let_def split: if_splits sum.splits prod.splits dest: evict_length)
  show ?thesis using assms
    by (auto simp: collect_def split: option.splits if_splits prod.splits dest: collect_stores_length pressure)
qed

lemma gc_Run_length:
  "gc_Run env trig svc = (run, ok, svc') \<Longrightarrow> length (sv_stores (svc_server svc')) = length (sv_stores (svc_server svc))"
  by (auto simp: gc_Run_def split: if_splits prod.splits dest: collect_length)

lemma maintenance_length: "length (sv_stores (svc_server (maintenance_loop evs svc))) = length (sv_stores (svc_server svc))"
proof (induction evs arbitrary: svc)
  case (Cons ev evs)
  then show ?case by (cases ev) (auto split: option.split prod.split dest: gc_Run_length)
qed simp

section \<open>Every event keeps the server well-formed\<close>

lemma first_run_wf:
  assumes "first_run env a = (Inr a', g)" "length (sv_stores (svc_server a)) = length (app_repositories a)"
    "length (app_stats a) = length (app_repositories a)" "distinct (map (segments \<circ> fst) (app_routes a))"
    "list_all (route_owned (app_repositories a)) (app_routes a)"
  shows "well_formed a'"
proof -
  obtain b table where b: "length (sv_stores (svc_server b)) = length (sv_stores (svc_server a))"
      "app_repositories b = app_repositories a" "app_stats b = app_stats a" "app_routes b = app_routes a"
    and t: "mux_register own_routes (app_routes b) = Inr table" and a': "a' = b\<lparr>app_routes := table\<rparr>"
  proof (cases "sv_maxAge (svc_server a) > 0")
    case True
    obtain run ok svc where r: "gc_Run ((se_run env)\<lparr>re_ctx := []\<rparr>) TriggerStartup (service.truncate a) = (run, ok, svc)" by (metis prod_cases3)
    have "length (sv_stores (svc_server svc)) = length (sv_stores (svc_server a))"
      using gc_Run_length [OF r] by (simp add: service.truncate_def)
    then show ?thesis using assms(1) True that [of "a\<lparr>svc_server := svc_server svc, svc_gc := svc_gc svc\<rparr>"]
      by (auto simp: first_run_def r split: if_splits sum.splits)
  next
    case False
    then show ?thesis using assms(1) that [of a] by (auto simp: first_run_def split: sum.splits)
  qed
  note T = mux_register_Inr [OF t]
  have "(''/'', ToDashboard) \<in> set own_routes" "list_all (route_owned hs) own_routes" for hs
    by (simp_all add: own_routes_def route_owned_def)
  moreover have "set table = set (app_routes a) \<union> set own_routes" using T b by simp
  moreover have "distinct (map (segments \<circ> fst) table)" using T [unfolded b(4)] assms(4) by blast
  ultimately show ?thesis using assms(2,3,5) by (auto simp: well_formed_def a' b list_all_iff)
qed

lemma server_New_wf:
  assumes "server_New env cfg version f = (Inr a, g)"
  shows "well_formed a"
proof -
  obtain token f1 b f2 ns f3 where
    b: "new_repositories env cfg (Repositories cfg) \<lparr>b_stores = [], b_handlers = [], b_byName = [], b_routes = []\<rparr> f1 = (Inr b, f2)"
    and run: "first_run env (assemble env cfg version token b ns f3) = (Inr a, g)"
    using assms by (auto simp: server_New_def split: sum.splits prod.splits)
  have "built_ok b" by (rule new_repositories_ok [OF b]) (simp add: built_ok_def)
  then show ?thesis by (intro first_run_wf [OF run]) (simp_all add: assemble_def Let_def built_ok_def)
qed

lemma ServeHTTP_wf:
  assumes "well_formed a"
  shows "well_formed (snd (ServeHTTP env req a))"
proof -
  have "well_formed (snd (route_ServeHTTP r env req a))" for r
  proof (cases r)
    case (ToRepository i)
    then show ?thesis using assms
      by (auto simp: serve_repository_def set_repository_state_def well_formed_def split: prod.split)
  next
    case ToOperatorGC
    obtain w svc where o: "operatorGC (sv_run env) (page_request req) new_page (service.truncate a) = (w, svc)" by fastforce
    have "length (sv_stores (svc_server svc)) = length (sv_stores (svc_server (service.truncate a)))"
      using o by (auto simp: operatorGC_def Let_def split: if_splits prod.splits dest: gc_Run_length)
    also have "svc_server (service.truncate a) = svc_server a" by (simp add: service.truncate_def)
    finally show ?thesis using assms by (simp add: ToOperatorGC o well_formed_def)
  qed (use assms in simp_all)
  then show ?thesis using assms by (simp add: ServeHTTP_def split: found.split)
qed

lemma maintain_wf: "well_formed a \<Longrightarrow> well_formed (maintain ev a)"
  using maintenance_length [of "[ev]" "service.truncate a"]
  by (simp add: maintain_def RunMaintenance_def Let_def well_formed_def service.truncate_def)

definition machine_wf :: "machine \<Rightarrow> bool" where
  "machine_wf m \<longleftrightarrow> (case m_app m of None \<Rightarrow> True | Some a \<Rightarrow> well_formed a)"

lemma machine_step_wf:
  assumes "machine_wf m"
  shows "machine_wf (machine_step ev m)"
proof -
  have app: "machine_wf (with_app h m)" if "\<And>a. well_formed a \<Longrightarrow> well_formed (h a)" for h
    using that assms by (cases "m_app m") (simp_all add: with_app_def machine_wf_def Let_def)
  show ?thesis
  proof (cases ev)
    case (Start env cfg version)
    obtain x f where s: "server_New env cfg version (m_fs m) = (x, f)" by fastforce
    then show ?thesis using server_New_wf [of env cfg version "m_fs m"]
      by (cases x) (simp_all add: Start machine_wf_def)
  next
    case Stop
    then show ?thesis by (simp add: machine_wf_def)
  next
    case (Serve env req)
    then show ?thesis using app [OF ServeHTTP_wf] by simp
  next
    case (Maintain ev')
    then show ?thesis using app [OF maintain_wf] by simp
  qed
qed

text \<open>C17.
  
  Whatever has happened since the machine was off, a running server has a store and counters
  for each of its repositories, and every request is answered: it is redirected, or the most
  specific of the patterns that match its path names its handler. A pattern that names a
  repository is one of that repository's own paths, so no request for one repository, and no
  upload, ever reaches another.
\<close>

theorem requests_dispatched:
  assumes "m_app m = None" "m_app (fold machine_step evs m) = Some a"
  shows "length (sv_stores (svc_server a)) = length (app_repositories a) \<and>
    length (app_stats a) = length (app_repositories a) \<and>
    (case mux_find (app_routes a) (pr_method req) (pr_url req) of
       NoRoute \<Rightarrow> False
     | Redirect _ \<Rightarrow> True
     | Route r \<Rightarrow>
         \<exists>p. (p, r) \<in> set (app_routes a) \<and>
           pattern_matches (segments p) (segments (EscapedPath (pr_url req))) \<and>
           (\<forall>(q, k) \<in> set (app_routes a). pattern_matches (segments q) (segments (EscapedPath (pr_url req))) \<longrightarrow>
              specificity (segments q) \<le> specificity (segments p)) \<and>
           (\<forall>i. r = ToRepository i \<longrightarrow> i < length (app_repositories a) \<and> p \<in> set (handler_paths (app_repositories a ! i))))"
proof -
  have "machine_wf m' \<Longrightarrow> machine_wf (fold machine_step es m')" for es m'
    by (induction es arbitrary: m') (simp_all add: machine_step_wf)
  from this [of m evs] have wf: "well_formed a" using assms by (simp add: machine_wf_def)
  show ?thesis
  proof (cases "mux_find (app_routes a) (pr_method req) (pr_url req)")
    case NoRoute
    moreover obtain h where "(''/'', h) \<in> set (app_routes a)" using wf unfolding well_formed_def by blast
    ultimately show ?thesis using mux_find_total [of h "app_routes a"] by simp
  next
    case (Redirect t)
    then show ?thesis using wf by (simp add: well_formed_def)
  next
    case (Route r)
    obtain p where p: "mux_match (app_routes a) (EscapedPath (pr_url req)) = Some (p, r)" using mux_find_Route [OF Route] by blast
    have "route_owned (app_repositories a) (p, r)" using mux_match_Some [OF p] wf by (simp add: well_formed_def list_all_iff)
    then have own: "\<forall>i. r = ToRepository i \<longrightarrow> i < length (app_repositories a) \<and> p \<in> set (handler_paths (app_repositories a ! i))"
      by (auto simp: route_owned_def)
    have "length (sv_stores (svc_server a)) = length (app_repositories a) \<and> length (app_stats a) = length (app_repositories a)"
      using wf by (simp add: well_formed_def)
    then show ?thesis unfolding Route found.case using mux_match_Some [OF p] own by blast
  qed
qed

definition sample_start :: start_env where
  "sample_start = \<lparr>se_now = 6, se_clock = (\<lambda>_. 6), se_run = sample_run_env\<rparr>"

theorem requests_dispatched_witness:
  "\<exists>a. m_app (fold machine_step [Start sample_start sample_config ''1''] \<lparr>m_app = None, m_fs = \<lparr>nodes = [], faults = []\<rparr>\<rparr>) = Some a \<and>
     mux_find (app_routes a) ''GET'' (empty_url\<lparr>Path := ''/py/simple/demo/''\<rparr>) = Route (ToRepository 0) \<and>
     0 < length (app_repositories a) \<and> length (sv_stores (svc_server a)) = length (app_repositories a)"
proof -
  let ?url = "empty_url\<lparr>Path := ''/py/simple/demo/''\<rparr>"
  have "case server_New sample_start sample_config ''1'' \<lparr>nodes = [], faults = []\<rparr> of
      (Inr a, f) \<Rightarrow> mux_find (app_routes a) ''GET'' ?url = Route (ToRepository 0) | (Inl e, f) \<Rightarrow> False" by code_simp
  then obtain a f where a: "server_New sample_start sample_config ''1'' \<lparr>nodes = [], faults = []\<rparr> = (Inr a, f)"
    and r: "mux_find (app_routes a) ''GET'' ?url = Route (ToRepository 0)" by (auto split: prod.splits sum.splits)
  have run: "m_app (fold machine_step [Start sample_start sample_config ''1''] \<lparr>m_app = None, m_fs = \<lparr>nodes = [], faults = []\<rparr>\<rparr>) = Some a"
    by (simp add: a)
  have "length (sv_stores (svc_server a)) = length (app_repositories a) \<and> 0 < length (app_repositories a)"
    using requests_dispatched [OF _ run, of "\<lparr>pr_method = ''GET'', pr_url = ?url, pr_header = [], pr_canceled = False\<rparr>"]
    by (simp add: r) blast
  then show ?thesis using run r by blast
qed

section \<open>Routes that collide\<close>

text \<open>
  The routes of a configuration, in the order in which the start registers them: the path of
  each repository, for PyPI also the ones for files, uploads and private packages, then the
  server's own.
\<close>

definition repository_routes :: "repository_config \<Rightarrow> string list" where
  "repository_routes r =
     repo_Path r # (if repo_Type r = ''pypi''
       then map (\<lambda>x. TrimSuffix (repo_Path r) ''simple/'' @ x) [''files/'', ''legacy/'', ''packages/''] else [])"

definition config_routes :: "config \<Rightarrow> string list" where
  "config_routes cfg = concat (map repository_routes (Repositories cfg)) @ map fst own_routes"

lemma new_handler_routes:
  assumes "new_handler cfg r f = (Inr h, g)"
  shows "handler_patterns r h = repository_routes r"
proof -
  have pypi: "\<exists>p. h = PypiHandler p \<and> py_filePath p = TrimSuffix (repo_Path r) ''simple/'' @ ''files/'' \<and>
      py_uploadPath p = TrimSuffix (repo_Path r) ''simple/'' @ ''legacy/'' \<and>
      py_packagePath p = TrimSuffix (repo_Path r) ''simple/'' @ ''packages/''" if "new_pypi cfg r t f' = (Inr h, g)" for t f'
    using that by (auto simp: new_pypi_def pypi_New_def Let_def split: option.splits if_splits prod.splits sum.splits)
  consider p where "h = NpmHandler p" "repo_Type r \<noteq> ''pypi''" | p where "h = OciHandler p" "repo_Type r \<noteq> ''pypi''"
    | t f' where "new_pypi cfg r t f' = (Inr h, g)" "repo_Type r = ''pypi''"
    using assms by (auto simp: new_handler_def Let_def split: if_splits option.splits sum.splits prod.splits)
  then show ?thesis
  proof cases
    case 3
    from pypi [OF 3(1)] 3(2) show ?thesis by (auto simp: handler_patterns_def repository_routes_def)
  qed (simp_all add: handler_patterns_def repository_routes_def)
qed

text \<open>Only the multiplexer panics.\<close>

lemma no_panic:
  "read_token file u b f = (Inl e, g) \<Longrightarrow> (\<And>x. u x \<noteq> RoutePanic p) \<Longrightarrow> b \<noteq> RoutePanic p \<Longrightarrow> e \<noteq> RoutePanic p"
  "new_store env cfg i r f = (Inl e, g) \<Longrightarrow> e \<noteq> RoutePanic p"
  "new_pypi cfg r t f = (Inl e, g) \<Longrightarrow> e \<noteq> RoutePanic p"
  "private_sizes hs f = (Inl e, g) \<Longrightarrow> e \<noteq> RoutePanic p"
proof -
  show "private_sizes hs f = (Inl e, g) \<Longrightarrow> e \<noteq> RoutePanic p"
    by (induction hs f arbitrary: e g rule: private_sizes.induct) (auto split: prod.splits option.splits sum.splits)
qed (auto simp: read_token_def new_store_def new_pypi_def Let_def split: prod.splits sum.splits if_splits option.splits)

lemma new_handler_no_panic: "new_handler cfg r f = (Inl e, g) \<Longrightarrow> e \<noteq> RoutePanic p"
  by (auto simp: new_handler_def Let_def split: if_splits option.splits sum.splits prod.splits
      dest: no_panic(3) no_panic(1) [where p = p])

lemma new_repositories_routes:
  assumes "new_repositories env cfg rs b f = (x, g)"
  shows "case x of
      Inl e \<Rightarrow> (case e of RoutePanic p \<Rightarrow> refused (map fst (b_routes b) @ concat (map repository_routes rs) @ rest) p | _ \<Rightarrow> True)
    | Inr b' \<Rightarrow> map fst (b_routes b') = map fst (b_routes b) @ concat (map repository_routes rs) \<and>
        list_all plain_pattern (concat (map repository_routes rs))"
  using assms
proof (induction rs arbitrary: b f)
  case (Cons r rs)
  let ?i = "length (b_handlers b)"
  show ?case
  proof (cases "new_store env cfg ?i r f")
    case (Pair y f1)
    show ?thesis
    proof (cases y)
      case (Inl e)
      with Pair Cons.prems no_panic(2) [OF Pair [unfolded Inl]] show ?thesis by (auto split: new_error.split)
    next
      case (Inr ms)
      note store = Pair [unfolded Inr]
      obtain z f2 where z: "new_handler cfg r f1 = (z, f2)" by fastforce
      show ?thesis
      proof (cases z)
        case (Inl e)
        with store z Cons.prems new_handler_no_panic [OF z [unfolded Inl]] show ?thesis by (auto split: new_error.split)
      next
        case (Inr h)
        note hp = new_handler_routes [OF z [unfolded Inr]]
        let ?ps = "map (\<lambda>p. (p, ToRepository ?i)) (repository_routes r)"
        have names: "map fst ?ps = repository_routes r" by (simp add: comp_def)
        show ?thesis
        proof (cases "mux_register ?ps (b_routes b)")
          case (Inl p)
          with store z Inr hp Cons.prems have "x = Inl (RoutePanic p)" by simp
          with mux_register_Inl [OF Inl, of "concat (map repository_routes rs) @ rest"] names show ?thesis
            by (simp add: comp_def)
        next
          case (Inr table)
          note T = mux_register_Inr [OF Inr]
          have plain: "list_all plain_pattern (repository_routes r)"
            using T by (auto simp: list_all_iff)
          have tab: "map fst table = map fst (b_routes b) @ repository_routes r" using T names by simp
          have "new_repositories env cfg rs \<lparr>b_stores = b_stores b @ [ms], b_handlers = b_handlers b @ [h],
              b_byName = AList.update (repo_Name r) h (b_byName b), b_routes = table\<rparr> f2 = (x, g)"
            using store z \<open>z = Inr h\<close> hp Inr Cons.prems by simp
          from Cons.IH [OF this] show ?thesis
            using plain by (simp add: tab split: sum.splits new_error.splits)
        qed
      qed
    qed
  qed
qed auto

lemma first_run_routes:
  assumes "first_run env a = (x, g)"
  shows "case x of
      Inl e \<Rightarrow> (case e of RoutePanic p \<Rightarrow> refused (map fst (app_routes a) @ map fst own_routes) p | _ \<Rightarrow> True)
    | Inr a' \<Rightarrow> map fst (app_routes a') = map fst (app_routes a) @ map fst own_routes"
proof -
  obtain err b where b: "app_routes b = app_routes a"
    and run: "(if err \<noteq> [] then (Inl (StartupGC err), sv_fs (svc_server b))
      else (case mux_register own_routes (app_routes b) of
            Inl p \<Rightarrow> (Inl (RoutePanic p), sv_fs (svc_server b))
          | Inr table \<Rightarrow> (Inr (b\<lparr>app_routes := table\<rparr>), sv_fs (svc_server b)))) = (x, g)"
  proof (cases "sv_maxAge (svc_server a) > 0")
    case True
    obtain run ok svc where "gc_Run ((se_run env)\<lparr>re_ctx := []\<rparr>) TriggerStartup (service.truncate a) = (run, ok, svc)"
      by (metis prod_cases3)
    then show ?thesis using assms True that [of "a\<lparr>svc_server := svc_server svc, svc_gc := svc_gc svc\<rparr>" "Error run"]
      by (simp add: first_run_def)
  next
    case False
    then show ?thesis using assms that [of a "[]"] by (simp add: first_run_def)
  qed
  show ?thesis
  proof (cases "mux_register own_routes (app_routes a)")
    case (Inl p)
    then show ?thesis using run b mux_register_Inl [OF Inl, of "[]"] by (auto split: if_splits)
  next
    case (Inr table)
    then show ?thesis using run b mux_register_Inr [OF Inr] by (auto split: if_splits)
  qed
qed

text \<open>C40.
  
  The routes of a configuration decide whether the start panics. For every configuration,
  environment and disk: a start that succeeds has registered exactly the routes of the
  configuration and of the server, they are all different and none has a blank or a tab; and
  a start that panics does so on one of these routes that has a blank or a tab or that occurs
  twice. So a configuration with such a route never starts a server. Validation compares only
  the paths of the repositories and of the PyPI files: a repository at the path for the
  uploads of another one passes it and cannot start.
\<close>

theorem start_routes_exact:
  "case fst (server_New env cfg version f) of
     Inr a \<Rightarrow> map fst (app_routes a) = config_routes cfg \<and> (\<nexists>p. refused (config_routes cfg) p)
   | Inl e \<Rightarrow> (case e of RoutePanic p \<Rightarrow> refused (config_routes cfg) p | _ \<Rightarrow> True)"
proof -
  let ?b0 = "\<lparr>b_stores = [], b_handlers = [], b_byName = [], b_routes = []\<rparr>"
  obtain y f1 where y: "(if TokenFile cfg \<noteq> [] then read_token (TokenFile cfg) OperatorTokenRead OperatorTokenLength f
      else (Inr [], f)) = (y, f1)" by fastforce
  obtain z f2 where z: "new_repositories env cfg (Repositories cfg) ?b0 f1 = (z, f2)" by fastforce
  note R = new_repositories_routes [OF z, of "map fst own_routes"]
  show ?thesis
  proof (cases y)
    case (Inl e)
    then have "\<forall>p. e \<noteq> RoutePanic p" using y no_panic(1) by (auto split: if_splits)
    then show ?thesis using y Inl by (simp add: server_New_def split: new_error.split)
  next
    case token: (Inr token)
    show ?thesis
    proof (cases z)
      case (Inl e)
      then show ?thesis using y token z R by (simp add: server_New_def config_routes_def split: new_error.splits)
    next
      case b: (Inr b)
      obtain v f3 where v: "private_sizes (b_handlers b) f2 = (v, f3)" by fastforce
      show ?thesis
      proof (cases v)
        case (Inl e)
        then show ?thesis using y token z b v no_panic(4) [of "b_handlers b" f2 e f3]
          by (simp add: server_New_def split: new_error.split)
      next
        case (Inr ns)
        obtain x g where x: "first_run env (assemble env cfg version token b ns f3) = (x, g)" by fastforce
        have run: "server_New env cfg version f = (x, g)" using y token z b v Inr x by (simp add: server_New_def)
        have rt: "map fst (app_routes (assemble env cfg version token b ns f3)) @ map fst own_routes = config_routes cfg"
          using R b by (simp add: assemble_def Let_def config_routes_def)
        note F = first_run_routes [OF x, unfolded rt]
        show ?thesis
        proof (cases x)
          case (Inr a)
          have tab: "map fst (app_routes a) = config_routes cfg" using F Inr by simp
          have "distinct (map (segments \<circ> fst) (app_routes a))"
            using server_New_wf [of env cfg version f a g] run Inr by (simp add: well_formed_def)
          then have "distinct (map segments (config_routes cfg))" by (simp only: tab [symmetric] map_map)
          moreover have "list_all plain_pattern (map fst own_routes)" by code_simp
          then have "list_all plain_pattern (config_routes cfg)" using R b by (simp add: config_routes_def)
          ultimately have "\<nexists>p. refused (config_routes cfg) p" using refused_iff by blast
          then show ?thesis using F run Inr by simp
        qed (use F run in simp)
      qed
    qed
  qed
qed

text \<open>A configuration that passes validation and that no environment and no disk lets start.\<close>

definition colliding_repository :: repository_config where
  "colliding_repository = \<lparr>repo_Name = ''npm'', repo_Type = ''npm'', repo_Path = ''/py/legacy/'',
     Upstream = ''https://registry.npmjs.org'', TTL = 1, ForwardAuthorization = False, PublishTokenFile = [],
     AllowedFileOrigins = []\<rparr>"

theorem start_routes_exact_witness:
  "Validate (sample_config\<lparr>Repositories := [sample_repository, colliding_repository]\<rparr>) = None \<and>
   (\<forall>env version f. \<exists>e.
      fst (server_New env (sample_config\<lparr>Repositories := [sample_repository, colliding_repository]\<rparr>) version f) = Inl e)"
proof (intro conjI allI)
  let ?cfg = "sample_config\<lparr>Repositories := [sample_repository, colliding_repository]\<rparr>"
  show "Validate ?cfg = None" by code_simp
  have "refused (config_routes ?cfg) ''/py/legacy/''" by code_simp
  then show "\<exists>e. fst (server_New env ?cfg version f) = Inl e" for env version f
    using start_routes_exact [where env = env and cfg = ?cfg and version = version and f = f] by (cases "fst (server_New env ?cfg version f)") auto
qed

end
