(* ===== verification/Command_Line.thy ===== *)
theory Command_Line
  imports Server_Dispatch
begin

text \<open>
  The process (\<^verbatim>\<open>src/cmd/n0ding/main.go\<close>): its flags, the configuration, the server and
  the two ways it ends. What the clients and the ticks bring while it serves is a list of
  events.
\<close>

section \<open>The flags\<close>

text \<open>
  \<^verbatim>\<open>flag.Parse\<close> for the two flags: it stops at the first argument that is no flag, and a
  flag that it cannot read ends the process, as does a request for help.
\<close>

datatype flags = Flags string bool | ExitFlags int

definition flag_name :: "string \<Rightarrow> string option" where
  "flag_name s =
     (if length s < 2 \<or> hd s \<noteq> CHR ''-'' then None
      else if s = ''--'' then None
      else Some (if s ! 1 = CHR ''-'' then drop 2 s else drop 1 s))"

text \<open>The part before the first equals sign after the first character, and the value behind it.\<close>

definition flag_value :: "string \<Rightarrow> string \<times> string option" where
  "flag_value name =
     (case Cut (tl name) ''='' of (before, after, found) \<Rightarrow> (hd name # before, if found then Some after else None))"

fun parse_flags :: "string \<Rightarrow> bool \<Rightarrow> string list \<Rightarrow> flags" where
  "parse_flags path check [] = Flags path check"
| "parse_flags path check (s # args) =
     (case flag_name s of
        None \<Rightarrow> Flags path check
      | Some name \<Rightarrow>
          if name = [] \<or> hd name = CHR ''-'' \<or> hd name = CHR ''='' then ExitFlags 2
          else (case flag_value name of (n, v) \<Rightarrow>
            if n = ''config'' then
              (case v of
                 Some p \<Rightarrow> parse_flags p check args
               | None \<Rightarrow> (case args of [] \<Rightarrow> ExitFlags 2 | p # rest \<Rightarrow> parse_flags p check rest))
            else if n = ''check-config'' then
              (case v of
                 None \<Rightarrow> parse_flags path True args
               | Some b \<Rightarrow> (case ParseBool b of None \<Rightarrow> ExitFlags 2 | Some c \<Rightarrow> parse_flags path c args))
            else ExitFlags (if n = ''help'' \<or> n = ''h'' then 0 else 2)))"

section \<open>The process\<close>

text \<open>How serving ends: the listener fails or is closed, or a signal asks for the shutdown.\<close>

datatype ending = ListenFailed | ServerClosed | Signalled "string option"

record process_env =
  pe_getenv :: "string \<Rightarrow> string"
  pe_open :: "string \<Rightarrow> os_error + (string \<times> string option)"
  pe_start :: start_env
  pe_version :: string
  pe_events :: "event list"
  pe_ending :: ending

text \<open>Only requests and ticks reach a serving process.\<close>

fun serving :: "event \<Rightarrow> bool" where
  "serving (Serve env req) = True"
| "serving (Maintain ev) = True"
| "serving _ = False"

text \<open>
  \<^verbatim>\<open>run\<close> and \<^verbatim>\<open>main\<close>: the exit code and the file system. An error is reported with code 1, a
  panic ends the process with code 2.
\<close>

definition main_exit :: "ending \<Rightarrow> int" where
  "main_exit e = (case e of ListenFailed \<Rightarrow> 1 | ServerClosed \<Rightarrow> 0 | Signalled err \<Rightarrow> if err = None then 0 else 1)"

definition main :: "process_env \<Rightarrow> string list \<Rightarrow> fs \<Rightarrow> int \<times> fs" where
  "main env args f =
     (case parse_flags ''config/n0ding.toml'' False args of
        ExitFlags code \<Rightarrow> (code, f)
      | Flags path check \<Rightarrow>
          (case Load (pe_getenv env) path (pe_open env path) of
             Inl _ \<Rightarrow> (1, f)
           | Inr cfg \<Rightarrow>
               if check then (0, f)
               else (case server_New (pe_start env) cfg (pe_version env) f of
                 (Inl (RoutePanic _), f') \<Rightarrow> (2, f')
               | (Inl _, f') \<Rightarrow> (1, f')
               | (Inr a, f') \<Rightarrow>
                   (main_exit (pe_ending env),
                    m_fs (fold machine_step (filter serving (pe_events env)) \<lparr>m_app = Some a, m_fs = f'\<rparr>)))))"

definition working_file :: string where
  "working_file = concat (map (\<lambda>l. l @ [CHR 0x0A])
     [''[storage]'', ''path = '' @ [CHR 0x22] @ ''/data'' @ [CHR 0x22],
      ''[repository.pypi]'', ''path = '' @ [CHR 0x22] @ ''/py/simple/'' @ [CHR 0x22],
      ''upstream = '' @ [CHR 0x22] @ ''https://pypi.org/simple/'' @ [CHR 0x22]])"

definition sample_process :: "string \<Rightarrow> process_env" where
  "sample_process file = \<lparr>pe_getenv = (\<lambda>_. []), pe_open = (\<lambda>_. Inr (file, None)), pe_start = sample_start,
     pe_version = ''dev'', pe_events = [], pe_ending = Signalled None\<rparr>"

end
