(* ===== verification/Pypi_Link_Theorems.thy ===== *)
theory Pypi_Link_Theorems
  imports Pypi_Links
begin

text \<open>
  Links and names of the PyPI proxy: a link that the proxy writes leads back to the file
  it stands for, the file endpoint fetches from allowed origins only, project names are
  normalised once and for all and stay inside their directory, and escaped text cannot
  leave an attribute.
\<close>

section \<open>Names\<close>

definition name_char :: "char \<Rightarrow> bool" where
  "name_char c \<longleftrightarrow> is_lower c \<or> is_digit c"

text \<open>Runs of letters and digits separated by single hyphens.\<close>

fun normal_tail :: "string \<Rightarrow> bool" where
  "normal_tail [] \<longleftrightarrow> True"
| "normal_tail (c # s) \<longleftrightarrow>
     (if c = CHR ''-'' then s \<noteq> [] \<and> name_char (hd s) \<and> normal_tail s else name_char c \<and> normal_tail s)"

definition normal_name :: "string \<Rightarrow> bool" where
  "normal_name s \<longleftrightarrow> s = [] \<or> name_char (hd s) \<and> normal_tail s"

lemma name_char_plain: "name_char c \<Longrightarrow> c \<noteq> CHR ''-'' \<and> c \<noteq> CHR ''_'' \<and> c \<noteq> CHR ''.'' \<and> c \<noteq> CHR ''/'' \<and> c \<noteq> CHR '' ''"
  by (auto simp: name_char_def is_lower_def is_digit_def byte_def)

lemma normal_tail_append: "name_char c \<Longrightarrow> normal_tail s \<Longrightarrow> normal_tail (s @ [c]) \<and> normal_tail (s @ [CHR ''-'', c])"
proof (induction s)
  case Nil
  then show ?case using name_char_plain [of c] by simp
next
  case (Cons x s)
  then show ?case by (cases s) (auto split: if_splits)
qed

lemma normal_name_append:
  "normal_name s \<Longrightarrow> name_char c \<Longrightarrow> normal_name (s @ [c]) \<and> (s \<noteq> [] \<longrightarrow> normal_name (s @ [CHR ''-'', c]))"
  using normal_tail_append [of c s] by (cases s) (auto simp: normal_name_def name_char_plain)

lemma normalize_loop_normal:
  "normalize_loop out sep s = Some r \<Longrightarrow> normal_name out \<Longrightarrow> (sep \<longrightarrow> out \<noteq> []) \<Longrightarrow> normal_name r"
proof (induction out sep s rule: normalize_loop.induct)
  case (2 out sep c s)
  show ?case
  proof (cases "c = CHR ''-'' \<or> c = CHR ''_'' \<or> c = CHR ''.''")
    case True
    then show ?thesis using 2 by simp
  next
    case False
    then have n: "name_char c" using "2.prems"(1) by (auto simp: name_char_def split: if_splits)
    then have "normal_name (out @ (if sep then ''-'' else []) @ [c])"
      using normal_name_append [OF "2.prems"(2) n] "2.prems"(3) by auto
    then show ?thesis using 2 False n by (auto simp: name_char_def)
  qed
qed simp

lemma normalize_loop_id:
  "normal_tail s \<Longrightarrow> (s \<noteq> [] \<and> hd s = CHR ''-'' \<longrightarrow> out \<noteq> []) \<Longrightarrow> normalize_loop out False s = Some (out @ s)"
proof (induction s arbitrary: out rule: length_induct)
  case (1 s)
  show ?case
  proof (cases s)
    case (Cons c r)
    show ?thesis
    proof (cases "c = CHR ''-''")
      case True
      then obtain d t where r: "r = d # t" "name_char d" "normal_tail t"
        using "1.prems"(1) Cons by (cases r) (auto simp: name_char_plain split: if_splits)
      have "normalize_loop (out @ [CHR ''-'', d]) False t = Some ((out @ [CHR ''-'', d]) @ t)"
        using "1.IH" r Cons by simp
      then show ?thesis using True r Cons name_char_plain [OF r(2)] "1.prems"(2) r(2) by (simp add: name_char_def)
    next
      case False
      then have n: "name_char c" "normal_tail r" using "1.prems"(1) Cons by simp_all
      have "normalize_loop (out @ [c]) False r = Some ((out @ [c]) @ r)" using "1.IH" n Cons by simp
      then show ?thesis using n name_char_plain [OF n(1)] Cons by (simp add: name_char_def)
    qed
  qed simp
qed

lemma normal_tail_set: "normal_tail s \<Longrightarrow> \<forall>c \<in> set s. name_char c \<or> c = CHR ''-''"
  by (induction s) (auto split: if_splits)

lemma TrimRight_keep: "s \<noteq> [] \<Longrightarrow> last s \<notin> set cs \<Longrightarrow> TrimRight s cs = s"
  by (cases s rule: rev_cases) (simp_all add: TrimRight_def)

lemma Trim_id: "\<forall>c \<in> set s. c \<notin> set cs \<Longrightarrow> Trim s cs = s"
proof (cases s)
  case Nil
  then show ?thesis by (simp add: Trim_def TrimLeft_def TrimRight_def)
next
  case (Cons c t)
  assume a: "\<forall>c \<in> set s. c \<notin> set cs"
  then have "TrimLeft s cs = s" by (simp add: TrimLeft_def Cons)
  then show ?thesis using a TrimRight_keep [of s cs] last_in_set [of s] by (auto simp: Trim_def Cons)
qed

lemma trimmed_empty [simp]: "TrimSpace [] = []" "ToLower [] = []"
  by (simp_all add: TrimSpace_def Trim_id ToLower_def)

lemma normal_name_kept:
  assumes "normal_name s"
  shows "normalizeProjectName s = s"
proof (cases "s = []")
  case True
  then show ?thesis by (simp add: normalizeProjectName_def ToLower_def Trim_id TrimSpace_def)
next
  case False
  then have t: "normal_tail s" "name_char (hd s)" using assms by (simp_all add: normal_name_def)
  have c: "\<not> is_upper c \<and> c \<notin> set ascii_spaces" if "c \<in> set s" for c
    using normal_tail_set [OF t(1)] that
    by (auto simp: name_char_def is_lower_def is_upper_def is_digit_def byte_def ascii_spaces_def)
  then have "ToLower s = s" by (simp add: ToLower_def lower_def map_idI)
  moreover have "TrimSpace s = s" using c by (simp add: TrimSpace_def Trim_id)
  moreover have "hd s \<noteq> CHR ''-''" using name_char_plain [OF t(2)] by simp
  ultimately show ?thesis using normalize_loop_id [OF t(1), of "[]"] by (simp add: normalizeProjectName_def)
qed

lemma normalizeProjectName_normal: "normal_name (normalizeProjectName name)"
  by (auto simp: normalizeProjectName_def normal_name_def [of "[]"] split: option.split intro: normalize_loop_normal)

text \<open>C28.
  
  Project names are normalised once and for all: the result is empty or made of runs of
  lower-case letters and digits joined by single hyphens, a name of that form is kept, so
  normalising twice changes nothing, and the result names one directory entry: it has no
  separator, no dot and no leading hyphen.
\<close>

theorem normalizeProjectName_canonical:
  "((\<exists>n. normalizeProjectName n = s) \<longleftrightarrow> normal_name s) \<and>
   normalizeProjectName (normalizeProjectName name) = normalizeProjectName name \<and>
   list_all (\<lambda>c. name_char c \<or> c = CHR ''-'') (normalizeProjectName name) \<and>
   normalizeProjectName name \<notin> {''.'', ''..''}"
proof (intro conjI)
  show "(\<exists>n. normalizeProjectName n = s) \<longleftrightarrow> normal_name s"
    using normalizeProjectName_normal normal_name_kept by metis
  show "normalizeProjectName (normalizeProjectName name) = normalizeProjectName name"
    by (rule normal_name_kept) (rule normalizeProjectName_normal)
  show "list_all (\<lambda>c. name_char c \<or> c = CHR ''-'') (normalizeProjectName name)"
    using normalizeProjectName_normal [of name] normal_tail_set by (auto simp: normal_name_def list_all_iff)
  have "\<not> name_char CHR ''.''" using name_char_plain by blast
  then show "normalizeProjectName name \<notin> {''.'', ''..''}"
    using normalizeProjectName_normal [of name] by (auto simp: normal_name_def)
qed

section \<open>Escaped text\<close>

lemma escape_char_safe: "c \<in> set (escape_char x) \<Longrightarrow> c \<noteq> CHR 0x22 \<and> c \<noteq> CHR 0x27 \<and> c \<noteq> CHR ''<'' \<and> c \<noteq> CHR ''>''"
  by (auto simp: escape_char_def split: if_splits)

lemma htmlEscape_safe:
  "c \<in> set (htmlEscape s) \<Longrightarrow> c \<noteq> CHR 0x22 \<and> c \<noteq> CHR 0x27 \<and> c \<noteq> CHR ''<'' \<and> c \<noteq> CHR ''>''"
  using escape_char_safe by (auto simp: htmlEscape_def)

section \<open>The file endpoint\<close>

lemma sha256FromFragment_valid:
  assumes "sha256FromFragment f = sha" "sha \<noteq> []"
  shows "length sha = 64 \<and> list_all is_hex sha \<and> ToLower (TrimSpace sha) = sha"
proof -
  obtain r where sha: "sha = ToLower r" "length sha = 64" "hex_DecodeString sha \<noteq> None"
    using assms by (auto simp: sha256FromFragment_def Let_def split: prod.splits if_splits)
  then have hex: "list_all is_hex sha" using hex_Decode_iff by blast
  have "c \<notin> set ascii_spaces" if "is_hex c" for c
    using that by (auto simp: is_hex_def is_digit_def byte_def ascii_spaces_def)
  then have "TrimSpace sha = sha" using hex by (auto simp: TrimSpace_def list_all_iff intro!: Trim_id)
  then show ?thesis using sha hex by simp
qed

text \<open>The file endpoint accepts a URL that is absolute, plain and of an allowed origin only.\<close>

text \<open>C24.
  
  The file endpoint is no open relay: whatever the query, an accepted request leads to an
  HTTP or HTTPS URL of a host, without credentials and without a fragment, whose origin is
  one of the allowed origins, and the checksum asked for is absent or 64 lower-case
  hexadecimal digits.
\<close>

theorem fileTargetURL_safe:
  assumes "fileTargetURL p requestURL = Inr (target, sha)"
  shows "Scheme target \<in> {''http'', ''https''} \<and> Host target \<noteq> [] \<and> User target = None \<and> Fragment target = [] \<and>
    originKey target \<in> set (py_allowedFileOrigins p) \<and>
    (sha = [] \<or> length sha = 64 \<and> list_all is_hex sha \<and> ToLower sha = sha)"
proof -
  have o: "originKey (t\<lparr>Path := x, RawPath := y\<rparr>) = originKey t" for t :: url and x y
    by (simp add: originKey_def Hostname_def effectivePort_def Port_def)
  show ?thesis using assms hex_Decode_iff
    by (auto simp: fileTargetURL_def Let_def fileOriginAllowed_def o split: option.splits if_splits)
qed

section \<open>Links lead back\<close>

lemma LastIndexByte_rest: "LastIndexByte s c = Some i \<Longrightarrow> c \<notin> set (drop (Suc i) s)"
  by (induction s arbitrary: i) (auto simp: LastIndexByte_None split: option.splits if_splits)

lemma file_name_plain: "file_name t \<noteq> []" "CHR ''/'' \<notin> set (file_name t)"
proof -
  have b: "CHR ''/'' \<notin> set (path_Base s)" if "path_Base s \<noteq> ''/''" for s
  proof (cases "LastIndexByte (TrimRight s ''/'') CHR ''/''")
    case None
    then have "CHR ''/'' \<notin> set (TrimRight s ''/'')" by (simp add: LastIndexByte_None)
    then show ?thesis using that None by (auto simp: path_Base_def Let_def split: if_splits)
  next
    case (Some i)
    then show ?thesis using LastIndexByte_rest [OF Some] that by (auto simp: path_Base_def Let_def split: if_splits)
  qed
  show "file_name t \<noteq> []" by (simp add: file_name_def Let_def)
  show "CHR ''/'' \<notin> set (file_name t)" using b [of "Path t"] by (auto simp: file_name_def Let_def)
qed

lemma path_Base_append:
  assumes "x \<noteq> []" "CHR ''/'' \<notin> set x"
  shows "path_Base (d @ ''/'' @ x) = x"
proof -
  have "last x \<noteq> CHR ''/''" using assms by (metis last_in_set)
  then have "TrimRight (d @ ''/'' @ x) ''/'' = d @ ''/'' @ x" using assms(1) by (intro TrimRight_keep) auto
  then show ?thesis using LastIndexByte_append [of "CHR ''/''" x d] assms by (simp add: path_Base_def)
qed

lemma file_name_metadata: "HasSuffix (file_name t) ''.metadata'' \<longleftrightarrow> HasSuffix (path_Base (Path t)) ''.metadata''"
  by (auto simp: file_name_def Let_def HasSuffix_def)

lemma file_values_query:
  "ParseQuery (Values_Encode (file_values t sha)) = (sort_key fst (file_values t sha), False)"
  by (rule ParseQuery_Encode) (auto simp: file_values_def Values_Set_def Let_def)

lemma file_values_get:
  assumes "url_Query r = sort_key fst (file_values t sha)"
  shows "Values_Get (url_Query r) ''url'' = url_String (t\<lparr>Fragment := []\<rparr>)" "Values_Get (url_Query r) ''sha256'' = sha"
  unfolding assms Values_Get_def by (auto simp: file_values_def Values_Set_def Let_def)

text \<open>C25.
  
  A link that the proxy writes into a page leads back to the file it stands for: its path
  ends in the file's escaped name, and the request that a client makes for it, with any
  directory before that name, resolves to the upstream URL and to the checksum of the
  link's fragment; the same request for the \<^verbatim>\<open>.metadata\<close> file beside it resolves to the
  upstream's \<^verbatim>\<open>.metadata\<close> file, without a checksum.
\<close>

theorem file_link_roundtrip:
  assumes t: "url_Parse (url_String t) = Some t" "Fragment t = []" "Host t \<noteq> []" "User t = None"
      "Scheme t \<in> {''http'', ''https''}" "fileOriginAllowed p t" "\<not> HasSuffix (path_Base (Path t)) ''.metadata''"
    and r: "RawQuery r = Values_Encode (file_values t (sha256FromFragment fragment))"
  shows "(\<exists>name. proxyFileURL p t fragment =
        py_proxyFileBaseURL p @ ''/'' @ name @ ''?'' @ RawQuery r @ (if fragment \<noteq> [] then ''#'' @ fragment else []) \<and>
        PathUnescape name = Some (file_name t)) \<and>
    fileTargetURL p (r\<lparr>Path := dir @ ''/'' @ file_name t\<rparr>) = Inr (t, sha256FromFragment fragment) \<and>
    fileTargetURL p (r\<lparr>Path := dir @ ''/'' @ file_name t @ ''.metadata''\<rparr>) =
      Inr (t\<lparr>Path := Path t @ ''.metadata'', RawPath := if RawPath t \<noteq> [] then RawPath t @ ''.metadata'' else []\<rparr>, [])"
proof -
  let ?sha = "sha256FromFragment fragment"
  have t0: "t\<lparr>Fragment := []\<rparr> = t" using t(2) by (cases t) simp
  have q: "url_Query (r\<lparr>Path := x\<rparr>) = sort_key fst (file_values t ?sha)" for x
    using file_values_query [of t ?sha] by (simp add: url_Query_def r)
  note get = file_values_get [OF q]
  have "url_String t \<noteq> []" using t(5) by (auto simp: url_String_def Let_def)
  note acc = this t(1,3,4,5,6) t(2)
  have sha: "ToLower (TrimSpace ?sha) = ?sha"
    using sha256FromFragment_valid [of fragment ?sha] by (cases "?sha = []") (simp_all add: TrimSpace_def Trim_id ToLower_def)
  have hex: "?sha = [] \<or> length ?sha = 64 \<and> hex_DecodeString ?sha \<noteq> None"
    using sha256FromFragment_valid [of fragment ?sha] hex_Decode_iff [of ?sha] by auto
  have b1: "path_Base (dir @ ''/'' @ file_name t) = file_name t"
    by (rule path_Base_append) (rule file_name_plain)+
  have b2: "path_Base (dir @ ''/'' @ file_name t @ ''.metadata'') = file_name t @ ''.metadata''"
    by (rule path_Base_append) (use file_name_plain in auto)
  have run: "fileTargetURL p (r\<lparr>Path := x\<rparr>) =
      (if HasSuffix (path_Base x) ''.metadata''
       then Inr (t\<lparr>Path := Path t @ ''.metadata'', RawPath := if RawPath t \<noteq> [] then RawPath t @ ''.metadata'' else []\<rparr>, [])
       else Inr (t, ?sha))" for x
    using acc hex t(7) by (auto simp: fileTargetURL_def get t0 Let_def sha)
  have "fileTargetURL p (r\<lparr>Path := dir @ ''/'' @ file_name t\<rparr>) = Inr (t, ?sha)"
    using t(7) file_name_metadata [of t] unfolding run b1 by simp
  moreover have "fileTargetURL p (r\<lparr>Path := dir @ ''/'' @ file_name t @ ''.metadata''\<rparr>) =
      Inr (t\<lparr>Path := Path t @ ''.metadata'', RawPath := if RawPath t \<noteq> [] then RawPath t @ ''.metadata'' else []\<rparr>, [])"
    unfolding run b2 HasSuffix_append by simp
  moreover have "proxyFileURL p t fragment = py_proxyFileBaseURL p @ ''/'' @ PathEscape (file_name t) @ ''?'' @ RawQuery r
      @ (if fragment \<noteq> [] then ''#'' @ fragment else [])"
    by (simp add: proxyFileURL_def r)
  ultimately show ?thesis using PathUnescape_Escape by blast
qed

text \<open>An index whose files live on another host.\<close>

definition sample_pypi :: pypi_proxy where
  "sample_pypi = \<lparr>py_name = ''pypi'', py_path = ''/pypi/simple/'', py_filePath = ''/pypi/files/'',
     py_uploadPath = ''/pypi/legacy/'', py_packagePath = ''/pypi/packages/'',
     py_upstream = empty_url\<lparr>Scheme := ''https'', Host := ''p.io'', Path := ''/simple/''\<rparr>,
     py_proxySimpleBaseURL = ''http://n/pypi/simple'', py_proxyFileBaseURL = ''http://n/pypi/files'',
     py_proxyPackageBaseURL = ''http://n/pypi/packages'', py_ttl = 10, py_forwardAuthorization = True,
     py_publishToken = ''t'', py_allowedFileOrigins = [''https://p.io:443'', ''https://f.io:443''],
     py_localPath = [''private'']\<rparr>"

definition sample_wheel :: url where
  "sample_wheel = empty_url\<lparr>Scheme := ''https'', Host := ''f.io'', Path := ''/a/b.whl''\<rparr>"

lemma sample_wheel_ok:
  "url_Parse (url_String sample_wheel) = Some sample_wheel" "fileOriginAllowed sample_pypi sample_wheel"
  "file_name sample_wheel = ''b.whl''" "Values_Encode (file_values sample_wheel []) = ''url=https%3A%2F%2Ff.io%2Fa%2Fb.whl''"
  "sha256FromFragment [] = []" "\<not> HasSuffix (path_Base (Path sample_wheel)) ''.metadata''"
  by code_simp+

theorem file_link_roundtrip_witness:
  "fileTargetURL sample_pypi (empty_url\<lparr>Path := ''/pypi/files/b.whl'', RawQuery := ''url=https%3A%2F%2Ff.io%2Fa%2Fb.whl''\<rparr>) =
     Inr (sample_wheel, [])"
  using file_link_roundtrip [where t = sample_wheel and p = sample_pypi and fragment = "[]" and dir = "''/pypi/files''" and
      r = "empty_url\<lparr>RawQuery := ''url=https%3A%2F%2Ff.io%2Fa%2Fb.whl''\<rparr>"] sample_wheel_ok
  by (simp add: sample_wheel_def empty_url_def)

theorem fileTargetURL_safe_witness:
  "\<exists>target sha. fileTargetURL sample_pypi
      (empty_url\<lparr>Path := ''/pypi/files/b.whl'', RawQuery := ''url=https%3A%2F%2Ff.io%2Fa%2Fb.whl''\<rparr>) = Inr (target, sha) \<and>
    originKey target \<in> {''https://p.io:443'', ''https://f.io:443''}"
proof -
  have run: "fileTargetURL sample_pypi
      (empty_url\<lparr>Path := ''/pypi/files/b.whl'', RawQuery := ''url=https%3A%2F%2Ff.io%2Fa%2Fb.whl''\<rparr>) = Inr (sample_wheel, [])"
    by code_simp
  then show ?thesis using fileTargetURL_safe [OF run] by (simp add: sample_pypi_def)
qed

end
