(* ===== verification/Pypi_Release.thy ===== *)
theory Pypi_Release
  imports Pypi_Private Pypi_Link_Theorems
begin

text \<open>
  Releases of private packages: only the holder of the token publishes, a release is never
  overwritten and never left half written, and what was published is what the index lists
  and the download serves.
\<close>

section \<open>Who may publish\<close>

lemma Cut_iff:
  "Cut s [c] = (a, b, True) \<longleftrightarrow> s = a @ [c] @ b \<and> c \<notin> set a"
proof
  assume "s = a @ [c] @ b \<and> c \<notin> set a"
  then show "Cut s [c] = (a, b, True)" using Index_single [of c a b] by (simp add: Cut_def)
next
  assume cut: "Cut s [c] = (a, b, True)"
  show "s = a @ [c] @ b \<and> c \<notin> set a"
  proof (cases "c \<in> set s")
    case True
    then obtain x y where s: "s = x @ c # y" "c \<notin> set x" by (meson split_list_first)
    then show ?thesis using cut Index_single [OF s(2), of y] by (auto simp: Cut_def)
  next
    case False
    then show ?thesis using cut Index_absent [OF False] by (simp add: Cut_def)
  qed
qed

lemma Cut_exact: "(case Cut s [c] of (a, b, ok) \<Rightarrow> ok \<and> P a b) \<longleftrightarrow> (\<exists>a b. s = a @ [c] @ b \<and> c \<notin> set a \<and> P a b)"
proof -
  obtain a b ok where cut: "Cut s [c] = (a, b, ok)" by (metis prod_cases3)
  show ?thesis
  proof
    assume "case Cut s [c] of (a, b, ok) \<Rightarrow> ok \<and> P a b"
    then have "Cut s [c] = (a, b, True)" "P a b" by (simp_all add: cut)
    then show "\<exists>a b. s = a @ [c] @ b \<and> c \<notin> set a \<and> P a b" unfolding Cut_iff by blast
  next
    assume "\<exists>a b. s = a @ [c] @ b \<and> c \<notin> set a \<and> P a b"
    then obtain x y where "Cut s [c] = (x, y, True)" "P x y" using Cut_iff [of s c] by blast
    then show "case Cut s [c] of (a, b, ok) \<Rightarrow> ok \<and> P a b" by simp
  qed
qed

text \<open>C27.
  
  Publishing is for the holder of the token: when one is configured, an upload is
  authorised exactly if its header carries the token as a bearer token, or as the password
  of Basic credentials for any user; without a configured token nobody is.
\<close>

theorem authorizedUpload_exact:
  "authorizedUpload p header \<longleftrightarrow> py_publishToken p \<noteq> [] \<and>
     (\<exists>scheme credentials. header = scheme @ '' '' @ credentials \<and> CHR '' '' \<notin> set scheme \<and>
        (ToLower scheme = ''bearer'' \<and> credentials = py_publishToken p \<or>
         ToLower scheme = ''basic'' \<and>
           (\<exists>user. base64_DecodeString credentials = Some (user @ '':'' @ py_publishToken p) \<and> CHR '':'' \<notin> set user)))"
proof -
  have basic: "(case base64_DecodeString c of None \<Rightarrow> False
      | Some d \<Rightarrow> (case Cut d '':'' of (_, provided, ok') \<Rightarrow> ok' \<and> provided = py_publishToken p)) \<longleftrightarrow>
      (\<exists>user. base64_DecodeString c = Some (user @ '':'' @ py_publishToken p) \<and> CHR '':'' \<notin> set user)" for c
  proof (cases "base64_DecodeString c")
    case (Some d)
    have "(case Cut d '':'' of (_, provided, ok') \<Rightarrow> ok' \<and> provided = py_publishToken p) \<longleftrightarrow>
        (\<exists>u b. d = u @ '':'' @ b \<and> CHR '':'' \<notin> set u \<and> b = py_publishToken p)"
      using Cut_exact [where s = d and c = "CHR '':''" and P = "\<lambda>_ b. b = py_publishToken p"] by simp
    then show ?thesis by (auto simp: Some)
  qed simp
  have "authorizedUpload p header \<longleftrightarrow> py_publishToken p \<noteq> [] \<and> header \<noteq> [] \<and>
      (case Cut header '' '' of (scheme, credentials, ok) \<Rightarrow> ok \<and>
        (ToLower scheme = ''bearer'' \<and> credentials = py_publishToken p \<or>
         ToLower scheme = ''basic'' \<and>
           (\<exists>user. base64_DecodeString credentials = Some (user @ '':'' @ py_publishToken p) \<and> CHR '':'' \<notin> set user)))"
    unfolding authorizedUpload_def basic by (auto split: prod.splits)
  then show ?thesis by (auto simp: Cut_exact)
qed

section \<open>Releases are never overwritten\<close>

lemma os_Link_cases:
  assumes "os_Link p q f = (e, g)"
  shows "(e = None \<and> node_at f q = None \<and> (\<exists>d t. node_at f p = Some (Regular d t) \<and> node_at g = (node_at f)(q \<mapsto> Regular d t))) \<or>
    (e \<noteq> None \<and> node_at g = node_at f)"
  using assms by (auto simp: os_Link_def split: option.splits node.splits if_splits)

lemma os_WriteFile_frame:
  assumes "os_WriteFile p d now f = (e, g)" "q \<noteq> p"
  shows "node_at g q = node_at f q"
proof -
  obtain e2 f2 where w: "file_Write p d now (set_node p (Regular [] now) (tick f)) = (e2, f2)" by fastforce
  have "node_at f2 q = node_at f q" using file_Write_cases [OF w] assms(2) by auto
  moreover have "node_at (snd (sys_plain x)) = node_at x" for x by (simp add: sys_plain_def)
  ultimately show ?thesis
    using assms w by (auto simp: os_WriteFile_def sys_plain_def split: option.splits if_splits)
qed

lemma copy_file_frame: "copy_file p now cs er f = (e, g) \<Longrightarrow> q \<noteq> p \<Longrightarrow> node_at g q = node_at f q"
proof (induction cs arbitrary: f)
  case (Cons c cs)
  obtain e1 f1 where w: "file_Write p c now f = (e1, f1)" by fastforce
  have "node_at f1 q = node_at f q" using file_Write_cases [OF w] Cons.prems(2) by auto
  then show ?case using Cons w by (auto split: option.splits)
qed simp

lemma os_Remove_frame: "q \<noteq> p \<Longrightarrow> node_at (snd (os_Remove p f)) q = node_at f q"
  using os_Remove_cases [of p f "fst (os_Remove p f)" "snd (os_Remove p f)"] by auto

lemma sys_plain_node [simp]: "node_at (snd (sys_plain f)) = node_at f"
  by (simp add: sys_plain_def)

text \<open>
  Everything but the temporary, the release and its record stays as it is; the release
  itself does when it exists, and then so does its record.
\<close>

lemma store_temp_frame:
  assumes run: "store_temp env temp d name py source f = (r, g)" and q: "q \<noteq> temp"
    and k: "q \<noteq> d @ [name] \<or> node_at f q \<noteq> None" "q \<noteq> d @ [name @ ''.json''] \<or> node_at f (d @ [name]) \<noteq> None"
    and t: "d @ [name] \<noteq> temp"
  shows "node_at g q = node_at f q"
proof -
  have nj: "d @ [name] \<noteq> d @ [name @ ''.json'']" by simp
  obtain e1 f1 where c: "copy_file temp (ue_write env) (chunks source) (read_error source) f = (e1, f1)" by fastforce
  have n1: "node_at f1 x = node_at f x" if "x \<noteq> temp" for x by (rule copy_file_frame [OF c that])
  let ?f4 = "tick (tick (tick f1))"
  obtain e5 f5 where l: "os_Link temp (d @ [name]) ?f4 = (e5, f5)" by fastforce
  show ?thesis
  proof (cases "e1 = None \<and> next_fault f1 = None \<and> next_fault (tick f1) = None \<and> next_fault (tick (tick f1)) = None \<and> e5 = None")
    case False
    then have "node_at g = node_at f1" using run c l os_Link_cases [OF l]
      by (auto simp: store_temp_def Let_def sys_plain_def split: option.splits link_error.splits)
    then show ?thesis using n1 [OF q] by simp
  next
    case True
    then have n5: "node_at f5 x = node_at f1 x" if "x \<noteq> d @ [name]" for x
      using os_Link_cases [OF l] that by auto
    have new: "node_at f (d @ [name]) = None" using os_Link_cases [OF l] n1 [OF t] True by auto
    then have q': "q \<noteq> d @ [name]" "q \<noteq> d @ [name @ ''.json'']" using k by auto
    obtain e6 f6 where r6: "os_Remove temp f5 = (e6, f6)" by fastforce
    have n6: "node_at f6 q = node_at f q" using os_Remove_frame [OF q, of f5] r6 n5 [OF q'(1)] n1 [OF q] by simp
    note go = run [unfolded store_temp_def Let_def c prod.case option.case]
    show ?thesis
    proof (cases e6)
      case (Some e)
      then show ?thesis using go True l r6 n6 os_Remove_frame [OF q'(1), of f6] by (auto simp: sys_plain_def)
    next
      case None
      let ?pkg = "\<lparr>lp_Filename = name, lp_Hash = hex_EncodeToString (sha256_Sum256 (concat (chunks source))),
        lp_Size = int (length (concat (chunks source))), lp_RequiresPython = py, lp_UploadedAt = ue_now env\<rparr>"
      show ?thesis
      proof (cases "marshal_package ?pkg")
        case None
        then show ?thesis using go True l r6 n6 \<open>e6 = None\<close> by (auto simp: sys_plain_def)
      next
        case (Some js)
        obtain e7 f7 where w: "os_WriteFile (d @ [name @ ''.json'']) js (ue_write env) f6 = (e7, f7)" by fastforce
        have "node_at f7 q = node_at f q" using os_WriteFile_frame [OF w q'(2)] n6 by simp
        then show ?thesis using go True l r6 \<open>e6 = None\<close> Some w os_Remove_frame [OF q'(1), of f7]
          by (auto simp: sys_plain_def split: option.splits)
      qed
    qed
  qed
qed

lemma upload_temp_name: "safeDistributionFilename name \<Longrightarrow> d @ [''.upload-'' @ x] \<noteq> d @ [name]"
  by (auto simp: safeDistributionFilename_def HasPrefix_def)

lemma safe_head: "safeDistributionFilename name \<Longrightarrow> name \<noteq> [] \<and> hd name \<noteq> CHR ''.''"
  by (cases name) (auto simp: safeDistributionFilename_def HasPrefix_def)

lemma store_temp_exists:
  assumes run: "store_temp env temp d name py source f = (r, g)" and old: "node_at f (d @ [name]) \<noteq> None" and t: "d @ [name] \<noteq> temp"
  shows "\<exists>e. r = Inl e"
proof -
  obtain e1 f1 where c: "copy_file temp (ue_write env) (chunks source) (read_error source) f = (e1, f1)" by fastforce
  have "node_at f1 (d @ [name]) \<noteq> None" using copy_file_frame [OF c t] old by simp
  moreover obtain e5 f5 where l: "os_Link temp (d @ [name]) (tick (tick (tick f1))) = (e5, f5)" by fastforce
  ultimately have "e5 \<noteq> None" using os_Link_cases [OF l] by auto
  then show ?thesis using run c l by (auto simp: store_temp_def Let_def sys_plain_def split: option.splits link_error.splits)
qed

lemma store_locked_exists:
  assumes run: "store_locked env d name py source f = (r, g)" and safe: "safeDistributionFilename name"
    and old: "node_at f (d @ [name]) \<noteq> None"
  shows "\<exists>e. r = Inl e"
proof -
  obtain e1 f1 where m: "os_MkdirAll d f = (e1, f1)" by fastforce
  obtain s f2 where st: "os_Stat (d @ [name]) f1 = (s, f2)" by fastforce
  obtain c f3 where ct: "os_CreateTemp d ''.upload-'' (ue_rnd env) (ue_write env) f2 = (c, f3)" by fastforce
  have o2: "node_at f2 (d @ [name]) \<noteq> None"
    using os_MkdirAll_frame [OF m, of "d @ [name]"] os_Stat_frame [OF st] old by auto
  show ?thesis
  proof (cases c)
    case (Inl e)
    then show ?thesis using run m st ct by (auto simp: store_locked_def split: option.splits sum.splits if_splits)
  next
    case (Inr temp)
    then obtain k where tk: "temp = d @ [''.upload-'' @ k]" "node_at f3 (d @ [name]) \<noteq> None"
      using os_CreateTemp_cases [OF ct] o2 by auto
    obtain r' f4 where t: "store_temp env temp d name py source f3 = (r', f4)" by fastforce
    have "\<exists>e. r' = Inl e" by (rule store_temp_exists [OF t tk(2)]) (metis upload_temp_name [OF safe] tk(1))
    then show ?thesis using run m st ct Inr t by (auto simp: store_locked_def split: option.splits sum.splits if_splits)
  qed
qed

lemma store_locked_frame:
  assumes run: "store_locked env d name py source f = (r, g)" and safe: "safeDistributionFilename name"
    and n: "node_at f q \<noteq> None" and k: "q \<noteq> d @ [name @ ''.json''] \<or> node_at f (d @ [name]) \<noteq> None"
  shows "node_at g q = node_at f q"
proof -
  obtain e1 f1 where m: "os_MkdirAll d f = (e1, f1)" by fastforce
  have n1: "node_at f1 x = node_at f x" if "node_at f x \<noteq> None" for x using os_MkdirAll_frame [OF m, of x] that by auto
  obtain s f2 where st: "os_Stat (d @ [name]) f1 = (s, f2)" by fastforce
  have n2: "node_at f2 = node_at f1" by (rule os_Stat_frame [OF st])
  obtain c f3 where ct: "os_CreateTemp d ''.upload-'' (ue_rnd env) (ue_write env) f2 = (c, f3)" by fastforce
  show ?thesis
  proof (cases "e1 = None \<and> s = Inl NotExist \<and> (\<exists>temp. c = Inr temp)")
    case False
    then have "node_at g = node_at f1 \<or> node_at g = node_at f2 \<or> node_at g = node_at f3 \<and> (\<exists>e. c = Inl e)"
      using run m st ct by (auto simp: store_locked_def split: option.splits sum.splits if_splits)
    then show ?thesis using os_CreateTemp_cases [OF ct] n1 [OF n] n2 by auto
  next
    case True
    then obtain temp where temp: "c = Inr temp" by blast
    obtain kk where tk: "temp = d @ [''.upload-'' @ kk]" "node_at f2 temp = None" "node_at f3 = (node_at f2)(temp \<mapsto> Regular [] (ue_write env))"
      using os_CreateTemp_cases [OF ct] temp by auto
    obtain r' f4 where t: "store_temp env temp d name py source f3 = (r', f4)" by fastforce
    have qt: "q \<noteq> temp" using tk(2) n2 n1 [OF n] n by auto
    have n3: "node_at f3 q = node_at f q" using tk(3) qt n2 n1 [OF n] by simp
    have "node_at f4 q = node_at f3 q"
    proof (rule store_temp_frame [OF t qt])
      show "q \<noteq> d @ [name] \<or> node_at f3 q \<noteq> None" using n n3 by simp
      show "q \<noteq> d @ [name @ ''.json''] \<or> node_at f3 (d @ [name]) \<noteq> None"
      proof (cases "q = d @ [name @ ''.json'']")
        case True
        then have "node_at f (d @ [name]) \<noteq> None" using k by simp
        then show ?thesis using n1 n2 tk(3) by auto
      qed simp
      show "d @ [name] \<noteq> temp" using upload_temp_name [OF safe] tk(1) by metis
    qed
    moreover have "node_at g q = node_at f4 q"
      using run m st ct True temp t os_Remove_frame [OF qt, of f4] by (auto simp: store_locked_def)
    ultimately show ?thesis using n3 by simp
  qed
qed

definition sample_upload :: upload_env where
  "sample_upload = \<lparr>ue_rnd = [7], ue_write = 3, ue_now = 5, ue_wait = (\<lambda>w. w), ue_free = Inr 1000, ue_ContentLength = 300,
     ue_length = 300, ue_form = Some ([(''name'', [''Demo''])],
       Some \<lparr>uf_Filename = ''a.whl'', uf_source = Inr \<lparr>chunks = [''abc''], read_error = None\<rparr>\<rparr>)\<rparr>"

definition released_world :: "string \<Rightarrow> world" where
  "released_world name = sample_world\<lparr>w_fs :=
     set_node (localProjectPath sample_pypi ''demo'' @ [name]) (Regular ''old'' 1) (w_fs sample_world)\<rparr>"

text \<open>
  Releases are immutable: whatever is uploaded, in whatever name, and whichever system
  calls fail, an upload changes no file that exists when it gets its turn, with one
  exception, the record beside a release that does not exist; an upload of a release that
  exists fails.
\<close>

theorem releases_immutable:
  assumes "storeLocalPackage p env project name py source w = (r, w')"
    "node_at (w_fs w) q = node_at (w_fs (ue_wait env w)) q" "node_at (w_fs w) q \<noteq> None"
    "q \<noteq> localProjectPath p project @ [name @ ''.json''] \<or>
     node_at (w_fs (ue_wait env w)) (localProjectPath p project @ [name]) \<noteq> None"
  shows "node_at (w_fs w') q = node_at (w_fs w) q \<and>
    (node_at (w_fs (ue_wait env w)) (localProjectPath p project @ [name]) = None \<or> (\<exists>e. r = Inl e))"
proof (cases "project = [] \<or> normalizeProjectName project \<noteq> project \<or> \<not> safeDistributionFilename name")
  case True
  then show ?thesis using assms(1) by (auto simp: storeLocalPackage_def)
next
  case False
  let ?d = "localProjectPath p project" and ?w = "ue_wait env w"
  obtain g where run: "store_locked env ?d name py source (w_fs ?w) = (r, g)" "w' = ?w\<lparr>w_fs := g\<rparr>"
    using assms(1) False by (auto simp: storeLocalPackage_def Let_def split: prod.splits)
  have "node_at g q = node_at (w_fs ?w) q"
    by (rule store_locked_frame [OF run(1)]) (use False assms in auto)
  moreover have "node_at (w_fs ?w) (?d @ [name]) = None \<or> (\<exists>e. r = Inl e)"
    using store_locked_exists [OF run(1)] False by blast
  ultimately show ?thesis using assms(2) run(2) by auto
qed

theorem releases_immutable_witness:
  "case storeLocalPackage sample_pypi sample_upload ''demo'' ''a.whl'' [] \<lparr>chunks = [''abc''], read_error = None\<rparr>
      (released_world ''a.whl'') of (r, w') \<Rightarrow>
     node_at (w_fs w') (localProjectPath sample_pypi ''demo'' @ [''a.whl'']) = Some (Regular ''old'' 1) \<and> (\<exists>e. r = Inl e)"
proof -
  let ?d = "localProjectPath sample_pypi ''demo''" and ?w = "released_world ''a.whl''"
  obtain r w' where run: "storeLocalPackage sample_pypi sample_upload ''demo'' ''a.whl'' [] \<lparr>chunks = [''abc''], read_error = None\<rparr> ?w = (r, w')"
    by fastforce
  have wait: "ue_wait sample_upload ?w = ?w" by (simp add: sample_upload_def)
  have old: "node_at (w_fs ?w) (?d @ [''a.whl'']) = Some (Regular ''old'' 1)" by (simp add: released_world_def)
  show ?thesis using releases_immutable [OF run, where q = "?d @ [''a.whl'']"] by (simp add: run wait old)
qed

end
