(* ===== verification/Pypi_Publish.thy ===== *)
theory Pypi_Publish
  imports Pypi_Release
begin

text \<open>
  From upload to download: with a file system that does not fail, publishing a new release
  succeeds, adds exactly that release to the index of its project, and the download under
  the link of the index serves the bytes that were uploaded.
\<close>

section \<open>The record of a release reads back\<close>

lemma package_names:
  "to_utf8 ''filename'' = ''filename''" "to_utf8 ''sha256'' = ''sha256''" "to_utf8 ''size'' = ''size''"
  "to_utf8 ''requires_python'' = ''requires_python''" "to_utf8 ''uploaded_at'' = ''uploaded_at''"
  by (rule to_utf8_valid, rule valid_utf8_ascii, simp add: byte_def)+

definition plain_package :: "localPackage \<Rightarrow> bool" where
  "plain_package k \<longleftrightarrow> is_i64 (lp_Size k) \<and> valid_utf8 (lp_Filename k) \<and> valid_utf8 (lp_Hash k) \<and>
     valid_utf8 (lp_RequiresPython k)"

lemma unmarshal_marshal_package:
  assumes "marshal_package k = Some s" "plain_package k"
  shows "unmarshal_package s = Some k"
proof -
  obtain stored where st: "time_Format (lp_UploadedAt k) = Some stored" and s: "s = json_print (package_json stored k)"
    using assms(1) by (auto simp: marshal_package_def)
  have "valid_json (package_json stored k)" by (auto simp: package_json_def FormatInt_number)
  then have p: "json_parse s = Some (utf8_json (package_json stored k))" unfolding s by (rule json_parse_print)
  have n: "ParseInt (FormatInt (lp_Size k)) = Some (lp_Size k)"
    using assms(2) by (simp add: ParseInt_FormatInt plain_package_def)
  have u: "to_utf8 stored = stored" "to_utf8 (lp_Filename k) = lp_Filename k" "to_utf8 (lp_Hash k) = lp_Hash k"
    "to_utf8 (lp_RequiresPython k) = lp_RequiresPython k"
    using valid_utf8_ascii [OF time_Format_ascii [OF st]] assms(2) by (simp_all add: to_utf8_valid plain_package_def)
  have fold: "EqualFold ''sha256'' ''filename'' = False" "EqualFold ''size'' ''filename'' = False"
    "EqualFold ''size'' ''sha256'' = False" "EqualFold ''requires_python'' ''filename'' = False"
    "EqualFold ''requires_python'' ''sha256'' = False" "EqualFold ''requires_python'' ''size'' = False"
    "EqualFold ''uploaded_at'' ''filename'' = False" "EqualFold ''uploaded_at'' ''sha256'' = False"
    "EqualFold ''uploaded_at'' ''size'' = False" "EqualFold ''uploaded_at'' ''requires_python'' = False"
    by code_simp+
  note dj = p [unfolded package_json_def]
  show ?thesis
    using dj time_Parse_Format [OF st] n u fold
    by (cases k) (simp add: unmarshal_package_def package_field_def zero_package_def package_names)
qed

section \<open>A successful upload\<close>

definition release_of :: "upload_env \<Rightarrow> string \<Rightarrow> string \<Rightarrow> string \<Rightarrow> localPackage" where
  "release_of env name py data =
     \<lparr>lp_Filename = name, lp_Hash = hex_EncodeToString (sha256_Sum256 data), lp_Size = int (length data),
      lp_RequiresPython = py, lp_UploadedAt = ue_now env\<rparr>"

text \<open>
  A place where a release can go: no file on the way to the directory, a free temporary
  name, nothing under the names of the release, and a directory without entries when it
  does not exist.
\<close>

definition release_place :: "upload_env \<Rightarrow> path \<Rightarrow> string \<Rightarrow> fs \<Rightarrow> bool" where
  "release_place env d name f \<longleftrightarrow> faults f = [] \<and>
     list_all (\<lambda>q. file_at f q = None) (prefixes d) \<and>
     list_ex (\<lambda>k. node_at f (d @ [''.upload-'' @ dec_digits k]) = None) (ue_rnd env) \<and>
     node_at f (d @ [name]) = None \<and> node_at f (d @ [name @ ''.json'']) = None \<and>
     (node_at f d = Some Directory \<or> walk_list d f = [])"

lemma copy_file_ok:
  "faults f = [] \<Longrightarrow> node_at f p = Some (Regular c t) \<Longrightarrow>
   \<exists>g u. copy_file p now cs None f = (None, g) \<and> faults g = [] \<and> node_at g = (node_at f)(p \<mapsto> Regular (c @ concat cs) u)"
proof (induction cs arbitrary: f c t)
  case Nil
  then have "node_at f = (node_at f)(p \<mapsto> Regular c t)" by (simp add: fun_upd_idem)
  moreover have "copy_file p now [] None f = (None, f)" by simp
  ultimately show ?case using Nil.prems(1) by (metis append_Nil2 concat.simps(1))
next
  case (Cons x cs)
  let ?f = "set_node p (Regular (c @ x) now) f"
  have w: "file_Write p x now f = (None, ?f)" using Cons.prems by (simp add: file_Write_def)
  have f: "faults ?f = []" "node_at ?f p = Some (Regular (c @ x) now)" using Cons.prems(1) by simp_all
  obtain g u where "copy_file p now cs None ?f = (None, g)" "faults g = []"
    "node_at g = (node_at ?f)(p \<mapsto> Regular ((c @ x) @ concat cs) u)"
    using Cons.IH [OF f] by blast
  then show ?case using w by (intro exI [of _ g] exI [of _ u]) simp
qed

lemma store_locked_ok:
  assumes P: "release_place env d name f" and S: "safeDistributionFilename name" "read_error source = None"
    and M: "marshal_package (release_of env name py (concat (chunks source))) = Some js"
  obtains g t u where "store_locked env d name py source f = (Inr (release_of env name py (concat (chunks source))), g)"
    "faults g = []" "node_at g d = Some Directory"
    "\<And>q. \<not> prefix q d \<Longrightarrow> node_at g q = ((node_at f)(d @ [name] \<mapsto> Regular (concat (chunks source)) t,
       d @ [name @ ''.json''] \<mapsto> Regular js u)) q"
proof -
  note goal = that
  let ?data = "concat (chunks source)" and ?t = "d @ [name]" and ?j = "d @ [name @ ''.json'']"
  have F: "faults f = []" using P by (simp add: release_place_def)
  obtain f1 where m: "os_MkdirAll d f = (None, f1)" "faults f1 = []" "node_at f1 d = Some Directory"
    "\<And>q. \<not> prefix q d \<Longrightarrow> node_at f1 q = node_at f q"
    using MkdirAll_ok [OF F, of d] P by (auto simp: release_place_def list_all_iff in_set_prefixes)
  have below: "\<not> prefix (d @ [x]) d" for x by (auto simp: prefix_def)
  have st: "os_Stat ?t f1 = (Inl NotExist, f1)" using m P below by (simp add: os_Stat_def release_place_def)
  have "\<exists>k \<in> set (ue_rnd env). node_at f1 (d @ [''.upload-'' @ dec_digits k]) = None"
    using P m(4) [OF below] by (auto simp: release_place_def list_ex_iff)
  then obtain temp where temp: "fresh_name d ''.upload-'' (ue_rnd env) f1 = Some temp" using fresh_name_ok by blast
  obtain k where tk: "temp = d @ [''.upload-'' @ dec_digits k]" "node_at f1 temp = None" using fresh_name_Some [OF temp] by blast
  have tt: "?t \<noteq> temp" "?j \<noteq> temp" "?j \<noteq> ?t" "d \<noteq> temp"
    using safe_head [OF S(1)] tk(1) by (cases name; simp)+
  let ?f3 = "set_node temp (Regular [] (ue_write env)) f1"
  have ct: "os_CreateTemp d ''.upload-'' (ue_rnd env) (ue_write env) f1 = (Inr temp, ?f3)"
    using m temp by (simp add: os_CreateTemp_def)
  obtain f4 u where c: "copy_file temp (ue_write env) (chunks source) None ?f3 = (None, f4)" "faults f4 = []"
    "node_at f4 = (node_at ?f3)(temp \<mapsto> Regular ?data u)"
    using copy_file_ok [of ?f3 temp "[]" "ue_write env" "ue_write env" "chunks source"] m(2) by auto
  have n4: "node_at f4 ?t = None" using c(3) tt m(4) [OF below] P by (simp add: release_place_def)
  let ?f5 = "set_node ?t (Regular ?data u) f4"
  have l: "os_Link temp ?t f4 = (None, ?f5)" using c n4 by (simp add: os_Link_def)
  let ?f6 = "del_node temp ?f5"
  have r: "os_Remove temp ?f5 = (None, ?f6)" using c tt by (simp add: os_Remove_def)
  have n6: "node_at ?f6 q = ((node_at f1)(?t \<mapsto> Regular ?data u)) q" for q using c(3) tt tk(2) by auto
  let ?f7 = "set_node ?j (Regular js (ue_write env)) (set_node ?j (Regular [] (ue_write env)) ?f6)"
  have "node_at ?f6 ?j = None" "node_at ?f6 (butlast ?j) = Some Directory"
    using n6 [of ?j] n6 [of d] tt m(3) m(4) [OF below] P by (auto simp: release_place_def simp del: node_at_set node_at_del)
  then have w: "os_WriteFile ?j js (ue_write env) ?f6 = (None, ?f7)" using c by (simp add: os_WriteFile_def file_Write_def sys_plain_def)
  have M': "marshal_package \<lparr>lp_Filename = name, lp_Hash = hex_EncodeToString (sha256_Sum256 ?data), lp_Size = int (length ?data),
      lp_RequiresPython = py, lp_UploadedAt = ue_now env\<rparr> = Some js" using M by (simp add: release_of_def)
  have "store_temp env temp d name py source ?f3 = (Inr (release_of env name py ?data), ?f7)"
    using c(1,2) S(2) l r w M' by (simp add: store_temp_def Let_def sys_plain_def release_of_def)
  moreover have "os_Remove temp ?f7 = (Some NotExist, ?f7)" using c(2) tt by (simp add: os_Remove_def)
  ultimately have run: "store_locked env d name py source f = (Inr (release_of env name py ?data), ?f7)"
    using m(1) st ct by (simp add: store_locked_def)
  show thesis
  proof (rule goal [OF run])
    show "faults ?f7 = []" using c(2) by simp
    show "node_at ?f7 d = Some Directory" using n6 [of d] m(3) by (simp del: node_at_del)
    show "\<not> prefix q d \<Longrightarrow> node_at ?f7 q = ((node_at f)(?t \<mapsto> Regular ?data u, ?j \<mapsto> Regular js (ue_write env))) q" for q
      using n6 [of q] m(4) [of q] by (simp del: node_at_del)
  qed
qed

section \<open>The index\<close>

definition listed :: "string \<times> node \<Rightarrow> bool" where
  "listed e \<longleftrightarrow> snd e \<noteq> Directory \<and> \<not> HasSuffix (fst e) ''.json'' \<and> safeDistributionFilename (fst e)"

lemma package_of_quiet: "faults f = [] \<Longrightarrow> package_of d n f = (fst (package_of d n f), f)"
  by (simp add: package_of_def os_ReadFile_def os_Stat_def hash_file_def sys_plain_def
      split: option.split node.split sum.split)

lemma packages_loop_quiet:
  assumes "faults f = []"
  shows "packages_loop d es acc f = (Inr ks, g) \<longleftrightarrow>
    g = f \<and> (\<exists>xs. map (\<lambda>e. fst (package_of d (fst e) f)) (filter listed es) = map Inr xs \<and> ks = acc @ xs)"
proof (induction es arbitrary: acc)
  case (Cons e es)
  obtain n nd where e: "e = (n, nd)" by fastforce
  note q = package_of_quiet [OF assms, of d n]
  show ?case
  proof (cases "fst (package_of d n f)")
    case (Inl x)
    then have "package_of d n f = (Inl x, f)" using q by simp
    then show ?thesis using Cons by (auto simp: e listed_def)
  next
    case (Inr k)
    then have "package_of d n f = (Inr k, f)" using q by simp
    then show ?thesis using Cons by (auto simp: e listed_def Cons_eq_map_conv)
  qed
qed auto

text \<open>The releases of a directory: the names that the index lists, and what it says of each.\<close>

definition release_names :: "path \<Rightarrow> fs \<Rightarrow> string set" where
  "release_names d f = {n. \<exists>x. node_at f (d @ [n]) = Some x \<and> x \<noteq> Directory \<and> \<not> HasSuffix n ''.json'' \<and> safeDistributionFilename n}"

lemma dir_entries:
  assumes "faults f = []" "node_at f d = Some Directory" "os_ReadDir d f = (Inr es, g)"
  shows "g = f" "fst ` set (filter listed es) = release_names d f"
proof -
  have es: "es = map (\<lambda>q. (last q, the (node_at f q))) (filter (\<lambda>q. length q = Suc (length d)) (walk_list d f))" "g = f"
    using assms by (auto simp: os_ReadDir_def)
  have child: "prefix d q \<and> length q = Suc (length d) \<longleftrightarrow> (\<exists>n. q = d @ [n])" for q
    by (auto simp: prefix_def length_Suc_conv [of _ 0])
  show "g = f" by (rule es)
  have "(n, x) \<in> set es \<longleftrightarrow> (\<exists>q. (prefix d q \<and> length q = Suc (length d)) \<and> node_at f q \<noteq> None \<and> n = last q \<and> x = the (node_at f q))"
    for n x unfolding es(1) by (auto simp: set_walk_list)
  then have mem: "(n, x) \<in> set es \<longleftrightarrow> node_at f (d @ [n]) = Some x" for n x unfolding child by auto
  have "n \<in> fst ` set (filter listed es) \<longleftrightarrow> (\<exists>x. (n, x) \<in> set es \<and> listed (n, x))" for n by force
  then show "fst ` set (filter listed es) = release_names d f" unfolding mem by (auto simp: listed_def release_names_def)
qed

lemma localPackages_set:
  assumes "faults f = []" "node_at f (localProjectPath p project) = Some Directory"
  shows "localPackages p project f = (Inr ks, g) \<Longrightarrow>
      g = f \<and> Inr ` set ks = (\<lambda>n. fst (package_of (localProjectPath p project) n f)) ` release_names (localProjectPath p project) f"
    "(\<And>n. n \<in> release_names (localProjectPath p project) f \<Longrightarrow> \<exists>k. fst (package_of (localProjectPath p project) n f) = Inr k)
      \<Longrightarrow> \<exists>ks. localPackages p project f = (Inr ks, f)"
proof -
  let ?d = "localProjectPath p project"
  obtain es where rd: "os_ReadDir ?d f = (Inr es, f)" using assms by (simp add: os_ReadDir_def)
  note E = dir_entries(2) [OF assms rd]
  show "g = f \<and> Inr ` set ks = (\<lambda>n. fst (package_of ?d n f)) ` release_names ?d f"
    if lp: "localPackages p project f = (Inr ks, g)"
  proof -
    obtain xs where xs: "packages_loop ?d es [] f = (Inr xs, g)" "ks = sort_key lp_Filename xs"
      using lp rd by (auto simp: localPackages_def split: prod.splits sum.splits)
    have "g = f" and m: "map (\<lambda>e. fst (package_of ?d (fst e) f)) (filter listed es) = map Inr xs"
      using xs(1) packages_loop_quiet [OF assms(1), of ?d es "[]" xs g] by auto
    moreover have "Inr ` set ks = set (map (\<lambda>e. fst (package_of ?d (fst e) f)) (filter listed es))" unfolding m xs(2) by simp
    moreover have "set (map (\<lambda>e. fst (package_of ?d (fst e) f)) (filter listed es)) =
        (\<lambda>n. fst (package_of ?d n f)) ` fst ` set (filter listed es)" by (simp add: image_image)
    ultimately show ?thesis unfolding E by blast
  qed
  show "\<exists>ks. localPackages p project f = (Inr ks, f)"
    if "\<And>n. n \<in> release_names ?d f \<Longrightarrow> \<exists>k. fst (package_of ?d n f) = Inr k"
  proof -
    have "\<forall>e \<in> set (filter listed es). \<exists>k. fst (package_of ?d (fst e) f) = Inr k" using that E by blast
    then obtain h where "\<forall>e \<in> set (filter listed es). fst (package_of ?d (fst e) f) = Inr (h e)" by metis
    then have "map (\<lambda>e. fst (package_of ?d (fst e) f)) (filter listed es) = map Inr (map h (filter listed es))" by simp
    then have "packages_loop ?d es [] f = (Inr (map h (filter listed es)), f)"
      using packages_loop_quiet [OF assms(1), of ?d es "[]"] by auto
    then show ?thesis using rd by (simp add: localPackages_def)
  qed
qed

section \<open>Publish, list, download\<close>

lemma safe_not_json: "safeDistributionFilename n \<Longrightarrow> \<not> HasSuffix n ''.json''"
proof
  assume "safeDistributionFilename n" "HasSuffix n ''.json''"
  then have "last n \<in> {CHR ''l'', CHR ''z'', CHR ''p''}" "last n = CHR ''n''"
    by (auto simp: safeDistributionFilename_def HasSuffix_iff split: if_splits)
  then show False by auto
qed

lemma safe_no_slash: "safeDistributionFilename n \<Longrightarrow> CHR ''/'' \<notin> set n"
  by (auto simp: safeDistributionFilename_def)

lemma package_of_cong:
  "faults f = [] \<Longrightarrow> faults g = [] \<Longrightarrow> node_at g (d @ [n @ ''.json'']) = node_at f (d @ [n @ ''.json'']) \<Longrightarrow>
   node_at g (d @ [n]) = node_at f (d @ [n]) \<Longrightarrow> fst (package_of d n g) = fst (package_of d n f)"
  by (simp add: package_of_def os_ReadFile_def os_Stat_def hash_file_def sys_plain_def split: option.split node.split sum.split)

lemma PathUnescape_plain: "CHR ''%'' \<notin> set s \<Longrightarrow> PathUnescape s = Some s"
proof (induction s)
  case Nil
  show ?case by (simp add: PathUnescape_def unescape.simps)
next
  case (Cons c s)
  then show ?case using unescape_Cons_plain [of c encodePathSegment s] by (auto simp: PathUnescape_def)
qed

lemma normal_plain: "normalizeProjectName s = s \<Longrightarrow> CHR ''/'' \<notin> set s \<and> CHR ''%'' \<notin> set s"
proof -
  assume "normalizeProjectName s = s"
  then have "\<forall>c \<in> set s. name_char c \<or> c = CHR ''-''"
    using normalizeProjectName_normal [of s] normal_tail_set [of s] by (auto simp: normal_name_def)
  then show ?thesis by (auto simp: name_char_def is_lower_def is_digit_def byte_def)
qed

lemma local_file_named:
  assumes "normalizeProjectName project = project" "safeDistributionFilename name" "CHR ''%'' \<notin> set name"
  shows "local_file p (py_packagePath p @ project @ ''/'' @ name) = Some (project, name)"
proof -
  note n = normal_plain [OF assms(1)]
  have "Cut (project @ ''/'' @ name) ''/'' = (project, name, True)" using Cut_iff [of _ "CHR ''/''"] n by simp
  moreover have "\<not> Contains name ''/''" using Index_absent [OF safe_no_slash [OF assms(2)]] by (simp add: Contains_def)
  ultimately show ?thesis using assms n by (simp add: local_file_def PathUnescape_plain)
qed

text \<open>A name with a percent sign is decoded once more by the download handler, or refused.\<close>

lemma unescape_length: "unescape m s = Some t \<Longrightarrow> length t \<le> length s"
proof (induction m s arbitrary: t rule: unescape.induct)
  case (1 m s)
  show ?case
  proof (cases s)
    case (Cons c r)
    then show ?thesis using 1 unescape.simps [of m s]
      by (fastforce split: if_splits list.splits)
  qed (use 1 in \<open>simp add: unescape.simps\<close>)
qed

lemma PathUnescape_percent: "CHR ''%'' \<in> set s \<Longrightarrow> PathUnescape s \<noteq> Some s"
proof (induction s)
  case (Cons c s)
  show ?case
  proof (cases "c = CHR ''%''")
    case True
    show ?thesis
    proof
      assume "PathUnescape (c # s) = Some (c # s)"
      then obtain a b t u where "s = a # b # t" "unescape encodePathSegment t = Some u" "length u = Suc (Suc (length t))"
        using True by (auto simp: PathUnescape_def unescape.simps [of _ "CHR ''%'' # s"] split: list.splits if_splits)
      then show False using unescape_length [of encodePathSegment t u] by simp
    qed
  next
    case False
    with Cons show ?thesis using unescape_Cons_plain [of c encodePathSegment s] by (auto simp: PathUnescape_def)
  qed
qed simp

lemma local_file_percent:
  assumes "normalizeProjectName project = project" "safeDistributionFilename name" "CHR ''%'' \<in> set name"
  shows "local_file p (py_packagePath p @ project @ ''/'' @ name) \<noteq> Some (project, name)"
proof -
  note n = normal_plain [OF assms(1)]
  have "Cut (project @ ''/'' @ name) ''/'' = (project, name, True)" using Cut_iff [of _ "CHR ''/''"] n by simp
  then show ?thesis using PathUnescape_percent [OF assms(3)] by (auto simp: local_file_def split: option.splits)
qed

text \<open>What the releases of a project are after one has been added.\<close>

lemma added_release:
  assumes F: "faults f = []" "faults g = []" and S: "safeDistributionFilename name" "node_at f (d @ [name]) = None"
    and N: "\<And>q. \<not> prefix q d \<Longrightarrow> node_at g q = ((node_at f)(d @ [name] \<mapsto> Regular data t, d @ [name @ ''.json''] \<mapsto> Regular js u)) q"
    and J: "unmarshal_package js = Some k"
  shows "release_names d g = insert name (release_names d f)" "fst (package_of d name g) = Inr k"
    "n \<in> release_names d f \<Longrightarrow> fst (package_of d n g) = fst (package_of d n f)"
proof -
  have below: "\<not> prefix (d @ [x]) d" for x by (auto simp: prefix_def)
  note Nb = N [OF below]
  have suffix: "HasSuffix (name @ ''.json'') ''.json''" by (rule HasSuffix_append)
  show "release_names d g = insert name (release_names d f)"
    using safe_not_json [OF S(1)] suffix by (auto simp: release_names_def Nb S(1) S(2) split: if_splits)
  show "fst (package_of d name g) = Inr k"
    using F(2) J by (simp add: package_of_def os_ReadFile_def os_Stat_def Nb)
  assume n: "n \<in> release_names d f"
  then have m: "n \<noteq> name" "n \<noteq> name @ ''.json''" "n @ ''.json'' \<noteq> name"
    using S(2) suffix safe_not_json [OF S(1)] HasSuffix_append [of n "''.json''"] by (auto simp: release_names_def simp del: HasSuffix_append)
  then show "fst (package_of d n g) = fst (package_of d n f)"
    by (intro package_of_cong [OF F]) (simp_all add: Nb)
qed

text \<open>C8.
  
  What is published is what is served. Suppose no system call fails, there is a free place for
  the release (no file or record has its name), the name and \<^verbatim>\<open>requires_python\<close> are valid
  UTF-8, and the index of the project can be read. Then an upload of a release whose source
  ends without an error succeeds and reports the digest and the size of the bytes sent, and
  the index of the project lists what it listed before and the new release. A download under
  the release's name hands out exactly those bytes when the name has no percent sign; when
  it has one, the handler, which decodes the path a second time, takes the request for
  another name or for none.
\<close>

theorem published_release_served:
  assumes names: "project \<noteq> []" "normalizeProjectName project = project" "safeDistributionFilename name"
      "valid_utf8 name" "valid_utf8 py"
    and data: "read_error source = None" "is_i64 (int (length (concat (chunks source))))" "time_Format (ue_now env) \<noteq> None"
    and place: "release_place env (localProjectPath p project) name (w_fs (ue_wait env w))"
    and index: "fst (localPackages p project (w_fs (ue_wait env w))) = Inr ks"
  shows "case storeLocalPackage p env project name py source w of (r, w') \<Rightarrow>
    let k = release_of env name py (concat (chunks source)) in
    r = Inr k \<and>
    (\<exists>ks'. fst (localPackages p project (w_fs w')) = Inr ks' \<and> set ks' = insert k (set ks)) \<and>
    (if CHR ''%'' \<in> set name then local_file p (py_packagePath p @ project @ ''/'' @ name) \<noteq> Some (project, name)
     else \<exists>t. fst (serveLocalFile p sc \<lparr>pr_method = ''GET'', pr_url = empty_url\<lparr>Path := py_packagePath p @ project @ ''/'' @ name\<rparr>,
              pr_header = h, pr_canceled = False\<rparr> v \<lparr>ps_world = w', ps_stats = c\<rparr>) =
       sc ''GET'' h name t (concat (chunks source))
         (rp_Set ''X-N0ding-Cache'' ''LOCAL'' (rp_Set ''Content-Type'' ''application/octet-stream'' v)))"
proof -
  let ?d = "localProjectPath p project" and ?f = "w_fs (ue_wait env w)" and ?data = "concat (chunks source)"
  let ?k = "release_of env name py ?data"
  obtain js where js: "marshal_package ?k = Some js" using data(3) by (auto simp: marshal_package_def release_of_def)
  have "valid_utf8 (lp_Hash ?k)" using valid_utf8_ascii [OF hex_ascii [OF hex_Encode_hex]] by (simp add: release_of_def)
  then have J: "unmarshal_package js = Some ?k"
    using unmarshal_marshal_package [OF js] names data(2) by (simp add: plain_package_def release_of_def)
  obtain g t u where run: "store_locked env ?d name py source ?f = (Inr ?k, g)" "faults g = []" "node_at g ?d = Some Directory"
    and N: "\<And>q. \<not> prefix q ?d \<Longrightarrow> node_at g q = ((node_at ?f)(?d @ [name] \<mapsto> Regular ?data t, ?d @ [name @ ''.json''] \<mapsto> Regular js u)) q"
    by (rule store_locked_ok [OF place names(3) data(1) js]) (rule that)
  have P: "faults ?f = []" "node_at ?f (?d @ [name]) = None" "node_at ?f ?d = Some Directory \<or> walk_list ?d ?f = []"
    using place by (simp_all add: release_place_def)
  note A = added_release [OF P(1) run(2) names(3) P(2) N J]
  have old: "Inr ` set ks = (\<lambda>n. fst (package_of ?d n ?f)) ` release_names ?d ?f"
  proof (cases "node_at ?f ?d = Some Directory")
    case True
    obtain h where "localPackages p project ?f = (Inr ks, h)" using index by (metis prod.collapse)
    then show ?thesis using localPackages_set(1) [OF P(1) True] by blast
  next
    case False
    then have none: "node_at ?f q = None" if "prefix ?d q" for q using P(3) set_walk_list [of ?d ?f] that by auto
    have "ks = []" using index P(1) none [of ?d] by (simp add: localPackages_def os_ReadDir_def)
    moreover have "release_names ?d ?f = {}" using none by (auto simp: release_names_def)
    ultimately show ?thesis by simp
  qed
  have same: "(\<lambda>n. fst (package_of ?d n g)) ` release_names ?d ?f = Inr ` set ks"
    unfolding old by (rule image_cong [OF refl A(3)])
  have new: "(\<lambda>n. fst (package_of ?d n g)) ` release_names ?d g = Inr ` insert ?k (set ks)"
    by (simp add: A(1,2) same)
  have ok: "\<exists>x. fst (package_of ?d n g) = Inr x" if "n \<in> release_names ?d g" for n
    using new that by (metis (no_types, lifting) image_iff)
  obtain ks' where ks': "localPackages p project g = (Inr ks', g)"
    using localPackages_set(2) [OF run(2,3) ok] by blast
  have "(Inr :: _ \<Rightarrow> index_error + localPackage) ` set ks' = Inr ` insert ?k (set ks)"
    using localPackages_set(1) [OF run(2,3) ks'] new by simp
  then have listed: "set ks' = insert ?k (set ks)" using inj_image_eq_iff [OF inj_Inr] by blast
  have "\<not> prefix (?d @ [name]) ?d" by (auto simp: prefix_def)
  then have "os_Stat (?d @ [name]) g = (Inr (Regular ?data t), g)" using N run(2) by (simp add: os_Stat_def)
  then have "CHR ''%'' \<notin> set name \<Longrightarrow> fst (serveLocalFile p sc \<lparr>pr_method = ''GET'', pr_url = empty_url\<lparr>Path := py_packagePath p @ project @ ''/'' @ name\<rparr>,
        pr_header = h, pr_canceled = False\<rparr> v \<lparr>ps_world = (ue_wait env w)\<lparr>w_fs := g\<rparr>, ps_stats = c\<rparr>) =
      sc ''GET'' h name t ?data (rp_Set ''X-N0ding-Cache'' ''LOCAL'' (rp_Set ''Content-Type'' ''application/octet-stream'' v))"
    using local_file_named [OF names(2,3), of p] by (simp add: serveLocalFile_def Let_def)
  moreover have "storeLocalPackage p env project name py source w = (Inr ?k, (ue_wait env w)\<lparr>w_fs := g\<rparr>)"
    using names run(1) by (simp add: storeLocalPackage_def Let_def)
  ultimately show ?thesis using ks' listed local_file_percent [OF names(2,3), of p] by (auto simp: Let_def)
qed

lemma sample_upload_ok:
  "normalizeProjectName ''demo'' = ''demo''" "safeDistributionFilename ''a.whl''" "time_Format (ue_now sample_upload) \<noteq> None"
  "release_place sample_upload (localProjectPath sample_pypi ''demo'') ''a.whl'' (w_fs (ue_wait sample_upload sample_world))"
  "fst (localPackages sample_pypi ''demo'' (w_fs (ue_wait sample_upload sample_world))) = Inr []"
  "valid_utf8 ''a.whl''"
  by code_simp+

theorem published_release_served_witness:
  "case storeLocalPackage sample_pypi sample_upload ''demo'' ''a.whl'' [] \<lparr>chunks = [''abc''], read_error = None\<rparr> sample_world of (r, w') \<Rightarrow>
     r = Inr (release_of sample_upload ''a.whl'' [] ''abc'') \<and>
     (\<exists>ks'. fst (localPackages sample_pypi ''demo'' (w_fs w')) = Inr ks' \<and> set ks' = {release_of sample_upload ''a.whl'' [] ''abc''}) \<and>
     fst (serveLocalFile sample_pypi (\<lambda>_ _ _ _ body v. rp_Write body v)
         \<lparr>pr_method = ''GET'', pr_url = empty_url\<lparr>Path := ''/pypi/packages/demo/a.whl''\<rparr>, pr_header = [], pr_canceled = False\<rparr>
         open_reply \<lparr>ps_world = w', ps_stats = no_counts\<rparr>) =
       rp_Write ''abc'' (rp_Set ''X-N0ding-Cache'' ''LOCAL'' (rp_Set ''Content-Type'' ''application/octet-stream'' open_reply))"
proof -
  have "valid_utf8 []" by (simp add: valid_utf8_ascii)
  then show ?thesis
    using published_release_served [where p = sample_pypi and env = sample_upload and project = "''demo''" and name = "''a.whl''"
        and py = "[]" and source = "\<lparr>chunks = [''abc''], read_error = None\<rparr>" and w = sample_world and ks = "[]"
        and sc = "\<lambda>_ _ _ _ body v. rp_Write body v" and h = "[]" and v = open_reply and c = no_counts] sample_upload_ok
    by (auto simp: Let_def is_i64_def sample_pypi_def split: prod.splits)
qed

end
