(* ===== verification/Pypi_Private_Theorems.thy ===== *)
theory Pypi_Private_Theorems
  imports Pypi_Publish
begin

text \<open>
  Guards of the private packages: a download reads a release and nothing else, the size of
  the private packages is exact or an error, and an upload leaves the books of the shared
  storage controller balanced, whatever fails.
\<close>

section \<open>Downloads\<close>

lemma local_file_safe:
  "local_file p path = Some (project, name) \<Longrightarrow> normal_name project \<and> safeDistributionFilename name"
  using normalizeProjectName_normal [of project]
  by (auto simp: local_file_def split: prod.splits option.splits if_splits)

text \<open>C26.
  
  A download stays inside the directory of the private packages: the reply is an error that
  no file has a part in, and then nothing is counted, or it is made from one regular file,
  whose directory is that of a normalised project name and whose own name is that of a
  distribution, without separators and without a leading dot.
\<close>

theorem download_confined:
  "case serveLocalFile p sc req w st of (w', st') \<Rightarrow>
     ps_stats st' = ps_stats st \<and>
       w' \<in> {rp_NotFound w, rp_Error ''method not allowed'' 405 (rp_Set ''Allow'' ''GET, HEAD'' w)} \<or>
     (\<exists>project name d t. normal_name project \<and> safeDistributionFilename name \<and>
        node_at (w_fs (ps_world st)) (localProjectPath p project @ [name]) = Some (Regular d t) \<and>
        w' = sc (pr_method req) (pr_header req) name t d
          (rp_Set ''X-N0ding-Cache'' ''LOCAL'' (rp_Set ''Content-Type'' ''application/octet-stream'' w)) \<and>
        hits (ps_stats st') = bump (hits (ps_stats st)))"
proof -
  have bad: ?thesis if "pr_method req \<noteq> ''GET'' \<and> pr_method req \<noteq> ''HEAD'' \<or> local_file p (Path (pr_url req)) = None"
    using that by (auto simp: serveLocalFile_def)
  have good: ?thesis
    if m: "\<not> (pr_method req \<noteq> ''GET'' \<and> pr_method req \<noteq> ''HEAD'')" and lf: "local_file p (Path (pr_url req)) = Some (project, name)"
    for project name
  proof -
    let ?q = "localProjectPath p project @ [name]" and ?f = "w_fs (ps_world st)"
    obtain r1 f1 where s1: "os_Stat ?q ?f = (r1, f1)" by fastforce
    obtain r2 f2 where s2: "os_Stat ?q f1 = (r2, f2)" by fastforce
    show ?thesis
    proof (cases "\<exists>n d t. r1 = Inr n \<and> r2 = Inr (Regular d t)")
      case True
      then obtain n d t where r: "r1 = Inr n" "r2 = Inr (Regular d t)" by blast
      have "node_at ?f ?q = Some (Regular d t)" using os_Stat_Inr [OF s2 [unfolded r(2)]] os_Stat_frame [OF s1] by simp
      then show ?thesis using m lf s1 s2 r local_file_safe [OF lf] by (auto simp: serveLocalFile_def Let_def)
    next
      case False
      then show ?thesis using m lf s1 s2 by (auto simp: serveLocalFile_def Let_def split: sum.splits node.splits)
    qed
  qed
  show ?thesis
  proof (cases "local_file p (Path (pr_url req))")
    case None
    show ?thesis by (rule bad) (rule disjI2 [OF None])
  next
    case (Some x)
    then have lf: "local_file p (Path (pr_url req)) = Some (fst x, snd x)" by simp
    show ?thesis
    proof (cases "pr_method req \<noteq> ''GET'' \<and> pr_method req \<noteq> ''HEAD''")
      case True
      show ?thesis by (rule bad) (rule disjI1 [OF True])
    next
      case False
      show ?thesis by (rule good [OF False lf])
    qed
  qed
qed

section \<open>The size of the private packages\<close>

definition private_weight :: "path \<times> node \<Rightarrow> int" where
  "private_weight e = (if snd e = Directory \<or> HasSuffix (path_last (fst e)) ''.json'' then 0 else file_size (snd e))"

definition private_bytes :: "path \<Rightarrow> fs \<Rightarrow> int" where
  "private_bytes d f = (\<Sum>q \<in> {q. prefix d q \<and> node_at f q \<noteq> None}. private_weight (q, the (node_at f q)))"

lemma private_weight_nonneg: "0 \<le> private_weight e"
  by (simp add: private_weight_def file_size_def)

lemma private_loop:
  assumes "faults f = []" "\<forall>(q, n) \<in> set ps. node_at f q = Some n" "0 \<le> acc" "acc \<le> MaxInt64"
    "walk_loop private_visit ps f acc = (e, g, n)" "\<forall>x \<in> set ps. private_weight x \<le> MaxInt64"
  shows "g = f \<and> (e = None \<longleftrightarrow> acc + sum_list (map private_weight ps) \<le> MaxInt64) \<and>
    (e = None \<longrightarrow> n = acc + sum_list (map private_weight ps))"
  using assms
proof (induction ps arbitrary: acc)
  case (Cons x ps)
  obtain q nd where x: "x = (q, nd)" by fastforce
  have rest: "0 \<le> sum_list (map private_weight ps)" by (rule sum_list_nonneg) (auto simp: private_weight_nonneg)
  show ?case
  proof (cases "nd = Directory \<or> HasSuffix (path_last q) ''.json''")
    case True
    then have "private_visit q nd f acc = (None, f, acc)" by (simp add: private_visit_def)
    then have "walk_loop private_visit ps f acc = (e, g, n)" using Cons.prems by (auto simp: x sys_plain_def split: if_splits)
    moreover have "private_weight x = 0" using True by (simp add: private_weight_def x)
    ultimately show ?thesis using Cons.IH [of acc] Cons.prems by simp
  next
    case False
    then obtain d t where nd: "nd = Regular d t" by (cases nd) auto
    have st: "os_Stat q f = (Inr nd, f)" using Cons.prems x by (simp add: os_Stat_def)
    have w: "private_weight x = file_size nd" using False by (simp add: private_weight_def x)
    have pos: "0 \<le> file_size nd" by (simp add: file_size_def)
    show ?thesis
    proof (cases "acc + file_size nd \<le> MaxInt64")
      case True
      have "file_size nd \<le> MaxInt64" using True Cons.prems(3) by simp
      then have "i64 (9223372036854775807 - file_size nd) = 9223372036854775807 - file_size nd"
        "i64 (acc + file_size nd) = acc + file_size nd"
        using pos True Cons.prems(3) by (simp_all add: MaxInt64_def i64_in_range)
      then have "private_visit q nd f acc = (None, f, acc + file_size nd)"
        using False st nd True by (simp add: private_visit_def MaxInt64_def)
      then have "walk_loop private_visit ps f (acc + file_size nd) = (e, g, n)" using Cons.prems nd by (simp add: x)
      then show ?thesis using Cons.IH [of "acc + file_size nd"] Cons.prems w True pos by (simp add: add.assoc)
    next
      case big: False
      have "file_size nd \<le> MaxInt64" using Cons.prems(6) w by simp
      then have "acc > i64 (9223372036854775807 - file_size nd)" using big pos by (simp add: MaxInt64_def i64_in_range)
      moreover have "file_size nd > 0" using big Cons.prems(4) by linarith
      ultimately have "private_visit q nd f acc = (Some OtherError, f, acc)"
        using False st nd by (simp add: private_visit_def)
      then have "e = Some OtherError" "g = f" using Cons.prems by (auto simp: x)
      then show ?thesis using w big rest by simp
    qed
  qed
qed simp

text \<open>
  The size of the private packages is exact: on a file system that does not fail it is the
  sum of the sizes of the regular files below the directory, records left out, and when
  that sum does not fit 64 bits the result is an error, never a sum that wrapped around.
\<close>

theorem PrivateSize_exact:
  assumes "faults f = []" "node_at f (py_localPath p) \<noteq> None"
    "list_all (\<lambda>(q, n). file_size n \<le> MaxInt64) (nodes f)" "PrivateSize p f = ((n, e), g)"
  shows "g = f \<and> (e = None \<longleftrightarrow> private_bytes (py_localPath p) f \<le> MaxInt64) \<and>
    (e = None \<longrightarrow> n = private_bytes (py_localPath p) f)"
proof -
  let ?d = "py_localPath p"
  let ?ps = "map (\<lambda>q. (q, the (node_at f q))) (walk_list ?d f)"
  have "os_Stat ?d f = (Inr (the (node_at f ?d)), f)" using assms(1,2) by (auto simp: os_Stat_def)
  then have run: "walk_loop private_visit ?ps f 0 = (e, g, n)"
    using assms(4) by (simp add: PrivateSize_def WalkDir_def split: prod.splits)
  have here: "\<forall>(q, nd) \<in> set ?ps. node_at f q = Some nd" by (auto simp: set_walk_list)
  have "private_weight (q, the (node_at f q)) \<le> MaxInt64" if q: "node_at f q \<noteq> None" for q
  proof -
    obtain nd where nd: "node_at f q = Some nd" using q by blast
    then have "(q, nd) \<in> set (nodes f)" by (simp add: node_at_def map_of_SomeD)
    then have "file_size nd \<le> MaxInt64" using assms(3) by (auto simp: list_all_iff)
    then show ?thesis by (simp add: private_weight_def nd MaxInt64_def)
  qed
  then have "\<forall>x \<in> set ?ps. private_weight x \<le> MaxInt64" by (simp add: set_walk_list)
  moreover have "sum_list (map private_weight ?ps) = private_bytes ?d f"
    by (simp add: private_bytes_def sum_list_distinct_conv_sum_set set_walk_list comp_def)
  ultimately show ?thesis using private_loop [OF assms(1) here _ _ run] by (simp add: MaxInt64_def)
qed

definition private_fs :: fs where
  "private_fs = \<lparr>nodes = [([''private''], Directory), ([''private'', ''demo''], Directory),
     ([''private'', ''demo'', ''a.whl''], Regular ''abc'' 3), ([''private'', ''demo'', ''a.whl.json''], Regular ''{}'' 3)],
     faults = []\<rparr>"

lemma private_fs_nodes: "node_at private_fs = [[''private''] \<mapsto> Directory, [''private'', ''demo''] \<mapsto> Directory,
    [''private'', ''demo'', ''a.whl''] \<mapsto> Regular ''abc'' 3, [''private'', ''demo'', ''a.whl.json''] \<mapsto> Regular ''{}'' 3]"
  by (auto simp: node_at_def private_fs_def fun_eq_iff)

lemma private_fs_bytes: "private_bytes [''private''] private_fs = 3"
proof -
  have "{q. prefix [''private''] q \<and> node_at private_fs q \<noteq> None} =
      {[''private''], [''private'', ''demo''], [''private'', ''demo'', ''a.whl''], [''private'', ''demo'', ''a.whl.json'']}"
    by (auto simp: private_fs_nodes split: if_splits)
  then show ?thesis by (simp add: private_bytes_def private_fs_nodes private_weight_def path_last_def HasSuffix_def)
qed

theorem PrivateSize_exact_witness: "PrivateSize sample_pypi private_fs = ((3, None), private_fs)"
proof -
  obtain n e g where run: "PrivateSize sample_pypi private_fs = ((n, e), g)" by (metis surj_pair)
  have d: "py_localPath sample_pypi = [''private'']" by (simp add: sample_pypi_def)
  have "list_all (\<lambda>(q, n). file_size n \<le> MaxInt64) (nodes private_fs)"
    by (simp add: private_fs_def MaxInt64_def file_size_def file_content_def)
  moreover have "faults private_fs = []" by (simp add: private_fs_def)
  ultimately show ?thesis
    using PrivateSize_exact [OF _ _ _ run] private_fs_bytes unfolding run d by (simp add: private_fs_nodes MaxInt64_def)
qed

section \<open>The books of an upload\<close>

lemma copy_file_content:
  "copy_file p now cs er f = (None, g) \<Longrightarrow> node_at f p = Some (Regular c t) \<Longrightarrow>
   er = None \<and> (\<exists>u. node_at g p = Some (Regular (c @ concat cs) u))"
proof (induction cs arbitrary: f c t)
  case (Cons x cs)
  then obtain f1 where w: "file_Write p x now f = (None, f1)" "copy_file p now cs er f1 = (None, g)"
    by (auto split: option.splits prod.splits)
  then have "node_at f1 p = Some (Regular (c @ x) now)" using Cons.prems(2) by (auto simp: file_Write_def split: option.splits)
  then show ?case using Cons.IH [OF w(2)] by auto
qed auto

text \<open>A release that was reported stored is there, whole, even when other calls failed.\<close>

lemma store_temp_complete:
  assumes run: "store_temp env temp d name py source f = (Inr k, g)" and t: "node_at f temp = Some (Regular [] u)"
    and tt: "d @ [name] \<noteq> temp"
  shows "k = release_of env name py (concat (chunks source)) \<and> (\<exists>v. node_at g (d @ [name]) = Some (Regular (concat (chunks source)) v))"
proof -
  obtain e1 f1 where c: "copy_file temp (ue_write env) (chunks source) (read_error source) f = (e1, f1)" by fastforce
  have e1: "e1 = None" using run c by (auto simp: store_temp_def Let_def split: option.splits)
  obtain v where v: "node_at f1 temp = Some (Regular (concat (chunks source)) v)"
    using copy_file_content [OF c [unfolded e1] t] by auto
  have q: "next_fault f1 = None" "next_fault (tick f1) = None" "next_fault (tick (tick f1)) = None"
    using run c e1 by (auto simp: store_temp_def Let_def sys_plain_def split: option.splits)
  obtain e5 f5 where l: "os_Link temp (d @ [name]) (tick (tick (tick f1))) = (e5, f5)" by fastforce
  have e5: "e5 = None" using run c e1 q l by (auto simp: store_temp_def Let_def sys_plain_def split: option.splits link_error.splits)
  have n5: "node_at f5 (d @ [name]) = Some (Regular (concat (chunks source)) v)" using os_Link_cases [OF l] e5 v by auto
  obtain e6 f6 where r: "os_Remove temp f5 = (e6, f6)" by fastforce
  have n6: "node_at f6 (d @ [name]) = Some (Regular (concat (chunks source)) v)" using os_Remove_frame [OF tt, of f5] n5 r by simp
  obtain js f7 where w: "os_WriteFile (d @ [name @ ''.json'']) js (ue_write env) f6 = (None, f7)" "g = f7"
      "k = release_of env name py (concat (chunks source))"
    using run c e1 q l e5 r by (auto simp: store_temp_def Let_def sys_plain_def release_of_def split: option.splits prod.splits)
  then show ?thesis using os_WriteFile_frame [OF w(1), of "d @ [name]"] n6 by auto
qed

lemma store_locked_complete:
  assumes run: "store_locked env d name py source f = (Inr k, g)" and safe: "safeDistributionFilename name"
  shows "k = release_of env name py (concat (chunks source)) \<and> (\<exists>v. node_at g (d @ [name]) = Some (Regular (concat (chunks source)) v))"
proof -
  obtain temp f2 f3 f4 where ct: "os_CreateTemp d ''.upload-'' (ue_rnd env) (ue_write env) f2 = (Inr temp, f3)"
    and st: "store_temp env temp d name py source f3 = (Inr k, f4)" "g = snd (os_Remove temp f4)"
    using run by (auto simp: store_locked_def split: option.splits sum.splits prod.splits if_splits)
  obtain x where tk: "temp = d @ [''.upload-'' @ x]" "node_at f3 temp = Some (Regular [] (ue_write env))"
    using os_CreateTemp_cases [OF ct] by auto
  have tt: "d @ [name] \<noteq> temp" using upload_temp_name [OF safe] tk(1) by metis
  show ?thesis using store_temp_complete [OF st(1) tk(2) tt] st(2) os_Remove_frame [OF tt, of f4] by simp
qed

text \<open>What the part with a reservation leaves of the controller and of the reservation.\<close>

definition stored_bytes :: "pypi_proxy \<Rightarrow> fs \<Rightarrow> int \<Rightarrow> bool" where
  "stored_bytes p f n \<longleftrightarrow> (\<exists>project name d t. normal_name project \<and> project \<noteq> [] \<and> safeDistributionFilename name \<and>
     node_at f (localProjectPath p project @ [name]) = Some (Regular d t) \<and> n = int (length d))"

lemma upload_reserved_books:
  assumes run: "upload_reserved p env req (Some r) w st = ((w', st'), res')"
    and c: "w_ctl (ps_world st) = Some c" "ctl_ok c" "res_live r n" and wait: "\<And>v. w_ctl (ue_wait env v) = w_ctl v"
  shows "w_ctl (ps_world st') = Some c \<and> res' = Some r \<or>
    (\<exists>b. w_ctl (ps_world st') = Some (c\<lparr>reservedBytes := reservedBytes c - n, committedBytes := b\<rparr>) \<and>
      res' = Some (r\<lparr>once_done := True\<rparr>) \<and>
      (b = committedBytes c \<or> (\<exists>k. stored_bytes p (w_fs (ps_world st')) k \<and> k \<le> n \<and> b = min MaxInt64 (committedBytes c + k))))"
proof (cases "\<exists>form u query source. ue_form env = Some (form, Some u) \<and> ParseQuery (RawQuery (pr_url req)) = (query, False) \<and>
    uf_source u = Inr source \<and> ue_length env \<le> maxUploadBytes \<and> normalizeProjectName (FormValue query form ''name'') \<noteq> []")
  case False
  then have "ps_world st' = ps_world st \<and> res' = Some r"
    using run by (auto simp: upload_reserved_def Let_def fail_def split: option.splits prod.splits sum.splits bool.splits if_splits)
  then show ?thesis using c(1) by simp
next
  case True
  then obtain form u query source where F: "ue_form env = Some (form, Some u)" "ParseQuery (RawQuery (pr_url req)) = (query, False)"
    "uf_source u = Inr source" "ue_length env \<le> maxUploadBytes" "normalizeProjectName (FormValue query form ''name'') \<noteq> []" by blast
  let ?project = "normalizeProjectName (FormValue query form ''name'')" and ?py = "FormValue query form ''requires_python''"
  obtain x v where s: "storeLocalPackage p env ?project (uf_Filename u) ?py source (ps_world st) = (x, v)" by fastforce
  have ctl: "w_ctl v = Some c"
    using s c(1) wait by (auto simp: storeLocalPackage_def Let_def split: if_splits prod.splits)
  show ?thesis
  proof (cases x)
    case (Inl e)
    then have "ps_world st' = v \<and> res' = Some r" using run F s by (auto simp: upload_reserved_def Let_def fail_def split: if_splits)
    then show ?thesis using ctl by simp
  next
    case (Inr k)
    have safe: "safeDistributionFilename (uf_Filename u)" and
      st: "\<exists>g. store_locked env (localProjectPath p ?project) (uf_Filename u) ?py source (w_fs (ue_wait env (ps_world st))) = (Inr k, g) \<and> w_fs v = g"
      using s Inr by (auto simp: storeLocalPackage_def Let_def split: if_splits prod.splits)
    obtain t where k: "k = release_of env (uf_Filename u) ?py (concat (chunks source))"
      "node_at (w_fs v) (localProjectPath p ?project @ [uf_Filename u]) = Some (Regular (concat (chunks source)) t)"
      using st store_locked_complete [OF _ safe] by blast
    define b where "b = (if lp_Size k \<le> n then min MaxInt64 (committedBytes c + lp_Size k) else committedBytes c)"
    have bytes: "stored_bytes p (w_fs v) (lp_Size k)"
      unfolding stored_bytes_def using k safe F(5) normalizeProjectName_normal by (auto simp: release_of_def)
    have "settle (lp_Size k) 0 (Some r) (w_ctl v) =
        (lp_Size k \<le> n, Some (r\<lparr>once_done := True\<rparr>), Some (c\<lparr>reservedBytes := reservedBytes c - n, committedBytes := b\<rparr>))"
      using Commit_live [OF c(2,3), of "lp_Size k" 0] ctl_okD(5) [OF c(2)] k(1)
      by (simp add: settle_def ctl Let_def release_of_def b_def)
    then have "w_ctl (ps_world st') = Some (c\<lparr>reservedBytes := reservedBytes c - n, committedBytes := b\<rparr>) \<and>
      res' = Some (r\<lparr>once_done := True\<rparr>) \<and> (lp_Size k \<le> n \<longrightarrow> w_fs (ps_world st') = w_fs v)"
      using run F s Inr by (cases "lp_Size k \<le> n") (auto simp: upload_reserved_def Let_def fail_def split: if_splits)
    then show ?thesis using bytes unfolding b_def by (intro disjI2 exI [of _ b]) (auto simp: b_def)
  qed
qed

text \<open>C23.
  
  An upload keeps the books of the shared controller: whatever the request, the reply and
  the failures, the reserved bytes are what they were, and the committed bytes have grown
  by nothing or by exactly the size of a release that is now on disk (saturating at the largest 64-bit
  integer), which is at most the declared length of the upload and keeps within the budget.
\<close>

theorem upload_books:
  assumes "w_ctl (ps_world st) = Some c" "ctl_ok c" "ue_free env = Inr free" "0 \<le> free" "free \<le> MaxInt64"
    "\<And>v. w_ctl (ue_wait env v) = w_ctl v"
  shows "case serveUpload p env req w st of (w', st') \<Rightarrow> \<exists>c'. w_ctl (ps_world st') = Some c' \<and>
    maxBytes c' = maxBytes c \<and> reservedBytes c' = reservedBytes c \<and>
    (committedBytes c' = committedBytes c \<or>
     (\<exists>n. stored_bytes p (w_fs (ps_world st')) n \<and> n \<le> ue_ContentLength env \<and> committedBytes c' = min MaxInt64 (committedBytes c + n) \<and>
        (maxBytes c = 0 \<or> committedBytes c' + reservedBytes c' \<le> maxBytes c)))"
proof -
  let ?n = "ue_ContentLength env"
  show ?thesis
  proof (cases "pr_method req = ''POST'' \<and> authorizedUpload p (Get (pr_header req) ''Authorization'') \<and> admissible ?n free c")
    case False
    then have "\<exists>c'. w_ctl (ps_world (snd (serveUpload p env req w st))) = Some c' \<and> maxBytes c' = maxBytes c \<and>
        reservedBytes c' = reservedBytes c \<and> committedBytes c' = committedBytes c"
      using assms(1,3) Reserve_cases [OF assms(2,4,5), of ?n]
      by (auto simp: serveUpload_def reserve_upload_def split: if_splits)
    then show ?thesis by (cases "serveUpload p env req w st") auto
  next
    case True
    let ?r = "\<lparr>res_bytes = ?n, once_done = False\<rparr>" and ?c = "c\<lparr>reservedBytes := reservedBytes c + ?n\<rparr>"
    let ?st = "st\<lparr>ps_world := (ps_world st)\<lparr>w_ctl := Some ?c\<rparr>\<rparr>"
    have adm: "admissible ?n free c" using True by blast
    obtain w1 st1 res' where up: "upload_reserved p env req (Some ?r) w ?st = ((w1, st1), res')" by (metis prod.collapse)
    have run: "serveUpload p env req w st = (w1, st1\<lparr>ps_world := release res' (ps_world st1)\<rparr>)"
      using True assms(1,3) Reserve_cases [OF assms(2,4,5), of ?n] up by (simp add: serveUpload_def reserve_upload_def)
    have ok: "ctl_ok ?c" by (rule ctl_ok_reserved [OF assms(2) adm assms(5)])
    have live: "res_live ?r ?n"
      using adm ctl_okD [OF assms(2)] assms(5) by (auto simp: res_live_def admissible_def MaxInt64_def)
    have "w_ctl (ps_world st1) = Some ?c \<and> res' = Some ?r \<or>
      (\<exists>b. w_ctl (ps_world st1) = Some (?c\<lparr>reservedBytes := reservedBytes ?c - ?n, committedBytes := b\<rparr>) \<and>
        res' = Some (?r\<lparr>once_done := True\<rparr>) \<and>
        (b = committedBytes ?c \<or> (\<exists>k. stored_bytes p (w_fs (ps_world st1)) k \<and> k \<le> ?n \<and> b = min MaxInt64 (committedBytes ?c + k))))"
      by (rule upload_reserved_books [OF up _ ok live assms(6)]) simp
    then consider (kept) "w_ctl (ps_world st1) = Some ?c" "res' = Some ?r"
      | (paid) b where "w_ctl (ps_world st1) = Some (c\<lparr>reservedBytes := reservedBytes c, committedBytes := b\<rparr>)"
        "res' = Some (?r\<lparr>once_done := True\<rparr>)"
        "b = committedBytes c \<or> (\<exists>k. stored_bytes p (w_fs (ps_world st1)) k \<and> k \<le> ?n \<and> b = min MaxInt64 (committedBytes c + k))"
      by auto
    then show ?thesis
    proof cases
      case kept
      then show ?thesis using Release_live [OF ok live] by (simp add: run release_def)
    next
      case paid
      have fits: "maxBytes c = 0 \<or> min MaxInt64 (committedBytes c + k) + reservedBytes c \<le> maxBytes c"
        if "k \<le> ?n" for k
        using adm that ctl_okD [OF assms(2)] by (auto simp: admissible_def)
      then show ?thesis using paid by (auto simp: run release_def Release_def)
    qed
  qed
qed

definition sample_publish :: proxy_request where
  "sample_publish = \<lparr>pr_method = ''POST'', pr_url = empty_url\<lparr>Path := ''/pypi/legacy/''\<rparr>,
     pr_header = [(''Authorization'', [''Bearer t''])], pr_canceled = False\<rparr>"

theorem upload_books_witness:
  "case serveUpload sample_pypi sample_upload sample_publish open_reply
      \<lparr>ps_world = sample_world\<lparr>w_ctl := Some (NewController 1000 (9 / 10) (3 / 4) 0 20)\<rparr>, ps_stats = no_counts\<rparr> of (w', st') \<Rightarrow>
    \<exists>c'. w_ctl (ps_world st') = Some c' \<and> reservedBytes c' = 0 \<and> committedBytes c' \<le> 1000"
proof -
  let ?c = "NewController 1000 (9 / 10) (3 / 4) 0 20"
  have f: "maxBytes ?c = 1000" "minFreeBytes ?c = 0" "committedBytes ?c = 20" "reservedBytes ?c = 0"
    by (simp_all add: NewController_def)
  have "ctl_ok ?c" by (simp add: ctl_ok_def f MaxInt64_def)
  then have "case serveUpload sample_pypi sample_upload sample_publish open_reply
      \<lparr>ps_world = sample_world\<lparr>w_ctl := Some ?c\<rparr>, ps_stats = no_counts\<rparr> of (w', st') \<Rightarrow>
    \<exists>c'. w_ctl (ps_world st') = Some c' \<and> maxBytes c' = maxBytes ?c \<and> reservedBytes c' = reservedBytes ?c \<and>
    (committedBytes c' = committedBytes ?c \<or>
     (\<exists>n. stored_bytes sample_pypi (w_fs (ps_world st')) n \<and> n \<le> ue_ContentLength sample_upload \<and>
        committedBytes c' = min MaxInt64 (committedBytes ?c + n) \<and>
        (maxBytes ?c = 0 \<or> committedBytes c' + reservedBytes c' \<le> maxBytes ?c)))"
    by (intro upload_books [where free = 1000]) (simp_all add: sample_upload_def MaxInt64_def)
  then show ?thesis unfolding f by (auto split: prod.splits)
qed

section \<open>Names with a percent sign\<close>

text \<open>
  A distribution whose name has a percent sign can be published and is listed, but its link
  leads nowhere: the handler unescapes the path that the server has unescaped already. For
  \<^verbatim>\<open>a%zz.whl\<close> the link is \<^verbatim>\<open>a%25zz.whl\<close>, the server decodes it to the name itself, and
  the second decoding fails.
\<close>

theorem percent_name_not_found:
  "safeDistributionFilename ''a%zz.whl'' \<and> PathEscape ''a%zz.whl'' = ''a%25zz.whl'' \<and>
   PathUnescape ''a%25zz.whl'' = Some ''a%zz.whl'' \<and>
   local_file sample_pypi (py_packagePath sample_pypi @ ''demo/'' @ ''a%zz.whl'') = None"
  by code_simp

end
