(* ===== verification/Repository_Handler.thy ===== *)
theory Repository_Handler
  imports Proxy_Runtime
begin

text \<open>
  What the server relies on in a repository (\<^verbatim>\<open>src/internal/repository/repository.go\<close>):
  a handler that counts every request once, classifies each as at most one hit or one
  miss, and whose store a request that it refuses leaves alone. The counters of a whole run
  follow from these laws.
\<close>

type_synonym 'e handler = "'e \<Rightarrow> proxy_request \<Rightarrow> reply \<Rightarrow> proxy_state \<Rightarrow> reply \<times> proxy_state"

definition counted_once :: "counters \<Rightarrow> counters \<Rightarrow> bool" where
  "counted_once c c' \<longleftrightarrow> requests c' = bump (requests c) \<and>
     (hits c', misses c') \<in> {(hits c, misses c), (bump (hits c), misses c), (hits c, bump (misses c))}"

text \<open>The counters do not wrap around before \<open>n\<close> further requests.\<close>

definition roomy :: "nat \<Rightarrow> counters \<Rightarrow> bool" where
  "roomy n c \<longleftrightarrow> 0 \<le> hits c \<and> 0 \<le> misses c \<and> hits c + misses c \<le> requests c \<and>
     requests c + int n < 18446744073709551616"

locale repository_handler =
  fixes serve :: "'e handler"
    and refused :: "proxy_request \<Rightarrow> bool"
  assumes counts: "serve env req w st = (w', st') \<Longrightarrow> counted_once (ps_stats st) (ps_stats st')"
    and read_only: "serve env req w st = (w', st') \<Longrightarrow> refused req \<Longrightarrow>
      ps_world st' = ps_world st \<and> hits (ps_stats st') = hits (ps_stats st) \<and> misses (ps_stats st') = misses (ps_stats st)"
begin

lemma one_request:
  assumes "roomy (Suc n) (ps_stats st)" "serve env req w st = (w', st')"
  shows "roomy n (ps_stats st') \<and> requests (ps_stats st') = requests (ps_stats st) + 1"
proof -
  have b: "bump k = k + 1" if "0 \<le> k" "k + 1 < 18446744073709551616" for k
    using that by (simp add: bump_def u64_def)
  have "requests (ps_stats st') = requests (ps_stats st) + 1"
    "(hits (ps_stats st'), misses (ps_stats st')) \<in> {(hits (ps_stats st), misses (ps_stats st)),
       (hits (ps_stats st) + 1, misses (ps_stats st)), (hits (ps_stats st), misses (ps_stats st) + 1)}"
    using counts [OF assms(2)] assms(1) b by (auto simp: counted_once_def roomy_def)
  then show ?thesis using assms(1) by (auto simp: roomy_def)
qed

text \<open>Runs of requests, each with its own environment and reply.\<close>

lemma run_counts:
  assumes "roomy (length xs) (ps_stats st)"
  shows "requests (ps_stats (fold (\<lambda>(env, req, w) s. snd (serve env req w s)) xs st)) =
      requests (ps_stats st) + int (length xs) \<and>
    roomy 0 (ps_stats (fold (\<lambda>(env, req, w) s. snd (serve env req w s)) xs st))"
  using assms
proof (induction xs arbitrary: st)
  case (Cons x xs)
  obtain env req w where x: "x = (env, req, w)" by (metis prod_cases3)
  obtain w' st' where s: "serve env req w st = (w', st')" by fastforce
  note one = one_request [OF Cons.prems [unfolded list.size add_Suc_right add_0_right] s]
  show ?case using Cons.IH [of st'] one by (simp add: x s)
qed simp

lemma refused_run:
  assumes "\<forall>(env, req, w) \<in> set xs. refused req"
  shows "ps_world (fold (\<lambda>(env, req, w) s. snd (serve env req w s)) xs st) = ps_world st"
  using assms
proof (induction xs arbitrary: st)
  case (Cons x xs)
  obtain env req w where x: "x = (env, req, w)" by (metis prod_cases3)
  obtain w' st' where s: "serve env req w st = (w', st')" by fastforce
  have "ps_world st' = ps_world st" using read_only [OF s] Cons.prems x by simp
  then show ?case using Cons x s by simp
qed simp

end

end
