(* ===== verification/Pypi_Theorems.thy ===== *)
theory Pypi_Theorems
  imports Pypi_Proxy Pypi_Private_Theorems Repository_Handler
begin

text \<open>
  What the PyPI proxy guarantees: its counters add up, and a private project is never mixed
  with the upstream's.
\<close>

section \<open>Counters\<close>

text \<open>At most one of the hits and the misses grows, by one; the requests stay.\<close>

definition classified :: "proxy_state \<Rightarrow> proxy_state \<Rightarrow> bool" where
  "classified st st' \<longleftrightarrow> requests (ps_stats st') = requests (ps_stats st) \<and>
     (hits (ps_stats st'), misses (ps_stats st')) \<in>
       {(hits (ps_stats st), misses (ps_stats st)), (bump (hits (ps_stats st)), misses (ps_stats st)),
        (hits (ps_stats st), bump (misses (ps_stats st)))}"

definition uncounted :: "proxy_state \<Rightarrow> proxy_state \<Rightarrow> bool" where
  "uncounted st st' \<longleftrightarrow> requests (ps_stats st') = requests (ps_stats st) \<and>
     hits (ps_stats st') = hits (ps_stats st) \<and> misses (ps_stats st') = misses (ps_stats st)"

lemma uncounted_classified: "uncounted st st' \<Longrightarrow> classified st st'"
  by (simp add: uncounted_def classified_def)

lemma fail_uncounted: "uncounted st (snd (fail c s msg w (st\<lparr>ps_world := v\<rparr>)))" "uncounted st (snd (fail c s msg w st))"
  by (simp_all add: uncounted_def fail_def)

lemma streamResponse_uncounted: "uncounted st (snd (streamResponse env req resp hs chs key c d v w st))"
  by (simp add: uncounted_def streamResponse_def Let_def recordStreamError_def split: prod.split)

lemma serveSimpleMiss_uncounted: "uncounted st (snd (serveSimpleMiss p env req target key c w st))"
  using streamResponse_uncounted [of st env req]
  by (simp add: serveSimpleMiss_def simple_page_def proxyFailure_def Let_def fail_uncounted split: sum.split option.split)
    (simp add: uncounted_def)

lemma serveFileMiss_uncounted: "uncounted st (snd (serveFileMiss p env sha req target key c w st))"
  using streamResponse_uncounted [of st env req]
  by (simp add: serveFileMiss_def proxyFailure_def Let_def fail_uncounted split: sum.split)

lemma serveCached_classified:
  assumes "\<And>s. uncounted s (snd (serveMiss req target key c w s))"
  shows "classified st (snd (serveCached p env serveMiss req target key c w st))"
proof -
  obtain r1 w1 where a: "pypi_find p env c key (ps_world st) = (r1, w1)" by fastforce
  obtain r2 w2 where b: "pypi_find p env c key (pe_wait env w1) = (r2, w2)" by fastforce
  show ?thesis
    using assms [of "stat_miss (st\<lparr>ps_world := w2\<rparr>)"]
    by (cases r1; cases r2) (simp_all add: serveCached_def a b classified_def uncounted_def)
qed

lemma upload_reserved_uncounted:
  assumes run: "upload_reserved p env req res w st = ((w', st'), res')"
  shows "uncounted st st'"
proof (cases "\<exists>form u query source. ue_form env = Some (form, Some u) \<and> ParseQuery (RawQuery (pr_url req)) = (query, False) \<and>
    uf_source u = Inr source \<and> ue_length env \<le> maxUploadBytes \<and> normalizeProjectName (FormValue query form ''name'') \<noteq> []")
  case False
  then have "\<exists>s msg. fail (pr_canceled req) s msg w st = (w', st')"
    using run by (auto simp: upload_reserved_def Let_def split: option.splits prod.splits sum.splits bool.splits if_splits)
  then show ?thesis using fail_uncounted(2) [of st] by (metis snd_conv)
next
  case True
  then obtain form u query source where F: "ue_form env = Some (form, Some u)" "ParseQuery (RawQuery (pr_url req)) = (query, False)"
    "uf_source u = Inr source" "ue_length env \<le> maxUploadBytes" "normalizeProjectName (FormValue query form ''name'') \<noteq> []" by blast
  let ?project = "normalizeProjectName (FormValue query form ''name'')" and ?py = "FormValue query form ''requires_python''"
  obtain x v where s: "storeLocalPackage p env ?project (uf_Filename u) ?py source (ps_world st) = (x, v)" by fastforce
  show ?thesis
  proof (cases x)
    case (Inl e)
    then show ?thesis using run F s by (auto simp: upload_reserved_def Let_def fail_def uncounted_def split: if_splits)
  next
    case (Inr k)
    obtain ok r c where t: "settle (lp_Size k) 0 res (w_ctl v) = (ok, r, c)" by (metis prod_cases3)
    show ?thesis using run F s Inr t
      by (cases ok) (auto simp: upload_reserved_def Let_def fail_def uncounted_def split: if_splits)
  qed
qed

lemma serveUpload_cases:
  obtains (refused) msg code w1 where "pr_method req \<noteq> ''POST'' \<or> \<not> authorizedUpload p (Get (pr_header req) ''Authorization'')"
      "serveUpload p env req w st = (rp_Error msg code w1, st)" "code \<in> {401, 405}"
  | (full) c w' where "snd (serveUpload p env req w st) = c" "uncounted st c" "w_fs (ps_world c) = w_fs (ps_world st)"
  | (stored) res v w' st' res' where "w_fs v = w_fs (ps_world st)" "upload_reserved p env req res w (st\<lparr>ps_world := v\<rparr>) = ((w', st'), res')"
      "serveUpload p env req w st = (w', st'\<lparr>ps_world := release res' (ps_world st')\<rparr>)"
proof (cases "pr_method req \<noteq> ''POST'' \<or> \<not> authorizedUpload p (Get (pr_header req) ''Authorization'')")
  case True
  then show ?thesis using refused by (cases "pr_method req = ''POST''") (auto simp: serveUpload_def)
next
  case False
  obtain x v where r: "reserve_upload env (ps_world st) = (x, v)" by fastforce
  have fs: "w_fs v = w_fs (ps_world st)"
    using r by (auto simp: reserve_upload_def split: option.splits sum.splits prod.splits)
  show ?thesis
  proof (cases x)
    case (Inl e)
    then have "snd (serveUpload p env req w st) = (case e of None \<Rightarrow> st\<lparr>ps_world := v\<rparr>
        | Some _ \<Rightarrow> snd (fail (pr_canceled req) 507 ''could not verify PyPI storage capacity'' w (st\<lparr>ps_world := v\<rparr>)))"
      using False r by (cases e) (simp_all add: serveUpload_def)
    then show ?thesis using full fs fail_uncounted(1) [of st] by (cases e) (simp_all add: uncounted_def)
  next
    case (Inr res)
    obtain w' st' res' where u: "upload_reserved p env req res w (st\<lparr>ps_world := v\<rparr>) = ((w', st'), res')" by (metis prod.collapse)
    show ?thesis by (rule stored [OF fs u]) (use False r Inr u in \<open>simp add: serveUpload_def\<close>)
  qed
qed

lemma serveUpload_uncounted: "uncounted st (snd (serveUpload p env req w st))"
proof (cases rule: serveUpload_cases [of req p env w st])
  case (stored res v w' st' res')
  then show ?thesis using upload_reserved_uncounted [OF stored(2)] by (simp add: uncounted_def)
qed (simp_all add: uncounted_def)

lemma serveLocalFile_classified: "classified st (snd (serveLocalFile p sc req w st))"
  by (simp add: serveLocalFile_def Let_def classified_def split: option.split prod.split sum.split node.split)

lemma serveSimple_classified: "classified st (snd (serveSimple p env req w st))"
proof -
  obtain x f where k: "private_project p req (w_fs (ps_world st)) = (x, f)" by fastforce
  let ?st = "st\<lparr>ps_world := (ps_world st)\<lparr>w_fs := f\<rparr>\<rparr>"
  have c: "classified st (snd (serveCached p env (serveSimpleMiss p env) req target key c w ?st))" for target key c
    using serveCached_classified [of "serveSimpleMiss p env" req target key c w ?st p env, OF serveSimpleMiss_uncounted]
    by (simp add: classified_def)
  show ?thesis
    using c by (cases x; cases "simpleTargetURL p (pr_url req)")
      (simp_all add: serveSimple_def k Let_def fail_uncounted [THEN uncounted_classified] classified_def [of st "st\<lparr>ps_world := v\<rparr>" for v])
qed

lemma serveFile_classified: "classified st (snd (serveFile p env req w st))"
  using serveCached_classified [OF serveFileMiss_uncounted]
  by (simp add: serveFile_def fail_uncounted uncounted_classified split: sum.split prod.split)

text \<open>What the handler turns away: uploads without the token, and other methods elsewhere.\<close>

definition pypi_refused :: "pypi_proxy \<Rightarrow> proxy_request \<Rightarrow> bool" where
  "pypi_refused p req \<longleftrightarrow>
     (if Path (pr_url req) = py_uploadPath p
      then pr_method req \<noteq> ''POST'' \<or> \<not> authorizedUpload p (Get (pr_header req) ''Authorization'')
      else pr_method req \<notin> {''GET'', ''HEAD''})"

lemma refused_untouched:
  assumes "pypi_refused p req"
  shows "ps_world (snd (pypi_ServeHTTP p env req w st)) = ps_world st \<and>
    hits (ps_stats (snd (pypi_ServeHTTP p env req w st))) = hits (ps_stats st) \<and>
    misses (ps_stats (snd (pypi_ServeHTTP p env req w st))) = misses (ps_stats st)"
  using assms by (auto simp: pypi_ServeHTTP_def Let_def pypi_refused_def serveUpload_def serveLocalFile_def)

text \<open>The state with which each part of the handler starts, and where a request ends.\<close>

definition counted :: "proxy_state \<Rightarrow> proxy_state" where
  "counted st = st\<lparr>ps_stats := (ps_stats st)\<lparr>requests := bump (requests (ps_stats st))\<rparr>\<rparr>"

definition ranged :: "proxy_request \<Rightarrow> proxy_state \<Rightarrow> proxy_state" where
  "ranged req st =
     (if Get (pr_header req) ''Range'' \<noteq> []
      then st\<lparr>ps_stats := (ps_stats st)\<lparr>rangeRequests := bump (rangeRequests (ps_stats st))\<rparr>\<rparr> else st)"

lemma counted_ranged [simp]:
  "ps_world (counted st) = ps_world st" "ps_world (ranged req st) = ps_world st"
  "requests (ps_stats (counted st)) = bump (requests (ps_stats st))" "requests (ps_stats (ranged req st)) = requests (ps_stats st)"
  "hits (ps_stats (counted st)) = hits (ps_stats st)" "hits (ps_stats (ranged req st)) = hits (ps_stats st)"
  "misses (ps_stats (counted st)) = misses (ps_stats st)" "misses (ps_stats (ranged req st)) = misses (ps_stats st)"
  by (simp_all add: counted_def ranged_def)

lemma pypi_ServeHTTP_ends [consumes 1, case_names upload download refused page file_link absent]:
  assumes "pypi_ServeHTTP p env req w st = (w', st')"
  obtains "st' = snd (serveUpload p (pe_upload env) req w (counted st))"
  | "st' = snd (serveLocalFile p (pe_serveContent env) req w (counted st))"
  | "st' = counted st"
  | "st' = snd (serveSimple p env req w (ranged req (counted st)))"
  | "st' = snd (serveFile p env req w (ranged req (counted st)))"
  | "st' = ranged req (counted st)"
proof -
  note run = assms [unfolded pypi_ServeHTTP_def Let_def, folded counted_def, folded ranged_def]
  consider "Path (pr_url req) = py_uploadPath p" | "Path (pr_url req) \<noteq> py_uploadPath p" "HasPrefix (Path (pr_url req)) (py_packagePath p)"
    | "Path (pr_url req) \<noteq> py_uploadPath p" "\<not> HasPrefix (Path (pr_url req)) (py_packagePath p)" by blast
  then show ?thesis
  proof cases
    case 1
    then show ?thesis using that(1) run by simp
  next
    case 2
    then show ?thesis using that(2) run by simp
  next
    case 3
    then show ?thesis using that(3-6) run by (auto split: if_splits)
  qed
qed

interpretation pypi: repository_handler "pypi_ServeHTTP p" "pypi_refused p"
proof
  fix env req w st w' st'
  assume run: "pypi_ServeHTTP p env req w st = (w', st')"
  from run have "classified (counted st) st'"
  proof (cases rule: pypi_ServeHTTP_ends)
    case upload
    then show ?thesis using serveUpload_uncounted uncounted_classified by simp
  next
    case download
    then show ?thesis using serveLocalFile_classified by simp
  next
    case page
    then show ?thesis using serveSimple_classified [of "ranged req (counted st)" p env req w] by (simp add: classified_def)
  next
    case file_link
    then show ?thesis using serveFile_classified [of "ranged req (counted st)" p env req w] by (simp add: classified_def)
  qed (simp_all add: classified_def)
  then show "counted_once (ps_stats st) (ps_stats st')" by (auto simp: classified_def counted_once_def)
  assume "pypi_refused p req"
  then show "ps_world st' = ps_world st \<and> hits (ps_stats st') = hits (ps_stats st) \<and> misses (ps_stats st') = misses (ps_stats st)"
    using refused_untouched [of p req env w st] run by simp
qed

section \<open>Private projects\<close>

lemma packages_loop_same: "faults f = [] \<Longrightarrow> snd (packages_loop d es acc f) = f"
proof (induction es arbitrary: acc)
  case (Cons e es)
  obtain n nd where e: "e = (n, nd)" by fastforce
  obtain x where "package_of d n f = (x, f)" using package_of_quiet [OF Cons.prems, of d n] by metis
  then show ?case using Cons by (cases x) (simp_all add: e)
qed simp

lemma localPackages_same:
  assumes "faults f = []"
  shows "snd (localPackages p project f) = f"
proof -
  have "snd (os_ReadDir (localProjectPath p project) f) = f"
    using assms by (simp add: os_ReadDir_def split: option.split node.split)
  then obtain x where "os_ReadDir (localProjectPath p project) f = (x, f)" by (metis prod.collapse)
  moreover have "g = f" if "packages_loop (localProjectPath p project) es [] f = (y, g)" for es y g
    using packages_loop_same [OF assms, of "localProjectPath p project" es "[]"] that by simp
  ultimately show ?thesis by (auto simp: localPackages_def split: sum.split prod.split)
qed

text \<open>C7.
  
  A private project is never mixed with the upstream's: as long as one of its releases is
  on disk, the answer for the page of the project is the same whatever the upstream would
  answer and whatever the cache and other requests do, also when the index cannot be read,
  and neither the cache nor the counters change.
\<close>

theorem private_project_shadows_upstream:
  assumes project: "simpleProject p (Path (pr_url req)) = project" "project \<noteq> []" "py_localPath p \<noteq> []"
    and release: "faults (w_fs (ps_world st)) = []" "node_at (w_fs (ps_world st)) (localProjectPath p project) = Some Directory"
      "node_at (w_fs (ps_world st)) (localProjectPath p project @ [name]) = Some (Regular data t)" "safeDistributionFilename name"
    and page: "pr_method req \<in> {''GET'', ''HEAD''}" "HasPrefix (Path (pr_url req)) (py_path p)"
      "Path (pr_url req) \<noteq> py_uploadPath p" "\<not> HasPrefix (Path (pr_url req)) (py_packagePath p)"
  shows "pypi_ServeHTTP p env req w st = pypi_ServeHTTP p env' req w st \<and>
    ps_world (snd (pypi_ServeHTTP p env req w st)) = ps_world st \<and>
    hits (ps_stats (snd (pypi_ServeHTTP p env req w st))) = hits (ps_stats st) \<and>
    misses (ps_stats (snd (pypi_ServeHTTP p env req w st))) = misses (ps_stats st)"
proof -
  let ?f = "w_fs (ps_world st)" and ?d = "localProjectPath p project"
  obtain x where lp: "localPackages p project ?f = (x, ?f)" using localPackages_same [OF release(1), of p project] by (metis prod.collapse)
  have "name \<in> release_names ?d ?f" using release(3,4) safe_not_json [OF release(4)] by (auto simp: release_names_def)
  then have ne: "ks \<noteq> []" if "x = Inr ks" for ks
    using localPackages_set(1) [OF release(1,2), of ks ?f] lp that by auto
  have pp: "private_project p req ?f = (x, ?f)" using project lp by (simp add: private_project_def)
  have "serveSimple p e req w s = (case x of Inl _ \<Rightarrow> fail (pr_canceled req) 500 ''read private PyPI package index'' w s
      | Inr ks \<Rightarrow> (serveLocalProject p req project ks w, s))" if "ps_world s = ps_world st" for e s
  proof -
    have same: "s\<lparr>ps_world := ps_world st\<rparr> = s" using that by (cases s) simp
    show ?thesis using pp project(1) ne that by (cases x) (simp_all add: serveSimple_def same)
  qed
  then show ?thesis
    using page by (cases x) (auto simp: pypi_ServeHTTP_def Let_def fail_def)
qed

definition sample_page :: proxy_request where
  "sample_page = \<lparr>pr_method = ''GET'', pr_url = empty_url\<lparr>Path := ''/pypi/simple/demo/''\<rparr>, pr_header = [], pr_canceled = False\<rparr>"

definition sample_pypi_env :: "upstream_response \<Rightarrow> pypi_env" where
  "sample_pypi_env resp = \<lparr>pe_now = 6, pe_client = (\<lambda>_ _ _. Inr resp), pe_context_ended = False, pe_wait = (\<lambda>w. w),
     pe_put = sample_env, pe_html = \<lparr>html_Parse = (\<lambda>_. None), html_Render = (\<lambda>_. None)\<rparr>, pe_upload = sample_upload,
     pe_serveContent = (\<lambda>_ _ _ _ _ w. w)\<rparr>"

definition sample_file :: upstream_response where
  "sample_file = \<lparr>ur_status = 200, ur_header = [], ur_body = \<lparr>chunks = [''abc''], read_error = None\<rparr>\<rparr>"

theorem private_project_shadows_upstream_witness:
  "pypi_ServeHTTP sample_pypi (sample_pypi_env sample_file) sample_page open_reply
      \<lparr>ps_world = sample_world\<lparr>w_fs := private_fs\<rparr>, ps_stats = no_counts\<rparr> =
   pypi_ServeHTTP sample_pypi (sample_pypi_env (sample_file\<lparr>ur_status := 404\<rparr>)) sample_page open_reply
      \<lparr>ps_world = sample_world\<lparr>w_fs := private_fs\<rparr>, ps_stats = no_counts\<rparr>"
proof -
  have "simpleProject sample_pypi (Path (pr_url sample_page)) = ''demo''" "py_localPath sample_pypi \<noteq> []"
    "pr_method sample_page \<in> {''GET'', ''HEAD''}" "HasPrefix (Path (pr_url sample_page)) (py_path sample_pypi)"
    "Path (pr_url sample_page) \<noteq> py_uploadPath sample_pypi" "\<not> HasPrefix (Path (pr_url sample_page)) (py_packagePath sample_pypi)"
    "safeDistributionFilename ''a.whl''"
    by code_simp+
  then show ?thesis
    using private_project_shadows_upstream [where p = sample_pypi and req = sample_page and project = "''demo''" and name = "''a.whl''"
        and data = "''abc''" and t = 3 and st = "\<lparr>ps_world = sample_world\<lparr>w_fs := private_fs\<rparr>, ps_stats = no_counts\<rparr>"
        and env = "sample_pypi_env sample_file" and env' = "sample_pypi_env (sample_file\<lparr>ur_status := 404\<rparr>)" and w = open_reply]
    by (simp add: private_fs_nodes localProjectPath_def sample_pypi_def) (simp add: private_fs_def)
qed

section \<open>HEAD of a JSON page\<close>

text \<open>
  A HEAD for a page of the JSON index fails on a miss: the answer to a HEAD has no body, the
  proxy tries to rewrite it all the same, the decoder finds no value, and the client gets a
  502 where the upstream said 200.
\<close>

theorem pypi_head_json_fails:
  "map_option fst (rp_sent (fst (pypi_ServeHTTP sample_pypi
      (sample_pypi_env \<lparr>ur_status = 200, ur_header = [(''Content-Type'', [''application/vnd.pypi.simple.v1+json''])],
         ur_body = \<lparr>chunks = [], read_error = None\<rparr>\<rparr>)
      (sample_page\<lparr>pr_method := ''HEAD'', pr_header := [(''Cache-Control'', [''no-cache''])]\<rparr>)
      open_reply \<lparr>ps_world = sample_world, ps_stats = no_counts\<rparr>))) = Some 502"
proof -
  let ?req = "sample_page\<lparr>pr_method := ''HEAD'', pr_header := [(''Cache-Control'', [''no-cache''])]\<rparr>"
  let ?h = "[(''Content-Type'', [''application/vnd.pypi.simple.v1+json''])]"
  have "case simpleTargetURL sample_pypi (pr_url sample_page) of None \<Rightarrow> False | Some t \<Rightarrow> new_request_ok t" by code_simp
  then obtain t where t: "simpleTargetURL sample_pypi (pr_url sample_page) = Some t" "new_request_ok t"
    by (auto split: option.splits)
  have c: "pypi_cacheable sample_pypi ?req = False" "HasPrefix (Path (pr_url sample_page)) (py_path sample_pypi)"
    "Path (pr_url sample_page) \<noteq> py_uploadPath sample_pypi" "\<not> HasPrefix (Path (pr_url sample_page)) (py_packagePath sample_pypi)"
    "pypi_isJSON (Get ?h ''Content-Type'')" "Get [(''Cache-Control'', [''no-cache''])] ''Range'' = []" "json_decode_any [] = None"
    by code_simp+
  have k: "private_project sample_pypi ?req (w_fs sample_world) = (Inr [], w_fs sample_world)" by code_simp
  show ?thesis
    using t c k
    by (simp add: pypi_ServeHTTP_def serveSimple_def serveCached_def pypi_find_def serveSimpleMiss_def doUpstream_def Let_def
        read_limited_def maxSimpleBytes_def rewriteSimple_def sample_pypi_env_def open_reply_def fail_def rp_Error_def rp_Write_def
        rp_WriteHeader_def rp_Set_def) (simp add: sample_page_def)
qed

end
