(* ===== verification/Pypi_Survival.thy ===== *)
theory Pypi_Survival
  imports Pypi_Theorems
begin

text \<open>
  Releases on disk: no request of any kind, cached page, cached file, download or upload,
  takes away or changes a release, although the cache lives in the same file system.
\<close>

section \<open>Releases survive\<close>

lemma package_of_node: "node_at (snd (package_of d n f)) = node_at f"
proof -
  obtain x f1 where r: "os_ReadFile (d @ [n @ ''.json'']) f = (x, f1)" by fastforce
  have h: "node_at (snd (hash_file q g)) = node_at g" for q g
    using os_Stat_frame [of q g] by (auto simp: hash_file_def sys_plain_def split: prod.split sum.split option.split node.split)
  show ?thesis
    using os_ReadFile_frame [OF r] h [of "d @ [n]" f1]
    by (auto simp: package_of_def r split: sum.split option.split prod.split)
qed

lemma localPackages_node: "node_at (snd (localPackages p project f)) = node_at f"
proof -
  have l: "node_at (snd (packages_loop d es acc g)) = node_at g" for d es acc g
  proof (induction es arbitrary: acc g)
    case (Cons e es)
    obtain n nd where e: "e = (n, nd)" by fastforce
    obtain x g1 where k: "package_of d n g = (x, g1)" by fastforce
    then show ?case using Cons package_of_node [of d n g] by (cases x) (simp_all add: e)
  qed simp
  obtain x g where r: "os_ReadDir (localProjectPath p project) f = (x, g)" by fastforce
  then have "node_at g = node_at f" by (auto simp: os_ReadDir_def split: option.splits node.splits)
  then show ?thesis
    using l [of "localProjectPath p project" _ "[]" g] by (cases x) (auto simp: localPackages_def r split: sum.split prod.split, metis snd_conv, metis snd_conv)
qed

text \<open>
  A release: a file with the name of a distribution, which is no body of the cache. The second
  condition leaves out distributions whose name starts with 64 hexadecimal digits and \<open>.body.\<close>.
\<close>

definition release_path :: "path \<Rightarrow> bool" where
  "release_path q \<longleftrightarrow> (\<exists>d name. q = d @ [name] \<and> safeDistributionFilename name) \<and> \<not> is_body q"

lemma release_path_facts:
  assumes "release_path q"
  shows "foreign q" "\<not> isTempName (path_last q)" "q \<noteq> d @ [x @ ''.json'']"
proof -
  obtain d' name where q: "q = d' @ [name]" "safeDistributionFilename name" "\<not> is_body q"
    using assms by (auto simp: release_path_def)
  have j: "name \<noteq> x @ ''.json''" for x using safe_not_json [OF q(2)] HasSuffix_append by metis
  then show "q \<noteq> d @ [x @ ''.json'']" using q(1) by simp
  have "\<not> is_meta q" using is_metaE(1) [of q] j q(1) by (metis last_snoc)
  then show "foreign q" using q(3) by (simp add: foreign_def)
  have "name \<noteq> [] \<and> hd name \<noteq> CHR ''.''" by (rule safe_head [OF q(2)])
  then show "\<not> isTempName (path_last q)" by (cases name) (auto simp: q(1) path_last_def isTempName_def HasPrefix_def)
qed

abbreviation kept :: "path \<Rightarrow> node \<Rightarrow> world \<Rightarrow> bool" where
  "kept q n w \<equiv> node_at (w_fs w) q = Some n"

lemma put_keeps:
  assumes "release_path q" "kept q n w" "PutStreamVerified env key m source down verify w = (e, d, w')"
  shows "kept q n w'"
  using Put_keeps [of w env key m source down verify] release_path_facts [OF assms(1)] assms(2,3)
  by (simp add: keeps_def)

lemma find_keeps:
  assumes "release_path q" "kept q n w" "pypi_find p env c key w = (r, w')"
  shows "kept q n w'"
proof (cases c)
  case True
  obtain x g where lk: "Lookup (pe_now env) (pe_now env) key (py_ttl p) (w_store w) (w_fs w) = (x, g)" by fastforce
  then have w': "w' = w\<lparr>w_fs := g\<rparr>" using assms(3) True by (auto simp: pypi_find_def split: sum.splits)
  have "\<not> is_body q" using assms(1) by (simp add: release_path_def)
  then have "node_at g q = node_at (w_fs w) q" using Lookup_frame [OF lk] resolveE(2) by fastforce
  then show ?thesis using w' assms(2) by simp
next
  case False
  then show ?thesis using assms by (simp add: pypi_find_def)
qed

lemma streamResponse_keeps:
  assumes "release_path q" "kept q n (ps_world st)"
  shows "kept q n (ps_world (snd (streamResponse env req resp hs chs key c dg v w st)))"
  using put_keeps [OF assms] assms(2) by (auto simp: streamResponse_def Let_def split: prod.split)

lemma serveSimpleMiss_keeps:
  assumes "release_path q" "kept q n (ps_world st)"
  shows "kept q n (ps_world (snd (serveSimpleMiss p env req target key c w st)))"
proof -
  have "kept q n (snd (PutBytes e k m b (ps_world st)))" for e k m b
    using put_keeps [OF assms] by (auto simp: PutBytes_def PutStream_def split: prod.split)
  then show ?thesis using streamResponse_keeps [OF assms, of env req] assms(2)
    by (simp add: serveSimpleMiss_def simple_page_def proxyFailure_def Let_def split: sum.split option.split)
qed

lemma serveFileMiss_keeps:
  assumes "release_path q" "kept q n (ps_world st)"
  shows "kept q n (ps_world (snd (serveFileMiss p env sha req target key c w st)))"
  using streamResponse_keeps [OF assms, of env req] assms(2)
  by (simp add: serveFileMiss_def proxyFailure_def Let_def split: sum.split)

lemma serveCached_keeps:
  assumes "release_path q" "kept q n (ps_world st)" "\<And>v. kept q n v \<Longrightarrow> kept q n (pe_wait env v)"
    "\<And>s. kept q n (ps_world s) \<Longrightarrow> kept q n (ps_world (snd (serveMiss req target key c w s)))"
  shows "kept q n (ps_world (snd (serveCached p env serveMiss req target key c w st)))"
proof -
  obtain r1 w1 where a: "pypi_find p env c key (ps_world st) = (r1, w1)" by fastforce
  obtain r2 w2 where b: "pypi_find p env c key (pe_wait env w1) = (r2, w2)" by fastforce
  have k1: "kept q n w1" by (rule find_keeps [OF assms(1,2) a])
  have k2: "kept q n w2" by (rule find_keeps [OF assms(1) assms(3) [OF k1] b])
  show ?thesis using k1 k2 assms(4) [of "stat_miss (st\<lparr>ps_world := w2\<rparr>)"]
    by (cases r1; cases r2) (simp_all add: serveCached_def a b)
qed

lemma upload_keeps:
  assumes q: "release_path q" and k: "kept q n (ps_world st)" and wait: "\<And>v. kept q n v \<Longrightarrow> kept q n (ue_wait env v)"
    and run: "upload_reserved p env req res w st = ((w', st'), res')"
  shows "kept q n (ps_world st')"
proof (cases "\<exists>form u query source. ue_form env = Some (form, Some u) \<and> ParseQuery (RawQuery (pr_url req)) = (query, False) \<and>
    uf_source u = Inr source \<and> ue_length env \<le> maxUploadBytes \<and> normalizeProjectName (FormValue query form ''name'') \<noteq> []")
  case False
  then have "\<exists>s msg. fail (pr_canceled req) s msg w st = (w', st')"
    using run by (auto simp: upload_reserved_def Let_def split: option.splits prod.splits sum.splits bool.splits if_splits)
  then show ?thesis using k fail_world [of "pr_canceled req" _ _ w st] by (metis snd_conv)
next
  case True
  then obtain form u query source where F: "ue_form env = Some (form, Some u)" "ParseQuery (RawQuery (pr_url req)) = (query, False)"
    "uf_source u = Inr source" "ue_length env \<le> maxUploadBytes" "normalizeProjectName (FormValue query form ''name'') \<noteq> []" by blast
  let ?project = "normalizeProjectName (FormValue query form ''name'')" and ?py = "FormValue query form ''requires_python''"
  let ?d = "localProjectPath p ?project"
  obtain x v where s: "storeLocalPackage p env ?project (uf_Filename u) ?py source (ps_world st) = (x, v)" by fastforce
  have kw: "kept q n (ue_wait env (ps_world st))" by (rule wait [OF k])
  have kv: "kept q n v" and new: "x = Inr y \<Longrightarrow> q \<noteq> ?d @ [lp_Filename y]" for y
  proof -
    have "kept q n v \<and> (\<forall>y. x = Inr y \<longrightarrow> q \<noteq> ?d @ [lp_Filename y])"
    proof (cases "normalizeProjectName ?project \<noteq> ?project \<or> \<not> safeDistributionFilename (uf_Filename u)")
      case True
      then show ?thesis using s k F(5) by (auto simp: storeLocalPackage_def)
    next
      case False
      obtain g where r: "store_locked env ?d (uf_Filename u) ?py source (w_fs (ue_wait env (ps_world st))) = (x, g)" "w_fs v = g"
        using s False F(5) by (auto simp: storeLocalPackage_def Let_def split: prod.splits)
      have safe: "safeDistributionFilename (uf_Filename u)" using False by simp
      have "node_at g q = node_at (w_fs (ue_wait env (ps_world st))) q"
        by (rule store_locked_frame [OF r(1) safe]) (use kw release_path_facts(3) [OF q] in simp_all)
      moreover have "q \<noteq> ?d @ [lp_Filename y]" if "x = Inr y" for y
      proof -
        have "lp_Filename y = uf_Filename u" using store_locked_complete [OF r(1) [unfolded that] safe] by (auto simp: release_of_def)
        moreover have "q \<noteq> ?d @ [uf_Filename u]" using store_locked_exists [OF r(1) safe] that kw by auto
        ultimately show ?thesis by simp
      qed
      ultimately show ?thesis using r(2) kw by simp
    qed
    then show "kept q n v" "x = Inr y \<Longrightarrow> q \<noteq> ?d @ [lp_Filename y]" by blast+
  qed
  show ?thesis
  proof (cases x)
    case (Inl e)
    then show ?thesis using run F s kv by (auto simp: upload_reserved_def Let_def fail_def split: if_splits)
  next
    case (Inr y)
    obtain ok r c where t: "settle (lp_Size y) 0 res (w_ctl v) = (ok, r, c)" by (metis prod_cases3)
    have "node_at (snd (os_Remove (?d @ [lp_Filename y @ ''.json'']) (snd (os_Remove (?d @ [lp_Filename y]) (w_fs v))))) q = Some n"
      using os_Remove_frame [OF release_path_facts(3) [OF q]] os_Remove_frame [OF new [OF Inr]] kv by simp
    then show ?thesis using run F s Inr t kv
      by (cases ok) (auto simp: upload_reserved_def Let_def fail_def split: if_splits)
  qed
qed

lemma serveUpload_keeps:
  assumes "release_path q" "kept q n (ps_world st)" "\<And>v. kept q n v \<Longrightarrow> kept q n (ue_wait env v)"
  shows "kept q n (ps_world (snd (serveUpload p env req w st)))"
proof (cases rule: serveUpload_cases [of req p env w st])
  case (stored res v w' st' res')
  have "kept q n (ps_world st')" by (rule upload_keeps [OF assms(1) _ assms(3) stored(2)]) (use stored(1) assms(2) in simp)
  moreover have "w_fs (release res' x) = w_fs x" for x by (simp add: release_def split: option.split)
  ultimately show ?thesis by (simp add: stored(3))
qed (use assms(2) in simp_all)

lemma serveSimple_keeps:
  assumes "release_path q" "kept q n (ps_world st)" "\<And>v. kept q n v \<Longrightarrow> kept q n (pe_wait env v)"
  shows "kept q n (ps_world (snd (serveSimple p env req w st)))"
proof -
  obtain x f where k: "private_project p req (w_fs (ps_world st)) = (x, f)" by fastforce
  have "node_at f = node_at (w_fs (ps_world st))"
    using k localPackages_node [of p "simpleProject p (Path (pr_url req))" "w_fs (ps_world st)"]
    by (auto simp: private_project_def Let_def split: if_splits)
  then have f: "kept q n (ps_world (st\<lparr>ps_world := (ps_world st)\<lparr>w_fs := f\<rparr>\<rparr>))" using assms(2) by simp
  note c = serveCached_keeps [OF assms(1) f assms(3) serveSimpleMiss_keeps [OF assms(1)]]
  show ?thesis
    using c f by (cases x; cases "simpleTargetURL p (pr_url req)") (simp_all add: serveSimple_def k Let_def)
qed

lemma serveFile_keeps:
  assumes "release_path q" "kept q n (ps_world st)" "\<And>v. kept q n v \<Longrightarrow> kept q n (pe_wait env v)"
  shows "kept q n (ps_world (snd (serveFile p env req w st)))"
proof -
  have "kept q n (ps_world (snd (serveCached p env (serveFileMiss p env sha) req target key c w st)))" for sha target key c
    by (rule serveCached_keeps [OF assms serveFileMiss_keeps [OF assms(1)]])
  then show ?thesis using assms(2) by (simp add: serveFile_def split: sum.split prod.split)
qed

text \<open>
  No request takes away or changes a release: whatever is asked for, whatever the upstream
  answers, and whichever reads, writes and system calls fail, provided the requests that run
  while this one waits for its lock keep it too.
\<close>

lemma pypi_keeps:
  assumes "release_path q" "kept q n (ps_world st)"
    "\<And>v. kept q n v \<Longrightarrow> kept q n (pe_wait env v)"
    "\<And>v. kept q n v \<Longrightarrow> kept q n (ue_wait (pe_upload env) v)"
  shows "kept q n (ps_world (snd (pypi_ServeHTTP p env req w st)))"
proof -
  obtain w' st' where run: "pypi_ServeHTTP p env req w st = (w', st')" by fastforce
  have k: "kept q n (ps_world (counted st))" "kept q n (ps_world (ranged req (counted st)))" using assms(2) by simp_all
  from run have "kept q n (ps_world st')"
  proof (cases rule: pypi_ServeHTTP_ends)
    case upload
    then show ?thesis using serveUpload_keeps [OF assms(1) k(1) assms(4)] by simp
  next
    case download
    have "kept q n (ps_world (snd (serveLocalFile p (pe_serveContent env) req w (counted st))))"
      using k(1) os_Stat_frame by (auto simp: serveLocalFile_def Let_def split: option.split prod.split sum.split node.split)
    then show ?thesis using download by simp
  next
    case page
    then show ?thesis using serveSimple_keeps [OF assms(1) k(2) assms(3)] by simp
  next
    case file_link
    then show ?thesis using serveFile_keeps [OF assms(1) k(2) assms(3)] by simp
  qed (use k in simp_all)
  then show ?thesis by (simp add: run)
qed

lemma wheel_release: "release_path (d @ [''a.whl''])"
proof -
  have "\<not> is_body (d @ [''a.whl''])" by (simp add: is_body_def stem_of_def)
  moreover have "safeDistributionFilename ''a.whl''" by code_simp
  ultimately show ?thesis unfolding release_path_def by blast
qed

end
