(* ===== verification/Npm_Theorems.thy ===== *)
theory Npm_Theorems
  imports Npm_Proxy Repository_Handler
begin

text \<open>
  What the npm proxy guarantees: credentials that are forwarded upstream keep a request
  away from the shared cache, what a miss stores is what the next request gets, and the
  counters of the handler add up.
\<close>

section \<open>How a request ends\<close>

lemma npm_serveMetadata_stats [simp]:
  "hits (ps_stats (snd (npm_serveMetadata p env req resp hs chs key c w st))) = hits (ps_stats st)"
  "misses (ps_stats (snd (npm_serveMetadata p env req resp hs chs key c w st))) = misses (ps_stats st)"
  "requests (ps_stats (snd (npm_serveMetadata p env req resp hs chs key c w st))) = requests (ps_stats st)"
  by (simp_all add: npm_serveMetadata_def Let_def fail_def split: sum.split)

lemma npm_serveMiss_stats [simp]:
  "hits (ps_stats (snd (npm_serveMiss p env req target key c w st))) = hits (ps_stats st)"
  "misses (ps_stats (snd (npm_serveMiss p env req target key c w st))) = misses (ps_stats st)"
  "requests (ps_stats (snd (npm_serveMiss p env req target key c w st))) = requests (ps_stats st)"
  by (simp_all add: npm_serveMiss_def Let_def fail_def recordStreamError_def split: sum.split prod.split)

lemma npm_serveMiss_uncached: "ps_world (snd (npm_serveMiss p env req target key False w st)) = ps_world st"
  by (simp add: npm_serveMiss_def npm_serveMetadata_def Let_def split: sum.split)

lemma npm_ServeHTTP_cases [consumes 1, case_names direct early late miss]:
  assumes "npm_ServeHTTP p env req w st = (w', st')"
  obtains (direct) "ps_world st' = ps_world st" "hits (ps_stats st') = hits (ps_stats st)" "misses (ps_stats st') = misses (ps_stats st)"
      "requests (ps_stats st') = bump (requests (ps_stats st))"
      "pr_method req \<notin> {''GET'', ''HEAD''} \<or> \<not> HasPrefix (Path (pr_url req)) (npm_path p) \<or> npm_targetURL p (pr_url req) = None"
  | (early) target en where "npm_targetURL p (pr_url req) = Some target" "npm_cacheable p req"
      "npm_find p env True (npm_cacheKey p target (Get (pr_header req) ''Accept'')) (ps_world st) = (Some en, ps_world st')"
      "w' = npm_serveHit env req en w"
      "ps_stats st' = (ps_stats st)\<lparr>requests := bump (requests (ps_stats st)), hits := bump (hits (ps_stats st))\<rparr>"
      "pr_method req \<in> {''GET'', ''HEAD''}"
  | (late) target w1 en where "npm_targetURL p (pr_url req) = Some target" "npm_cacheable p req"
      "npm_find p env True (npm_cacheKey p target (Get (pr_header req) ''Accept'')) (ps_world st) = (None, w1)"
      "npm_find p env True (npm_cacheKey p target (Get (pr_header req) ''Accept'')) (ne_wait env w1) = (Some en, ps_world st')"
      "w' = npm_serveHit env req en w"
      "ps_stats st' = (ps_stats st)\<lparr>requests := bump (requests (ps_stats st)), hits := bump (hits (ps_stats st))\<rparr>"
      "pr_method req \<in> {''GET'', ''HEAD''}"
  | (miss) target w1 s where "npm_targetURL p (pr_url req) = Some target"
      "npm_find p env (npm_cacheable p req) (npm_cacheKey p target (Get (pr_header req) ''Accept'')) (ps_world st) = (None, w1)"
      "npm_find p env (npm_cacheable p req) (npm_cacheKey p target (Get (pr_header req) ''Accept'')) (ne_wait env w1) = (None, ps_world s)"
      "ps_stats s = (ps_stats st)\<lparr>requests := bump (requests (ps_stats st)), misses := bump (misses (ps_stats st))\<rparr>"
      "npm_serveMiss p env req target (npm_cacheKey p target (Get (pr_header req) ''Accept'')) (npm_cacheable p req) w s = (w', st')"
      "pr_method req \<in> {''GET'', ''HEAD''}"
proof -
  let ?st = "st\<lparr>ps_stats := (ps_stats st)\<lparr>requests := bump (requests (ps_stats st))\<rparr>\<rparr>"
  consider (bad) "pr_method req \<notin> {''GET'', ''HEAD''} \<or> \<not> HasPrefix (Path (pr_url req)) (npm_path p) \<or> npm_targetURL p (pr_url req) = None"
    | (ok) target where "pr_method req \<in> {''GET'', ''HEAD''}" "HasPrefix (Path (pr_url req)) (npm_path p)"
      "npm_targetURL p (pr_url req) = Some target" by blast
  then show ?thesis
  proof cases
    case bad
    then have "ps_world st' = ps_world st" "hits (ps_stats st') = hits (ps_stats st)"
      "misses (ps_stats st') = misses (ps_stats st)" "requests (ps_stats st') = bump (requests (ps_stats st))"
      using assms by (auto simp: npm_ServeHTTP_def fail_def Let_def split: if_splits)
    then show ?thesis using direct bad by simp
  next
    case ok
    let ?c = "npm_cacheable p req" and ?key = "npm_cacheKey p target (Get (pr_header req) ''Accept'')"
    obtain r1 w1 where a1: "npm_find p env ?c ?key (ps_world st) = (r1, w1)" by fastforce
    obtain r2 w2 where a2: "npm_find p env ?c ?key (ne_wait env w1) = (r2, w2)" by fastforce
    have run: "(case r1 of
          Some en \<Rightarrow> (npm_serveHit env req en w, stat_hit (?st\<lparr>ps_world := w1\<rparr>))
        | None \<Rightarrow> (case r2 of
            Some en \<Rightarrow> (npm_serveHit env req en w, stat_hit (?st\<lparr>ps_world := w2\<rparr>))
          | None \<Rightarrow> npm_serveMiss p env req target ?key ?c w (stat_miss (?st\<lparr>ps_world := w2\<rparr>)))) = (w', st')"
      using assms ok a1 a2 by (auto simp: npm_ServeHTTP_def Let_def split: option.splits)
    show ?thesis
    proof (cases r1)
      case (Some en)
      then have "?c" using a1 by (simp add: npm_find_def split: if_splits)
      then show ?thesis using early [OF ok(3), of en] a1 run ok(1) Some by auto
    next
      case None
      note r1 = None
      show ?thesis
      proof (cases r2)
        case (Some en)
        then have "?c" using a2 by (simp add: npm_find_def split: if_splits)
        then show ?thesis using late [OF ok(3), of w1 en] a1 a2 run r1 ok(1) Some by auto
      next
        case None
        then show ?thesis
          using miss [OF ok(3) a1 [unfolded r1], of "stat_miss (?st\<lparr>ps_world := w2\<rparr>)"] a2 run r1 ok(1) by simp
      qed
    qed
  qed
qed

section \<open>The handler's contract\<close>

interpretation npm: repository_handler "npm_ServeHTTP p" "\<lambda>req. pr_method req \<notin> {''GET'', ''HEAD''}"
proof
  fix env req w st w' st'
  assume run: "npm_ServeHTTP p env req w st = (w', st')"
  then show "counted_once (ps_stats st) (ps_stats st')"
  proof (cases rule: npm_ServeHTTP_cases)
    case (miss target w1 s)
    then show ?thesis
      using npm_serveMiss_stats [of p env req target "npm_cacheKey p target (Get (pr_header req) ''Accept'')" "npm_cacheable p req" w s]
      by (simp add: counted_once_def)
  qed (simp_all add: counted_once_def)
  assume "pr_method req \<notin> {''GET'', ''HEAD''}"
  with run show "ps_world st' = ps_world st \<and> hits (ps_stats st') = hits (ps_stats st) \<and>
      misses (ps_stats st') = misses (ps_stats st)"
    by (cases rule: npm_ServeHTTP_cases) simp_all
qed

section \<open>Forwarded credentials\<close>

text \<open>A request that is not cacheable leaves the store to the other requests.\<close>

lemma npm_uncacheable_untouched:
  assumes c: "\<not> npm_cacheable p req" and run: "npm_ServeHTTP p env req w st = (w', st')"
  shows "hits (ps_stats st') = hits (ps_stats st) \<and>
    (ps_world st' = ps_world st \<or> ps_world st' = ne_wait env (ps_world st))"
  using run
proof (cases rule: npm_ServeHTTP_cases)
  case (miss target w1 s)
  let ?key = "npm_cacheKey p target (Get (pr_header req) ''Accept'')"
  have "ps_world s = ne_wait env (ps_world st)" using miss(2,3) c by (simp add: npm_find_def)
  moreover have "hits (ps_stats st') = hits (ps_stats s)" by (metis npm_serveMiss_stats(1) snd_conv miss(5))
  ultimately show ?thesis
    using npm_serveMiss_uncached [of p env req target ?key w s] miss(4,5) c by simp
qed (use c in simp_all)

text \<open>The request without its \<^verbatim>\<open>Authorization\<close> field.\<close>

definition anonymous :: "proxy_request \<Rightarrow> proxy_request" where
  "anonymous req = req\<lparr>pr_header := Header_Del (pr_header req) ''Authorization''\<rparr>"

lemma anonymous_cacheable:
  "npm_cacheable p (anonymous req) \<longleftrightarrow>
     Get (pr_header req) ''Range'' = [] \<and> \<not> RequestBypassesCache (pr_header req)"
proof -
  have n: "CanonicalHeaderKey ''Range'' = ''Range''" "CanonicalHeaderKey ''Authorization'' = ''Authorization''"
    "CanonicalHeaderKey ''Cache-Control'' = ''Cache-Control''" "CanonicalHeaderKey ''Pragma'' = ''Pragma''"
    by code_simp+
  show ?thesis
    by (simp add: npm_cacheable_def anonymous_def RequestBypassesCache_def Get_def Values_def Header_Del_def header_values_def delete_conv n)
qed

text \<open>C29.
  
  When the proxy forwards credentials, the first value of \<^verbatim>\<open>Authorization\<close> decides. If
  it is not empty, the request never touches the shared cache: it is not answered from the
  store and what it fetches is not stored; the store changes only by what other requests do
  while it waits for its lock. If it is empty, the request may use the shared cache exactly
  when it might without the field. The second case is a gap: later values of the field are
  sent upstream as well (\<open>blank_credential_shared\<close>).
\<close>

theorem npm_credentials_not_shared:
  assumes "npm_forwardAuthorization p"
  shows "if Get (pr_header req) ''Authorization'' \<noteq> []
    then (case npm_ServeHTTP p env req w st of (w', st') \<Rightarrow>
      hits (ps_stats st') = hits (ps_stats st) \<and>
      (ps_world st' = ps_world st \<or> ps_world st' = ne_wait env (ps_world st)))
    else npm_cacheable p req = npm_cacheable p (anonymous req)"
proof (cases "Get (pr_header req) ''Authorization'' = []")
  case True
  then show ?thesis by (simp add: anonymous_cacheable) (simp add: npm_cacheable_def)
next
  case False
  with assms have c: "\<not> npm_cacheable p req" by (simp add: npm_cacheable_def)
  obtain w' st' where run: "npm_ServeHTTP p env req w st = (w', st')" by fastforce
  from npm_uncacheable_untouched [OF c run] run False show ?thesis by simp
qed

text \<open>A registry that forwards credentials, and a tarball.\<close>

definition sample_npm :: npm_proxy where
  "sample_npm = \<lparr>npm_name = ''npm'', npm_path = ''/npm/'',
     npm_upstream = empty_url\<lparr>Scheme := ''https'', Host := ''r.io''\<rparr>, npm_proxyBaseURL = ''http://n/npm'',
     npm_ttl = 10, npm_forwardAuthorization = True\<rparr>"

definition sample_get :: proxy_request where
  "sample_get = \<lparr>pr_method = ''GET'', pr_url = empty_url\<lparr>Path := ''/npm/a''\<rparr>, pr_header = [], pr_canceled = False\<rparr>"

definition sample_tarball :: upstream_response where
  "sample_tarball = \<lparr>ur_status = 200, ur_header = [], ur_body = \<lparr>chunks = [''abc''], read_error = None\<rparr>\<rparr>"

definition sample_npm_env :: npm_env where
  "sample_npm_env = \<lparr>ne_now = 6, ne_client = (\<lambda>_ _ _. Inr sample_tarball), ne_context_ended = False,
     ne_wait = (\<lambda>w. w), ne_put = sample_env\<rparr>"

theorem npm_credentials_not_shared_witness:
  "case npm_ServeHTTP sample_npm sample_npm_env (sample_get\<lparr>pr_header := [(''Authorization'', [''Bearer t''])]\<rparr>) open_reply
      \<lparr>ps_world = sample_world, ps_stats = no_counts\<rparr> of (w', st') \<Rightarrow>
    hits (ps_stats st') = 0 \<and> ps_world st' = sample_world"
proof -
  have "Get [(''Authorization'', [''Bearer t''])] ''Authorization'' \<noteq> []" by code_simp
  then show ?thesis
    using npm_credentials_not_shared [where p = sample_npm and env = sample_npm_env and w = open_reply and
        req = "sample_get\<lparr>pr_header := [(''Authorization'', [''Bearer t''])]\<rparr>" and
        st = "\<lparr>ps_world = sample_world, ps_stats = no_counts\<rparr>"]
    by (simp add: sample_npm_def sample_npm_env_def no_counts_def split: prod.splits)
qed

text \<open>
  The gap: a request whose \<^verbatim>\<open>Authorization\<close> field has an empty value before a
  credential counts as cacheable, and the credential is forwarded all the same.
\<close>

theorem blank_credential_shared:
  "npm_cacheable sample_npm (sample_get\<lparr>pr_header := [(''Authorization'', [[], ''Bearer t''])]\<rparr>) \<and>
   ForwardRequestHeaders [] [(''Authorization'', [[], ''Bearer t''])] True = [(''Authorization'', [[], ''Bearer t''])]"
  by code_simp

section \<open>What a miss stores is what the next request gets\<close>

text \<open>The body that is sent and stored for an upstream answer, and the metadata with it.\<close>

definition npm_body :: "npm_proxy \<Rightarrow> upstream_response \<Rightarrow> string" where
  "npm_body p resp =
     (let raw = concat (chunks (ur_body resp)) in
      if isJSON (Get (ur_header resp) ''Content-Type'')
      then ReplaceAll raw (TrimRight (url_String (npm_upstream p)) ''/'') (npm_proxyBaseURL p) else raw)"

definition npm_metadata :: "npm_proxy \<Rightarrow> upstream_response \<Rightarrow> Metadata" where
  "npm_metadata p resp =
     (let headers = Header_Set (Header_Del (ResponseHeaders (ur_header resp)) ''Content-Encoding'') ''X-N0ding-Cache'' ''MISS'';
          h = CacheMetadataHeaders headers
      in zero_metadata\<lparr>Status := ur_status resp,
           Header := if isJSON (Get (ur_header resp) ''Content-Type'')
             then Header_Set h ''Content-Length'' (FormatInt (int (length (npm_body p resp)))) else h\<rparr>)"

lemma npm_miss_stores:
  assumes G: "pr_method req = ''GET''" "tape (rp_body w) = []" "rp_sent w = None"
    and T: "new_request_ok target" and C: "ne_client env ''GET'' (url_String target)
      (Header_Set (ForwardRequestHeaders [] (pr_header req) (npm_forwardAuthorization p)) ''Accept-Encoding'' ''identity'') = Inr resp"
    and R: "ur_status resp = 200" "read_error (ur_body resp) = None"
      "ResponseAllowsStorage (pr_header req) (ur_header resp) [''Accept'', ''Accept-Encoding'']"
      "isJSON (Get (ur_header resp) ''Content-Type'') \<longrightarrow>
        int (length (concat (chunks (ur_body resp)))) \<le> npm_maxMetadataBytes"
    and S: "storable (ne_put env) key (npm_metadata p resp) (npm_body p resp) (ps_world st)"
    and run: "npm_serveMiss p env req target key True w st = (w', st')"
  obtains m q b x where "received (rp_body w') = received (rp_body w) @ npm_body p resp" "faults (w_fs (ps_world st')) = []"
    "paths (store_root (w_store (ps_world st'))) key = (b, x)"
    "entry_of (w_fs (ps_world st')) x = Some (m, q, npm_body p resp)"
    "StoredAt m = t_store (ne_put env)" "Status m = 200" "ps_stats st' = ps_stats st"
    "map_option fst (rp_sent w') = Some 200"
proof -
  let ?m = "npm_metadata p resp" and ?b = "npm_body p resp" and ?raw = "concat (chunks (ur_body resp))"
  obtain b x where pp: "paths (store_root (w_store (ps_world st))) key = (b, x)" by fastforce
  note goal = that
  have finish: thesis
    if put: "PutStreamVerified (ne_put env) key ?m \<lparr>chunks = cs, read_error = None\<rparr> down None (ps_world st) = (None, d, v)"
      and E: "entry_of (w_fs v) x = Some (read_back (stored_metadata (ne_put env) x ?m ?b k), q, ?b)"
      and F: "faults (w_fs v) = []" and W: "ps_world st' = v" "ps_stats st' = ps_stats st"
        "received (rp_body w') = received (rp_body w) @ ?b" "map_option fst (rp_sent w') = Some 200" for cs down d v k q
  proof (rule goal)
    show "entry_of (w_fs (ps_world st')) x = Some (read_back (stored_metadata (ne_put env) x ?m ?b k), q, ?b)" using E W by simp
    show "paths (store_root (w_store (ps_world st'))) key = (b, x)" using put_root(2) [OF put] W pp by simp
  qed (use F W R(1) in \<open>simp_all add: read_back_def stored_metadata_def npm_metadata_def Let_def\<close>)
  show thesis
  proof (cases "isJSON (Get (ur_header resp) ''Content-Type'')")
    case True
    have S': "storable (ne_put env) key ?m (concat (chunks_of 32768 ?b)) (ps_world st)"
      using S by (simp add: concat_chunks_of)
    obtain k d v where put: "PutStreamVerified (ne_put env) key ?m \<lparr>chunks = chunks_of 32768 ?b, read_error = None\<rparr>
        \<lparr>received = [], tape = []\<rparr> None (ps_world st) = (None, d, v)" "faults (w_fs v) = []"
      "entry_of (w_fs v) x = Some (read_back (stored_metadata (ne_put env) x ?m ?b k),
        butlast x @ [stem_of x @ ''.body.'' @ dec_digits k], ?b)"
      using put_ok [OF S' _ _ pp, of "\<lparr>received = [], tape = []\<rparr>" None] by (auto simp: concat_chunks_of)
    have "read_limited npm_maxMetadataBytes (ur_body resp) = Inr ?raw"
      using R(2,4) True by (simp add: read_limited_def Let_def)
    then show thesis
      using run G T C R True put(1)
      by (intro finish [OF put(1,3,2)])
        (auto simp: npm_serveMiss_def npm_serveMetadata_def Let_def npm_body_def npm_metadata_def PutBytes_def PutStream_def
          bytesReader_def rp_Write_def writer_Write_def rp_WriteHeader_def)
  next
    case False
    then have body: "?b = ?raw" by (simp add: npm_body_def)
    have src: "ur_body resp = \<lparr>chunks = chunks (ur_body resp), read_error = None\<rparr>" using R(2) by (cases "ur_body resp") simp
    obtain k d v where put: "PutStreamVerified (ne_put env) key ?m \<lparr>chunks = chunks (ur_body resp), read_error = None\<rparr>
        (rp_body w) None (ps_world st) = (None, d, v)" "faults (w_fs v) = []" "received d = received (rp_body w) @ ?raw"
      "entry_of (w_fs v) x = Some (read_back (stored_metadata (ne_put env) x ?m ?b k),
        butlast x @ [stem_of x @ ''.body.'' @ dec_digits k], ?b)"
      using put_ok [OF S [unfolded body] G(2) _ pp, of None] by (auto simp: body)
    show thesis
      using run G T C R False put(1,3) src
      by (intro finish [OF put(1,4,2)])
        (auto simp: npm_serveMiss_def Let_def npm_body_def npm_metadata_def PutStream_def rp_WriteHeader_def)
  qed
qed

text \<open>
  A GET that misses, whose complete answer \<open>resp\<close> may be stored and can be (the file
  system does not fail, the budget has room, the metadata record can be read back, and
  package metadata is within the limit of 64 MiB for rewriting, above which it is passed on
  unchanged and not stored).
\<close>

definition npm_stores :: "npm_proxy \<Rightarrow> npm_env \<Rightarrow> proxy_request \<Rightarrow> world \<Rightarrow> upstream_response \<Rightarrow> bool" where
  "npm_stores p env req v resp \<longleftrightarrow>
     pr_method req = ''GET'' \<and> HasPrefix (Path (pr_url req)) (npm_path p) \<and> npm_cacheable p req \<and>
     (case npm_targetURL p (pr_url req) of
        None \<Rightarrow> False
      | Some target \<Rightarrow>
          let key = npm_cacheKey p target (Get (pr_header req) ''Accept'') in
          new_request_ok target \<and>
          ne_client env ''GET'' (url_String target)
            (Header_Set (ForwardRequestHeaders [] (pr_header req) (npm_forwardAuthorization p)) ''Accept-Encoding'' ''identity'')
            = Inr resp \<and>
          ur_status resp = 200 \<and> read_error (ur_body resp) = None \<and>
          ResponseAllowsStorage (pr_header req) (ur_header resp) [''Accept'', ''Accept-Encoding''] \<and>
          (isJSON (Get (ur_header resp) ''Content-Type'') \<longrightarrow>
             int (length (concat (chunks (ur_body resp)))) \<le> npm_maxMetadataBytes) \<and>
          (case npm_find p env True key v of
             (None, v1) \<Rightarrow>
               (case npm_find p env True key (ne_wait env v1) of
                  (None, v2) \<Rightarrow> storable (ne_put env) key (npm_metadata p resp) (npm_body p resp) v2
                | _ \<Rightarrow> False)
           | _ \<Rightarrow> False))"

lemma npm_serveHit_reply:
  assumes "pr_method req = ''GET''" "tape (rp_body w) = []" "rp_sent w = None"
  shows "received (rp_body (npm_serveHit env req en w)) = received (rp_body w) @ Body en"
    "\<exists>h. rp_sent (npm_serveHit env req en w) = Some (Status (entry_Metadata en), h)"
  using assms
  by (simp_all add: npm_serveHit_def Let_def rp_Copy_def copy_through_plain concat_chunks_of rp_WriteHeader_def rp_Set_def)

text \<open>C9.
  
  Read-through: the client of a miss whose answer can be stored (\<open>npm_stores\<close>) gets status
  200 and the body, rewritten when it is package metadata, and the next request for it,
  while it is fresh, is a hit that sends the same bytes with the same status.
\<close>

theorem npm_next_request_hits:
  assumes "npm_stores p env req (ps_world st) resp" "tape (rp_body w) = []" "rp_sent w = None"
    "time_Sub (ne_now env') (t_store (ne_put env)) < npm_ttl p" "tape (rp_body v) = []" "rp_sent v = None"
  shows "case npm_ServeHTTP p env req w st of (w', st') \<Rightarrow>
    received (rp_body w') = received (rp_body w) @ npm_body p resp \<and> map_option fst (rp_sent w') = Some 200 \<and>
    hits (ps_stats st') = hits (ps_stats st) \<and> misses (ps_stats st') = bump (misses (ps_stats st)) \<and>
    (case npm_ServeHTTP p env' req v st' of (v', st'') \<Rightarrow>
       hits (ps_stats st'') = bump (hits (ps_stats st')) \<and>
       received (rp_body v') = received (rp_body v) @ npm_body p resp \<and> map_option fst (rp_sent v') = Some 200)"
proof -
  obtain target v1 v2 where A: "npm_targetURL p (pr_url req) = Some target"
      "pr_method req = ''GET''" "HasPrefix (Path (pr_url req)) (npm_path p)" "npm_cacheable p req" "new_request_ok target"
      "ne_client env ''GET'' (url_String target)
        (Header_Set (ForwardRequestHeaders [] (pr_header req) (npm_forwardAuthorization p)) ''Accept-Encoding'' ''identity'')
        = Inr resp"
      "ur_status resp = 200" "read_error (ur_body resp) = None"
      "ResponseAllowsStorage (pr_header req) (ur_header resp) [''Accept'', ''Accept-Encoding'']"
      "isJSON (Get (ur_header resp) ''Content-Type'') \<longrightarrow>
        int (length (concat (chunks (ur_body resp)))) \<le> npm_maxMetadataBytes"
    and F: "npm_find p env True (npm_cacheKey p target (Get (pr_header req) ''Accept'')) (ps_world st) = (None, v1)"
      "npm_find p env True (npm_cacheKey p target (Get (pr_header req) ''Accept'')) (ne_wait env v1) = (None, v2)"
      "storable (ne_put env) (npm_cacheKey p target (Get (pr_header req) ''Accept'')) (npm_metadata p resp) (npm_body p resp) v2"
    using assms(1) by (auto simp: npm_stores_def Let_def split: option.splits prod.splits)
  let ?key = "npm_cacheKey p target (Get (pr_header req) ''Accept'')"
  let ?s = "stat_miss (st\<lparr>ps_stats := (ps_stats st)\<lparr>requests := bump (requests (ps_stats st))\<rparr>, ps_world := v2\<rparr>)"
  obtain w' st' where miss: "npm_serveMiss p env req target ?key True w ?s = (w', st')" by fastforce
  have run: "npm_ServeHTTP p env req w st = (w', st')"
    using A F(1,2) miss by (simp add: npm_ServeHTTP_def Let_def)
  have S: "storable (ne_put env) ?key (npm_metadata p resp) (npm_body p resp) (ps_world ?s)" using F(3) by simp
  obtain m q b x where E: "received (rp_body w') = received (rp_body w) @ npm_body p resp"
    "faults (w_fs (ps_world st')) = []" "paths (store_root (w_store (ps_world st'))) ?key = (b, x)"
    "entry_of (w_fs (ps_world st')) x = Some (m, q, npm_body p resp)"
    "StoredAt m = t_store (ne_put env)" "Status m = 200" "ps_stats st' = ps_stats ?s"
    "map_option fst (rp_sent w') = Some 200"
    by (rule npm_miss_stores [OF A(2) assms(2,3) A(5,6,7,8,9,10) S miss]) (rule that)
  let ?en = "\<lparr>entry_Metadata = m, BodyPath = q, Body = npm_body p resp\<rparr>"
  have "fst (Lookup (ne_now env') (ne_now env') ?key (npm_ttl p) (w_store (ps_world st')) (w_fs (ps_world st'))) = Inr (Some ?en)"
    by (rule Lookup_exact [OF E(2,3,4)]) (use assms(4) E(5) in simp)
  then obtain g where "Lookup (ne_now env') (ne_now env') ?key (npm_ttl p) (w_store (ps_world st')) (w_fs (ps_world st'))
      = (Inr (Some ?en), g)" by (metis prod.collapse)
  then have "npm_ServeHTTP p env' req v st' = (npm_serveHit env' req ?en v,
      stat_hit (st'\<lparr>ps_stats := (ps_stats st')\<lparr>requests := bump (requests (ps_stats st'))\<rparr>,
        ps_world := (ps_world st')\<lparr>w_fs := g\<rparr>\<rparr>))"
    using A by (simp add: npm_ServeHTTP_def Let_def npm_find_def)
  moreover have "received (rp_body (npm_serveHit env' req ?en v)) = received (rp_body v) @ npm_body p resp"
    "map_option fst (rp_sent (npm_serveHit env' req ?en v)) = Some 200"
    using npm_serveHit_reply [OF A(2) assms(5,6), of env' ?en] E(6) by auto
  ultimately show ?thesis using run E(1,7,8) by simp
qed

lemma sample_tarball_metadata:
  "npm_metadata sample_npm sample_tarball = zero_metadata\<lparr>Status := 200\<rparr>"
  "npm_body sample_npm sample_tarball = ''abc''"
  "CacheMetadataHeaders [] = []"
  by code_simp+

lemma tarball_text_short:
  assumes "is_meta p"
  shows "\<exists>js. marshal_Metadata (stored_metadata sample_env p (npm_metadata sample_npm sample_tarball) ''abc'' 7) = Some js \<and>
    length js \<le> maxMetadataBytes"
proof -
  have l: "length (stem_of p @ ''.body.'' @ dec_digits 7) = 71"
    using is_metaE(2) [OF assms] by (simp add: dec_digits.simps)
  have n: "FormatInt 200 = ''200''" "FormatInt 3 = ''3''" by code_simp+
  have q: "length (quote_body (stem_of p @ ''.body.'' @ dec_digits 7)) \<le> 426"
    using length_quote_body [of "stem_of p @ ''.body.'' @ dec_digits 7"] l by simp
  have k: "length (quote_body ''status'') \<le> 60" "length (quote_body ''header'') \<le> 60"
    "length (quote_body ''stored_at'') \<le> 60" "length (quote_body ''content_bytes'') \<le> 100"
    "length (quote_body ''body_file'') \<le> 60" "length (quote_body ''0001-01-01T00:00:00.000000005Z'') \<le> 200"
    by (rule order_trans [OF length_quote_body], simp)+
  have t: "t_store sample_env = 5" by (simp add: sample_env_def)
  show ?thesis
    using q k sample_time sample_tarball_metadata
    by (simp add: marshal_Metadata_def stored_metadata_def metadata_json_def header_json_def n json_quote_def
        maxMetadataBytes_def zero_metadata_def t)
qed

lemma tarball_storable: "storable sample_env key (npm_metadata sample_npm sample_tarball) ''abc'' sample_world"
proof -
  obtain b p where pp: "paths (store_root (w_store sample_world)) key = (b, p)" by fastforce
  have "place_free sample_env p (w_fs sample_world)" by (simp add: place_free_def sample_env_def)
  moreover have "accounted sample_env p m ''abc'' sample_world" for m
    by (simp add: accounted_def put_admit_def)
  moreover have "recordable sample_env p (npm_metadata sample_npm sample_tarball) ''abc''"
    using tarball_text_short [OF paths_meta(2) [OF pp]]
    by (auto simp: recordable_def encodable_def is_i64_def sample_env_def sample_tarball_metadata zero_metadata_def valid_utf8_ascii)
  ultimately show ?thesis by (simp add: storable_def pp)
qed

lemma sample_absent: "npm_find p env True key sample_world = (None, sample_world)"
proof -
  obtain b q where pp: "paths [''cache''] key = (b, q)" by fastforce
  show ?thesis
    by (simp add: npm_find_def Lookup_def sample_world_def pp readMetadata_def os_ReadFile_def os_Stat_def tick_def next_fault_def node_at_def)
qed

lemma sample_npm_stores: "npm_stores sample_npm sample_npm_env sample_get sample_world sample_tarball"
proof -
  have "case npm_targetURL sample_npm (pr_url sample_get) of None \<Rightarrow> False | Some t \<Rightarrow> new_request_ok t" by code_simp
  then obtain t where t: "npm_targetURL sample_npm (pr_url sample_get) = Some t" "new_request_ok t"
    by (auto split: option.splits)
  have c: "npm_cacheable sample_npm sample_get" "HasPrefix (Path (pr_url sample_get)) (npm_path sample_npm)"
    "ResponseAllowsStorage (pr_header sample_get) (ur_header sample_tarball) [''Accept'', ''Accept-Encoding'']" by code_simp+
  show ?thesis
    using t c sample_absent tarball_storable sample_tarball_metadata(2)
    by (simp add: npm_stores_def Let_def sample_npm_env_def)
      (simp add: sample_get_def sample_tarball_def npm_maxMetadataBytes_def)
qed

theorem npm_next_request_hits_witness:
  "case npm_ServeHTTP sample_npm sample_npm_env sample_get open_reply \<lparr>ps_world = sample_world, ps_stats = no_counts\<rparr> of
     (w', st') \<Rightarrow> received (rp_body w') = ''abc'' \<and> map_option fst (rp_sent w') = Some 200 \<and>
       (case npm_ServeHTTP sample_npm (sample_npm_env\<lparr>ne_now := 8\<rparr>) sample_get open_reply st' of
          (v', st'') \<Rightarrow> hits (ps_stats st'') = 1 \<and> received (rp_body v') = ''abc'' \<and>
            map_option fst (rp_sent v') = Some 200)"
  using npm_next_request_hits [where p = sample_npm and env = sample_npm_env and req = sample_get and resp = sample_tarball
      and st = "\<lparr>ps_world = sample_world, ps_stats = no_counts\<rparr>" and w = open_reply and v = open_reply
      and env' = "sample_npm_env\<lparr>ne_now := 8\<rparr>"] sample_npm_stores sample_tarball_metadata(2)
  by (simp add: sample_npm_env_def sample_npm_def time_Sub_def sample_env_def open_reply_def no_counts_def bump_def u64_def
      split: prod.splits)

section \<open>HEAD of package metadata\<close>

text \<open>
  The length of package metadata is lost on HEAD: the answer to a HEAD has no body, the
  proxy measures that empty body, and replaces the upstream's length by zero.
\<close>

theorem npm_head_length_zero:
  "case npm_ServeHTTP sample_npm
      (sample_npm_env\<lparr>ne_client := (\<lambda>_ _ _. Inr \<lparr>ur_status = 200, ur_header = [(''Content-Type'', [''application/json'']),
         (''Content-Length'', [''5120''])], ur_body = \<lparr>chunks = [], read_error = None\<rparr>\<rparr>)\<rparr>)
      (sample_get\<lparr>pr_method := ''HEAD'', pr_header := [(''Cache-Control'', [''no-cache''])]\<rparr>)
      open_reply \<lparr>ps_world = sample_world, ps_stats = no_counts\<rparr> of
     (w', _) \<Rightarrow> map_option (\<lambda>(s, h). (s, Get h ''Content-Length'')) (rp_sent w') = Some (200, ''0'')"
proof -
  let ?req = "sample_get\<lparr>pr_method := ''HEAD'', pr_header := [(''Cache-Control'', [''no-cache''])]\<rparr>"
  let ?h = "[(''Content-Type'', [''application/json'']), (''Content-Length'', [''5120''])]"
  have "case npm_targetURL sample_npm (pr_url sample_get) of None \<Rightarrow> False | Some t \<Rightarrow> new_request_ok t" by code_simp
  then obtain t where t: "npm_targetURL sample_npm (pr_url sample_get) = Some t" "new_request_ok t"
    by (auto split: option.splits)
  have c: "npm_cacheable sample_npm ?req = False" "HasPrefix (Path (pr_url sample_get)) (npm_path sample_npm)"
    "isJSON (Get ?h ''Content-Type'')" by code_simp+
  have h: "Get (CopyHeaders [] (Header_Set (Header_Set (Header_Del (ResponseHeaders ?h) ''Content-Encoding'')
      ''X-N0ding-Cache'' ''MISS'') ''Content-Length'' ''0'')) ''Content-Length'' = ''0''" by code_simp
  have z: "FormatInt 0 = ''0''" "ReplaceAll [] o' n = []" for o' n
    by (code_simp, simp add: ReplaceAll.simps)
  show ?thesis
    using t c h z
    by (simp add: npm_ServeHTTP_def npm_find_def npm_serveMiss_def npm_serveMetadata_def Let_def read_limited_def
        npm_maxMetadataBytes_def sample_npm_env_def open_reply_def rp_WriteHeader_def)
qed

end
