(* ===== verification/Oci_Theorems.thy ===== *)
theory Oci_Theorems
  imports Oci_Proxy Repository_Handler
begin

text \<open>
  What the OCI proxy guarantees: whatever requests do, every stored body hashes to the
  digest stored with it, and a hit sends exactly a body whose digest the upstream has
  confirmed for the caller's own credentials.
\<close>

section \<open>Frames\<close>

lemma oci_lookup_frame:
  assumes "oci_lookup env key ttl w = (r, w')"
  shows "w_store w' = w_store w" "file_at (w_fs w') = file_at (w_fs w)"
    "node_at (w_fs w') q = Some Directory \<longleftrightarrow> node_at (w_fs w) q = Some Directory"
proof -
  obtain x g where lk: "Lookup (oe_now env) (oe_now env) key ttl (w_store w) (w_fs w) = (x, g)" by fastforce
  then have "w' = w\<lparr>w_fs := g\<rparr>" using assms by (auto simp: oci_lookup_def split: sum.splits)
  then show "w_store w' = w_store w" "file_at (w_fs w') = file_at (w_fs w)"
    "node_at (w_fs w') q = Some Directory \<longleftrightarrow> node_at (w_fs w) q = Some Directory"
    using Lookup_files [OF lk] by simp_all
qed

lemma authorized_lookup_frame:
  assumes "authorized_lookup env auth req target key ttl w = (r, w')"
  shows "same_files w' w"
proof -
  obtain x w1 where "oci_lookup env key ttl w = (x, w1)" by fastforce
  moreover from this have "w' = w1" using assms by (auto simp: authorized_lookup_def split: option.splits if_splits)
  ultimately show ?thesis
    using oci_lookup_frame unfolding same_files_def by blast
qed

lemma serveMiss_uncached:
  "ps_world (snd (oci_serveMiss env req target key kind rd False w st)) = ps_world st"
  by (simp add: oci_serveMiss_def Let_def split: sum.split)

lemma cacheManifest_stats [simp]:
  "hits (ps_stats (snd (cacheManifest env req resp hs chs key d w st))) = hits (ps_stats st)"
  "misses (ps_stats (snd (cacheManifest env req resp hs chs key d w st))) = misses (ps_stats st)"
  "requests (ps_stats (snd (cacheManifest env req resp hs chs key d w st))) = requests (ps_stats st)"
  by (simp_all add: cacheManifest_def fail_def Let_def split: sum.split)

lemma cacheBlob_stats [simp]:
  "hits (ps_stats (snd (cacheBlob env req resp hs chs key d w st))) = hits (ps_stats st)"
  "misses (ps_stats (snd (cacheBlob env req resp hs chs key d w st))) = misses (ps_stats st)"
  "requests (ps_stats (snd (cacheBlob env req resp hs chs key d w st))) = requests (ps_stats st)"
  by (simp_all add: cacheBlob_def Let_def recordStreamError_def split: prod.split)

lemma serveMiss_stats [simp]:
  "hits (ps_stats (snd (oci_serveMiss env req target key kind rd c w st))) = hits (ps_stats st)"
  "misses (ps_stats (snd (oci_serveMiss env req target key kind rd c w st))) = misses (ps_stats st)"
  "requests (ps_stats (snd (oci_serveMiss env req target key kind rd c w st))) = requests (ps_stats st)"
  by (simp_all add: oci_serveMiss_def fail_def Let_def split: sum.split)

lemma serveHit_stats [simp]:
  "hits (ps_stats (snd (oci_serveHit env req en w st))) = hits (ps_stats st)"
  "misses (ps_stats (snd (oci_serveHit env req en w st))) = misses (ps_stats st)"
  "requests (ps_stats (snd (oci_serveHit env req en w st))) = requests (ps_stats st)"
  by (simp_all add: oci_serveHit_def Let_def split: prod.split option.split)

lemma serveHit_world [simp]: "ps_world (snd (oci_serveHit env req en w st)) = ps_world st"
  by (simp add: oci_serveHit_def Let_def split: prod.split option.split)

text \<open>How a request ends: without the store, by a hit before or after the lock, or by a miss.\<close>

lemma oci_ServeHTTP_cases [consumes 1, case_names direct early late miss]:
  assumes "oci_ServeHTTP p env req w st = (w', st')"
  obtains (direct) "ps_world st' = ps_world st" "hits (ps_stats st') = hits (ps_stats st)"
      "misses (ps_stats st') = misses (ps_stats st)" "requests (ps_stats st') = bump (requests (ps_stats st))"
  | (early) target key ttl en s where "oci_targetURL p (pr_url req) = Some target"
      "authorized_lookup env (oe_auth1 env) req target key ttl (ps_world st) = (Some en, ps_world s)"
      "oci_serveHit env req en w s = (w', st')"
      "ps_stats s = (ps_stats st)\<lparr>requests := bump (requests (ps_stats st)), hits := bump (hits (ps_stats st))\<rparr>"
      "pr_method req \<in> {''GET'', ''HEAD''}"
  | (late) target key ttl w1 en s where "oci_targetURL p (pr_url req) = Some target"
      "authorized_lookup env (oe_auth1 env) req target key ttl (ps_world st) = (None, w1)"
      "authorized_lookup env (oe_auth2 env) req target key ttl (oe_wait env w1) = (Some en, ps_world s)"
      "oci_serveHit env req en w s = (w', st')"
      "ps_stats s = (ps_stats st)\<lparr>requests := bump (requests (ps_stats st)), hits := bump (hits (ps_stats st))\<rparr>"
      "pr_method req \<in> {''GET'', ''HEAD''}"
  | (miss) target key ttl w1 s kind rd where
      "authorized_lookup env (oe_auth1 env) req target key ttl (ps_world st) = (None, w1)"
      "authorized_lookup env (oe_auth2 env) req target key ttl (oe_wait env w1) = (None, ps_world s)"
      "ps_stats s = (ps_stats st)\<lparr>requests := bump (requests (ps_stats st)), misses := bump (misses (ps_stats st))\<rparr>"
      "pr_method req \<in> {''GET'', ''HEAD''}"
      "oci_serveMiss env req target key kind rd True w s = (w', st')"
proof -
  let ?st = "st\<lparr>ps_stats := (ps_stats st)\<lparr>requests := bump (requests (ps_stats st))\<rparr>\<rparr>"
  let ?range = "Get (pr_header req) ''Range'' \<noteq> []"
  let ?st1 = "if ?range then ?st\<lparr>ps_stats := (ps_stats ?st)\<lparr>rangeRequests := bump (rangeRequests (ps_stats ?st))\<rparr>\<rparr> else ?st"
  have st1: "ps_world ?st1 = ps_world st" "hits (ps_stats ?st1) = hits (ps_stats st)"
    "misses (ps_stats ?st1) = misses (ps_stats st)" "requests (ps_stats ?st1) = bump (requests (ps_stats st))" by simp_all
  consider (bad) "pr_method req \<noteq> ''GET'' \<and> pr_method req \<noteq> ''HEAD'' \<or> \<not> HasPrefix (Path (pr_url req)) (oci_path p)
      \<or> oci_targetURL p (pr_url req) = None"
    | (ok) target where "pr_method req = ''GET'' \<or> pr_method req = ''HEAD''" "HasPrefix (Path (pr_url req)) (oci_path p)"
      "oci_targetURL p (pr_url req) = Some target" by blast
  then show ?thesis
  proof cases
    case bad
    then have "ps_world st' = ps_world st \<and> hits (ps_stats st') = hits (ps_stats st) \<and>
        misses (ps_stats st') = misses (ps_stats st) \<and> requests (ps_stats st') = bump (requests (ps_stats st))"
      using assms by (auto simp: oci_ServeHTTP_def fail_def Let_def split: if_splits)
    then show ?thesis using direct by blast
  next
    case ok
    obtain kind rd res where c: "classify (Path (pr_url req)) = (kind, rd, res)" by (metis prod_cases3)
    let ?key = "oci_cacheKey p target (Get (pr_header req) ''Accept'')" and ?ttl = "cacheTTL p kind rd"
    obtain r1 w1 where a1: "authorized_lookup env (oe_auth1 env) req target ?key ?ttl (ps_world st) = (r1, w1)" by fastforce
    obtain r2 w2 where a2: "authorized_lookup env (oe_auth2 env) req target ?key ?ttl (oe_wait env w1) = (r2, w2)" by fastforce
    show ?thesis
    proof (cases "res \<and> \<not> ?range \<and> \<not> RequestBypassesCache (pr_header req)")
      case False
      then have run: "oci_serveMiss env req target ?key kind rd False w ?st1 = (w', st')"
        using assms ok c by (auto simp: oci_ServeHTTP_def Let_def split: if_splits)
      have "ps_world st' = ps_world ?st1"
        using serveMiss_uncached [of env req target ?key kind rd w ?st1] by (simp only: run snd_conv)
      moreover have "hits (ps_stats st') = hits (ps_stats ?st1)" "misses (ps_stats st') = misses (ps_stats ?st1)"
        "requests (ps_stats st') = requests (ps_stats ?st1)"
        using serveMiss_stats [of env req target ?key kind rd False w ?st1] by (simp_all only: run snd_conv)
      ultimately show ?thesis using direct by (simp only: st1)
    next
      case True
      have run: "(case r1 of
          Some en \<Rightarrow> oci_serveHit env req en w (stat_hit (?st\<lparr>ps_world := w1\<rparr>))
        | None \<Rightarrow> (case r2 of
            Some en \<Rightarrow> oci_serveHit env req en w (stat_hit (?st\<lparr>ps_world := w2\<rparr>))
          | None \<Rightarrow> oci_serveMiss env req target ?key kind rd True w (stat_miss (?st\<lparr>ps_world := w2\<rparr>)))) = (w', st')"
        using assms ok c True a1 a2 by (auto simp: oci_ServeHTTP_def Let_def split: option.splits)
      show ?thesis
      proof (cases r1)
        case (Some en)
        then show ?thesis using a1 run ok(1) early [OF ok(3), of ?key ?ttl en "stat_hit (?st\<lparr>ps_world := w1\<rparr>)"] by simp
      next
        case None
        note r1 = None
        show ?thesis
        proof (cases r2)
          case (Some en)
          then show ?thesis using a2 run r1 ok(1) late [OF ok(3) a1 [unfolded r1], of en "stat_hit (?st\<lparr>ps_world := w2\<rparr>)"] by simp
        next
          case None
          then show ?thesis using a2 run r1 ok(1) miss [OF a1 [unfolded r1], of "stat_miss (?st\<lparr>ps_world := w2\<rparr>)" kind rd] by simp
        qed
      qed
    qed
  qed
qed

interpretation oci: repository_handler "oci_ServeHTTP p" "\<lambda>req. pr_method req \<notin> {''GET'', ''HEAD''}"
proof
  fix env req w st w' st'
  assume run: "oci_ServeHTTP p env req w st = (w', st')"
  then show "counted_once (ps_stats st) (ps_stats st')"
  proof (cases rule: oci_ServeHTTP_cases)
    case direct
    then show ?thesis by (simp add: counted_once_def)
  next
    case (early target key ttl en s)
    then show ?thesis using serveHit_stats [of env req en w s] by (simp add: counted_once_def)
  next
    case (late target key ttl w1 en s)
    then show ?thesis using serveHit_stats [of env req en w s] by (simp add: counted_once_def)
  next
    case (miss target key ttl w1 s kind rd)
    then show ?thesis using serveMiss_stats [of env req target key kind rd True w s] by (simp add: counted_once_def)
  qed
  assume "pr_method req \<notin> {''GET'', ''HEAD''}"
  with run show "ps_world st' = ps_world st \<and> hits (ps_stats st') = hits (ps_stats st) \<and>
      misses (ps_stats st') = misses (ps_stats st)"
    by (cases rule: oci_ServeHTTP_cases) simp_all
qed

section \<open>The store stays verified\<close>

text \<open>
  What the requests that run while this one waits for its lock must keep: bodies verified
  and not replaced by directories, and the random numbers this request draws for its
  files still unused.
\<close>

definition tidy :: "fs \<Rightarrow> bool" where
  "tidy f \<longleftrightarrow> verified f \<and> (\<forall>q. is_body q \<longrightarrow> node_at f q \<noteq> Some Directory)"

definition quiet_wait :: "oci_env \<Rightarrow> world \<Rightarrow> bool" where
  "quiet_wait env w \<longleftrightarrow>
     (\<forall>w1. same_files w1 w \<longrightarrow>
        tidy (w_fs (oe_wait env w1)) \<and>
        (\<forall>key. new_numbers (oe_put env) (key_path (oe_wait env w1) key) (w_fs (oe_wait env w1))))"

text \<open>C3.
  
  Whatever the upstream answers, whichever reads, client writes and system calls fail, a
  request leaves every stored body hashing to the digest stored with it: a manifest or
  blob that does not match its digest never becomes an entry.
\<close>

theorem oci_keeps_verified:
  assumes "verified (w_fs (ps_world st))" "quiet_wait env (ps_world st)"
    "\<And>verb u h resp. oe_miss env verb u h = Inr resp \<Longrightarrow> is_i64 (int (length (concat (chunks (ur_body resp)))))"
  shows "case oci_ServeHTTP p env req w st of (w', st') \<Rightarrow> verified (w_fs (ps_world st'))"
proof -
  have miss_verified: "verified (w_fs (ps_world (snd (oci_serveMiss env req target key kind rd True w s))))"
    if "new_numbers (oe_put env) (key_path (ps_world s) key) (w_fs (ps_world s))" "verified (w_fs (ps_world s))"
    for target key kind rd s
    by (rule serveMiss_verified [OF that assms(3)])
  have hit: "verified (w_fs w')" if "authorized_lookup env a req target key ttl v = (r, w')" "verified (w_fs v)"
    for a target key ttl v r w'
    using verified_files [OF _ that(2), of "w_fs w'"] authorized_lookup_frame [OF that(1)] by (simp add: same_files_def)
  obtain w' st' where run: "oci_ServeHTTP p env req w st = (w', st')" by fastforce
  have "verified (w_fs (ps_world st'))"
    using run
  proof (cases rule: oci_ServeHTTP_cases)
    case direct
    then show ?thesis using assms(1) by simp
  next
    case (early target key ttl en s)
    then have "ps_world st' = ps_world s" using serveHit_world [of env req en w s] by simp
    then show ?thesis using hit [OF early(2) assms(1)] by simp
  next
    case (late target key ttl w1 en s)
    have "tidy (w_fs (oe_wait env w1))"
      using assms(2) authorized_lookup_frame [OF late(2)] by (simp add: quiet_wait_def)
    moreover have "ps_world st' = ps_world s" using serveHit_world [of env req en w s] late(4) by simp
    ultimately show ?thesis using hit [OF late(3)] by (simp add: tidy_def)
  next
    case (miss target key ttl w1 s kind rd)
    have F: "w_store (ps_world s) = w_store (oe_wait env w1)" "file_at (w_fs (ps_world s)) = file_at (w_fs (oe_wait env w1))"
      using authorized_lookup_frame [OF miss(2)] by (simp_all add: same_files_def)
    have Q: "tidy (w_fs (oe_wait env w1))"
      "new_numbers (oe_put env) (key_path (oe_wait env w1) key) (w_fs (oe_wait env w1))"
      using assms(2) authorized_lookup_frame [OF miss(1)] by (simp_all add: quiet_wait_def)
    have "new_numbers (oe_put env) (key_path (ps_world s) key) (w_fs (ps_world s))"
      using Q(2) new_numbers_files [OF F(2)] F(1) by (simp add: key_path_def)
    moreover have "verified (w_fs (ps_world s))" using hit [OF miss(2)] Q(1) by (simp add: tidy_def)
    ultimately show ?thesis using miss_verified [of s key target kind rd] miss(5) by simp
  qed
  then show ?thesis by (simp add: run)
qed

text \<open>A registry, a request for a tag, and an upstream whose digest is wrong.\<close>

definition sample_oci :: oci_proxy where
  "sample_oci = \<lparr>oci_name = ''oci'', oci_path = ''/v2/'',
     oci_upstream = empty_url\<lparr>Scheme := ''https'', Host := ''r.io''\<rparr>, oci_registry = ''n0ding:8080'', oci_ttl = 10\<rparr>"

definition sample_pull :: proxy_request where
  "sample_pull = \<lparr>pr_method = ''GET'', pr_url = empty_url\<lparr>Path := ''/v2/a/manifests/t''\<rparr>, pr_header = [], pr_canceled = False\<rparr>"

definition digest_client :: "string \<Rightarrow> client" where
  "digest_client d = (\<lambda>_ _ _. Inr \<lparr>ur_status = 200, ur_header = [(''Docker-Content-Digest'', [d])],
     ur_body = \<lparr>chunks = [''abc''], read_error = None\<rparr>\<rparr>)"

definition sample_oci_env :: "string \<Rightarrow> oci_env" where
  "sample_oci_env d = \<lparr>oe_now = 6, oe_auth1 = digest_client d, oe_auth2 = digest_client d, oe_miss = digest_client d,
     oe_wait = (\<lambda>w. w), oe_put = sample_env\<lparr>rnd_body := [9]\<rparr>\<rparr>"

lemma tidy_same: "same_files w1 w \<Longrightarrow> tidy (w_fs w) \<Longrightarrow> tidy (w_fs w1)"
  using verified_files [of "w_fs w" "w_fs w1"] by (auto simp: tidy_def same_files_def)

text \<open>Without other requests, waiting keeps a tidy store tidy.\<close>

lemma quiet_alone:
  assumes "tidy (w_fs w)" "oe_wait env = (\<lambda>w. w)" "\<And>key. new_numbers (oe_put env) (key_path w key) (w_fs w)"
  shows "quiet_wait env w"
  unfolding quiet_wait_def
proof (intro allI impI conjI)
  fix w1 assume s: "same_files w1 w"
  then show "tidy (w_fs (oe_wait env w1))" using tidy_same assms(1,2) by simp
  fix key
  show "new_numbers (oe_put env) (key_path (oe_wait env w1) key) (w_fs (oe_wait env w1))"
    using assms(3) [of key] new_numbers_files [of "w_fs w1" "w_fs w"] s
    by (simp add: assms(2) same_files_def key_path_def)
qed

lemma sample_tidy: "tidy (w_fs sample_world)"
  by (simp add: tidy_def verified_def entry_of_def meta_at_def)

theorem oci_keeps_verified_witness:
  "case oci_ServeHTTP sample_oci (sample_oci_env ''sha256:00'') sample_pull open_reply
      \<lparr>ps_world = sample_world, ps_stats = no_counts\<rparr> of (w', st') \<Rightarrow> verified (w_fs (ps_world st'))"
proof (rule oci_keeps_verified)
  show "verified (w_fs (ps_world \<lparr>ps_world = sample_world, ps_stats = no_counts\<rparr>))"
    using sample_tidy by (simp add: tidy_def)
  show "quiet_wait (sample_oci_env ''sha256:00'') (ps_world \<lparr>ps_world = sample_world, ps_stats = no_counts\<rparr>)"
    by (rule quiet_alone) (use sample_tidy in \<open>simp_all add: sample_oci_env_def new_numbers_def meta_at_def\<close>)
  show "is_i64 (int (length (concat (chunks (ur_body resp)))))"
    if "oe_miss (sample_oci_env ''sha256:00'') verb u h = Inr resp" for verb u h resp
    using that by (auto simp: sample_oci_env_def digest_client_def is_i64_def)
qed

section \<open>Hits\<close>

lemma serveHit_body:
  assumes "pr_method req = ''GET''" "tape (rp_body w) = []"
  shows "received (rp_body (fst (oci_serveHit env req en w st))) = received (rp_body w) @ Body en"
  using assms by (simp add: oci_serveHit_def Let_def rp_Copy_def copy_through_plain concat_chunks_of)

lemma authorized_hit:
  assumes "authorized_lookup env auth req target key ttl v = (Some en, w')" "tidy (w_fs v)"
  shows "\<exists>resp. auth ''HEAD'' (url_String target) (forwarded (pr_header req)) = Inr resp \<and>
    200 \<le> ur_status resp \<and> ur_status resp < 300 \<and>
    ToLower (Get (ur_header resp) ''Docker-Content-Digest'') =
      ''sha256:'' @ hex_EncodeToString (sha256_Sum256 (Body en))"
proof -
  have lk: "oci_lookup env key ttl v = (Some en, w')"
    and au: "authorizeCacheHit auth req target (ContentDigest (entry_Metadata en))"
    using assms(1) by (auto simp: authorized_lookup_def split: prod.splits option.splits if_splits)
  obtain resp where r: "auth ''HEAD'' (url_String target) (forwarded (pr_header req)) = Inr resp"
    "200 \<le> ur_status resp" "ur_status resp < 300"
    "EqualFold (Get (ur_header resp) ''Docker-Content-Digest'') (ContentDigest (entry_Metadata en))"
    using au by (auto simp: authorizeCacheHit_def Let_def split: if_splits sum.splits)
  obtain g where look: "Lookup (oe_now env) (oe_now env) key ttl (w_store v) (w_fs v) = (Inr (Some en), g)"
    using lk by (auto simp: oci_lookup_def split: prod.splits sum.splits)
  obtain b p where pp: "paths (store_root (w_store v)) key = (b, p)" by fastforce
  have "entry_of (w_fs v) p = Some (entry_Metadata en, BodyPath en, Body en)"
    using Lookup_hit [OF look pp] assms(2) resolveE(2) by (auto simp: tidy_def)
  then have "verifySum (sha256_Sum256 (Body en)) (ContentDigest (entry_Metadata en)) = None"
    using assms(2) paths_meta(2) [OF pp] by (auto simp: tidy_def verified_def dest!: spec [of _ p])
  then show ?thesis using r by (auto simp: verifySum_iff EqualFold_def)
qed

text \<open>C4.
  
  A hit never widens access and never serves other bytes: when a GET is answered from the
  store, the upstream has just answered a HEAD for the same URL, carrying the caller's own
  headers, with success, and the bytes sent hash to the digest of that answer.
\<close>

theorem oci_hit_confirmed:
  assumes "tidy (w_fs (ps_world st))" "quiet_wait env (ps_world st)"
    "pr_method req = ''GET''" "tape (rp_body w) = []"
    "oci_ServeHTTP p env req w st = (w', st')" "hits (ps_stats st') \<noteq> hits (ps_stats st)"
  shows "\<exists>auth target resp body. auth \<in> {oe_auth1 env, oe_auth2 env} \<and>
    oci_targetURL p (pr_url req) = Some target \<and>
    auth ''HEAD'' (url_String target) (forwarded (pr_header req)) = Inr resp \<and>
    200 \<le> ur_status resp \<and> ur_status resp < 300 \<and>
    received (rp_body w') = received (rp_body w) @ body \<and>
    ToLower (Get (ur_header resp) ''Docker-Content-Digest'') =
      ''sha256:'' @ hex_EncodeToString (sha256_Sum256 body)"
  using assms(5)
proof (cases rule: oci_ServeHTTP_cases)
  case direct
  then show ?thesis using assms(6) by simp
next
  case (early target key ttl en s)
  have "received (rp_body w') = received (rp_body w) @ Body en"
    using serveHit_body [OF assms(3,4), of env en s] early(3) by simp
  then show ?thesis using authorized_hit [OF early(2) assms(1)] early(1) by blast
next
  case (late target key ttl w1 en s)
  have "tidy (w_fs (oe_wait env w1))"
    using assms(2) authorized_lookup_frame [OF late(2)] by (simp add: quiet_wait_def)
  moreover have "received (rp_body w') = received (rp_body w) @ Body en"
    using serveHit_body [OF assms(3,4), of env en s] late(4) by simp
  ultimately show ?thesis using authorized_hit [OF late(3)] late(1) by blast
next
  case (miss target key ttl w1 s kind rd)
  then have "hits (ps_stats st') = hits (ps_stats st)"
    by (metis serveMiss_stats(1) snd_conv counters.select_convs(2) counters.surjective counters.update_convs(1,3))
  then show ?thesis using assms(6) by simp
qed

text \<open>The store after a pull of \<^verbatim>\<open>abc\<close>, whose digest stays symbolic.\<close>

definition abc_digest :: string where
  "abc_digest = ''sha256:'' @ hex_EncodeToString (sha256_Sum256 ''abc'')"

lemma abc_lower: "ToLower abc_digest = abc_digest"
proof -
  have "ToLower ''sha256:'' = ''sha256:''" by code_simp
  then show ?thesis using ToLower_hex_Encode [of "sha256_Sum256 ''abc''"] by (simp add: abc_digest_def ToLower_def)
qed

lemma digest_text_short:
  assumes "is_meta p" "length d \<le> 71"
  shows "\<exists>js. marshal_Metadata (stored_metadata sample_env p (sample_metadata\<lparr>ContentDigest := d\<rparr>) ''abc'' 7) = Some js \<and>
    length js \<le> maxMetadataBytes"
proof -
  have l: "length (stem_of p @ ''.body.'' @ dec_digits 7) = 71"
    using is_metaE(2) [OF assms(1)] by (simp add: dec_digits.simps)
  have n: "FormatInt 200 = ''200''" "FormatInt 3 = ''3''" by code_simp+
  have q: "length (quote_body (stem_of p @ ''.body.'' @ dec_digits 7)) \<le> 426"
    using length_quote_body [of "stem_of p @ ''.body.'' @ dec_digits 7"] l by simp
  have qd: "length (quote_body d) \<le> 426" using length_quote_body [of d] assms(2) by simp
  have k: "length (quote_body ''status'') \<le> 60" "length (quote_body ''header'') \<le> 60"
    "length (quote_body ''stored_at'') \<le> 60" "length (quote_body ''content_bytes'') \<le> 100"
    "length (quote_body ''body_file'') \<le> 60" "length (quote_body ''Content-Length'') \<le> 100"
    "length (quote_body ''content_digest'') \<le> 100"
    "length (quote_body ''3'') \<le> 60" "length (quote_body ''0001-01-01T00:00:00.000000005Z'') \<le> 200"
    by (rule order_trans [OF length_quote_body], simp)+
  have t: "t_store sample_env = 5" by (simp add: sample_env_def)
  show ?thesis
    using q qd k sample_time sample_headers
    by (simp add: marshal_Metadata_def stored_metadata_def metadata_json_def header_json_def n json_quote_def
        maxMetadataBytes_def sample_metadata_def t)
qed

lemma abc_recordable:
  assumes "is_meta p"
  shows "recordable sample_env p (sample_metadata\<lparr>ContentDigest := abc_digest\<rparr>) ''abc''"
proof -
  have d: "length abc_digest = 71" by (simp add: abc_digest_def)
  have "decodeSHA256 abc_digest = Some (sha256_Sum256 ''abc'')"
    unfolding decodeSHA256_iff abc_lower by (simp add: abc_digest_def)
  then have "valid_utf8 abc_digest" using digest_utf8 by simp
  then show ?thesis
    using digest_text_short [OF assms, of abc_digest] d
    by (auto simp: recordable_def encodable_def is_i64_def sample_env_def sample_metadata_def)
qed

lemma abc_verified: "verifySum (sha256_Sum256 ''abc'') abc_digest = None"
  unfolding verifySum_iff abc_lower by (simp add: abc_digest_def)

definition abc_world :: "path \<Rightarrow> string \<Rightarrow> path \<Rightarrow> world" where
  "abc_world p js gen =
     \<lparr>w_store = \<lparr>store_root = [''cache''], store_bytes = 3, store_objects = 1, activeTemps = []\<rparr>,
      w_fs = \<lparr>nodes = [(p, Regular js 0), (gen, Regular ''abc'' 0)], faults = []\<rparr>, w_ctl = None\<rparr>"

lemma abc_stored:
  assumes pp: "paths [''cache''] key = (b, p)"
  obtains js gen m where "entry_of (w_fs (abc_world p js gen)) p = Some (m, gen, ''abc'')"
    "ContentDigest m = abc_digest" "StoredAt m = 5" "tidy (w_fs (abc_world p js gen))"
    "\<And>k. new_numbers (sample_env\<lparr>rnd_body := [9]\<rparr>) (key_path (abc_world p js gen) k) (w_fs (abc_world p js gen))"
proof -
  note P = paths_meta [OF pp]
  let ?m0 = "sample_metadata\<lparr>ContentDigest := abc_digest\<rparr>"
  define m where "m = read_back (stored_metadata sample_env p ?m0 ''abc'' 7)"
  define gen where "gen = butlast p @ [stem_of p @ ''.body.'' @ dec_digits 7]"
  obtain js where js: "length js \<le> maxMetadataBytes" "unmarshal_Metadata js = Some m"
    using stored_unmarshal [OF abc_recordable [OF P(2)] P(2), of 7] by (auto simp: sample_env_def m_def)
  have dg: "ContentDigest m = abc_digest" "StoredAt m = 5" "ContentBytes m = 3"
    "BodyFile m = stem_of p @ ''.body.'' @ dec_digits 7"
    by (simp_all add: m_def read_back_def stored_metadata_def sample_env_def)
  have rs: "resolve p m = Some gen" unfolding m_def gen_def by (rule stored_resolves [OF pp])
  let ?f = "w_fs (abc_world p js gen)"
  have nd: "node_at ?f q = (if q = p then Some (Regular js 0) else if q = gen then Some (Regular ''abc'' 0) else None)" for q
    using resolve_not_meta [OF rs] by (simp add: node_at_def abc_world_def)
  have E: "entry_of ?f p = Some (m, gen, ''abc'')"
    using js rs resolve_not_meta [OF rs] dg by (auto simp: entry_of_Some meta_at_def nd)
  have M: "meta_at ?f q = (if q = p then Some m else None)" if "is_meta q" for q
  proof -
    have "q \<noteq> gen" using that resolveE(2) [OF rs] is_body_not_meta by blast
    then show ?thesis using js by (simp add: meta_at_def nd)
  qed
  have "verified ?f"
    unfolding verified_def
  proof (intro allI impI)
    fix q assume "is_meta q"
    then show "case entry_of ?f q of None \<Rightarrow> True
        | Some (m, _, body) \<Rightarrow> verifySum (sha256_Sum256 body) (ContentDigest m) = None"
      using E M [of q] abc_verified dg(1) by (cases "q = p") (simp_all add: entry_of_def [of _ q])
  qed
  then have T: "tidy ?f" by (simp add: tidy_def nd)
  have digits: "dec_digits 7 = ''7''" "dec_digits 9 = ''9''" by code_simp+
  have nine: "x @ ''.body.'' @ dec_digits 9 \<noteq> y @ ''.body.'' @ dec_digits 7" for x y
  proof
    assume "x @ ''.body.'' @ dec_digits 9 = y @ ''.body.'' @ dec_digits 7"
    from arg_cong [OF this, of last] show False by (simp add: digits)
  qed
  have json: "x @ ''.body.'' @ dec_digits 9 \<noteq> y @ ''.json''" for x y
  proof
    assume "x @ ''.body.'' @ dec_digits 9 = y @ ''.json''"
    from arg_cong [OF this, of last] show False by (simp add: digits)
  qed
  have N: "new_numbers (sample_env\<lparr>rnd_body := [9]\<rparr>) (key_path (abc_world p js gen) k) ?f" for k
  proof -
    let ?k = "key_path (abc_world p js gen) k"
    let ?q = "butlast ?k @ [stem_of ?k @ ''.body.'' @ dec_digits 9]"
    have "?q \<noteq> gen" using nine [of "stem_of ?k" "stem_of p"] gen_def by (metis last_snoc)
    moreover have "?q \<noteq> p" using json [of "stem_of ?k" "stem_of p"] is_metaE(1) [OF P(2)] by (metis last_snoc)
    ultimately have "file_at ?f ?q = None" by (simp add: file_at_def nd del: append_assoc append_Cons append.simps)
    moreover have "BodyFile m \<noteq> stem_of ?k @ ''.body.'' @ dec_digits 9"
      using dg(4) nine [of "stem_of ?k" "stem_of p"] by metis
    moreover have "meta_at ?f ?k = None \<or> meta_at ?f ?k = Some m" using M [OF key_path_meta] by simp
    moreover have "rnd_body (sample_env\<lparr>rnd_body := [9]\<rparr>) = [9]" by simp
    ultimately show ?thesis unfolding new_numbers_def by (auto simp del: append_assoc append_Cons append.simps)
  qed
  show thesis by (rule that [OF E dg(1,2) T N])
qed

lemma sample_target:
  "case oci_targetURL sample_oci (pr_url sample_pull) of None \<Rightarrow> False
   | Some target \<Rightarrow> url_String target = ''https://r.io/v2/a/manifests/t'' \<and> new_request_ok target"
  by code_simp

theorem oci_hit_confirmed_witness:
  "\<exists>w. hits (ps_stats (snd (oci_ServeHTTP sample_oci (sample_oci_env abc_digest) sample_pull open_reply
        \<lparr>ps_world = w, ps_stats = no_counts\<rparr>))) = 1 \<and>
    abc_digest = ''sha256:'' @ hex_EncodeToString
      (sha256_Sum256 (received (rp_body (fst (oci_ServeHTTP sample_oci (sample_oci_env abc_digest) sample_pull open_reply
        \<lparr>ps_world = w, ps_stats = no_counts\<rparr>)))))"
proof -
  obtain target where tu: "oci_targetURL sample_oci (pr_url sample_pull) = Some target"
    by (cases "oci_targetURL sample_oci (pr_url sample_pull)") (use sample_target in auto)
  have tt: "url_String target = ''https://r.io/v2/a/manifests/t''" "new_request_ok target"
    using sample_target by (simp_all add: tu)
  let ?key = "oci_cacheKey sample_oci target []" and ?env = "sample_oci_env abc_digest"
  obtain b p where pp: "paths [''cache''] ?key = (b, p)" by fastforce
  obtain js gen m where E: "entry_of (w_fs (abc_world p js gen)) p = Some (m, gen, ''abc'')"
    "ContentDigest m = abc_digest" "StoredAt m = 5" "tidy (w_fs (abc_world p js gen))"
    and N: "\<And>k. new_numbers (sample_env\<lparr>rnd_body := [9]\<rparr>) (key_path (abc_world p js gen) k) (w_fs (abc_world p js gen))"
    by (rule abc_stored [OF pp]) (rule that)
  let ?w = "abc_world p js gen" and ?en = "\<lparr>entry_Metadata = m, BodyPath = gen, Body = ''abc''\<rparr>"
  let ?st = "\<lparr>ps_world = ?w, ps_stats = no_counts\<rparr>"
  have "fst (Lookup 6 6 ?key 10 (w_store ?w) (w_fs ?w)) = Inr (Some ?en)"
    by (rule Lookup_exact [OF _ _ E(1)]) (simp_all add: abc_world_def pp time_Sub_def E)
  then obtain g where lk: "Lookup 6 6 ?key 10 (w_store ?w) (w_fs ?w) = (Inr (Some ?en), g)" by (metis prod.collapse)
  have GET: "pr_method sample_pull = ''GET''" "pr_header sample_pull = []" by (simp_all add: sample_pull_def)
  have "abc_digest \<noteq> []" by (simp add: abc_digest_def)
  moreover have get: "Get [(''Docker-Content-Digest'', [d])] ''Docker-Content-Digest'' = d" for d by code_simp
  ultimately have au: "authorizeCacheHit (digest_client abc_digest) sample_pull target abc_digest"
    using tt by (simp add: authorizeCacheHit_def digest_client_def)
  have "authorized_lookup ?env (oe_auth1 ?env) sample_pull target ?key 10 ?w = (Some ?en, ?w\<lparr>w_fs := g\<rparr>)"
    using lk au by (simp add: authorized_lookup_def oci_lookup_def sample_oci_env_def E)
  moreover have "classify (Path (pr_url sample_pull)) = (''manifest'', [], True)" by code_simp
  moreover have "cacheTTL sample_oci ''manifest'' [] = 10" "\<not> RequestBypassesCache (pr_header sample_pull)"
    "HasPrefix (Path (pr_url sample_pull)) (oci_path sample_oci)" "Get (pr_header sample_pull) x = []" for x
    by code_simp+
  ultimately have "hits (ps_stats (snd (oci_ServeHTTP sample_oci ?env sample_pull open_reply ?st))) = 1"
    by (simp add: oci_ServeHTTP_def tu Let_def GET no_counts_def bump_def u64_def)
  note one = this
  then have hit: "hits (ps_stats (snd (oci_ServeHTTP sample_oci ?env sample_pull open_reply ?st))) \<noteq> hits (ps_stats ?st)"
    by (simp add: no_counts_def)
  have Q: "quiet_wait ?env (ps_world ?st)"
    by (rule quiet_alone) (use E(4) N in \<open>simp_all add: sample_oci_env_def\<close>)
  obtain w' st' where run: "oci_ServeHTTP sample_oci ?env sample_pull open_reply ?st = (w', st')" by fastforce
  have hit': "hits (ps_stats st') \<noteq> hits (ps_stats ?st)" using hit unfolding run snd_conv .
  obtain auth resp body where c: "auth \<in> {oe_auth1 ?env, oe_auth2 ?env}"
    "auth ''HEAD'' ''https://r.io/v2/a/manifests/t'' (forwarded (pr_header sample_pull)) = Inr resp"
    "received (rp_body w') = received (rp_body open_reply) @ body"
    "ToLower (Get (ur_header resp) ''Docker-Content-Digest'') = ''sha256:'' @ hex_EncodeToString (sha256_Sum256 body)"
    using oci_hit_confirmed [OF _ Q GET(1) _ run hit'] E(4) tu tt(1) by (auto simp: open_reply_def)
  then have "ur_header resp = [(''Docker-Content-Digest'', [abc_digest])]"
    by (auto simp: sample_oci_env_def digest_client_def)
  then have "abc_digest = ''sha256:'' @ hex_EncodeToString (sha256_Sum256 (received (rp_body w')))"
    using c(3,4) get abc_lower by (simp add: open_reply_def)
  then show ?thesis using one by (intro exI [of _ ?w]) (simp add: run)
qed

end
