(* ===== verification/Server_Theorems.thy ===== *)
theory Server_Theorems
  imports Command_Line Pypi_Survival Npm_Theorems Oci_Theorems
begin

text \<open>
  The running program as a whole: releases on disk survive everything that happens to it,
  its starts, requests to every repository and page, operator collections and the ticks
  of the maintenance loop.
\<close>

section \<open>The repositories keep releases\<close>

lemma store_step_kept:
  assumes "release_path q" "kept q n w"
  shows "kept q n (store_step x w)"
  using step_keeps [of w x] release_path_facts [OF assms(1)] assms(2) by (simp add: keeps_def)

lemma PutBytes_kept:
  assumes "release_path q" "kept q n w"
  shows "kept q n (snd (PutBytes env key m b w))"
  using put_keeps [OF assms] by (auto simp: PutBytes_def PutStream_def split: prod.split)

lemma Lookup_kept:
  assumes "release_path q" "Lookup t1 t2 key ttl s f = (x, g)" "node_at f q = Some n"
  shows "node_at g q = Some n"
proof -
  have "\<not> is_body q" using assms(1) by (simp add: release_path_def)
  then have "node_at g q = node_at f q" using Lookup_frame [OF assms(2)] resolveE(2) by fastforce
  then show ?thesis using assms(3) by simp
qed

lemma npm_find_kept:
  assumes "release_path q" "kept q n w" "npm_find p env c key w = (r, w')"
  shows "kept q n w'"
proof (cases c)
  case True
  obtain x g where lk: "Lookup (ne_now env) (ne_now env) key (npm_ttl p) (w_store w) (w_fs w) = (x, g)" by fastforce
  then have "w' = w\<lparr>w_fs := g\<rparr>" using assms(3) True by (auto simp: npm_find_def split: sum.splits)
  then show ?thesis using Lookup_kept [OF assms(1) lk] assms(2) by simp
qed (use assms in \<open>simp add: npm_find_def\<close>)

lemma npm_serveMiss_kept:
  assumes "release_path q" "kept q n (ps_world st)"
  shows "kept q n (ps_world (snd (npm_serveMiss p env req target key c w st)))"
proof -
  have meta: "kept q n (ps_world (snd (npm_serveMetadata p env req resp hs chs key b w st)))" for resp hs chs b
    using PutBytes_kept [OF assms] assms(2)
    by (simp add: npm_serveMetadata_def fail_def Let_def split: sum.split)
  have put: "kept q n w'" if "PutStream e key m src d (ps_world st) = (err, d', w')" for e m src d err d' w'
    using put_keeps [OF assms] that unfolding PutStream_def by blast
  show ?thesis unfolding npm_serveMiss_def Let_def
    using meta put assms(2) by (simp add: fail_def recordStreamError_def split: sum.split prod.split)
qed

lemma npm_keeps:
  assumes "release_path q" "kept q n (ps_world st)" "\<And>v. kept q n v \<Longrightarrow> kept q n (ne_wait env v)"
  shows "kept q n (ps_world (snd (npm_ServeHTTP p env req w st)))"
proof -
  obtain w' st' where run: "npm_ServeHTTP p env req w st = (w', st')" by fastforce
  from run have "kept q n (ps_world st')"
  proof (cases rule: npm_ServeHTTP_cases)
    case direct
    then show ?thesis using assms(2) by simp
  next
    case (early target en)
    show ?thesis by (rule npm_find_kept [OF assms(1,2) early(3)])
  next
    case (late target w1 en)
    show ?thesis by (rule npm_find_kept [OF assms(1) assms(3) [OF npm_find_kept [OF assms(1,2) late(3)]] late(4)])
  next
    case (miss target w1 s)
    have "kept q n (ps_world s)"
      by (rule npm_find_kept [OF assms(1) assms(3) [OF npm_find_kept [OF assms(1,2) miss(2)]] miss(3)])
    from npm_serveMiss_kept [OF assms(1) this] show ?thesis using miss(5) by (metis snd_conv)
  qed
  then show ?thesis by (simp add: run)
qed

lemma authorized_lookup_kept:
  assumes "release_path q" "kept q n w" "authorized_lookup env auth req target key ttl w = (r, w')"
  shows "kept q n w'"
proof -
  obtain x g where lk: "Lookup (oe_now env) (oe_now env) key ttl (w_store w) (w_fs w) = (x, g)" by fastforce
  then have "w' = w\<lparr>w_fs := g\<rparr>"
    using assms(3) by (auto simp: authorized_lookup_def oci_lookup_def split: sum.splits option.splits if_splits)
  then show ?thesis using Lookup_kept [OF assms(1) lk] assms(2) by simp
qed

lemma oci_serveMiss_kept:
  assumes "release_path q" "kept q n (ps_world st)"
  shows "kept q n (ps_world (snd (oci_serveMiss env req target key kind rd c w st)))"
proof -
  have "kept q n (ps_world (snd (cacheManifest env req resp hs chs key d w st)))" for resp hs chs d
    using PutBytes_kept [OF assms] assms(2) by (simp add: cacheManifest_def fail_def Let_def split: sum.split)
  moreover have "kept q n (ps_world (snd (cacheBlob env req resp hs chs key d w st)))" for resp hs chs d
    using put_keeps [OF assms] by (auto simp: cacheBlob_def recordStreamError_def Let_def split: prod.split)
  ultimately show ?thesis using assms(2) by (simp add: oci_serveMiss_def fail_def Let_def split: sum.split)
qed

lemma oci_keeps:
  assumes "release_path q" "kept q n (ps_world st)" "\<And>v. kept q n v \<Longrightarrow> kept q n (oe_wait env v)"
  shows "kept q n (ps_world (snd (oci_ServeHTTP p env req w st)))"
proof -
  obtain w' st' where run: "oci_ServeHTTP p env req w st = (w', st')" by fastforce
  have hit: "ps_world st' = ps_world s" if "oci_serveHit env req en w s = (w', st')" for en s
    using serveHit_world [of env req en w s] that by simp
  note look = authorized_lookup_kept [OF assms(1)]
  from run have "kept q n (ps_world st')"
  proof (cases rule: oci_ServeHTTP_cases)
    case direct
    then show ?thesis using assms(2) by simp
  next
    case (early target key ttl en s)
    show ?thesis using look [OF assms(2) early(2)] hit [OF early(3)] by simp
  next
    case (late target key ttl w1 en s)
    show ?thesis using look [OF assms(3) [OF look [OF assms(2) late(2)]] late(3)] hit [OF late(4)] by simp
  next
    case (miss target key ttl w1 s kind rd)
    have "kept q n (ps_world s)" by (rule look [OF assms(3) [OF look [OF assms(2) miss(1)]] miss(2)])
    from oci_serveMiss_kept [OF assms(1) this] show ?thesis using miss(5) by (metis snd_conv)
  qed
  then show ?thesis by (simp add: run)
qed

section \<open>Collections keep releases\<close>

lemma read_only_walk:
  assumes "WalkDir rt fn f s = (e, g, t)" "\<And>p n f s e g t. fn p n f s = (e, g, t) \<Longrightarrow> node_at g = node_at f"
  shows "node_at g = node_at f"
  using WalkDir_invariant [where P = "\<lambda>g _. node_at g = node_at f", OF assms(1)] assms(2) by fastforce

lemma Candidates_node: "Candidates s f = (r, g) \<Longrightarrow> node_at g = node_at f"
proof -
  assume c: "Candidates s f = (r, g)"
  obtain e h cs where w: "WalkDir (store_root s) Candidates_visit f [] = (e, h, cs)" by (metis prod_cases3)
  have "node_at h = node_at f"
  proof (rule read_only_walk [OF w])
    fix p n f s e g t assume "Candidates_visit p n f s = (e, g, t)"
    then show "node_at g = node_at f"
      by (auto simp: Candidates_visit_def split: if_splits option.splits prod.splits sum.splits
          dest!: readMetadata_frame os_Stat_frame)
  qed
  then show ?thesis using c w by (simp add: Candidates_def)
qed

lemma Reconcile_node: "Reconcile s f = (r, s', g) \<Longrightarrow> node_at g = node_at f"
proof -
  assume c: "Reconcile s f = (r, s', g)"
  obtain e h b k where w: "WalkDir (store_root s) Reconcile_visit f (0, 0) = (e, h, b, k)" by (metis prod_cases4)
  have "node_at h = node_at f"
  proof (rule read_only_walk [OF w])
    fix p n f s e g t assume "Reconcile_visit p n f s = (e, g, t)"
    then show "node_at g = node_at f"
      by (auto simp: Reconcile_visit_def split: if_splits option.splits prod.splits sum.splits
          dest!: readMetadata_frame os_Stat_frame)
  qed
  then show ?thesis using c w by (simp add: Reconcile_def Let_def)
qed

lemma PrivateSize_node: "PrivateSize p f = (r, g) \<Longrightarrow> node_at g = node_at f"
proof -
  assume c: "PrivateSize p f = (r, g)"
  obtain e h k where w: "WalkDir (py_localPath p) private_visit f 0 = (e, h, k)" by (metis prod_cases3)
  have "node_at h = node_at f"
  proof (rule read_only_walk [OF w])
    fix p n f s e g t assume "private_visit p n f s = (e, g, t)"
    then show "node_at g = node_at f"
      by (auto simp: private_visit_def split: if_splits option.splits prod.splits sum.splits dest!: os_Stat_frame)
  qed
  then show ?thesis using c w by (simp add: PrivateSize_def)
qed

abbreviation holds :: "path \<Rightarrow> node \<Rightarrow> fs \<Rightarrow> bool" where
  "holds q n f \<equiv> node_at f q = Some n"

lemma GC_kept:
  assumes "release_path q" "holds q n f" "GC now maxAge s f = (r, s', g)"
  shows "holds q n g"
  using store_step_kept [OF assms(1), where w = "\<lparr>w_store = s, w_fs = f, w_ctl = None\<rparr>" and x = "Collect now maxAge"] assms(2,3)
  by simp

lemma RemoveCandidate_kept:
  assumes "release_path q" "holds q n f" "RemoveCandidate c s f = (r, s', g)"
  shows "holds q n g"
  using store_step_kept [OF assms(1), where w = "\<lparr>w_store = s, w_fs = f, w_ctl = None\<rparr>" and x = "Evict c"] assms(2,3)
  by simp

lemma Cleanup_kept:
  assumes "release_path q" "holds q n f" "CleanupStaleTemps now maxAge s f = (r, g)"
  shows "holds q n g"
  using store_step_kept [OF assms(1), where w = "\<lparr>w_store = s, w_fs = f, w_ctl = None\<rparr>" and x = "Sweep now maxAge"] assms(2,3)
  by simp

lemma collect_stores_kept:
  assumes "release_path q"
  shows "holds q n f \<Longrightarrow> collect_stores clock maxAge i ctx mss r f ctl = (out, mss', g, ctl') \<Longrightarrow> holds q n g"
proof (induction mss arbitrary: i ctx r f ctl out mss' ctl')
  case (Cons ms rest)
  obtain g1 err s1 f1 where c: "GC (clock i) maxAge (ms_store ms) f = ((g1, err), s1, f1)" by (metis surj_pair)
  have k: "holds q n f1" by (rule GC_kept [OF assms Cons.prems(1) c])
  show ?case
  proof (cases "ctx_Err ctx = None \<and> err = None")
    case True
    then show ?thesis using Cons.IH [OF k] Cons.prems(2) c by (auto simp: Let_def split: prod.splits)
  next
    case False
    then show ?thesis using Cons.prems k c by (auto split: option.splits)
  qed
qed simp

lemma list_candidates_node: "list_candidates i mss f = (r, g) \<Longrightarrow> node_at g = node_at f"
proof (induction mss arbitrary: i f r g)
  case (Cons ms rest)
  obtain cs err f1 where c: "Candidates (ms_store ms) f = ((cs, err), f1)" by (metis surj_pair)
  obtain r2 f2 where l: "list_candidates (Suc i) rest f1 = (r2, f2)" by fastforce
  show ?case using Cons.prems Cons.IH [OF l] Candidates_node [OF c] by (auto simp: c l split: option.splits sum.splits)
qed simp

lemma evict_kept:
  assumes "release_path q"
  shows "holds q n f \<Longrightarrow> evict need ctx items r mss f c = (out, mss', g, c') \<Longrightarrow> holds q n g"
proof (induction items arbitrary: ctx r mss f c)
  case (Cons item items)
  obtain ok err s1 f1 where e: "RemoveCandidate (pc_candidate item) (ms_store (mss ! pc_store item)) f = ((ok, err), s1, f1)"
    by (metis surj_pair)
  have k: "holds q n f1" by (rule RemoveCandidate_kept [OF assms Cons.prems(1) e])
  show ?case
  proof (cases "ctx_Err ctx = None \<and> RemovedBytes r < need")
    case True
    then show ?thesis using Cons.prems(2) Cons.IH [OF k] unfolding evict.simps Let_def e by simp
  next
    case False
    then show ?thesis using Cons.prems by (auto split: option.splits)
  qed
qed simp

lemma collect_kept:
  assumes "release_path q" "holds q n (sv_fs sv)" "collect clock ctx sv = (out, sv')"
  shows "holds q n (sv_fs sv')"
proof -
  have pressure: "holds q n g" if "collectPressure ctx mss (sv_fs sv) c = (o', mss', g, c')" for mss c o' mss' g c'
  proof -
    obtain ps f1 where l: "list_candidates 0 mss (sv_fs sv) = (ps, f1)" by fastforce
    have f1: "holds q n f1" using list_candidates_node [OF l] assms(2) by simp
    show ?thesis
    proof (cases ps)
      case (Inl e)
      then show ?thesis using that f1 assms(2) by (simp add: collectPressure_def Let_def l split: if_splits)
    next
      case (Inr items)
      obtain o1 m1 g1 c1 where ev: "evict (i64 (CommittedBytes (Storage_Controller.Snapshot c) - LowBytes (Storage_Controller.Snapshot c)))
          ctx (sort_key (\<lambda>p. LastUsed (pc_candidate p)) items) no_result mss f1 c = (o1, m1, g1, c1)" by (metis prod_cases4)
      then have "g = g1 \<or> g = sv_fs sv" using that Inr by (simp add: collectPressure_def Let_def l split: if_splits)
      then show ?thesis using evict_kept [OF assms(1) f1 ev] assms(2) by blast
    qed
  qed
  show ?thesis
  proof (cases "sv_storage sv")
    case None
    then show ?thesis using assms(3)
      by (auto simp: collect_def split: prod.splits dest: collect_stores_kept [OF assms(1,2)])
  next
    case (Some c)
    then show ?thesis using assms(3)
      by (cases "Pressure (Storage_Controller.Snapshot c)")
        (auto simp: collect_def split: prod.splits dest: collect_stores_kept [OF assms(1,2)] pressure)
  qed
qed

lemma gc_Run_kept:
  assumes "release_path q" "holds q n (sv_fs (svc_server svc))" "gc_Run env trig svc = (run, ok, svc')"
  shows "holds q n (sv_fs (svc_server svc'))"
  using assms(2,3) by (auto simp: gc_Run_def split: if_splits prod.splits dest: collect_kept [OF assms(1,2)])

lemma operatorGC_kept:
  assumes "release_path q" "holds q n (sv_fs (svc_server svc))" "operatorGC env req w svc = (w', svc')"
  shows "holds q n (sv_fs (svc_server svc'))"
  using assms(2,3)
  by (auto simp: operatorGC_def Let_def split: if_splits prod.splits dest: gc_Run_kept [OF assms(1,2)])

lemma maintenance_kept:
  assumes "release_path q"
  shows "holds q n (sv_fs (svc_server svc)) \<Longrightarrow> holds q n (sv_fs (svc_server (maintenance_loop evs svc)))"
proof (induction evs arbitrary: svc)
  case (Cons ev evs)
  have run: "holds q n (sv_fs (svc_server (maintenance_loop evs svc')))" if "gc_Run env trig svc = (r, ok, svc')" for env trig r ok svc'
    by (rule Cons.IH [OF gc_Run_kept [OF assms Cons.prems that]])
  show ?case
    using run Cons.IH [OF Cons.prems] Cons.prems by (cases ev) (auto split: option.split prod.split)
qed simp

section \<open>The start keeps releases\<close>

lemma MkdirAll_kept: "holds q n f \<Longrightarrow> os_MkdirAll d f = (e, g) \<Longrightarrow> holds q n g"
  using os_MkdirAll_frame [of d f e g q] by auto

lemma read_token_kept: "holds q n f \<Longrightarrow> read_token file h e f = (r, g) \<Longrightarrow> holds q n g"
  using os_ReadFile_frame by (auto simp: read_token_def Let_def split: prod.splits sum.splits)

lemma new_store_kept:
  assumes "release_path q" "holds q n f" "new_store env cfg i r f = (x, g)"
  shows "holds q n g"
proof -
  let ?rt = "path_of (Join [storage_Path (cfg_Storage cfg), repo_Name r])"
  obtain e f1 where d: "os_MkdirAll ?rt f = (e, f1)" by fastforce
  obtain b k err s2 f2 where c: "Reconcile \<lparr>store_root = ?rt, store_bytes = 0, store_objects = 0, activeTemps = []\<rparr> f1 = ((b, k, err), s2, f2)"
    by (metis prod_cases3)
  have k1: "holds q n f1" by (rule MkdirAll_kept [OF assms(2) d])
  have k2: "holds q n f2" using Reconcile_node [OF c] k1 by simp
  obtain y h where s: "New_store ?rt f = (y, h)" by fastforce
  have k3: "holds q n h" using s k1 k2 by (auto simp: New_store_def d c split: option.splits)
  show ?thesis using assms(3) k3
    by (auto simp: new_store_def s split: sum.splits if_splits option.splits prod.splits dest: Cleanup_kept [OF assms(1) k3])
qed

lemma new_pypi_kept: "holds q n f \<Longrightarrow> new_pypi cfg r t f = (x, g) \<Longrightarrow> holds q n g"
  by (auto simp: new_pypi_def pypi_New_def Let_def split: option.splits if_splits prod.splits sum.splits dest: MkdirAll_kept)

lemma new_handler_kept:
  assumes "holds q n f" "new_handler cfg r f = (x, g)"
  shows "holds q n g"
  using assms
  by (auto simp: new_handler_def Let_def split: option.splits if_splits prod.splits sum.splits
      dest: new_pypi_kept read_token_kept)

lemma new_repositories_kept:
  assumes "release_path q"
  shows "holds q n f \<Longrightarrow> new_repositories env cfg rs b f = (x, g) \<Longrightarrow> holds q n g"
proof (induction rs arbitrary: b f)
  case (Cons r rs)
  obtain y f1 where s: "new_store env cfg (length (b_handlers b)) r f = (y, f1)" by fastforce
  obtain z f2 where h: "new_handler cfg r f1 = (z, f2)" by fastforce
  have k1: "holds q n f1" by (rule new_store_kept [OF assms Cons.prems(1) s])
  have k2: "holds q n f2" by (rule new_handler_kept [OF k1 h])
  show ?case using Cons.prems(2) k1 k2 by (auto simp: s h Let_def split: sum.splits dest: Cons.IH [OF k2])
qed simp

lemma private_sizes_node: "private_sizes hs f = (x, g) \<Longrightarrow> node_at g = node_at f"
proof (induction hs f arbitrary: x g rule: private_sizes.induct)
  case (2 p hs f)
  obtain k e f1 where s: "PrivateSize p f = ((k, e), f1)" by (metis surj_pair)
  obtain y f2 where t: "private_sizes hs f1 = (y, f2)" by fastforce
  show ?case using 2(2) 2(1) [OF s [symmetric]] PrivateSize_node [OF s] t by (cases e) (auto simp: s t split: sum.splits)
qed simp_all

lemma first_run_kept:
  assumes "release_path q" "holds q n (sv_fs (svc_server a))" "first_run env a = (x, g)"
  shows "holds q n g"
proof -
  obtain run ok svc where r: "gc_Run ((se_run env)\<lparr>re_ctx := []\<rparr>) TriggerStartup (service.truncate a) = (run, ok, svc)" by (metis prod_cases3)
  have "holds q n (sv_fs (svc_server svc))"
    by (rule gc_Run_kept [OF assms(1) _ r]) (use assms(2) in \<open>simp add: service.truncate_def\<close>)
  then show ?thesis using assms(2,3) by (auto simp: first_run_def r split: if_splits sum.splits)
qed

lemma first_run_fs: "first_run env a = (Inr a', g) \<Longrightarrow> sv_fs (svc_server a') = g"
  by (auto simp: first_run_def split: prod.splits if_splits sum.splits)

lemma server_New_kept:
  assumes "release_path q" "holds q n f" "server_New env cfg version f = (x, g)"
  shows "holds q n g"
proof -
  obtain t f1 where t: "(if TokenFile cfg \<noteq> [] then read_token (TokenFile cfg) OperatorTokenRead OperatorTokenLength f
      else (Inr [], f)) = (t, f1)" by fastforce
  have k1: "holds q n f1" using t assms(2) by (auto split: if_splits dest: read_token_kept)
  obtain b f2 where b: "new_repositories env cfg (Repositories cfg)
      \<lparr>b_stores = [], b_handlers = [], b_byName = [], b_routes = []\<rparr> f1 = (b, f2)" by fastforce
  have k2: "holds q n f2" by (rule new_repositories_kept [OF assms(1) k1 b])
  have k3: "holds q n f3" if "private_sizes hs f2 = (y, f3)" for hs y f3 using private_sizes_node [OF that] k2 by simp
  have k4: "holds q n g" if "holds q n f3" "first_run env (assemble env cfg version token b' ns f3) = (x, g)" for f3 token b' ns
    by (rule first_run_kept [OF assms(1) _ that(2)]) (simp add: assemble_def Let_def that(1))
  show ?thesis using assms(3) k1 k2 unfolding server_New_def t
    by (auto simp: b split: sum.splits prod.splits dest: k3 k4)
qed

lemma server_New_fs: "server_New env cfg version f = (Inr a, g) \<Longrightarrow> sv_fs (svc_server a) = g"
  by (auto simp: server_New_def split: sum.splits prod.splits dest: first_run_fs)

section \<open>The whole program\<close>

text \<open>What the other requests do while an event waits for a lock leaves the file.\<close>

definition waits_keep :: "path \<Rightarrow> node \<Rightarrow> event \<Rightarrow> bool" where
  "waits_keep q n ev =
     (case ev of
        Serve env _ \<Rightarrow>
          (\<forall>v. kept q n v \<longrightarrow> kept q n (ne_wait (sv_npm env) v) \<and> kept q n (oe_wait (sv_oci env) v) \<and>
                kept q n (pe_wait (sv_pypi env) v) \<and> kept q n (ue_wait (pe_upload (sv_pypi env)) v))
      | _ \<Rightarrow> True)"

text \<open>The application's view of the disk is the disk.\<close>

definition synced :: "machine \<Rightarrow> bool" where
  "synced m \<longleftrightarrow> (case m_app m of None \<Rightarrow> True | Some a \<Rightarrow> sv_fs (svc_server a) = m_fs m)"

lemma handler_kept:
  assumes "release_path q" "kept q n (ps_world st)" "waits_keep q n (Serve env req')"
  shows "kept q n (ps_world (snd (handler_ServeHTTP h env req w st)))"
proof (cases h)
  case (NpmHandler p)
  then show ?thesis using npm_keeps [OF assms(1,2)] assms(3) by (simp add: waits_keep_def)
next
  case (OciHandler p)
  then show ?thesis using oci_keeps [OF assms(1,2)] assms(3) by (simp add: waits_keep_def)
next
  case (PypiHandler p)
  then show ?thesis using pypi_keeps [OF assms(1,2)] assms(3) by (simp add: waits_keep_def)
qed

lemma ServeHTTP_kept:
  assumes "release_path q" "holds q n (sv_fs (svc_server a))" "waits_keep q n (Serve env req')"
  shows "holds q n (sv_fs (svc_server (snd (ServeHTTP env req a))))"
proof -
  have "holds q n (sv_fs (svc_server (snd (route_ServeHTTP r env req a))))" for r
  proof (cases r)
    case (ToRepository i)
    have "kept q n (ps_world (repository_state i a))" using assms(2) by (simp add: repository_state_def)
    from handler_kept [OF assms(1) this assms(3)] show ?thesis
      by (simp add: ToRepository serve_repository_def set_repository_state_def split: prod.split)
         (metis snd_conv)
  next
    case ToOperatorGC
    obtain w svc where o: "operatorGC (sv_run env) (page_request req) new_page (service.truncate a) = (w, svc)" by fastforce
    have "holds q n (sv_fs (svc_server svc))"
      by (rule operatorGC_kept [OF assms(1) _ o]) (use assms(2) in \<open>simp add: service.truncate_def\<close>)
    then show ?thesis by (simp add: ToOperatorGC o)
  qed (use assms(2) in simp_all)
  then show ?thesis using assms(2) by (simp add: ServeHTTP_def split: found.split)
qed

lemma maintain_kept:
  assumes "release_path q" "holds q n (sv_fs (svc_server a))"
  shows "holds q n (sv_fs (svc_server (maintain ev a)))"
proof -
  have "holds q n (sv_fs (svc_server (service.truncate a)))" using assms(2) by (simp add: service.truncate_def)
  from maintenance_kept [OF assms(1) this] this show ?thesis by (simp add: maintain_def RunMaintenance_def Let_def)
qed

lemma machine_step_kept:
  assumes "release_path q" "waits_keep q n ev" "synced m" "holds q n (m_fs m)"
  shows "synced (machine_step ev m) \<and> holds q n (m_fs (machine_step ev m))"
proof -
  have app: "synced (with_app h m) \<and> holds q n (m_fs (with_app h m))"
    if "\<And>a. holds q n (sv_fs (svc_server a)) \<Longrightarrow> holds q n (sv_fs (svc_server (h a)))" for h
    using that assms(3,4) by (cases "m_app m") (simp_all add: with_app_def synced_def Let_def)
  show ?thesis
  proof (cases ev)
    case (Start env cfg version)
    obtain x f where s: "server_New env cfg version (m_fs m) = (x, f)" by fastforce
    show ?thesis using server_New_kept [OF assms(1,4) s] server_New_fs [of env cfg version "m_fs m"] s
      by (cases x) (simp_all add: Start synced_def)
  next
    case Stop
    then show ?thesis using assms(4) by (simp add: synced_def)
  next
    case (Serve env req)
    show ?thesis unfolding Serve machine_step.simps
      by (rule app) (rule ServeHTTP_kept [OF assms(1) _ assms(2) [unfolded Serve]])
  next
    case (Maintain ev')
    show ?thesis unfolding Maintain machine_step.simps by (rule app) (rule maintain_kept [OF assms(1)])
  qed
qed

lemma machine_run_kept:
  assumes "release_path q" "list_all (waits_keep q n) evs" "synced m" "holds q n (m_fs m)"
  shows "holds q n (m_fs (fold machine_step evs m))"
  using assms(2-)
proof (induction evs arbitrary: m)
  case (Cons e es)
  have "synced (machine_step e m) \<and> holds q n (m_fs (machine_step e m))"
    by (rule machine_step_kept [OF assms(1)]) (use Cons.prems in simp_all)
  then show ?case using Cons.IH [of "machine_step e m"] Cons.prems(1) by simp
qed simp

lemma main_kept:
  assumes "release_path q" "list_all (waits_keep q n) (pe_events env)" "holds q n f"
  shows "holds q n (snd (main env args f))"
proof -
  have "holds q n (m_fs (fold machine_step (filter serving (pe_events env)) \<lparr>m_app = Some a, m_fs = g\<rparr>))"
    if s: "server_New (pe_start env) cfg (pe_version env) f = (Inr a, g)" for cfg a g
    by (rule machine_run_kept [OF assms(1)])
      (use assms(2) server_New_fs [OF s] server_New_kept [OF assms(1,3) s] in \<open>auto simp: synced_def list_all_iff\<close>)
  then show ?thesis using assms(3)
    by (auto simp: main_def split: flags.split sum.split prod.split new_error.split dest: server_New_kept [OF assms(1,3)])
qed

text \<open>C6.
  
  A published release survives everything the program does: any sequence of processes, with
  any flags and configurations, whether they start or fail, and whatever each of them serves,
  requests to any repository, page or operator command and ticks of the maintenance loop, with
  whatever the upstreams answer, whichever system calls fail and however full the storage is.
  The file is there afterwards with the same bytes and the same time, provided that what other
  requests do while one waits for its lock keeps it too, and that its name is not that of a
  cached body (64 hexadecimal digits followed by \<open>.body.\<close>). In particular neither retention nor
  eviction under pressure, which work in the same directories, ever takes a release.
\<close>

theorem release_survives:
  assumes "release_path q" "node_at f q = Some n" "list_all (\<lambda>(env, args). list_all (waits_keep q n) (pe_events env)) runs"
  shows "node_at (fold (\<lambda>(env, args) g. snd (main env args g)) runs f) q = Some n"
  using assms(2,3)
proof (induction runs arbitrary: f)
  case (Cons r runs)
  obtain env args where r: "r = (env, args)" by fastforce
  have "list_all (waits_keep q n) (pe_events env)" using Cons.prems(2) r by simp
  from main_kept [OF assms(1) this Cons.prems(1)] have k: "holds q n (snd (main env args f))" .
  show ?case using Cons.IH [OF k] Cons.prems(2) by (simp add: r)
qed simp

definition sample_serve :: serve_env where
  "sample_serve = \<lparr>sv_npm = sample_npm_env, sv_oci = sample_oci_env [], sv_pypi = sample_pypi_env sample_file,
     sv_run = sample_run_env, sv_now = 6, sv_free = Inr 1000, sv_client = rp_body open_reply\<rparr>"

definition busy_process :: process_env where
  "busy_process = (sample_process working_file)\<lparr>pe_events := [Serve sample_serve sample_page, Maintain (ScheduleTick sample_run_env)]\<rparr>"

theorem release_survives_witness:
  "node_at (fold (\<lambda>(env, args) g. snd (main env args g))
      [(sample_process working_file, [''-check-config'']), (sample_process [], []), (busy_process, [''-config'', ''n0ding.toml''])]
      \<lparr>nodes = [([[], ''data'', ''pypi'', ''private'', ''demo'', ''a.whl''], Regular ''abc'' 3)], faults = []\<rparr>)
    [[], ''data'', ''pypi'', ''private'', ''demo'', ''a.whl''] = Some (Regular ''abc'' 3)"
proof (rule release_survives)
  show "release_path [[], ''data'', ''pypi'', ''private'', ''demo'', ''a.whl'']"
    using wheel_release [of "[[], ''data'', ''pypi'', ''private'', ''demo'']"] by simp
  show "list_all (\<lambda>(env, args). list_all (waits_keep [[], ''data'', ''pypi'', ''private'', ''demo'', ''a.whl''] (Regular ''abc'' 3)) (pe_events env))
    [(sample_process working_file, [''-check-config'']), (sample_process [], []), (busy_process, [''-config'', ''n0ding.toml''])]"
    by (simp add: sample_process_def busy_process_def waits_keep_def sample_serve_def sample_npm_env_def sample_oci_env_def
        sample_pypi_env_def sample_upload_def)
qed (simp add: node_at_def)

end
