(* ===== verification/Config_Theorems.thy ===== *)
theory Config_Theorems
  imports Config_Parse
begin

text \<open>
  What reading a configuration guarantees: the values are within their types and pass the
  validation, and relative paths are resolved against an absolute configuration file.
\<close>

section \<open>The values fit their types\<close>

lemma duration_loop_range:
  "duration_loop d s = Some r \<Longrightarrow> 0 \<le> d \<Longrightarrow> d \<le> 2 ^ 63 \<Longrightarrow> 0 \<le> r \<and> r \<le> 2 ^ 63"
proof (induction d s rule: duration_loop.induct)
  case (1 d s)
  show ?case
  proof (cases "s = []")
    case True
    then show ?thesis using 1 by (simp add: duration_loop.simps)
  next
    case False
    then obtain v t where i: "duration_item s = Some (v, t)" and le: "u64 (d + v) \<le> 2 ^ 63"
      and rest: "duration_loop (u64 (d + v)) t = Some r"
      using 1(2) by (subst (asm) duration_loop.simps) (auto simp: Let_def split: option.splits if_splits)
    show ?thesis using 1(1) [OF False i refl refl] le rest by (simp add: u64_def)
  qed
qed

lemma ParseDuration_i64:
  assumes "ParseDuration s = Some d"
  shows "is_i64 d"
proof -
  obtain neg t where t: "drop_sign s = (neg, t)" by fastforce
  show ?thesis
  proof (cases "t = ''0''")
    case True
    then show ?thesis using assms t by (simp add: ParseDuration_def is_i64_def)
  next
    case False
    then obtain r where r: "duration_loop 0 t = Some r" and d: "if neg then d = - r else d = r \<and> r \<le> 2 ^ 63 - 1"
      using assms t by (auto simp: ParseDuration_def split: if_splits option.splits)
    show ?thesis using duration_loop_range [OF r] d by (auto simp: is_i64_def split: if_splits)
  qed
qed

lemma ParseInt_i64: "ParseInt s = Some v \<Longrightarrow> is_i64 v"
  by (auto simp: ParseInt_def Let_def split: if_splits list.splits prod.splits)

definition storage_typed :: "storage_config \<Rightarrow> bool" where
  "storage_typed s \<longleftrightarrow> is_i64 (MaxAge s) \<and> is_i64 (GCInterval s) \<and> is_i64 (StaleTempAge s) \<and>
     is_i64 (cfg_MaxBytes s) \<and> is_i64 (cfg_MinFreeBytes s)"

definition config_typed :: "config \<Rightarrow> bool" where
  "config_typed c \<longleftrightarrow> storage_typed (cfg_Storage c) \<and> (\<forall>r \<in> set (Repositories c). is_i64 (TTL r))"

lemma set_storage_typed: "set_storage k v s = Inr t \<Longrightarrow> storage_typed s \<Longrightarrow> storage_typed t"
  by (auto simp: set_storage_def converted_def storage_typed_def ParseDuration_i64 ParseInt_i64 split: if_splits option.splits)

lemma set_repository_typed: "set_repository k v s = Inr t \<Longrightarrow> is_i64 (TTL s) \<Longrightarrow> is_i64 (TTL t)"
  by (auto simp: set_repository_def converted_def ParseDuration_i64 split: if_splits option.splits)

definition parser_typed :: "parser \<Rightarrow> bool" where
  "parser_typed p \<longleftrightarrow> config_typed (p_cfg p) \<and> (p_current p \<longrightarrow> Repositories (p_cfg p) \<noteq> [])"

lemma assign_typed:
  assumes "assign k v p = Inr q" "parser_typed p"
  shows "parser_typed q"
proof -
  let ?c = "p_cfg p"
  have "\<forall>r \<in> set (butlast (Repositories ?c)). is_i64 (TTL r)"
    using assms(2) by (auto simp: parser_typed_def config_typed_def dest: in_set_butlastD)
  moreover have "is_i64 (TTL r)" if "set_repository k v (last (Repositories ?c)) = Inr r" "p_current p" for r
    using set_repository_typed [OF that(1)] assms(2) that(2) by (auto simp: parser_typed_def config_typed_def)
  ultimately show ?thesis using assms set_storage_typed [of k v "cfg_Storage ?c"]
    by (auto simp: assign_def Let_def parser_typed_def config_typed_def split: if_splits sum.splits)
qed

lemma parse_section_typed: "parse_section l p = Inr q \<Longrightarrow> parser_typed p \<Longrightarrow> parser_typed q"
  by (auto simp: parse_section_def Let_def parser_typed_def config_typed_def new_repository_def is_i64_def split: if_splits)

lemma parse_line_typed: "parse_line g t p = Inr q \<Longrightarrow> parser_typed p \<Longrightarrow> parser_typed q"
  using parse_section_typed assign_typed
  by (auto simp: parse_line_def Let_def split: if_splits sum.splits prod.splits)

lemma parse_loop_typed: "parse_loop g n ts p = Inr q \<Longrightarrow> parser_typed p \<Longrightarrow> parser_typed q"
  by (induction g n ts p rule: parse_loop.induct) (auto dest: parse_line_typed split: sum.splits)

lemma Parse_typed:
  assumes "Parse g input e = Inr c"
  shows "Validate c = None" "config_typed c" "e = None"
proof -
  have "parser_typed \<lparr>p_cfg = default_config, p_section = [], p_current = False\<rparr>"
    by (simp add: parser_typed_def config_typed_def storage_typed_def default_config_def is_i64_def)
  then show "Validate c = None" "config_typed c" "e = None"
    using assms parse_loop_typed [of g 1 "fst (scan_lines (raw_lines input))"]
    by (auto simp: Parse_def parser_typed_def split: prod.splits sum.splits if_splits option.splits)
qed

section \<open>Load\<close>

lemma resolve_path_absolute: "IsAbs path \<Longrightarrow> IsAbs (resolve_path path p)"
  by (simp add: resolve_path_def IsAbs_Dir IsAbs_Join)

lemma absolute_not_blank: "IsAbs p \<Longrightarrow> TrimSpace p \<noteq> []"
  by (cases p) (auto simp: IsAbs_def HasPrefix_def TrimSpace_def Trim_def TrimLeft_def TrimRight_def ascii_spaces_def
    dropWhile_eq_Nil_conv)

lemma validate_repositories_frame:
  "(\<And>r. (repo_Name (f r), repo_Type (f r), repo_Path (f r), Upstream (f r), TTL (f r), AllowedFileOrigins (f r)) =
     (repo_Name r, repo_Type r, repo_Path r, Upstream r, TTL r, AllowedFileOrigins r) \<and>
     (PublishTokenFile (f r) = [] \<longleftrightarrow> PublishTokenFile r = [])) \<Longrightarrow>
   validate_repositories (map f rs) ps ns = validate_repositories rs ps ns"
proof (induction rs ps ns rule: validate_repositories.induct)
  case (2 r rs ps ns)
  have eqs: "repo_Name (f r) = repo_Name r" "repo_Type (f r) = repo_Type r" "repo_Path (f r) = repo_Path r"
    "Upstream (f r) = Upstream r" "TTL (f r) = TTL r" "AllowedFileOrigins (f r) = AllowedFileOrigins r"
    "PublishTokenFile (f r) = [] \<longleftrightarrow> PublishTokenFile r = []"
    using 2(2) [of r] by auto
  have "validate_repository (f r) ps ns = validate_repository r ps ns"
    unfolding validate_repository_def eqs by (rule refl)
  then show ?case using 2 by (auto split: sum.splits)
qed simp

text \<open>C39.
  
  What loading a configuration guarantees, whatever the file holds and whatever the
  environment variables are: when the configuration file is named by an absolute path, the
  result passes the validation, every duration and byte count fits 64 bits, and the storage
  path and the files with the tokens are absolute.
\<close>

theorem Load_guarantees:
  assumes "Load getenv path opened = Inr c" "IsAbs path"
  shows "Validate c = None \<and> config_typed c \<and> IsAbs (storage_Path (cfg_Storage c)) \<and>
    (TokenFile c = [] \<or> IsAbs (TokenFile c)) \<and>
    (\<forall>r \<in> set (Repositories c). PublishTokenFile r = [] \<or> IsAbs (PublishTokenFile r))"
proof -
  obtain input d where parse: "Parse getenv input None = Inr d"
    and c: "c = d\<lparr>cfg_Storage := (cfg_Storage d)\<lparr>storage_Path := resolve_path path (storage_Path (cfg_Storage d))\<rparr>,
      TokenFile := (if TokenFile d \<noteq> [] then resolve_path path (TokenFile d) else []),
      Repositories := map (\<lambda>r. if PublishTokenFile r \<noteq> []
        then r\<lparr>PublishTokenFile := resolve_path path (PublishTokenFile r)\<rparr> else r) (Repositories d)\<rparr>"
    using assms(1) Parse_typed(3) by (fastforce simp: Load_def Let_def split: sum.splits prod.splits)
  have abs: "IsAbs (resolve_path path p)" for p by (rule resolve_path_absolute [OF assms(2)])
  have ne: "resolve_path path p \<noteq> []" for p using abs [of p] by (auto simp: IsAbs_def HasPrefix_def)
  have "validate_repositories (Repositories c) [] [] = validate_repositories (Repositories d) [] []"
    by (simp add: c, rule validate_repositories_frame) (simp add: ne)
  then have "Validate c = None"
    using Parse_typed(1) [OF parse] absolute_not_blank [OF abs]
    by (auto simp: Validate_def Let_def c split: sum.splits if_splits)
  moreover have "config_typed c" using Parse_typed(2) [OF parse] by (auto simp: config_typed_def storage_typed_def c)
  ultimately show ?thesis using abs by (auto simp: c)
qed

definition quoted :: "string \<Rightarrow> string" where
  "quoted v = [CHR 0x22] @ v @ [CHR 0x22]"

definition sample_toml :: string where
  "sample_toml = concat (map (\<lambda>l. l @ [newline])
     [''# n0ding'', ''[server]'', ''listen = '' @ quoted '':9'' @ '' # all'', ''[repository.npm]'', ''upstream = $UP'', ''ttl=1h''])"

lemma sample_loads:
  "case Load (\<lambda>_. ''https://r.org'') ''/etc/n0ding.toml'' (Inr (sample_toml, None)) of
     Inl _ \<Rightarrow> False | Inr c \<Rightarrow> storage_Path (cfg_Storage c) = ''/etc/data''"
  by code_simp

theorem Load_guarantees_witness:
  "case Load (\<lambda>_. ''https://r.org'') ''/etc/n0ding.toml'' (Inr (sample_toml, None)) of
     Inl _ \<Rightarrow> False | Inr c \<Rightarrow> Validate c = None \<and> config_typed c \<and> IsAbs (storage_Path (cfg_Storage c))"
proof -
  have "IsAbs ''/etc/n0ding.toml''" by code_simp
  then show ?thesis
    using sample_loads Load_guarantees [where getenv = "\<lambda>_. ''https://r.org''" and path = "''/etc/n0ding.toml''"
        and opened = "Inr (sample_toml, None)"]
    by (auto split: sum.splits)
qed

section \<open>Every plain configuration can be written down\<close>

text \<open>Text without quotes, backslashes, dollar signs and control characters.\<close>

definition plain_char :: "char \<Rightarrow> bool" where
  "plain_char c \<longleftrightarrow> 32 \<le> byte c \<and> byte c \<le> 126 \<and> c \<noteq> CHR 0x22 \<and> c \<noteq> CHR 0x5C \<and> c \<noteq> CHR ''$''"

definition setting :: "string \<Rightarrow> string \<Rightarrow> string" where
  "setting k v = k @ '' = '' @ quoted v"

definition nanoseconds :: "int \<Rightarrow> string" where
  "nanoseconds n = FormatInt n @ ''ns''"

definition truth :: "bool \<Rightarrow> string" where
  "truth b = (if b then ''true'' else ''false'')"

definition write_server :: "server_config \<Rightarrow> string list" where
  "write_server s = [''[server]'', setting ''listen'' (Listen s), setting ''public_base_url'' (PublicBaseURL s),
     setting ''log_level'' (Log s)]"

definition write_storage :: "string \<Rightarrow> string \<Rightarrow> storage_config \<Rightarrow> string list" where
  "write_storage high low s = [''[storage]'', setting ''path'' (storage_Path s), setting ''max_age'' (nanoseconds (MaxAge s)),
     setting ''gc_interval'' (nanoseconds (GCInterval s)), setting ''stale_temp_age'' (nanoseconds (StaleTempAge s)),
     setting ''max_bytes'' (FormatInt (cfg_MaxBytes s)), setting ''high_watermark'' high, setting ''low_watermark'' low,
     setting ''min_free_bytes'' (FormatInt (cfg_MinFreeBytes s))]"

definition write_repository :: "repository_config \<Rightarrow> string list" where
  "write_repository r = [''[repository.'' @ repo_Name r @ '']'', setting ''type'' (repo_Type r), setting ''path'' (repo_Path r),
     setting ''upstream'' (Upstream r), setting ''ttl'' (nanoseconds (TTL r)),
     setting ''forward_authorization'' (truth (ForwardAuthorization r)),
     setting ''publish_token_file'' (PublishTokenFile r),
     setting ''allowed_file_origins'' (join_with '','' (AllowedFileOrigins r))]"

definition write_lines :: "string \<Rightarrow> string \<Rightarrow> config \<Rightarrow> string list" where
  "write_lines high low c = write_server (cfg_Server c) @ write_storage high low (cfg_Storage c) @
     [''[operator]'', setting ''token_file'' (TokenFile c)] @ concat (map write_repository (Repositories c))"

text \<open>The values of a configuration, given as text.\<close>

definition plain_origin_text :: "string \<Rightarrow> bool" where
  "plain_origin_text v \<longleftrightarrow> v \<noteq> [] \<and> CHR '','' \<notin> set v \<and> CHR '' '' \<notin> set v"

definition plain_config :: "config \<Rightarrow> bool" where
  "plain_config c \<longleftrightarrow>
     list_all plain_char (Listen (cfg_Server c)) \<and> list_all plain_char (PublicBaseURL (cfg_Server c)) \<and>
     list_all plain_char (Log (cfg_Server c)) \<and> list_all plain_char (storage_Path (cfg_Storage c)) \<and>
     list_all plain_char (TokenFile c) \<and>
     (\<forall>r \<in> set (Repositories c). list_all plain_char (repo_Path r) \<and> list_all plain_char (Upstream r) \<and>
        list_all plain_char (PublishTokenFile r) \<and>
        (\<forall>v \<in> set (AllowedFileOrigins r). list_all plain_char v \<and> plain_origin_text v))"

lemma plain_not_special:
  "plain_char c \<Longrightarrow> c \<noteq> CHR 0x0A \<and> c \<noteq> CHR 0x0D \<and> c \<noteq> CHR 0x22 \<and> c \<noteq> CHR 0x5C \<and> c \<noteq> CHR ''$'' \<and> byte c < 128"
  by (auto simp: plain_char_def byte_def)

lemma unquote_plain: "list_all plain_char v \<Longrightarrow> unquote_loop (v @ [CHR 0x22]) = Some (v, [])"
proof (induction v)
  case Nil
  then show ?case by (simp add: unquote_loop.simps)
next
  case (Cons c v)
  then have c: "c \<noteq> CHR 0x0A" "c \<noteq> CHR 0x22" "c \<noteq> CHR 0x5C" "byte c < 128" using plain_not_special by auto
  then have "utf8_len ((c # v) @ [CHR 0x22]) = 1" by (simp add: utf8_len_ascii)
  then show ?case using Cons c by (subst unquote_loop.simps) simp
qed

lemma parseValue_quoted: "list_all plain_char v \<Longrightarrow> parseValue (quoted v) = Inr v"
  by (simp add: parseValue_def quoted_def HasPrefix_def Unquote_def unquote_plain)

lemma os_Expand_plain: "CHR ''$'' \<notin> set v \<Longrightarrow> os_Expand g v = v"
proof (induction v)
  case Nil
  then show ?case by (simp add: os_Expand.simps)
next
  case (Cons c v)
  then show ?case by (subst os_Expand.simps) auto
qed

lemma TrimSpace_id:
  assumes "s \<noteq> []" "hd s \<notin> set ascii_spaces" "last s \<notin> set ascii_spaces"
  shows "TrimSpace s = s"
proof -
  have "TrimLeft s ascii_spaces = s" using assms by (cases s) (simp_all add: TrimLeft_def)
  moreover have "dropWhile (\<lambda>c. c \<in> set ascii_spaces) (rev s) = rev s"
    using assms by (cases s rule: rev_cases) simp_all
  ultimately show ?thesis by (simp add: TrimSpace_def Trim_def TrimRight_def)
qed

lemma TrimSpace_padded:
  assumes "s \<noteq> []" "hd s \<notin> set ascii_spaces" "last s \<notin> set ascii_spaces"
  shows "TrimSpace (CHR '' '' # s) = s" "TrimSpace (s @ '' '') = s"
proof -
  have sp: "CHR '' '' \<in> set ascii_spaces" by (simp add: ascii_spaces_def)
  show "TrimSpace (CHR '' '' # s) = s" using TrimSpace_id [OF assms] sp by (simp add: TrimSpace_def Trim_def TrimLeft_def)
  have "TrimLeft (s @ '' '') ascii_spaces = s @ '' ''" using assms by (cases s) (simp_all add: TrimLeft_def)
  moreover have "dropWhile (\<lambda>c. c \<in> set ascii_spaces) (rev (s @ '' '')) = rev s"
    using assms sp by (cases s rule: rev_cases) simp_all
  ultimately show "TrimSpace (s @ '' '') = s" by (simp add: TrimSpace_def Trim_def TrimRight_def)
qed

definition key_char :: "char \<Rightarrow> bool" where
  "key_char c \<longleftrightarrow> is_lower c \<or> c = CHR ''_''"

definition key_name :: "string \<Rightarrow> bool" where
  "key_name k \<longleftrightarrow> k \<noteq> [] \<and> list_all key_char k"

lemma key_char_not: "key_char c \<Longrightarrow> c \<notin> set ascii_spaces \<and> c \<notin> {CHR ''#'', CHR 0x22, CHR ''='', CHR ''[''}"
  by (auto simp: key_char_def is_lower_def byte_def ascii_spaces_def)

lemma Cut_single: "c \<notin> set a \<Longrightarrow> Cut (a @ c # s) [c] = (a, s, True)"
  using Index_single [of c a s] by (simp add: Cut_def)

lemma plain_quoted_body: "list_all plain_char v \<Longrightarrow> quoted_body False v"
  by (induction v) (auto dest: plain_not_special)

text \<open>A line with a key and a quoted value sets the key to the value.\<close>

lemma parse_setting:
  assumes key: "key_name k" and v: "list_all plain_char v"
  shows "parse_line g (setting k v) p = assign k v p"
proof -
  have k: "list_all key_char k" "k \<noteq> []" using key by (simp_all add: key_name_def)
  have kc: "c \<in> set k \<Longrightarrow> c \<notin> set ascii_spaces \<and> c \<notin> {CHR ''#'', CHR 0x22, CHR ''='', CHR ''[''}" for c
    using k(1) key_char_not by (auto simp: list_all_iff)
  have ends: "hd k \<in> set k" "last k \<in> set k" using k(2) by simp_all
  have q: "quoted v \<noteq> []" "hd (quoted v) = CHR 0x22" "last (quoted v) = CHR 0x22" by (simp_all add: quoted_def)
  have nq: "CHR 0x22 \<notin> set ascii_spaces" by (simp add: ascii_spaces_def)
  have strip: "stripComment (setting k v) = setting k v"
  proof -
    have "CHR ''#'' \<notin> set (k @ '' = '')" "CHR 0x22 \<notin> set (k @ '' = '')" using kc by auto
    note strip_loop_plain [OF this, of "CHR 0x22 # v @ [CHR 0x22]"]
    then have "strip_loop False False ((k @ '' = '') @ CHR 0x22 # v @ [CHR 0x22]) = (k @ '' = '') @ CHR 0x22 # v @ [CHR 0x22]"
      using strip_loop_quoted [OF plain_quoted_body [OF v], of "[]"] by simp
    then show ?thesis by (simp add: stripComment_def setting_def quoted_def)
  qed
  have trim: "TrimSpace (setting k v) = setting k v"
    by (rule TrimSpace_id) (use kc ends k(2) nq in \<open>auto simp: setting_def quoted_def\<close>)
  have start: "setting k v \<noteq> []" "\<not> HasPrefix (setting k v) ''[''"
    using kc [OF ends(1)] k(2) by (cases k; simp add: setting_def HasPrefix_def)+
  have "CHR ''='' \<notin> set (k @ '' '')" using kc by auto
  then have cut: "Cut (setting k v) ''='' = (k @ '' '', CHR '' '' # quoted v, True)"
    using Cut_single [of "CHR ''=''" "k @ '' ''" "CHR '' '' # quoted v"] by (simp add: setting_def)
  have "TrimSpace (k @ '' '') = k" using TrimSpace_padded(2) [of k] kc ends k(2) by blast
  moreover have "TrimSpace (CHR '' '' # quoted v) = quoted v" using TrimSpace_padded(1) [of "quoted v"] q nq by simp
  moreover have "CHR ''$'' \<notin> set v" using v plain_not_special by (auto simp: list_all_iff)
  ultimately show ?thesis
    by (simp add: parse_line_def Let_def strip trim start cut parseValue_quoted [OF v] os_Expand_plain)
qed

end
