(* ===== verification/Server_Books.thy ===== *)
theory Server_Books
  imports Server_Dispatch Pypi_Private_Theorems Config_Theorems
begin

text \<open>
  The books after a start: when the file system does not fail, the counters of every store
  agree with its directory, and the shared budget counts exactly the cached entries and the
  private packages that are on disk, also after the first collection.
\<close>

section \<open>Opening the stores\<close>

text \<open>
  What a start does to files that belong to no cache entry: it leaves them, and it may make
  directories; no file is new.
\<close>

definition plain_same :: "fs \<Rightarrow> fs \<Rightarrow> bool" where
  "plain_same f g \<longleftrightarrow>
     (\<forall>q. foreign q \<longrightarrow> \<not> isTempName (path_last q) \<longrightarrow>
        node_at g q = node_at f q \<or> node_at f q = None \<and> node_at g q = Some Directory) \<and>
     (\<forall>q c t. node_at g q = Some (Regular c t) \<longrightarrow> node_at f q = Some (Regular c t))"

definition opened :: "fs \<Rightarrow> fs \<Rightarrow> bool" where
  "opened f g \<longleftrightarrow> faults g = [] \<and> plain_same f g \<and> (\<forall>q. is_meta q \<longrightarrow> entry_of g q = entry_of f q) \<and>
     (\<forall>q. node_at f q = Some Directory \<longrightarrow> node_at g q = Some Directory)"

lemma plain_same_trans: "plain_same f g \<Longrightarrow> plain_same g h \<Longrightarrow> plain_same f h"
  unfolding plain_same_def by (metis option.distinct(1))

lemma opened_trans: "opened f g \<Longrightarrow> opened g h \<Longrightarrow> opened f h"
  using plain_same_trans [of f g h] by (simp add: opened_def)

lemma opened_same: "faults g = [] \<Longrightarrow> node_at g = node_at f \<Longrightarrow> opened f g"
  using entry_of_all_cong [of g f] by (simp add: opened_def plain_same_def)

lemma make_dirs_done:
  "make_dirs ps f = (e, g) \<Longrightarrow> faults g = faults f \<and> (e = None \<longrightarrow> (\<forall>p \<in> set ps. node_at g p = Some Directory))"
proof (induction ps arbitrary: f)
  case (Cons p ps)
  have stay: "node_at h p = Some Directory" if "make_dirs ps h0 = (e', h)" "node_at h0 p = Some Directory" for h0 e' h
    using make_dirs_frame [OF that(1), of p] that(2) by simp
  show ?case
  proof (cases "node_at f p")
    case None
    have "faults (set_node p Directory f) = faults f" by (simp add: set_node_def)
    then show ?thesis using None Cons.prems Cons.IH [of "set_node p Directory f"] stay [of "set_node p Directory f" e g] by simp
  next
    case (Some n)
    then show ?thesis using Cons.prems Cons.IH [of f] stay [of f e g] by (cases n) auto
  qed
qed simp

lemma MkdirAll_opened:
  assumes "faults f = []" "os_MkdirAll d f = (e, g)"
  shows "opened f g \<and> (e = None \<longrightarrow> node_at g d = Some Directory)"
proof -
  have m: "make_dirs (prefixes d) f = (e, g)" using assms by (simp add: os_MkdirAll_def)
  note D = make_dirs_done [OF m]
  have fr: "node_at g q = node_at f q \<or> node_at f q = None \<and> node_at g q = Some Directory" for q
    by (rule make_dirs_frame [OF m])
  have "plain_same f g" unfolding plain_same_def using fr by (metis node.distinct(1) option.inject)
  moreover have "entry_of g q = entry_of f q" if "is_meta q" for q
    using off_entry [OF MkdirAll_off [OF assms(2)] that] .
  moreover have "node_at g q = Some Directory" if "node_at f q = Some Directory" for q using fr [of q] that by simp
  ultimately show ?thesis using D assms(1) by (simp add: opened_def in_set_prefixes)
qed

lemma Cleanup_opened:
  assumes "faults f = []" "node_at f (store_root s) \<noteq> None" "maxAge > 0" "CleanupStaleTemps now maxAge s f = ((r, err), g)"
  shows "opened f g"
proof -
  have N: "node_at g q = (if prefix (store_root s) q \<and> stale_temp (activeTemps s) (now - maxAge) f q then None else node_at f q)" for q
    using Cleanup_exact [OF assms] by blast
  obtain e where w: "WalkDir (store_root s) (Cleanup_visit (activeTemps s) (now - maxAge)) f \<lparr>tc_Files = 0, tc_Bytes = 0\<rparr> = (e, g, r)"
    using assms(3,4) by (auto simp: CleanupStaleTemps_def split: prod.splits)
  have "faults g = []"
  proof (rule WalkDir_invariant [where P = "\<lambda>g _. faults g = []", OF w assms(1)])
    fix p n f r e g r' assume "faults f = []" "Cleanup_visit (activeTemps s) (now - maxAge) p n f r = (e, g, r')"
    then show "faults g = []"
      using os_Stat_tick [of p f] faults_Remove [of "snd (os_Stat p f)" p]
      by (auto simp: Cleanup_visit_def split: if_splits prod.splits sum.splits option.splits)
  qed simp
  moreover have "plain_same f g" unfolding plain_same_def using N by (auto simp: stale_temp_def)
  moreover have "entry_of g q = entry_of f q" if "is_meta q" for q
    by (rule entry_of_cong [OF that]) (use N touches_not_temp [OF that] in \<open>auto simp: stale_temp_def\<close>)
  moreover have "node_at g q = Some Directory" if "node_at f q = Some Directory" for q using N [of q] that by (simp add: stale_temp_def)
  ultimately show ?thesis by (simp add: opened_def)
qed

lemma usage_frame:
  assumes "\<And>q. is_meta q \<Longrightarrow> prefix rt q \<Longrightarrow> entry_of g q = entry_of f q"
  shows "usage rt g = usage rt f"
proof -
  let ?A = "set (walk_list rt f) \<union> set (walk_list rt g)"
  have e: "entry_of g q = entry_of f q" if "prefix rt q" for q
    using assms [OF _ that] entry_of_is_meta [of f q] entry_of_is_meta [of g q] by (cases "is_meta q") (metis not_Some_eq)+
  have A: "finite ?A" "\<And>q. q \<in> ?A \<Longrightarrow> prefix rt q" by (simp, auto simp: set_walk_list)
  have f: "usage rt f = (sum (entry_size f) ?A, sum (entry_count f) ?A)"
    by (rule usage_sums [OF A]) (use entry_in_walk [of rt _ f] in blast)+
  have g: "usage rt g = (sum (entry_size g) ?A, sum (entry_count g) ?A)"
    by (rule usage_sums [OF A]) (use entry_in_walk [of rt _ g] in blast)+
  have "sum (entry_size g) ?A = sum (entry_size f) ?A" "sum (entry_count g) ?A = sum (entry_count f) ?A"
    using e A(2) by (auto intro!: sum.cong simp: entry_size_def entry_count_def)
  then show ?thesis by (simp add: f g)
qed

lemma usage_nonneg: "0 \<le> fst (usage rt f)"
  by (auto simp: usage_def entry_size_def intro!: sum_list_nonneg split: option.split)

text \<open>The directory of a repository's store.\<close>

definition store_dir :: "config \<Rightarrow> repository_config \<Rightarrow> path" where
  "store_dir cfg r = path_of (Join [storage_Path (cfg_Storage cfg), repo_Name r])"

lemma new_store_opened:
  assumes "faults f = []" "new_store env cfg i r f = (Inr ms, g)"
  shows "opened f g \<and> counted (ms_store ms) g \<and> store_root (ms_store ms) = store_dir cfg r \<and>
    node_at g (store_dir cfg r) = Some Directory"
proof -
  let ?s0 = "\<lparr>store_root = store_dir cfg r, store_bytes = 0, store_objects = 0, activeTemps = []\<rparr>"
  obtain s f1 where n: "New_store (store_dir cfg r) f = (Inr s, f1)"
    using assms(2) by (auto simp: new_store_def store_dir_def split: prod.splits sum.splits)
  obtain f0 where m: "os_MkdirAll (store_dir cfg r) f = (None, f0)"
    using n by (auto simp: New_store_def split: prod.splits option.splits)
  have o: "opened f f0" and d: "node_at f0 (store_dir cfg r) = Some Directory" using MkdirAll_opened [OF assms(1) m] by auto
  have F: "faults f0 = []" using o by (simp add: opened_def)
  note R = Reconcile_exact [of f0 ?s0, simplified, OF F]
  have s: "store_root s = store_dir cfg r" "f1 = f0" "counted s f0"
    using n R d by (auto simp: New_store_def m counted_def)
  show ?thesis
  proof (cases "StaleTempAge (cfg_Storage cfg) > 0")
    case True
    obtain t err where c: "CleanupStaleTemps (se_clock env i) (StaleTempAge (cfg_Storage cfg)) s f0 = ((t, err), g)" "ms_store ms = s"
      using assms(2) True n s(2) by (auto simp: new_store_def store_dir_def split: prod.splits option.splits)
    have g: "opened f0 g" using Cleanup_opened [OF F _ True c(1)] d s(1) by simp
    have "usage (store_root s) g = usage (store_root s) f0" by (rule usage_same) (use g in \<open>simp add: opened_def\<close>)
    then have "counted s g" using s(3) by (simp add: counted_def)
    moreover have "node_at g (store_dir cfg r) = Some Directory" using g d by (simp add: opened_def)
    ultimately show ?thesis using opened_trans [OF o g] c(2) s(1) by simp
  next
    case False
    then have "ms_store ms = s" "g = f0" using assms(2) n s(2) by (auto simp: new_store_def store_dir_def)
    then show ?thesis using o d s by simp
  qed
qed

lemma read_token_opened:
  assumes "faults f = []" "read_token file h e f = (r, g)"
  shows "opened f g"
proof -
  obtain x f1 where rd: "os_ReadFile (path_of file) f = (x, f1)" by fastforce
  have "faults f1 = []" using rd assms(1)
    by (auto simp: os_ReadFile_def os_Stat_def split: option.splits node.splits prod.splits sum.splits if_splits)
  moreover have "g = f1" using assms(2) by (auto simp: read_token_def rd Let_def split: sum.splits)
  ultimately show ?thesis using opened_same os_ReadFile_frame [OF rd] by simp
qed

lemma new_handler_opened:
  assumes "faults f = []" "new_handler cfg r f = (Inr h, g)"
  shows "opened f g"
proof -
  have pypi: "opened f' g" if "faults f' = []" "new_pypi cfg r t f' = (Inr h, g)" for t f'
  proof -
    have "(\<exists>d. os_MkdirAll d f' = (None, g)) \<or> g = f'"
      using that(2) by (auto simp: new_pypi_def pypi_New_def Let_def split: option.splits if_splits prod.splits sum.splits)
    then show ?thesis using MkdirAll_opened [OF that(1)] opened_same [OF that(1)] by blast
  qed
  consider "g = f" | t where "new_pypi cfg r t f = (Inr h, g)"
    | t f1 where "read_token (PublishTokenFile r) (PublishTokenRead (repo_Name r)) (PublishTokenLength (repo_Name r)) f = (Inr t, f1)"
        "new_pypi cfg r t f1 = (Inr h, g)"
    using assms(2) by (auto simp: new_handler_def Let_def split: if_splits option.splits sum.splits prod.splits)
  then show ?thesis
  proof cases
    case 1
    then show ?thesis using opened_same [OF assms(1)] by simp
  next
    case 2
    then show ?thesis by (rule pypi [OF assms(1)])
  next
    case 3
    have o: "opened f f1" by (rule read_token_opened [OF assms(1) 3(1)])
    then have "opened f1 g" using pypi [OF _ 3(2)] by (simp add: opened_def)
    then show ?thesis by (rule opened_trans [OF o])
  qed
qed

text \<open>The stores of the first repositories are open.\<close>

definition books :: "managedStore list \<Rightarrow> fs \<Rightarrow> bool" where
  "books mss f \<longleftrightarrow> (\<forall>ms \<in> set mss. counted (ms_store ms) f)"

lemma books_opened: "opened f g \<Longrightarrow> books mss f \<Longrightarrow> books mss g"
  using usage_same [of g f] by (auto simp: books_def counted_def opened_def)

lemma rooted_opened: "opened f g \<Longrightarrow> (\<forall>ms \<in> set mss. node_at f (store_root (ms_store ms)) = Some Directory) \<Longrightarrow>
    (\<forall>ms \<in> set mss. node_at g (store_root (ms_store ms)) = Some Directory)"
  by (simp add: opened_def)

lemma new_repositories_opened:
  "new_repositories env cfg rs b f = (Inr b', g) \<Longrightarrow> faults f = [] \<Longrightarrow> books (b_stores b) f \<Longrightarrow>
    (\<forall>ms \<in> set (b_stores b). node_at f (store_root (ms_store ms)) = Some Directory) \<Longrightarrow>
    opened f g \<and> books (b_stores b') g \<and>
    (\<forall>ms \<in> set (b_stores b'). node_at g (store_root (ms_store ms)) = Some Directory) \<and>
    map (\<lambda>ms. store_root (ms_store ms)) (b_stores b') = map (\<lambda>ms. store_root (ms_store ms)) (b_stores b) @ map (store_dir cfg) rs"
proof (induction rs arbitrary: b f)
  case Nil
  then show ?case using opened_same [of f f] by simp
next
  case (Cons r rs)
  from Cons.prems(1) obtain ms f1 h f2 table where
    s: "new_store env cfg (length (b_handlers b)) r f = (Inr ms, f1)" and h: "new_handler cfg r f1 = (Inr h, f2)"
    and rest: "new_repositories env cfg rs \<lparr>b_stores = b_stores b @ [ms], b_handlers = b_handlers b @ [h],
            b_byName = AList.update (repo_Name r) h (b_byName b), b_routes = table\<rparr> f2 = (Inr b', g)"
    by (auto simp: Let_def split: prod.splits sum.splits)
  note S = new_store_opened [OF Cons.prems(2) s]
  have o2: "opened f1 f2" by (rule new_handler_opened [OF _ h]) (use S in \<open>simp add: opened_def\<close>)
  have o: "opened f f2" using opened_trans [OF _ o2] S by blast
  have F: "faults f2 = []" using o by (simp add: opened_def)
  have "books [ms] f1" using S by (simp add: books_def)
  then have B: "books (b_stores b @ [ms]) f2"
    using books_opened [OF o2, of "[ms]"] books_opened [OF o Cons.prems(3)] by (auto simp: books_def)
  have D: "\<forall>x \<in> set (b_stores b @ [ms]). node_at f2 (store_root (ms_store x)) = Some Directory"
    using rooted_opened [OF o Cons.prems(4)] rooted_opened [OF o2, of "[ms]"] S by simp
  show ?case using Cons.IH [OF rest F] B D opened_trans [OF o] S by simp
qed

section \<open>The private packages\<close>

lemma finite_nodes: "finite {q. prefix d q \<and> node_at f q \<noteq> None}"
  using set_walk_list [of d f] by (metis (no_types, lifting) List.finite_set)

lemma PrivateSize_sum:
  assumes "faults f = []" "private_bytes (py_localPath p) f \<le> MaxInt64" "PrivateSize p f = ((n, None), g)"
  shows "g = f \<and> n = private_bytes (py_localPath p) f"
proof -
  let ?d = "py_localPath p"
  let ?ps = "map (\<lambda>q. (q, the (node_at f q))) (walk_list ?d f)"
  have st: "os_Stat ?d f = (case node_at f ?d of None \<Rightarrow> Inl NotExist | Some nd \<Rightarrow> Inr nd, f)"
    using assms(1) by (auto simp: os_Stat_def split: option.split)
  then have run: "walk_loop private_visit ?ps f 0 = (None, g, n)"
    using assms(3) by (auto simp: PrivateSize_def WalkDir_def split: prod.splits option.splits)
  have here: "\<forall>(q, nd) \<in> set ?ps. node_at f q = Some nd" by (auto simp: set_walk_list)
  have "private_weight (q, the (node_at f q)) \<le> MaxInt64" if "q \<in> {q. prefix ?d q \<and> node_at f q \<noteq> None}" for q
    using member_le_sum [OF that _ finite_nodes, of "\<lambda>q. private_weight (q, the (node_at f q))"] private_weight_nonneg assms(2)
    by (simp add: private_bytes_def)
  then have "\<forall>x \<in> set ?ps. private_weight x \<le> MaxInt64" by (auto simp: set_walk_list)
  moreover have "sum_list (map private_weight ?ps) = private_bytes ?d f"
    by (simp add: private_bytes_def sum_list_distinct_conv_sum_set set_walk_list comp_def)
  ultimately show ?thesis using private_loop [OF assms(1) here _ _ run] by (simp add: MaxInt64_def)
qed

fun private_total :: "repo_handler list \<Rightarrow> fs \<Rightarrow> int" where
  "private_total [] f = 0"
| "private_total (PypiHandler p # hs) f = private_bytes (py_localPath p) f + private_total hs f"
| "private_total (_ # hs) f = private_total hs f"

lemma private_bytes_nonneg: "0 \<le> private_bytes d f"
  by (auto simp: private_bytes_def intro!: sum_nonneg private_weight_nonneg)

lemma private_total_nonneg: "0 \<le> private_total hs f"
  by (induction hs f rule: private_total.induct) (simp_all add: private_bytes_nonneg)

lemma private_sizes_sum:
  "private_sizes hs f = (Inr ns, g) \<Longrightarrow> faults f = [] \<Longrightarrow> private_total hs f \<le> MaxInt64 \<Longrightarrow>
     g = f \<and> sum_list ns = private_total hs f \<and> (\<forall>n \<in> set ns. 0 \<le> n)"
proof (induction hs f arbitrary: ns g rule: private_sizes.induct)
  case (2 p hs f)
  obtain k e f1 where s: "PrivateSize p f = ((k, e), f1)" by (metis surj_pair)
  have e: "e = None" using 2(2) by (auto simp: s split: option.splits)
  have b: "private_bytes (py_localPath p) f \<le> MaxInt64" "private_total hs f \<le> MaxInt64"
    using 2(4) private_total_nonneg [of hs f] private_bytes_nonneg [of "py_localPath p" f] by simp_all
  have P: "f1 = f" "k = private_bytes (py_localPath p) f" using PrivateSize_sum [OF 2(3) b(1)] s e by auto
  obtain ns' where t: "private_sizes hs f1 = (Inr ns', g)" "ns = k # ns'"
    using 2(2) by (auto simp: s e split: sum.splits prod.splits)
  show ?case using 2(1) [OF s [symmetric] _ e t(1)] 2(3) b(2) P t(2) private_bytes_nonneg [of "py_localPath p" f] by simp
qed simp_all

text \<open>A directory of private packages holds no files of the cache.\<close>

definition plain_private :: "repo_handler list \<Rightarrow> fs \<Rightarrow> bool" where
  "plain_private hs f \<longleftrightarrow>
     (\<forall>p q. PypiHandler p \<in> set hs \<longrightarrow> prefix (py_localPath p) q \<longrightarrow> node_at f q \<noteq> None \<longrightarrow>
        foreign q \<and> \<not> isTempName (path_last q))"

lemma private_bytes_same:
  assumes "plain_same f g" "\<And>q. prefix d q \<Longrightarrow> node_at f q \<noteq> None \<Longrightarrow> foreign q \<and> \<not> isTempName (path_last q)"
  shows "private_bytes d g = private_bytes d f"
proof -
  let ?R = "\<lambda>f. {q. prefix d q \<and> (\<exists>c t. node_at f q = Some (Regular c t))}"
  have bytes: "private_bytes d h = (\<Sum>q \<in> ?R h. private_weight (q, the (node_at h q)))" for h
    unfolding private_bytes_def
  proof (rule sum.mono_neutral_right [OF finite_nodes])
    show "\<forall>q \<in> {q. prefix d q \<and> node_at h q \<noteq> None} - ?R h. private_weight (q, the (node_at h q)) = 0"
    proof
      fix q assume "q \<in> {q. prefix d q \<and> node_at h q \<noteq> None} - ?R h"
      then obtain nd where "node_at h q = Some nd" "\<nexists>c t. nd = Regular c t" by auto
      then have "node_at h q = Some Directory" by (cases nd) auto
      then show "private_weight (q, the (node_at h q)) = 0" by (simp add: private_weight_def)
    qed
  qed auto
  have same: "node_at g q = Some (Regular c t) \<longleftrightarrow> node_at f q = Some (Regular c t)" if "prefix d q" for q c t
    using assms(1) assms(2) [OF that] unfolding plain_same_def by (metis option.distinct(1))
  then have "?R g = ?R f" by blast
  moreover have "node_at g q = node_at f q" if "q \<in> ?R f" for q using same [of q] that by auto
  ultimately show ?thesis unfolding bytes by (intro sum.cong) auto
qed

lemma private_total_same: "plain_same f g \<Longrightarrow> plain_private hs f \<Longrightarrow> private_total hs g = private_total hs f"
proof (induction hs f rule: private_total.induct)
  case (2 p hs f)
  have "private_bytes (py_localPath p) g = private_bytes (py_localPath p) f"
    by (rule private_bytes_same [OF 2(2)]) (use 2(3) in \<open>auto simp: plain_private_def\<close>)
  moreover have "plain_private hs f" using 2(3) by (simp add: plain_private_def)
  ultimately show ?case using 2(1,2) by simp
qed (simp_all add: plain_private_def)

section \<open>Collections keep the books\<close>

text \<open>A collection removes files of entries below the directories it works in.\<close>

definition shrinks :: "(path \<Rightarrow> bool) \<Rightarrow> fs \<Rightarrow> fs \<Rightarrow> bool" where
  "shrinks P f g \<longleftrightarrow> (\<forall>q. node_at g q = node_at f q \<or> \<not> foreign q \<and> node_at g q = None) \<and>
     (\<forall>q. is_meta q \<longrightarrow> \<not> P q \<longrightarrow> entry_of g q = entry_of f q)"

lemma shrinks_plain: "shrinks P f g \<Longrightarrow> plain_same f g"
  unfolding shrinks_def plain_same_def by (metis option.distinct(1))

lemma shrinks_refl: "node_at g = node_at f \<Longrightarrow> shrinks P f g"
  using entry_of_all_cong [of g f] by (simp add: shrinks_def)

lemma shrinks_trans: "shrinks P f g \<Longrightarrow> shrinks P g h \<Longrightarrow> shrinks P f h"
  unfolding shrinks_def by metis

lemma shrinks_mono: "shrinks P f g \<Longrightarrow> (\<And>q. P q \<Longrightarrow> Q q) \<Longrightarrow> shrinks Q f g"
  unfolding shrinks_def by blast

lemma removed_shrinks:
  assumes "removed_entry f p m c g" "P p"
  shows "shrinks P f g"
proof -
  obtain b where b: "entry_of f p = Some (m, b, c)" "node_at g b = None" "node_at g p = node_at f p \<or> node_at g p = None"
    "\<And>q. q \<noteq> b \<Longrightarrow> q \<noteq> p \<Longrightarrow> node_at g q = node_at f q" using assms(1) unfolding removed_entry_def by blast
  have "\<not> foreign p" "\<not> foreign b"
    using removed_entryD(5) [OF assms(1)] b(1) resolveE(2) by (auto simp: foreign_def entry_of_Some)
  then have "node_at g q = node_at f q \<or> \<not> foreign q \<and> node_at g q = None" for q
    using b(2-4) by (cases "q = b"; cases "q = p") auto
  moreover have "entry_of g q = entry_of f q" if "is_meta q" "\<not> P q" for q
    using removed_entryD(2) [OF assms(1) that(1)] that(2) assms(2) by auto
  ultimately show ?thesis by (simp add: shrinks_def)
qed

lemma GC_shrinks:
  assumes "GC now maxAge s f = (r, s', g)"
  shows "shrinks (prefix (store_root s)) f g"
proof (cases "maxAge \<le> 0")
  case True
  then show ?thesis using assms by (auto simp: GC_def intro: shrinks_refl)
next
  case False
  obtain e x where w: "WalkDir (store_root s) (GC_visit (now - maxAge)) f (\<lparr>gc_Objects = 0, gc_Bytes = 0, gc_Skipped = 0\<rparr>, s) = (e, g, x)"
    using assms False by (auto simp: GC_def split: prod.splits)
  show ?thesis
  proof (rule WalkDir_invariant [where P = "\<lambda>g _. shrinks (prefix (store_root s)) f g", OF w shrinks_refl])
    fix p n h rs e h' rs'
    assume p: "prefix (store_root s) p" and h: "shrinks (prefix (store_root s)) f h" and v: "GC_visit (now - maxAge) p n h rs = (e, h', rs')"
    obtain r t r' t' where rs: "rs = (r, t)" "rs' = (r', t')" by fastforce
    from GC_visit_cases [OF v [unfolded rs]] consider "node_at h' = node_at h" | m c where "removed_entry h p m c h'" by blast
    then have "shrinks (prefix (store_root s)) h h'" using p by cases (auto intro: shrinks_refl removed_shrinks)
    then show "shrinks (prefix (store_root s)) f h'" by (rule shrinks_trans [OF h])
  next
    fix h rs assume "shrinks (prefix (store_root s)) f h"
    then show "shrinks (prefix (store_root s)) f (tick h)" using shrinks_trans shrinks_refl [of "tick h" h] by fastforce
  qed simp
qed

abbreviation roots :: "managedStore list \<Rightarrow> path list" where
  "roots mss \<equiv> map (\<lambda>ms. store_root (ms_store ms)) mss"

lemma shrinks_counted: "shrinks P f g \<Longrightarrow> (\<And>q. prefix (store_root s) q \<Longrightarrow> \<not> P q) \<Longrightarrow> counted s f \<Longrightarrow> counted s g"
  using usage_frame [of "store_root s" g f] by (simp add: shrinks_def counted_def)

lemma shrinks_books:
  assumes "shrinks P f g" "books mss f" "\<And>ms q. ms \<in> set mss \<Longrightarrow> prefix (store_root (ms_store ms)) q \<Longrightarrow> \<not> P q"
  shows "books mss g"
  using shrinks_counted [OF assms(1)] assms(2,3) unfolding books_def by blast

lemma GC_root: "GC now maxAge s f = (r, s', g) \<Longrightarrow> store_root s' = store_root s"
  using step_keeps [of "\<lparr>w_store = s, w_fs = f, w_ctl = None\<rparr>" "Collect now maxAge"] by (simp add: keeps_def)

lemma separate_Cons:
  assumes "separate (ms # mss)"
  shows "separate mss" "prefix (store_root (ms_store ms)) q \<Longrightarrow> \<not> owned mss q"
  using assms prefix_same_cases by (auto simp: separate_def owned_def)

lemma owned_roots:
  assumes "roots mss = roots mss'"
  shows "owned mss = owned mss'"
proof -
  have o: "owned ms q \<longleftrightarrow> (\<exists>rt \<in> set (roots ms). prefix rt q)" for ms q by (simp add: owned_def)
  show ?thesis by (rule ext) (simp only: o assms)
qed

lemma collect_stores_books:
  "collect_stores clock maxAge i ctx mss r f ctl = (out, mss', g, ctl') \<Longrightarrow>
    shrinks (owned mss) f g \<and> roots mss' = roots mss \<and> (separate mss \<longrightarrow> books mss f \<longrightarrow> books mss' g)"
proof (induction mss arbitrary: i ctx r f ctl mss')
  case Nil
  then show ?case by (simp add: shrinks_refl books_def)
next
  case (Cons ms rest)
  obtain g1 err s1 f1 where c: "GC (clock i) maxAge (ms_store ms) f = ((g1, err), s1, f1)" by (metis surj_pair)
  let ?rt = "store_root (ms_store ms)"
  have sh: "shrinks (owned (ms # rest)) f f1" by (rule shrinks_mono [OF GC_shrinks [OF c]]) (simp add: owned_def)
  have cs: "counted s1 f1" if "books (ms # rest) f"
    using GC_inv [OF c] that by (simp add: books_def gc_inv_def)
  have br: "books rest f1" if "separate (ms # rest)" "books (ms # rest) f"
  proof (rule shrinks_books [OF GC_shrinks [OF c]])
    show "books rest f" using that(2) by (simp add: books_def)
    show "\<not> prefix ?rt q" if "x \<in> set rest" "prefix (store_root (ms_store x)) q" for x q
      using separate_Cons(2) [OF \<open>separate (ms # rest)\<close>, of q] that by (auto simp: owned_def)
  qed
  show ?case
  proof (cases "ctx_Err ctx = None \<and> err = None")
    case True
    obtain rest' i' ctx' r' ctl0 where rest: "collect_stores clock maxAge i' ctx' rest r' f1 ctl0 = (out, rest', g, ctl')"
      and m: "mss' = ms\<lparr>ms_store := s1\<rparr> # rest'"
      using Cons.prems True c by (auto simp: Let_def split: prod.splits)
    note I = Cons.IH [OF rest]
    have sh': "shrinks (owned (ms # rest)) f1 g"
      by (rule shrinks_mono [OF conjunct1 [OF I]]) (auto simp: owned_def)
    have "books mss' g" if sb: "separate (ms # rest)" "books (ms # rest) f"
    proof -
      have "books rest' g" using I br [OF sb] separate_Cons(1) [OF sb(1)] by blast
      moreover have "counted s1 g"
        by (rule shrinks_counted [OF _ _ cs [OF sb(2)]]) (use I separate_Cons(2) [OF sb(1)] GC_root [OF c] in auto)
      ultimately show ?thesis by (simp add: books_def m)
    qed
    then show ?thesis using shrinks_trans [OF sh sh'] I GC_root [OF c] by (simp add: m)
  next
    case False
    then consider "g = f" "mss' = ms # rest" | "g = f1" "mss' = ms\<lparr>ms_store := s1\<rparr> # rest"
      using Cons.prems c by (auto split: option.splits)
    then show ?thesis
    proof cases
      case 1
      then show ?thesis by (simp add: shrinks_refl)
    next
      case 2
      then show ?thesis using sh cs br GC_root [OF c] by (auto simp: books_def)
    qed
  qed
qed

lemma separate_nth:
  assumes "separate mss" "i < length mss" "j < length mss" "i \<noteq> j"
  shows "\<not> prefix (store_root (ms_store (mss ! i))) (store_root (ms_store (mss ! j)))"
  using assms sorted_wrt_nth_less [of "\<lambda>a b. \<not> prefix a b \<and> \<not> prefix b a" "roots mss" i j]
    sorted_wrt_nth_less [of "\<lambda>a b. \<not> prefix a b \<and> \<not> prefix b a" "roots mss" j i]
  unfolding separate_def by (cases "i < j") auto

text \<open>The candidates, each in the directory of its store.\<close>

definition in_store :: "managedStore list \<Rightarrow> pressureCandidate \<Rightarrow> bool" where
  "in_store mss it \<longleftrightarrow> pc_store it < length mss \<and> prefix (store_root (ms_store (mss ! pc_store it))) (item_path it)"

lemma evict_books:
  "evict need [] items r mss f c = (out, mss', g, c') \<Longrightarrow> faults f = [] \<Longrightarrow> current_items mss f items \<Longrightarrow>
    list_all (in_store mss) items \<Longrightarrow> separate mss \<Longrightarrow> books mss f \<Longrightarrow> shrinks (owned mss) f g \<and> books mss' g \<and> roots mss' = roots mss"
proof (induction items arbitrary: r mss f c)
  case Nil
  then show ?case by (simp add: shrinks_refl)
next
  case (Cons it items)
  show ?case
  proof (cases "RemovedBytes r \<ge> need")
    case True
    then show ?thesis using Cons.prems by (simp add: ctx_Err_def shrinks_refl)
  next
    case False
    let ?c = "pc_candidate it" and ?i = "pc_store it"
    let ?ms = "mss ! ?i"
    let ?s = "(ms_store ?ms)\<lparr>store_bytes := store_bytes (ms_store ?ms) - cand_Bytes ?c,
      store_objects := store_objects (ms_store ?ms) - 1\<rparr>"
    let ?mss = "mss[?i := ?ms\<lparr>ms_store := ?s\<rparr>]"
    have it: "?i < length mss" "candidate_of f (item_path it) = Some ?c" "item_path it \<notin> item_path ` set items"
      and own: "prefix (store_root (ms_store ?ms)) (item_path it)"
      using Cons.prems(3,4) by (auto simp: current_items_def in_store_def)
    obtain f1 where rc: "RemoveCandidate ?c (ms_store ?ms) f = ((True, None), ?s, f1)" and F: "faults f1 = []"
      and N: "node_at f1 = (node_at f)(bodyPath ?c := None, item_path it := None)"
      using RemoveCandidate_current [OF Cons.prems(2) it(2) refl] by blast
    have sr: "roots ?mss = roots mss" using it(1) by (intro nth_equalityI) (auto simp: nth_list_update)
    have ci: "current_items ?mss f1 items" using current_items_step [OF Cons.prems(3) N] by simp
    have ins: "list_all (in_store ?mss) items"
      using Cons.prems(4) it(1) by (auto simp: list_all_iff in_store_def nth_list_update)
    obtain m d where rm: "removed_entry f (item_path it) m d f1" "cand_Bytes ?c = int (length d)"
      using candidate_removed [OF it(2) N] by blast
    have sh: "shrinks (prefix (store_root (ms_store ?ms))) f f1" by (rule removed_shrinks [OF rm(1)]) (rule own)
    have "counted ?s f1" using Cons.prems(6) it(1) removed_entryD(3) [OF rm(1) own] rm(2)
      by (simp add: books_def counted_def prod_eq_iff)
    moreover have "counted (ms_store (mss ! j)) f1" if "j < length mss" "j \<noteq> ?i" for j
    proof (rule shrinks_counted [OF sh])
      show "\<not> prefix (store_root (ms_store ?ms)) q" if "prefix (store_root (ms_store (mss ! j))) q" for q
        using prefix_same_cases [OF that] separate_nth [OF Cons.prems(5)] \<open>j < length mss\<close> \<open>j \<noteq> ?i\<close> it(1) by metis
      show "counted (ms_store (mss ! j)) f" using Cons.prems(6) that(1) by (simp add: books_def)
    qed
    ultimately have "counted (ms_store (?mss ! j)) f1" if "j < length mss" for j
      using that by (cases "j = ?i") simp_all
    then have B: "books ?mss f1" unfolding books_def all_set_conv_all_nth by simp
    have sep: "separate ?mss" using Cons.prems(5) unfolding separate_def sr .
    obtain r' c'' where ev: "evict need [] items r' ?mss f1 c'' = (out, mss', g, c')"
      using Cons.prems(1) False rc by (auto simp: ctx_Err_def Let_def)
    have sh': "shrinks (owned mss) f f1" by (rule shrinks_mono [OF sh]) (use it(1) in \<open>auto simp: owned_def\<close>)
    show ?thesis using Cons.IH [OF ev F ci ins sep B] sr shrinks_trans [OF sh'] owned_roots [OF sr] by simp
  qed
qed

lemma list_candidates_owner:
  assumes "faults f = []"
  shows "list_candidates i mss f = (Inr ps, g) \<Longrightarrow> rooted mss f \<Longrightarrow>
    g = f \<and> (\<forall>it \<in> set ps. i \<le> pc_store it \<and> pc_store it < i + length mss \<and>
       prefix (store_root (ms_store (mss ! (pc_store it - i)))) (item_path it))"
proof (induction mss arbitrary: i ps)
  case (Cons ms mss)
  let ?rt = "store_root (ms_store ms)"
  have rt: "node_at f ?rt \<noteq> None" "rooted mss f" using Cons.prems(2) by (simp_all add: rooted_def)
  obtain cs where cs: "Candidates (ms_store ms) f = ((cs, None), f)"
    "\<And>c. c \<in> set cs \<longleftrightarrow> (\<exists>p. prefix ?rt p \<and> candidate_of f p = Some c)"
    by (rule Candidates_listed [OF assms rt(1)]) blast
  obtain ps' where l: "list_candidates (Suc i) mss f = (Inr ps', g)"
    and ps: "ps = map (\<lambda>c. \<lparr>pc_store = i, pc_candidate = c\<rparr>) cs @ ps'"
    using Cons.prems(1) cs(1) by (auto split: prod.splits sum.splits)
  note I = Cons.IH [OF l rt(2)]
  have "prefix ?rt (metadataPath c)" if "c \<in> set cs" for c using that cs(2) candidate_ofE by metis
  moreover have "(ms # mss) ! (pc_store it - i) = mss ! (pc_store it - Suc i)" if "it \<in> set ps'" for it
  proof -
    have "Suc i \<le> pc_store it" using I that by blast
    then have "pc_store it - i = Suc (pc_store it - Suc i)" by simp
    then show ?thesis by simp
  qed
  ultimately show ?case using I by (auto simp: ps)
qed simp

lemma collectPressure_books:
  assumes "faults f = []" "rooted mss f" "separate mss" "books mss f" "collectPressure [] mss f c = (out, mss', g, c')"
  shows "shrinks (owned mss) f g \<and> books mss' g \<and> roots mss' = roots mss"
proof (cases "i64 (CommittedBytes (Storage_Controller.Snapshot c) - LowBytes (Storage_Controller.Snapshot c)) \<le> 0")
  case True
  then show ?thesis using assms(4,5) by (simp add: collectPressure_def Let_def shrinks_refl)
next
  case False
  obtain ps where ps: "list_candidates 0 mss f = (Inr ps, f)" "distinct (map item_path ps)"
    "\<forall>it \<in> set ps. pc_store it < length mss \<and> candidate_of f (item_path it) = Some (pc_candidate it)"
    using list_candidates_exact [OF assms(1-3), of 0] by auto
  let ?items = "sort_key (\<lambda>p. LastUsed (pc_candidate p)) ps"
  have "current_items mss f ?items"
    using ps(2,3) by (auto simp: current_items_def distinct_map distinct_sort)
  moreover have "list_all (in_store mss) ?items"
    using list_candidates_owner [OF assms(1) ps(1) assms(2)] by (simp add: list_all_iff in_store_def)
  ultimately show ?thesis
    using evict_books [OF _ assms(1) _ _ assms(3,4)] assms(5) False ps(1) by (simp add: collectPressure_def Let_def)
qed

section \<open>The budget after a collection\<close>

lemma collect_stores_total:
  "collect_stores clock maxAge i ctx mss r f ctl = ((r', None), mss', g, ctl') \<Longrightarrow>
    total_bytes mss' + RemovedBytes r' = total_bytes mss + RemovedBytes r"
proof (induction mss arbitrary: i ctx r f ctl mss')
  case (Cons ms mss)
  obtain x err s1 f1 where gc: "GC (clock i) maxAge (ms_store ms) f = ((x, err), s1, f1)" by (metis surj_pair)
  have ok: "ctx_Err ctx = None" "err = None" using Cons.prems gc by (auto split: option.splits)
  let ?r = "r\<lparr>RemovedObjects := RemovedObjects r + gc_Objects x, RemovedBytes := RemovedBytes r + gc_Bytes x,
    SkippedObjects := SkippedObjects r + gc_Skipped x\<rparr>"
  obtain rest ctl0 where rest: "collect_stores clock maxAge (Suc i) (tl ctx) mss ?r f1 ctl0 = ((r', None), rest, g, ctl')"
    and m: "mss' = ms\<lparr>ms_store := s1\<rparr> # rest" using Cons.prems gc ok by (auto simp: Let_def split: prod.splits)
  show ?case using Cons.IH [OF rest] GC_store_books(1) [OF gc [unfolded ok]] by (simp add: m total_bytes_Cons)
qed (auto simp: total_bytes_def)

lemma collect_stores_ctl:
  "collect_stores clock maxAge i ctx mss r f ctl = (out, mss', g, ctl') \<Longrightarrow> \<exists>ns. ctl' = map_option (fold Remove ns) ctl"
proof (induction mss arbitrary: i ctx r f ctl mss')
  case Nil
  then show ?case by (intro exI [of _ "[]"]) (simp add: option.map_ident)
next
  case (Cons ms mss)
  obtain x err s1 f1 where gc: "GC (clock i) maxAge (ms_store ms) f = ((x, err), s1, f1)" by (metis surj_pair)
  show ?case
  proof (cases "ctx_Err ctx = None \<and> err = None")
    case True
    obtain r1 rest where rest: "collect_stores clock maxAge (Suc i) (tl ctx) mss r1 f1 (map_option (Remove (gc_Bytes x)) ctl) = (out, rest, g, ctl')"
      using Cons.prems gc True by (auto simp: Let_def split: prod.splits)
    obtain ns where "ctl' = map_option (fold Remove ns) (map_option (Remove (gc_Bytes x)) ctl)" using Cons.IH [OF rest] by blast
    then show ?thesis by (intro exI [of _ "gc_Bytes x # ns"]) (simp add: option.map_comp comp_def)
  next
    case False
    then have "ctl' = ctl" using Cons.prems gc by (auto split: option.splits)
    then show ?thesis by (intro exI [of _ "[]"]) (simp add: option.map_ident)
  qed
qed

lemma fold_Remove_reserved: "reservedBytes (fold Remove ns c) = reservedBytes c"
  by (induction ns arbitrary: c) (simp_all add: Remove_def Let_def)

lemma total_bytes_nonneg: "books mss f \<Longrightarrow> 0 \<le> total_bytes mss"
proof -
  assume b: "books mss f"
  have "0 \<le> store_bytes (ms_store ms)" if "ms \<in> set mss" for ms
    using b that usage_nonneg [of "store_root (ms_store ms)" f] by (auto simp: books_def counted_def prod_eq_iff)
  then show ?thesis by (auto simp: total_bytes_def intro!: sum_list_nonneg)
qed

text \<open>What the controller has to be for a collection to keep its books.\<close>

definition covers :: "int \<Rightarrow> managedStore list \<Rightarrow> controller \<Rightarrow> bool" where
  "covers rest mss c \<longleftrightarrow> committedBytes c = total_bytes mss + rest \<and> reservedBytes c = 0"

lemma collect_books:
  assumes "collect clock [] sv = ((r, None), sv')" "faults (sv_fs sv) = []" "rooted (sv_stores sv) (sv_fs sv)"
    "separate (sv_stores sv)" "books (sv_stores sv) (sv_fs sv)" "0 \<le> rest"
    "\<And>c. sv_storage sv = Some c \<Longrightarrow> covers rest (sv_stores sv) c \<and> ctl_ok c \<and> 0 \<le> lowBasisPoints c \<and> lowBasisPoints c \<le> 10000"
  shows "plain_same (sv_fs sv) (sv_fs sv') \<and> books (sv_stores sv') (sv_fs sv') \<and>
    rel_option (\<lambda>c c'. covers rest (sv_stores sv') c') (sv_storage sv) (sv_storage sv')"
proof -
  have retention: "plain_same (sv_fs sv) g \<and> books mss' g \<and> rel_option (\<lambda>c c'. covers rest mss' c') (sv_storage sv) ctl'"
    if run: "collect_stores clock (sv_maxAge sv) 0 [] (sv_stores sv) no_result (sv_fs sv) (sv_storage sv) = ((r', None), mss', g, ctl')"
    for r' mss' g ctl'
  proof -
    note B = collect_stores_books [OF run] and T = collect_stores_total [OF run]
    have bk: "books mss' g" using B assms(4,5) by blast
    have "covers rest mss' c'" if c: "sv_storage sv = Some c" "ctl' = Some c'" for c c'
    proof -
      have cv: "committedBytes c = total_bytes (sv_stores sv) + rest" "reservedBytes c = 0" "committedBytes c \<le> MaxInt64"
        using assms(7) [OF c(1)] by (simp_all add: covers_def ctl_ok_def)
      have "RemovedBytes r' \<le> committedBytes c" using T total_bytes_nonneg [OF bk] cv(1) assms(6) by simp
      then have "committedBytes c' + RemovedBytes r' = committedBytes c"
        using retention_balance [OF run [unfolded c(1)] _ cv(3)] c(2) by simp
      moreover have "reservedBytes c' = 0" using collect_stores_ctl [OF run] c cv(2) fold_Remove_reserved by auto
      ultimately show ?thesis using T cv(1) by (simp add: covers_def)
    qed
    moreover have "sv_storage sv = None \<longleftrightarrow> ctl' = None" using collect_stores_ctl [OF run] by (cases "sv_storage sv") auto
    ultimately show ?thesis using bk shrinks_plain B by (cases "sv_storage sv"; cases ctl') auto
  qed
  have pressure: "plain_same (sv_fs sv) g \<and> books mss' g \<and> covers rest mss' c'"
    if c: "sv_storage sv = Some c" and run: "collectPressure [] (sv_stores sv) (sv_fs sv) c = ((r', None), mss', g, c')" for c r' mss' g c'
  proof -
    note B = collectPressure_books [OF assms(2-5) run]
    have cv: "covers rest (sv_stores sv) c" "ctl_ok c" "0 \<le> lowBasisPoints c" "lowBasisPoints c \<le> 10000" using assms(7) [OF c] by auto
    let ?need = "committedBytes c - scaleBasisPoints (maxBytes c) (lowBasisPoints c)"
    have "covers rest mss' c'"
    proof (cases "0 < ?need")
      case True
      obtain items k m2 g2 where x: "collectPressure [] (sv_stores sv) (sv_fs sv) c =
          ((\<lparr>RemovedObjects = int k, RemovedBytes = sum_list (map item_bytes (take k items)), SkippedObjects = 0, Errors = 0\<rparr>, None),
           m2, g2, fold Remove (map item_bytes (take k items)) c)" "current_items (sv_stores sv) (sv_fs sv) items"
          "total_bytes m2 = total_bytes (sv_stores sv) - sum_list (map item_bytes (take k items))"
        by (rule collectPressure_exact [OF assms(2-4) cv(2-4) refl True]) blast
      have m: "m2 = mss'" "c' = fold Remove (map item_bytes (take k items)) c" using x(1) run by simp_all
      have pos: "0 \<le> item_bytes it" if "it \<in> set items" for it
      proof -
        have "candidate_of (sv_fs sv) (item_path it) = Some (pc_candidate it)" using x(2) that by (simp add: current_items_def)
        then show ?thesis by (rule candidate_ofE) simp
      qed
      then have pos: "\<forall>n \<in> set (map item_bytes (take k items)). 0 \<le> n" using in_set_takeD by fastforce
      have "sum_list (map item_bytes (take k items)) \<le> committedBytes c"
        using x(3) m(1) total_bytes_nonneg [of mss' g] B cv(1) assms(6) by (simp add: covers_def)
      then have "committedBytes c' = committedBytes c - sum_list (map item_bytes (take k items))"
        using fold_Remove [OF pos] cv(2) by (simp add: m ctl_ok_def)
      then show ?thesis using x(3) m cv(1) by (simp add: covers_def fold_Remove_reserved)
    next
      case False
      then have "mss' = sv_stores sv" "c' = c"
        using run low_bytes_range [OF cv(2-4)] by (simp_all add: collectPressure_def snapshot_fields Let_def)
      then show ?thesis using cv(1) by simp
    qed
    then show ?thesis using B shrinks_plain by blast
  qed
  show ?thesis
  proof (cases "sv_storage sv")
    case None
    then show ?thesis using assms(1) retention by (auto simp: collect_def split: prod.splits)
  next
    case (Some c)
    then show ?thesis using assms(1) retention pressure [OF Some]
      by (cases "Pressure (Storage_Controller.Snapshot c)") (auto simp: collect_def split: prod.splits)
  qed
qed

section \<open>The start\<close>

lemma math_Round_range: "0 \<le> x \<Longrightarrow> x \<le> 10000 \<Longrightarrow> 0 \<le> math_Round x \<and> math_Round x \<le> 10000"
  unfolding math_Round_def by (simp add: floor_le_iff le_floor_iff)

lemma separate_dirs:
  assumes "Validate cfg = None" "roots mss = map (store_dir cfg) (Repositories cfg)"
  shows "separate mss"
proof -
  have d: "storage_Path (cfg_Storage cfg) \<noteq> []" using assms(1) by (auto simp: Validate_def Let_def split: if_splits sum.splits)
  have e: "plain_element (repo_Name r)" if "r \<in> set (Repositories cfg)" for r
    using Validate_names [OF assms(1)] that by (simp add: plain_element_def)
  have "sorted_wrt (\<lambda>a b. \<not> prefix a b \<and> \<not> prefix b a) (map (store_dir cfg) rs)"
    if "distinct (map repo_Name rs)" "set rs \<subseteq> set (Repositories cfg)" for rs
    using that
  proof (induction rs)
    case (Cons r rs)
    have "\<not> prefix (store_dir cfg r) (store_dir cfg x) \<and> \<not> prefix (store_dir cfg x) (store_dir cfg r)" if "x \<in> set rs" for x
    proof -
      have "store_dir cfg y = path_of (storage_Path (cfg_Storage cfg)) @ [repo_Name y]" if "y \<in> set (r # rs)" for y
        using path_of_Join [OF d e] that Cons.prems(2) by (auto simp: store_dir_def)
      moreover have "repo_Name x \<noteq> repo_Name r" using imageI [OF that, of repo_Name] Cons.prems(1) by auto
      ultimately show ?thesis using that by simp
    qed
    then show ?case using Cons by simp
  qed simp
  then show ?thesis using validate_repositories_ok [OF Validate_repositories [OF assms(1)]] by (simp add: separate_def assms(2))
qed

lemma total_bytes_usage:
  assumes "books mss f" "roots mss = map d rs"
  shows "total_bytes mss = sum_list (map (\<lambda>r. fst (usage (d r) f)) rs)"
proof -
  have "map (\<lambda>ms. store_bytes (ms_store ms)) mss = map (\<lambda>rt. fst (usage rt f)) (roots mss)"
    using assms(1) by (auto simp: books_def counted_def prod_eq_iff)
  then show ?thesis by (simp add: total_bytes_def assms(2) comp_def)
qed

lemma initial_covers:
  assumes "initial_storage mb high low mf mss ns = Some c" "books mss f" "\<forall>n \<in> set ns. 0 \<le> n" "total_bytes mss + sum_list ns \<le> MaxInt64"
    "0 \<le> mb" "mb \<le> MaxInt64" "0 \<le> mf" "mf \<le> MaxInt64" "0 \<le> low" "low \<le> 1"
  shows "covers (sum_list ns) mss c \<and> ctl_ok c \<and> 0 \<le> lowBasisPoints c \<and> lowBasisPoints c \<le> 10000"
proof -
  have pos: "\<forall>ms \<in> set mss. 0 \<le> store_bytes (ms_store ms)"
    using assms(2) usage_nonneg by (fastforce simp: books_def counted_def prod_eq_iff)
  have b: "mb > 0 \<or> mf > 0" "maxBytes c = mb" "minFreeBytes c = mf"
    "committedBytes c = total_bytes mss + sum_list ns" "reservedBytes c = 0"
    using startup_budget [OF pos assms(3), where max_bytes = mb and high = high and low = low and min_free = mf] assms(1,4) by (simp_all add: min_def)
  have "lowBasisPoints c = i64 (math_Round (low * 10000))"
    using assms(1) by (auto simp: initial_storage_def NewController_def Let_def split: if_splits)
  then have "0 \<le> lowBasisPoints c \<and> lowBasisPoints c \<le> 10000"
    using math_Round_range [of "low * 10000"] assms(9,10) by (simp add: i64_in_range)
  moreover have "0 \<le> total_bytes mss + sum_list ns" using total_bytes_nonneg [OF assms(2)] sum_list_nonneg [of ns] assms(3) by simp
  ultimately show ?thesis using b assms by (auto simp: covers_def ctl_ok_def MaxInt64_def)
qed

lemma Run_error:
  "fst (Run now fin trig (r, err) New_coordinator) = run \<Longrightarrow> Error run = (case err of None \<Rightarrow> [] | Some msg \<Rightarrow> msg)"
  by (auto simp: Run_def run_begin_def New_coordinator_def run_end_def write_Result_def write_FinishedAt_def
      write_Error_def write_Errors_def Let_def split: option.split)

lemma first_run_collect:
  assumes "first_run env a0 = (Inr a, g)" "sv_maxAge (svc_server a0) > 0" "svc_gc a0 = New_coordinator"
    "\<And>e. re_message (se_run env) e \<noteq> []"
  shows "\<exists>r. collect (re_clock (se_run env)) [] (svc_server a0) = ((r, None), svc_server a) \<and>
    app_repositories a = app_repositories a0 \<and> g = sv_fs (svc_server a)"
proof -
  let ?env = "(se_run env)\<lparr>re_ctx := []\<rparr>"
  obtain r err sv where c: "collect (re_clock (se_run env)) [] (svc_server a0) = ((r, err), sv)" by (metis surj_pair)
  obtain run ok co where R: "Run (re_start ?env) (re_finish ?env) TriggerStartup (r, map_option (re_message ?env) err) New_coordinator = (run, ok, co)"
    by (metis surj_pair)
  have tr: "svc_server (service.truncate a0) = svc_server a0" "svc_gc (service.truncate a0) = New_coordinator"
    using assms(3) by (simp_all add: service.truncate_def)
  have "current New_coordinator = None" by (simp add: New_coordinator_def)
  then have gr: "gc_Run ?env TriggerStartup (service.truncate a0) =
      (run, ok, (service.truncate a0)\<lparr>svc_server := sv, svc_gc := co\<rparr>)"
    using c R tr by (simp add: gc_Run_def)
  have er: "Error run = []" and a: "\<exists>table. a = a0\<lparr>svc_server := sv, svc_gc := co, app_routes := table\<rparr>" "g = sv_fs sv"
    using assms(1,2) gr by (auto simp: first_run_def split: if_splits sum.splits)
  have "err = None"
  proof (cases err)
    case (Some e)
    then show ?thesis
      using Run_error [of "re_start ?env" "re_finish ?env" TriggerStartup r "map_option (re_message ?env) err" run] R er assms(4) [of e] by simp
  qed
  then show ?thesis using c a by auto
qed

text \<open>C16.
  
  After a start on a file system that does not fail, the books agree with the disk: every
  store counts exactly the complete entries of its directory, and the shared budget counts
  exactly those and the private packages, with nothing reserved. Stale temporary files have
  been removed, and entries that were too old or, under pressure, least recently used, but
  their bytes have been given back.
\<close>

theorem start_books:
  assumes "server_New env cfg version f = (Inr a, g)" "Validate cfg = None" "storage_typed (cfg_Storage cfg)" "faults f = []"
    "\<And>e. re_message (se_run env) e \<noteq> []" "plain_private (app_repositories a) f"
    "sum_list (map (\<lambda>r. fst (usage (store_dir cfg r) f)) (Repositories cfg)) + private_total (app_repositories a) f \<le> MaxInt64"
  shows "(\<forall>ms \<in> set (sv_stores (svc_server a)). counted (ms_store ms) g) \<and>
    (case sv_storage (svc_server a) of
       None \<Rightarrow> cfg_MaxBytes (cfg_Storage cfg) = 0 \<and> cfg_MinFreeBytes (cfg_Storage cfg) = 0
     | Some c \<Rightarrow> committedBytes c = total_bytes (sv_stores (svc_server a)) + private_total (app_repositories a) g \<and>
         reservedBytes c = 0)"
proof -
  let ?st = "cfg_Storage cfg"
  obtain token f1 b f2 ns f3 where
    t: "(if TokenFile cfg \<noteq> [] then read_token (TokenFile cfg) OperatorTokenRead OperatorTokenLength f else (Inr [], f)) = (Inr token, f1)"
    and b: "new_repositories env cfg (Repositories cfg) \<lparr>b_stores = [], b_handlers = [], b_byName = [], b_routes = []\<rparr> f1 = (Inr b, f2)"
    and ps: "private_sizes (b_handlers b) f2 = (Inr ns, f3)"
    and run: "first_run env (assemble env cfg version token b ns f3) = (Inr a, g)"
    using assms(1) unfolding server_New_def by (auto split: sum.splits prod.splits)
  let ?a0 = "assemble env cfg version token b ns f3"
  have o1: "opened f f1" using t read_token_opened [OF assms(4)] opened_same [OF assms(4)] by (auto split: if_splits)
  have F1: "faults f1 = []" using o1 by (simp add: opened_def)
  have N: "opened f1 f2" "books (b_stores b) f2" "\<forall>ms \<in> set (b_stores b). node_at f2 (store_root (ms_store ms)) = Some Directory"
    and rt: "roots (b_stores b) = map (store_dir cfg) (Repositories cfg)"
    using new_repositories_opened [OF b F1] by (simp_all add: books_def)
  have o2: "opened f f2" by (rule opened_trans [OF o1 N(1)])
  have F2: "faults f2 = []" and same2: "plain_same f f2" using o2 by (simp_all add: opened_def)
  have us: "usage rt f2 = usage rt f" for rt by (rule usage_same) (use o2 in \<open>simp add: opened_def\<close>)
  have age: "MaxAge ?st > 0" "cfg_MaxBytes ?st \<ge> 0" "cfg_MinFreeBytes ?st \<ge> 0"
    using assms(2) by (auto simp: Validate_def Let_def split: if_splits sum.splits)
  obtain r where col: "collect (re_clock (se_run env)) [] (svc_server ?a0) = ((r, None), svc_server a)"
    and reps: "app_repositories a = b_handlers b" and g: "g = sv_fs (svc_server a)"
    using first_run_collect [OF run _ _ assms(5)] age(1) by (auto simp: assemble_def Let_def)
  let ?p = "private_total (b_handlers b) f"
  have pt: "private_total (b_handlers b) f2 = ?p" using private_total_same [OF same2] assms(6) reps by simp
  have total: "total_bytes (b_stores b) = sum_list (map (\<lambda>r. fst (usage (store_dir cfg r) f)) (Repositories cfg))"
    using total_bytes_usage [OF N(2) rt] us by simp
  have T: "0 \<le> total_bytes (b_stores b)" by (rule total_bytes_nonneg [OF N(2)])
  have P: "f3 = f2" "sum_list ns = ?p" "\<forall>n \<in> set ns. 0 \<le> n"
    using private_sizes_sum [OF ps F2] assms(7) reps pt total T by simp_all
  have sum: "total_bytes (b_stores b) + sum_list ns \<le> MaxInt64" using assms(7) total P(2) reps by simp
  have sep: "separate (b_stores b)" by (rule separate_dirs [OF assms(2) rt])
  have rooted: "rooted (b_stores b) f2" using N(3) by (simp add: rooted_def)
  obtain low high where wm: "LowWatermark ?st = Finite low" "HighWatermark ?st = Finite high" "0 < low" "low < high" "high < 1"
    using Validate_watermarks [OF assms(2)] by blast
  have st0: "sv_storage (svc_server ?a0) = initial_storage (cfg_MaxBytes ?st) high low (cfg_MinFreeBytes ?st) (b_stores b) ns"
    by (simp add: assemble_def Let_def wm)
  have sv0: "sv_stores (svc_server ?a0) = b_stores b" "sv_fs (svc_server ?a0) = f2"
    by (simp_all add: assemble_def Let_def P(1))
  have B: "plain_same (sv_fs (svc_server ?a0)) (sv_fs (svc_server a)) \<and> books (sv_stores (svc_server a)) (sv_fs (svc_server a)) \<and>
      rel_option (\<lambda>c c'. covers (sum_list ns) (sv_stores (svc_server a)) c') (sv_storage (svc_server ?a0)) (sv_storage (svc_server a))"
  proof (rule collect_books [OF col])
    show "faults (sv_fs (svc_server ?a0)) = []" "rooted (sv_stores (svc_server ?a0)) (sv_fs (svc_server ?a0))"
      "separate (sv_stores (svc_server ?a0))" "books (sv_stores (svc_server ?a0)) (sv_fs (svc_server ?a0))"
      unfolding sv0 by (fact F2 rooted sep N(2))+
    show "0 \<le> sum_list ns" using P(3) by (simp add: sum_list_nonneg)
    fix c assume "sv_storage (svc_server ?a0) = Some c"
    from initial_covers [OF this [unfolded st0] N(2) P(3) sum]
    show "covers (sum_list ns) (sv_stores (svc_server ?a0)) c \<and> ctl_ok c \<and> 0 \<le> lowBasisPoints c \<and> lowBasisPoints c \<le> 10000"
      unfolding sv0 using age(2,3) assms(3) wm by (simp add: storage_typed_def is_i64_def MaxInt64_def)
  qed
  have "private_total (b_handlers b) g = ?p"
    by (rule private_total_same [OF plain_same_trans [OF same2]]) (use B assms(6) reps in \<open>simp_all add: sv0 g\<close>)
  moreover have "sv_storage (svc_server ?a0) = None \<Longrightarrow> cfg_MaxBytes ?st = 0 \<and> cfg_MinFreeBytes ?st = 0"
    using age(2,3) by (auto simp: st0 initial_storage_def Let_def split: if_splits)
  ultimately show ?thesis using B P(2) unfolding reps g [symmetric]
    by (cases "sv_storage (svc_server ?a0)"; cases "sv_storage (svc_server a)") (auto simp: books_def covers_def)
qed

definition released_disk :: fs where
  "released_disk = \<lparr>nodes = [([''data''], Directory), ([''data'', ''py''], Directory), ([''data'', ''py'', ''private''], Directory),
     ([''data'', ''py'', ''private'', ''a.whl''], Regular ''abc'' 3)], faults = []\<rparr>"

definition bounded_config :: config where
  "bounded_config = sample_config\<lparr>cfg_Storage := (cfg_Storage sample_config)\<lparr>cfg_MaxBytes := 100\<rparr>\<rparr>"

lemma released_nodes: "node_at released_disk = [[''data''] \<mapsto> Directory, [''data'', ''py''] \<mapsto> Directory,
    [''data'', ''py'', ''private''] \<mapsto> Directory, [''data'', ''py'', ''private'', ''a.whl''] \<mapsto> Regular ''abc'' 3]"
  by (auto simp: node_at_def released_disk_def fun_eq_iff)

lemma released_foreign: "node_at released_disk q \<noteq> None \<Longrightarrow> foreign q \<and> \<not> isTempName (path_last q)"
proof -
  assume "node_at released_disk q \<noteq> None"
  then have q: "q \<in> {[''data''], [''data'', ''py''], [''data'', ''py'', ''private''], [''data'', ''py'', ''private'', ''a.whl'']}"
    by (auto simp: released_nodes split: if_splits)
  have "bodyPathForMetadata [''data''] = None" "bodyPathForMetadata [''data'', ''py''] = None"
    "bodyPathForMetadata [''data'', ''py'', ''private''] = None" "bodyPathForMetadata [''data'', ''py'', ''private'', ''a.whl''] = None"
    by code_simp+
  then show ?thesis using q
    by (auto simp: foreign_def is_meta_def is_body_def stem_of_def path_last_def isTempName_def HasPrefix_def)
qed

lemma released_usage: "fst (usage rt released_disk) = 0"
proof -
  have "entry_of released_disk q = None" for q
    using released_foreign [of q] entry_of_node [of released_disk q] entry_of_is_meta [of released_disk q]
    by (cases "entry_of released_disk q") (auto simp: foreign_def)
  then have "entry_size released_disk = (\<lambda>_. 0)" by (simp add: fun_eq_iff entry_size_def)
  then show ?thesis by (simp add: usage_def)
qed

lemma released_bytes: "private_bytes [''data'', ''py'', ''private''] released_disk = 3"
proof -
  have "{q. prefix [''data'', ''py'', ''private''] q \<and> node_at released_disk q \<noteq> None} =
      {[''data'', ''py'', ''private''], [''data'', ''py'', ''private'', ''a.whl'']}"
    by (auto simp: released_nodes split: if_splits)
  then show ?thesis
    by (simp add: private_bytes_def released_nodes private_weight_def path_last_def HasSuffix_def file_size_def file_content_def)
qed

theorem start_books_witness:
  "\<exists>a g c. server_New sample_start bounded_config ''1'' released_disk = (Inr a, g) \<and> sv_storage (svc_server a) = Some c \<and>
     committedBytes c = total_bytes (sv_stores (svc_server a)) + private_total (app_repositories a) g"
proof -
  have "case server_New sample_start bounded_config ''1'' released_disk of
      (Inr a, g) \<Rightarrow> length (app_repositories a) = 1 \<and> list_all (\<lambda>h. case h of PypiHandler p \<Rightarrow>
          py_localPath p = [''data'', ''py'', ''private''] | _ \<Rightarrow> False) (app_repositories a) \<and> sv_storage (svc_server a) \<noteq> None
    | (Inl e, g) \<Rightarrow> False" by code_simp
  then obtain a g where run: "server_New sample_start bounded_config ''1'' released_disk = (Inr a, g)"
    and h: "length (app_repositories a) = 1" "list_all (\<lambda>h. case h of PypiHandler p \<Rightarrow>
          py_localPath p = [''data'', ''py'', ''private''] | _ \<Rightarrow> False) (app_repositories a)" and s: "sv_storage (svc_server a) \<noteq> None"
    by (auto split: prod.splits sum.splits)
  obtain x where "app_repositories a = [x]" using h(1) by (auto simp: length_Suc_conv)
  then obtain p where p: "app_repositories a = [PypiHandler p]" "py_localPath p = [''data'', ''py'', ''private'']"
    using h(2) by (cases x) auto
  have v: "Validate bounded_config = None" by code_simp
  have t: "storage_typed (cfg_Storage bounded_config)"
    by (simp add: storage_typed_def is_i64_def bounded_config_def sample_config_def)
  obtain c where c: "sv_storage (svc_server a) = Some c" using s by blast
  have q: "faults released_disk = []" by (simp add: released_disk_def)
  have m: "re_message (se_run sample_start) e \<noteq> []" for e by (simp add: sample_start_def sample_run_env_def)
  have pp: "plain_private (app_repositories a) released_disk" using released_foreign by (auto simp: plain_private_def p)
  have "sum_list (map (\<lambda>r. fst (usage (store_dir bounded_config r) released_disk)) (Repositories bounded_config)) +
      private_total (app_repositories a) released_disk \<le> MaxInt64"
    by (simp add: released_usage released_bytes p MaxInt64_def)
  from start_books [OF run v t q m pp this] c
  have "committedBytes c = total_bytes (sv_stores (svc_server a)) + private_total (app_repositories a) g" by simp
  then show ?thesis using run c by blast
qed

end
