(* ===== verification/Config_Roundtrip.thy ===== *)
theory Config_Roundtrip
  imports Config_Theorems
begin

text \<open>
  Every valid configuration of plain text, written with one section per part and one quoted
  value per key, is read back as it is.
\<close>

section \<open>Durations and numbers\<close>

lemma digits_val_mono: "list_all is_digit ds \<Longrightarrow> 0 \<le> x \<Longrightarrow> x \<le> digits_val x ds"
proof (induction ds arbitrary: x)
  case (Cons c ds)
  have "0 \<le> digit_val c" using Cons.prems(1) by (simp add: digit_val_def is_digit_def)
  then show ?case using Cons.IH [of "10 * x + digit_val c"] Cons.prems by simp
qed simp

lemma leadingInt_digits:
  assumes "list_all is_digit ds" "r = [] \<or> \<not> is_digit (hd r)" "0 \<le> x" "digits_val x ds \<le> 2 ^ 63"
  shows "leadingInt x (ds @ r) = Some (digits_val x ds, r)"
  using assms
proof (induction ds arbitrary: x)
  case Nil
  then show ?case by (cases r) simp_all
next
  case (Cons c ds)
  let ?y = "10 * x + digit_val c"
  have d: "0 \<le> digit_val c" using Cons.prems(1) by (simp add: digit_val_def is_digit_def)
  have y: "?y \<le> digits_val ?y ds" by (rule digits_val_mono) (use Cons.prems d in auto)
  then have "?y \<le> 2 ^ 63" using Cons.prems(4) by simp
  then show ?case using Cons d by (simp add: Let_def)
qed

lemma ParseDuration_nanoseconds:
  assumes "0 \<le> n" "is_i64 n"
  shows "ParseDuration (nanoseconds n) = Some n"
proof -
  obtain c r where d: "dec_digits (nat n) = c # r" using dec_digits_ok [of "nat n"] by (cases "dec_digits (nat n)") auto
  have digits: "list_all is_digit (c # r)" "digits_val 0 (c # r) = n"
    using dec_digits_ok [of "nat n"] assms(1) by (simp_all add: d)
  have le: "n \<le> 2 ^ 63 - 1" using assms(2) by (simp add: is_i64_def)
  have "leadingInt 0 ((c # r) @ ''ns'') = Some (n, ''ns'')"
    using leadingInt_digits [OF digits(1), of "''ns''" 0] digits(2) le by (simp add: is_digit_def byte_def)
  moreover have "unitMap ''ns'' = Some 1" "takeWhile not_numeric ''ns'' = ''ns''" by code_simp+
  ultimately have "duration_item ((c # r) @ ''ns'') = Some (n, [])"
    using digits(1) le by (simp add: duration_item_def not_numeric_def)
  then have "duration_loop 0 ((c # r) @ ''ns'') = Some n"
    using assms(1) le by (simp add: duration_loop.simps [of 0] duration_loop.simps [of n] u64_def)
  moreover have "drop_sign ((c # r) @ ''ns'') = (False, (c # r) @ ''ns'')"
    using digits(1) is_digit_not_sign [of c] by (simp add: drop_sign_def)
  moreover have "nanoseconds n = (c # r) @ ''ns''" using assms(1) by (simp add: nanoseconds_def FormatInt_def d)
  ultimately show ?thesis using le by (auto simp: ParseDuration_def)
qed

lemma plain_digits: "is_digit c \<Longrightarrow> plain_char c"
  by (auto simp: is_digit_def plain_char_def byte_def)

lemma plain_FormatInt: "list_all plain_char (FormatInt v)"
  using dec_digits_ok [of "nat v"] dec_digits_ok [of "nat (- v)"] plain_digits
  by (auto simp: FormatInt_def list_all_iff plain_char_def byte_def)

lemma plain_nanoseconds: "list_all plain_char (nanoseconds n)"
  using plain_FormatInt [of n] by (simp add: nanoseconds_def plain_char_def byte_def)

lemma plain_join: "\<forall>v \<in> set vs. list_all plain_char v \<Longrightarrow> list_all plain_char (join_with '','' vs)"
  by (induction "'',''" vs rule: join_with.induct) (auto simp: plain_char_def byte_def)

lemma plain_not_space: "plain_char c \<Longrightarrow> c \<noteq> CHR '' '' \<Longrightarrow> c \<notin> set ascii_spaces"
proof
  assume c: "plain_char c" "c \<noteq> CHR '' ''" "c \<in> set ascii_spaces"
  then have "c \<in> {CHR 0x09, CHR 0x0A, CHR 0x0B, CHR 0x0C, CHR 0x0D}" by (simp add: ascii_spaces_def)
  then have "byte c < 32" by (elim insertE) (simp_all add: byte_def)
  then show False using c(1) by (simp add: plain_char_def)
qed

lemma splitCSV_join:
  assumes "\<forall>v \<in> set vs. list_all plain_char v \<and> plain_origin_text v"
  shows "splitCSV (join_with '','' vs) = vs"
proof (cases "vs = []")
  case True
  then show ?thesis by (simp add: splitCSV_def TrimSpace_def Trim_def TrimLeft_def TrimRight_def)
next
  case False
  have sp: "c \<notin> set ascii_spaces" if "plain_char c" "c \<noteq> CHR '' ''" for c
    using that by (rule plain_not_space)
  have "TrimSpace v = v" if "v \<in> set vs" for v
  proof (rule TrimSpace_id)
    show ne: "v \<noteq> []" using assms that by (simp add: plain_origin_text_def)
    have "c \<notin> set ascii_spaces" if "c \<in> set v" for c
      using assms \<open>v \<in> set vs\<close> that sp [of c] by (auto simp: plain_origin_text_def list_all_iff)
    then show "hd v \<notin> set ascii_spaces" "last v \<notin> set ascii_spaces" using ne by simp_all
  qed
  then have "map TrimSpace vs = vs" by (simp add: map_idI)
  moreover have "Split (join_with '','' vs) CHR '','' = vs"
    by (rule Split_join [OF False]) (use assms in \<open>auto simp: plain_origin_text_def\<close>)
  moreover have "filter (\<lambda>i. i \<noteq> []) vs = vs" using assms by (simp add: filter_id_conv plain_origin_text_def)
  ultimately show ?thesis by (simp add: splitCSV_def)
qed

section \<open>Blocks of lines\<close>

fun reads :: "(string \<Rightarrow> string) \<Rightarrow> string list \<Rightarrow> parser \<Rightarrow> parser \<Rightarrow> bool" where
  "reads g [] p q \<longleftrightarrow> p = q"
| "reads g (t # ts) p q \<longleftrightarrow> (case parse_line g t p of Inl _ \<Rightarrow> False | Inr p' \<Rightarrow> reads g ts p' q)"

lemma reads_loop: "reads g ts p q \<Longrightarrow> parse_loop g n ts p = Inr q"
  by (induction g ts p q arbitrary: n rule: reads.induct) (auto split: sum.splits)

lemma reads_append: "reads g ts p q \<Longrightarrow> reads g us q r \<Longrightarrow> reads g (ts @ us) p r"
  by (induction g ts p q rule: reads.induct) (auto split: sum.splits)

lemma parse_header:
  "parse_line g ''[server]'' p = Inr (p\<lparr>p_section := ''server'', p_current := False\<rparr>)"
  "parse_line g ''[storage]'' p = Inr (p\<lparr>p_section := ''storage'', p_current := False\<rparr>)"
  "parse_line g ''[operator]'' p = Inr (p\<lparr>p_section := ''operator'', p_current := False\<rparr>)"
proof -
  have t: "TrimSpace (stripComment ''[server]'') = ''[server]''" "TrimSpace (stripComment ''[storage]'') = ''[storage]''"
    "TrimSpace (stripComment ''[operator]'') = ''[operator]''" by code_simp+
  have s: "TrimSpace (TrimSuffix (TrimPrefix ''[server]'' ''['') '']'') = ''server''"
    "TrimSpace (TrimSuffix (TrimPrefix ''[storage]'' ''['') '']'') = ''storage''"
    "TrimSpace (TrimSuffix (TrimPrefix ''[operator]'' ''['') '']'') = ''operator''" by code_simp+
  show "parse_line g ''[server]'' p = Inr (p\<lparr>p_section := ''server'', p_current := False\<rparr>)"
    "parse_line g ''[storage]'' p = Inr (p\<lparr>p_section := ''storage'', p_current := False\<rparr>)"
    "parse_line g ''[operator]'' p = Inr (p\<lparr>p_section := ''operator'', p_current := False\<rparr>)"
    by (simp_all add: parse_line_def Let_def t HasPrefix_def HasSuffix_def parse_section_def s)
qed

lemma parse_repository_header:
  assumes "validRepositoryName name"
  shows "parse_line g (''[repository.'' @ name @ '']'') p =
    Inr (p\<lparr>p_cfg := (p_cfg p)\<lparr>Repositories := Repositories (p_cfg p) @ [new_repository name]\<rparr>,
      p_section := ''repository.'' @ name, p_current := True\<rparr>)"
proof -
  let ?l = "''[repository.'' @ name @ '']''"
  have ne: "name \<noteq> []" using validRepositoryName_element(1) [OF assms] .
  have nc: "name_chars 0 name" using assms by (simp add: validRepositoryName_def)
  have ch: "c \<notin> set ascii_spaces" "c \<noteq> CHR ''#''" "c \<noteq> CHR 0x22" if "c \<in> set name" for c
    using name_chars_safe [OF nc that] by (auto simp: is_lower_def is_digit_def byte_def ascii_spaces_def)
  have "stripComment ?l = ?l"
  proof -
    have "CHR ''#'' \<notin> set ?l" "CHR 0x22 \<notin> set ?l" using ch by auto
    then show ?thesis using strip_loop_plain [of ?l "[]"] by (simp add: stripComment_def)
  qed
  moreover have "TrimSpace ?l = ?l" by (rule TrimSpace_id) (simp_all add: ascii_spaces_def)
  ultimately have t: "TrimSpace (stripComment ?l) = ?l" by simp
  have "TrimPrefix ?l ''['' = (''repository.'' @ name) @ '']''" by (simp add: TrimPrefix_def HasPrefix_def)
  then have "TrimSuffix (TrimPrefix ?l ''['') '']'' = ''repository.'' @ name" by (simp only: TrimSuffix_append)
  moreover have "TrimSpace (''repository.'' @ name) = ''repository.'' @ name"
    by (rule TrimSpace_id) (use ne ch [of "last name"] in \<open>auto simp: ascii_spaces_def\<close>)
  ultimately have s: "TrimSpace (TrimSuffix (TrimPrefix ?l ''['') '']'') = ''repository.'' @ name" by simp
  have n: "TrimSpace name = name"
    by (rule TrimSpace_id) (use ne ch [of "hd name"] ch [of "last name"] in auto)
  have hp: "HasPrefix ?l ''[''" "HasSuffix ?l '']''" by (simp_all add: HasPrefix_def HasSuffix_def)
  have rp: "HasPrefix (''repository.'' @ name) ''repository.''" "TrimPrefix (''repository.'' @ name) ''repository.'' = name"
    by (simp add: HasPrefix_def, rule TrimPrefix_append)
  show ?thesis
    unfolding parse_line_def Let_def t parse_section_def s using hp rp n ne by simp
qed

lemma keys:
  "key_name ''listen''" "key_name ''public_base_url''" "key_name ''log_level''" "key_name ''token_file''"
  "key_name ''path''" "key_name ''max_age''" "key_name ''gc_interval''" "key_name ''stale_temp_age''" "key_name ''max_bytes''"
  "key_name ''high_watermark''" "key_name ''low_watermark''" "key_name ''min_free_bytes''"
  "key_name ''type''" "key_name ''upstream''" "key_name ''ttl''" "key_name ''forward_authorization''"
  "key_name ''publish_token_file''" "key_name ''allowed_file_origins''"
  by code_simp+

lemma reads_server:
  assumes "list_all plain_char (Listen s)" "list_all plain_char (PublicBaseURL s)" "list_all plain_char (Log s)"
  shows "reads g (write_server s) p
    (p\<lparr>p_cfg := (p_cfg p)\<lparr>cfg_Server := s\<rparr>, p_section := ''server'', p_current := False\<rparr>)"
proof -
  have eq: "x\<lparr>Listen := Listen s, PublicBaseURL := PublicBaseURL s, Log := Log s\<rparr> = s" for x :: server_config
    by (cases x; cases s) simp
  show ?thesis
    by (simp add: write_server_def parse_header parse_setting keys assms assign_def Let_def set_server_def eq)
qed

lemma reads_storage:
  assumes "list_all plain_char (storage_Path s)" "list_all plain_char high" "list_all plain_char low"
    "ParseFloat high = Some (HighWatermark s)" "ParseFloat low = Some (LowWatermark s)" "storage_typed s"
    "0 \<le> MaxAge s" "0 \<le> GCInterval s" "0 \<le> StaleTempAge s"
  shows "reads g (write_storage high low s) p
    (p\<lparr>p_cfg := (p_cfg p)\<lparr>cfg_Storage := s\<rparr>, p_section := ''storage'', p_current := False\<rparr>)"
proof -
  have v: "ParseDuration (nanoseconds (MaxAge s)) = Some (MaxAge s)" "ParseDuration (nanoseconds (GCInterval s)) = Some (GCInterval s)"
    "ParseDuration (nanoseconds (StaleTempAge s)) = Some (StaleTempAge s)" "ParseInt (FormatInt (cfg_MaxBytes s)) = Some (cfg_MaxBytes s)"
    "ParseInt (FormatInt (cfg_MinFreeBytes s)) = Some (cfg_MinFreeBytes s)"
    using assms(6-9) by (simp_all add: storage_typed_def ParseDuration_nanoseconds ParseInt_FormatInt)
  have eq: "x\<lparr>storage_Path := storage_Path s, MaxAge := MaxAge s, GCInterval := GCInterval s, StaleTempAge := StaleTempAge s,
      cfg_MaxBytes := cfg_MaxBytes s, HighWatermark := HighWatermark s, LowWatermark := LowWatermark s,
      cfg_MinFreeBytes := cfg_MinFreeBytes s\<rparr> = s" for x :: storage_config
    by (cases x; cases s) simp
  show ?thesis
    by (simp add: write_storage_def parse_header parse_setting keys v assms(1-5) plain_nanoseconds plain_FormatInt
        assign_def Let_def set_storage_def converted_def eq)
qed

lemma reads_settings:
  assumes "repo_Type r \<in> {''npm'', ''oci'', ''pypi''}" "list_all plain_char (repo_Path r)"
    "list_all plain_char (Upstream r)" "list_all plain_char (PublishTokenFile r)" "0 \<le> TTL r" "is_i64 (TTL r)"
    "\<forall>v \<in> set (AllowedFileOrigins r). list_all plain_char v \<and> plain_origin_text v"
    and p: "p_section p \<notin> {''server'', ''storage'', ''operator''}" "p_current p" "Repositories (p_cfg p) = rs @ [x]" "repo_Name x = repo_Name r"
  shows "reads g (tl (write_repository r)) p (p\<lparr>p_cfg := (p_cfg p)\<lparr>Repositories := rs @ [r]\<rparr>\<rparr>)"
proof -
  have pt: "list_all plain_char (repo_Type r)" using assms(1) by (auto simp: plain_char_def byte_def)
  have b: "ParseBool (truth b) = Some b" "list_all plain_char (truth b)" for b
    by (simp_all add: ParseBool_def truth_def plain_char_def byte_def)
  have po: "list_all plain_char (join_with '','' (AllowedFileOrigins r))" by (rule plain_join) (use assms(7) in blast)
  have eq: "x\<lparr>repo_Type := repo_Type r, repo_Path := repo_Path r, Upstream := Upstream r, TTL := TTL r,
      ForwardAuthorization := ForwardAuthorization r, PublishTokenFile := PublishTokenFile r,
      AllowedFileOrigins := AllowedFileOrigins r\<rparr> = r"
    using p(4) by (cases x; cases r) simp
  show ?thesis using p(1-3)
    by (simp add: write_repository_def parse_setting keys pt b po assms(2-4) plain_nanoseconds
        assign_def Let_def set_repository_def converted_def ParseDuration_nanoseconds [OF assms(5,6)] splitCSV_join [OF assms(7)] eq)
qed

lemma reads_repository:
  assumes "repository_ok r" "list_all plain_char (repo_Path r)" "list_all plain_char (Upstream r)"
    "list_all plain_char (PublishTokenFile r)" "is_i64 (TTL r)"
    "\<forall>v \<in> set (AllowedFileOrigins r). list_all plain_char v \<and> plain_origin_text v"
  shows "reads g (write_repository r) p (p\<lparr>p_cfg := (p_cfg p)\<lparr>Repositories := Repositories (p_cfg p) @ [r]\<rparr>,
    p_section := ''repository.'' @ repo_Name r, p_current := True\<rparr>)"
proof -
  have ok: "validRepositoryName (repo_Name r)" "repo_Type r \<in> {''npm'', ''oci'', ''pypi''}" "0 \<le> TTL r"
    using assms(1) by (auto simp: repository_ok_def)
  let ?q = "p\<lparr>p_cfg := (p_cfg p)\<lparr>Repositories := Repositories (p_cfg p) @ [new_repository (repo_Name r)]\<rparr>,
      p_section := ''repository.'' @ repo_Name r, p_current := True\<rparr>"
  have w: "write_repository r = (''[repository.'' @ repo_Name r @ '']'') # tl (write_repository r)"
    by (simp add: write_repository_def)
  have "reads g (tl (write_repository r)) ?q (?q\<lparr>p_cfg := (p_cfg ?q)\<lparr>Repositories := Repositories (p_cfg p) @ [r]\<rparr>\<rparr>)"
    by (rule reads_settings [where x = "new_repository (repo_Name r)", OF ok(2) assms(2-4) ok(3) assms(5,6)]) (simp_all add: new_repository_def)
  then have "reads g ((''[repository.'' @ repo_Name r @ '']'') # tl (write_repository r)) p
      (?q\<lparr>p_cfg := (p_cfg ?q)\<lparr>Repositories := Repositories (p_cfg p) @ [r]\<rparr>\<rparr>)"
    unfolding reads.simps parse_repository_header [OF ok(1)] sum.case .
  moreover have "?q\<lparr>p_cfg := (p_cfg ?q)\<lparr>Repositories := Repositories (p_cfg p) @ [r]\<rparr>\<rparr> =
      p\<lparr>p_cfg := (p_cfg p)\<lparr>Repositories := Repositories (p_cfg p) @ [r]\<rparr>, p_section := ''repository.'' @ repo_Name r, p_current := True\<rparr>"
    by (cases p) simp
  ultimately show ?thesis by (subst w) (simp only:)
qed

lemma reads_repositories:
  assumes "\<forall>r \<in> set rs. repository_ok r \<and> list_all plain_char (repo_Path r) \<and> list_all plain_char (Upstream r) \<and>
      list_all plain_char (PublishTokenFile r) \<and> is_i64 (TTL r) \<and>
      (\<forall>v \<in> set (AllowedFileOrigins r). list_all plain_char v \<and> plain_origin_text v)"
  shows "\<exists>q. reads g (concat (map write_repository rs)) p q \<and>
    p_cfg q = (p_cfg p)\<lparr>Repositories := Repositories (p_cfg p) @ rs\<rparr>"
  using assms
proof (induction rs arbitrary: p)
  case (Cons r rs)
  let ?p = "p\<lparr>p_cfg := (p_cfg p)\<lparr>Repositories := Repositories (p_cfg p) @ [r]\<rparr>,
    p_section := ''repository.'' @ repo_Name r, p_current := True\<rparr>"
  have r: "reads g (write_repository r) p ?p" by (rule reads_repository) (use Cons.prems in auto)
  obtain q where q: "reads g (concat (map write_repository rs)) ?p q"
    "p_cfg q = (p_cfg ?p)\<lparr>Repositories := Repositories (p_cfg ?p) @ rs\<rparr>"
    using Cons.IH [of ?p] Cons.prems by auto
  then show ?case using reads_append [OF r q(1)] by auto
qed simp

section \<open>The lines of a file\<close>

lemma raw_lines_concat:
  assumes "\<forall>l \<in> set ls. newline \<notin> set l"
  shows "raw_lines (concat (map (\<lambda>l. l @ [newline]) ls)) = ls"
proof -
  have "Split (concat (map (\<lambda>l. l @ [newline]) ls)) newline = ls @ [[]]" using assms
  proof (induction ls)
    case (Cons l ls)
    then show ?case
      using Split_append [of l newline "concat (map (\<lambda>l. l @ [newline]) ls)"] by (simp add: Split_absent)
  qed simp
  then show ?thesis by (simp add: raw_lines_def)
qed

lemma scan_lines_id:
  assumes "\<forall>l \<in> set ls. length l < 65536 \<and> \<not> HasSuffix l [CHR 0x0D]"
  shows "scan_lines ls = (ls, False)"
  using assms by (induction ls) (auto simp: dropCR_def TrimSuffix_other)

lemma HasSuffix_last: "HasSuffix l [c] \<Longrightarrow> last l = c"
  by (metis HasSuffix_def append_take_drop_id last_snoc)

definition clean_line :: "string \<Rightarrow> bool" where
  "clean_line l \<longleftrightarrow> newline \<notin> set l \<and> \<not> HasSuffix l [CHR 0x0D]"

lemma setting_line:
  assumes "key_name k" "list_all plain_char v"
  shows "clean_line (setting k v)"
proof -
  have k: "newline \<notin> set k" using assms(1) by (auto simp: key_name_def list_all_iff key_char_def is_lower_def byte_def newline_def)
  have v: "newline \<notin> set v" using assms(2) plain_not_special by (auto simp: list_all_iff newline_def)
  have "newline \<notin> set (setting k v)" using k v by (auto simp: setting_def quoted_def newline_def)
  moreover have "\<not> HasSuffix (setting k v) [CHR 0x0D]" by (auto simp: setting_def quoted_def dest: HasSuffix_last)
  ultimately show ?thesis by (simp add: clean_line_def)
qed

lemma header_line: "clean_line ''[server]''" "clean_line ''[storage]''" "clean_line ''[operator]''"
  by code_simp+

lemma repository_line:
  assumes "validRepositoryName name"
  shows "clean_line (''[repository.'' @ name @ '']'')"
proof -
  have "name_chars 0 name" using assms by (simp add: validRepositoryName_def)
  then have "newline \<notin> set name" using name_chars_safe [of 0 name newline] by (auto simp: is_lower_def is_digit_def byte_def newline_def)
  then show ?thesis by (auto simp: clean_line_def newline_def dest: HasSuffix_last)
qed

lemma write_repository_clean:
  assumes "repository_ok r" "list_all plain_char (repo_Path r)" "list_all plain_char (Upstream r)"
    "list_all plain_char (PublishTokenFile r)" "\<forall>v \<in> set (AllowedFileOrigins r). list_all plain_char v"
  shows "list_all clean_line (write_repository r)"
proof -
  have name: "clean_line (''[repository.'' @ repo_Name r @ '']'')"
    by (rule repository_line) (use assms(1) in \<open>simp add: repository_ok_def\<close>)
  have t: "list_all plain_char (repo_Type r)" using assms(1) by (auto simp: repository_ok_def plain_char_def byte_def)
  have b: "list_all plain_char (truth (ForwardAuthorization r))" by (simp add: truth_def plain_char_def byte_def)
  show ?thesis unfolding write_repository_def list.pred_inject
    by (intro conjI list.pred_inject(1) name setting_line keys t b assms(2-4) plain_join [OF assms(5)] plain_nanoseconds)
qed

lemma write_lines_clean:
  assumes "list_all repository_ok (Repositories c)" "plain_config c" "list_all plain_char high" "list_all plain_char low"
  shows "list_all clean_line (write_lines high low c)"
proof -
  have "list_all clean_line (write_repository r)" if "r \<in> set (Repositories c)" for r
    by (rule write_repository_clean) (use assms(1,2) that in \<open>auto simp: plain_config_def list_all_iff [of repository_ok]\<close>)
  then have "list_all clean_line (concat (map write_repository (Repositories c)))" by (auto simp: list_all_iff)
  moreover have "list_all clean_line (write_server (cfg_Server c))"
    using assms(2) by (simp add: write_server_def header_line setting_line keys plain_config_def)
  moreover have "list_all clean_line (write_storage high low (cfg_Storage c))"
    using assms(2-4) by (simp add: write_storage_def header_line setting_line keys plain_config_def plain_nanoseconds plain_FormatInt)
  moreover have "clean_line (setting ''token_file'' (TokenFile c))"
    using assms(2) by (simp add: setting_line keys plain_config_def)
  ultimately show ?thesis by (simp add: write_lines_def header_line)
qed

definition written :: "string list \<Rightarrow> string" where
  "written ls = concat (map (\<lambda>l. l @ [newline]) ls)"

text \<open>C38.
  
  Round trip: a configuration that passes the validation, whose durations and sizes fit
  their types and whose text is plain, is read back exactly as it was written, whatever the
  environment; every setting of every section is read, and none is confused with another.
  The watermarks are given as the texts that stand for them.
\<close>

theorem Parse_written:
  assumes "Validate c = None" "config_typed c" "plain_config c" "list_all plain_char high" "list_all plain_char low"
    "ParseFloat high = Some (HighWatermark (cfg_Storage c))" "ParseFloat low = Some (LowWatermark (cfg_Storage c))"
    "\<forall>l \<in> set (write_lines high low c). length l < 65536"
  shows "Parse getenv (written (write_lines high low c)) None = Inr c"
proof -
  let ?p0 = "\<lparr>p_cfg = default_config, p_section = [], p_current = False\<rparr>"
  have ok: "list_all repository_ok (Repositories c)" "MaxAge (cfg_Storage c) > 0" "GCInterval (cfg_Storage c) > 0"
    "StaleTempAge (cfg_Storage c) > 0"
    using assms(1) validate_repositories_ok [of "Repositories c" "[]" "[]"]
    by (auto simp: Validate_def Let_def split: if_splits sum.splits)
  let ?p1 = "?p0\<lparr>p_cfg := default_config\<lparr>cfg_Server := cfg_Server c\<rparr>, p_section := ''server'', p_current := False\<rparr>"
  let ?p2 = "?p1\<lparr>p_cfg := (p_cfg ?p1)\<lparr>cfg_Storage := cfg_Storage c\<rparr>, p_section := ''storage'', p_current := False\<rparr>"
  let ?p3 = "?p2\<lparr>p_cfg := (p_cfg ?p2)\<lparr>TokenFile := TokenFile c\<rparr>, p_section := ''operator'', p_current := False\<rparr>"
  have server: "reads getenv (write_server (cfg_Server c)) ?p0 ?p1"
    using reads_server [of "cfg_Server c" getenv ?p0] assms(3) by (simp add: plain_config_def)
  have storage: "reads getenv (write_storage high low (cfg_Storage c)) ?p1 ?p2"
    using reads_storage [of "cfg_Storage c" high low getenv ?p1] assms(2-7) ok by (simp add: plain_config_def config_typed_def)
  have operator: "reads getenv [''[operator]'', setting ''token_file'' (TokenFile c)] ?p2 ?p3"
    using assms(3) by (simp add: parse_header parse_setting keys plain_config_def assign_def Let_def)
  obtain q where repos: "reads getenv (concat (map write_repository (Repositories c))) ?p3 q"
    and q: "p_cfg q = (p_cfg ?p3)\<lparr>Repositories := Repositories (p_cfg ?p3) @ Repositories c\<rparr>"
    using reads_repositories [of "Repositories c" getenv ?p3] assms(2,3) ok(1)
    by (auto simp: plain_config_def config_typed_def list_all_iff)
  have "p_cfg q = c" using q by (cases c) (simp add: default_config_def)
  moreover have "reads getenv (write_lines high low c) ?p0 q"
    unfolding write_lines_def by (rule reads_append [OF server reads_append [OF storage reads_append [OF operator repos]]])
  moreover have "scan_lines (raw_lines (written (write_lines high low c))) = (write_lines high low c, False)"
  proof -
    have l: "newline \<notin> set l \<and> \<not> HasSuffix l [CHR 0x0D]" if "l \<in> set (write_lines high low c)" for l
      using write_lines_clean [OF ok(1) assms(3-5)] that by (simp add: list_all_iff clean_line_def)
    then have "raw_lines (written (write_lines high low c)) = write_lines high low c"
      unfolding written_def by (intro raw_lines_concat) blast
    then show ?thesis using scan_lines_id [of "write_lines high low c"] l assms(8) by simp
  qed
  ultimately show ?thesis using assms(1) reads_loop [of getenv "write_lines high low c" ?p0 q 1] by (simp add: Parse_def)
qed

definition sample_written :: config where
  "sample_written = sample_config\<lparr>cfg_Storage := (cfg_Storage sample_config)\<lparr>HighWatermark := Finite (1 / 2), LowWatermark := Finite (1 / 4)\<rparr>\<rparr>"

lemma sample_written_ok:
  "Validate sample_written = None" "plain_config sample_written" "list_all plain_char ''0.5''" "list_all plain_char ''0.25''"
  "ParseFloat ''0.5'' = Some (HighWatermark (cfg_Storage sample_written))"
  "ParseFloat ''0.25'' = Some (LowWatermark (cfg_Storage sample_written))"
  "\<forall>l \<in> set (write_lines ''0.5'' ''0.25'' sample_written). length l < 100"
  by code_simp+

theorem Parse_written_witness:
  "Parse (\<lambda>_. []) (written (write_lines ''0.5'' ''0.25'' sample_written)) None = Inr sample_written"
proof (rule Parse_written)
  show "config_typed sample_written"
    by (simp add: config_typed_def storage_typed_def sample_written_def sample_config_def sample_repository_def is_i64_def)
  show "\<forall>l \<in> set (write_lines ''0.5'' ''0.25'' sample_written). length l < 65536" using sample_written_ok(7) by auto
qed (rule sample_written_ok)+

end
