(* ===== verification/Pypi_Files.thy ===== *)
theory Pypi_Files
  imports Pypi_Theorems
begin

text \<open>
  Files in the cache: a file that the cache serves has the checksum of its link, whatever
  was streamed before.
\<close>

section \<open>Checksums\<close>

text \<open>The entry of a key, if there is one, has the checksum.\<close>

definition checked :: "string \<Rightarrow> string \<Rightarrow> world \<Rightarrow> bool" where
  "checked key sha w \<longleftrightarrow>
     (case entry_of (w_fs w) (key_path w key) of
        None \<Rightarrow> True
      | Some (m, q, body) \<Rightarrow> hex_EncodeToString (sha256_Sum256 body) = sha)"

definition no_body_dirs :: "fs \<Rightarrow> bool" where
  "no_body_dirs f \<longleftrightarrow> (\<forall>q. is_body q \<longrightarrow> node_at f q \<noteq> Some Directory)"

text \<open>What other requests keep while a request for the key waits for its lock.\<close>

definition calm_wait :: "pypi_env \<Rightarrow> string \<Rightarrow> string \<Rightarrow> world \<Rightarrow> bool" where
  "calm_wait env key sha w \<longleftrightarrow>
     (\<forall>w1. same_files w1 w \<longrightarrow>
        checked key sha (pe_wait env w1) \<and> no_body_dirs (w_fs (pe_wait env w1)) \<and>
        new_numbers (pe_put env) (key_path (pe_wait env w1) key) (w_fs (pe_wait env w1)))"

lemma checked_files: "same_files w' w \<Longrightarrow> checked key sha w \<longleftrightarrow> checked key sha w'"
proof -
  assume s: "same_files w' w"
  then have k: "key_path w' key = key_path w key" by (simp add: same_files_def key_path_def)
  have "entry_of (w_fs w') (key_path w key) = entry_of (w_fs w) (key_path w key)"
    using s by (intro entry_of_file_cong [OF key_path_meta]) (simp add: same_files_def)
  then show ?thesis by (simp add: checked_def k)
qed

lemma pypi_find_frame:
  assumes "pypi_find p env c key w = (r, w')"
  shows "same_files w' w"
proof (cases c)
  case True
  obtain x g where lk: "Lookup (pe_now env) (pe_now env) key (py_ttl p) (w_store w) (w_fs w) = (x, g)" by fastforce
  then have "w' = w\<lparr>w_fs := g\<rparr>" using assms True by (auto simp: pypi_find_def split: sum.splits)
  then show ?thesis using Lookup_files [OF lk] by (simp add: same_files_def)
next
  case False
  then show ?thesis using assms by (simp add: pypi_find_def same_files_def)
qed

lemma pypi_find_checked:
  assumes "pypi_find p env c key w = (Some en, w')" "checked key sha w" "no_body_dirs (w_fs w)"
  shows "hex_EncodeToString (sha256_Sum256 (Body en)) = sha"
proof -
  obtain g where look: "Lookup (pe_now env) (pe_now env) key (py_ttl p) (w_store w) (w_fs w) = (Inr (Some en), g)"
    using assms(1) by (auto simp: pypi_find_def split: prod.splits sum.splits if_splits)
  obtain b where pp: "paths (store_root (w_store w)) key = (b, key_path w key)" by (metis key_path_def prod.collapse)
  have "entry_of (w_fs w) (key_path w key) = Some (entry_Metadata en, BodyPath en, Body en)"
    using Lookup_hit [OF look pp] assms(3) resolveE(2) by (auto simp: no_body_dirs_def)
  then show ?thesis using assms(2) by (simp add: checked_def)
qed

lemma pypi_serveHit_body:
  "pr_method req = ''GET'' \<Longrightarrow> tape (rp_body w) = [] \<Longrightarrow>
   received (rp_body (pypi_serveHit env req en w)) = received (rp_body w) @ Body en"
  by (simp add: pypi_serveHit_def Let_def rp_Copy_def copy_through_plain concat_chunks_of)

lemma serveFileMiss_checked:
  assumes sha: "sha \<noteq> []" "list_all is_hex sha"
    and new: "new_numbers (pe_put env) (key_path (ps_world st) key) (w_fs (ps_world st))"
    and body: "\<And>verb u h resp. pe_client env verb u h = Inr resp \<Longrightarrow> is_i64 (int (length (concat (chunks (ur_body resp)))))"
    and old: "checked key sha (ps_world st)"
  shows "checked key sha (ps_world (snd (serveFileMiss p env sha req target key c w st)))"
proof (cases "doUpstream p env req target")
  case (Inl x)
  then show ?thesis using old by (simp add: serveFileMiss_def proxyFailure_def)
next
  case (Inr resp)
  let ?hs = "Header_Set (Header_Del (ResponseHeaders (ur_header resp)) ''Content-Encoding'') ''X-N0ding-Cache'' ''MISS''"
  let ?c = "c \<and> pr_method req = ''GET'' \<and> ur_status resp = 200 \<and>
    ResponseAllowsStorage (pr_header req) (ur_header resp) [''Accept-Encoding'']"
  let ?m = "zero_metadata\<lparr>Status := ur_status resp, Header := CacheMetadataHeaders ?hs, ContentDigest := ''sha256:'' @ sha\<rparr>"
  let ?data = "concat (chunks (ur_body resp))"
  let ?v = "checksum_verifier sha ?data"
  let ?down = "rp_body (rp_WriteHeader (ur_status resp) (w\<lparr>rp_header := CopyHeaders (rp_header w) ?hs\<rparr>))"
  obtain e d w' where put: "PutStreamVerified (pe_put env) key ?m (ur_body resp) ?down (Some ?v) (ps_world st) = (e, d, w')"
    by (metis prod_cases3)
  obtain b where pp: "paths (store_root (w_store (ps_world st))) key = (b, key_path (ps_world st) key)"
    by (metis key_path_def prod.collapse)
  show ?thesis
  proof (cases ?c)
    case False
    then have "ps_world (snd (serveFileMiss p env sha req target key c w st)) = ps_world st"
      using Inr by (auto simp: serveFileMiss_def streamResponse_def Let_def)
    then show ?thesis using old by simp
  next
    case True
    have "is_i64 (int (length ?data))" using body Inr by (auto simp: doUpstream_def split: if_splits sum.splits)
    moreover have "valid_utf8 (''sha256:'' @ sha)" using hex_ascii [OF sha(2)] by (intro valid_utf8_ascii) (simp add: byte_def)
    ultimately have E: "encodable ?m ?data" using True by (simp add: encodable_def is_i64_def)
    have K: "key_path w' key = key_path (ps_world st) key" using put_near [OF put pp] by (simp add: key_path_def)
    have "checked key sha w'"
      using put_atomic [OF put pp new E] old unfolding checked_def K
      by (elim disjE bexE conjE) (simp_all add: checksum_verifier_def Let_def split: if_splits)
    moreover have "ps_world (snd (serveFileMiss p env sha req target key c w st)) = w'"
      using Inr True put sha(1) by (simp add: serveFileMiss_def streamResponse_def Let_def)
    ultimately show ?thesis by simp
  qed
qed

text \<open>A request for a file.\<close>

definition file_request :: "pypi_proxy \<Rightarrow> proxy_request \<Rightarrow> bool" where
  "file_request p req \<longleftrightarrow> pr_method req = ''GET'' \<and> Path (pr_url req) \<noteq> py_uploadPath p \<and>
     \<not> HasPrefix (Path (pr_url req)) (py_packagePath p) \<and> \<not> HasPrefix (Path (pr_url req)) (py_path p) \<and>
     HasPrefix (Path (pr_url req)) (py_filePath p)"

text \<open>C5.
  
  A file from the cache has the checksum of its link: when a GET for a link with a checksum
  is answered from the store, the bytes that are sent hash to it; and whatever the upstream
  answers, whichever reads, client writes and system calls fail, the request leaves under
  its key no entry with another checksum.
\<close>

theorem file_hit_has_checksum:
  assumes "file_request p req" "fileTargetURL p (pr_url req) = Inr (target, sha)" "sha \<noteq> []" "tape (rp_body w) = []"
    "key = pypi_cacheKey p ''file'' target (Get (pr_header req) ''Accept'') sha"
    "checked key sha (ps_world st)" "no_body_dirs (w_fs (ps_world st))" "calm_wait env key sha (ps_world st)"
    "\<And>verb u h resp. pe_client env verb u h = Inr resp \<Longrightarrow> is_i64 (int (length (concat (chunks (ur_body resp)))))"
  shows "case pypi_ServeHTTP p env req w st of (w', st') \<Rightarrow> checked key sha (ps_world st') \<and>
    (hits (ps_stats st') = hits (ps_stats st) \<or>
     (\<exists>body. received (rp_body w') = received (rp_body w) @ body \<and> hex_EncodeToString (sha256_Sum256 body) = sha))"
proof -
  have hex: "list_all is_hex sha"
    using assms(2,3) hex_Decode_iff by (auto simp: fileTargetURL_def Let_def split: option.splits if_splits)
  have GET: "pr_method req = ''GET''" using assms(1) by (simp add: file_request_def)
  define s where "s = (let st1 = st\<lparr>ps_stats := (ps_stats st)\<lparr>requests := bump (requests (ps_stats st))\<rparr>\<rparr> in
    if Get (pr_header req) ''Range'' \<noteq> []
    then st1\<lparr>ps_stats := (ps_stats st1)\<lparr>rangeRequests := bump (rangeRequests (ps_stats st1))\<rparr>\<rparr> else st1)"
  have s: "ps_world s = ps_world st" "hits (ps_stats s) = hits (ps_stats st)" by (simp_all add: s_def Let_def)
  let ?c = "pypi_cacheable p req"
  obtain r1 w1 where a: "pypi_find p env ?c key (ps_world st) = (r1, w1)" by fastforce
  obtain r2 w2 where b: "pypi_find p env ?c key (pe_wait env w1) = (r2, w2)" by fastforce
  have run: "pypi_ServeHTTP p env req w st = (case r1 of
      Some en \<Rightarrow> (pypi_serveHit env req en w, stat_hit (s\<lparr>ps_world := w1\<rparr>))
    | None \<Rightarrow> (case r2 of
        Some en \<Rightarrow> (pypi_serveHit env req en w, stat_hit (s\<lparr>ps_world := w2\<rparr>))
      | None \<Rightarrow> serveFileMiss p env sha req target key ?c w (stat_miss (s\<lparr>ps_world := w2\<rparr>))))"
    using assms(1,2,5) a b s by (simp add: pypi_ServeHTTP_def Let_def file_request_def serveFile_def serveCached_def s_def split: option.splits)
  note c1 = checked_files [OF pypi_find_frame [OF a]] and c2 = checked_files [OF pypi_find_frame [OF b]]
  have calm: "checked key sha (pe_wait env w1)" "no_body_dirs (w_fs (pe_wait env w1))"
    "new_numbers (pe_put env) (key_path (pe_wait env w1) key) (w_fs (pe_wait env w1))"
    using assms(8) pypi_find_frame [OF a] by (simp_all add: calm_wait_def)
  show ?thesis
  proof (cases r1)
    case (Some en)
    then show ?thesis
      using pypi_find_checked [OF a [unfolded Some] assms(6,7)] pypi_serveHit_body [OF GET assms(4)] c1 assms(6) by (simp add: run)
  next
    case r1: None
    show ?thesis
    proof (cases r2)
      case (Some en)
      then show ?thesis
        using pypi_find_checked [OF b [unfolded Some] calm(1,2)] pypi_serveHit_body [OF GET assms(4)] c2 calm(1) by (simp add: run r1)
    next
      case None
      let ?s = "stat_miss (s\<lparr>ps_world := w2\<rparr>)"
      have "new_numbers (pe_put env) (key_path w2 key) (w_fs w2)"
        using calm(3) new_numbers_files [of "w_fs w2" "w_fs (pe_wait env w1)"] pypi_find_frame [OF b]
        by (simp add: same_files_def key_path_def)
      then have "checked key sha (ps_world (snd (serveFileMiss p env sha req target key ?c w ?s)))"
        by (intro serveFileMiss_checked [OF assms(3) hex _ assms(9)]) (use c2 calm(1) in simp_all)
      moreover have "hits (ps_stats (snd (serveFileMiss p env sha req target key ?c w ?s))) = hits (ps_stats st)"
        using serveFileMiss_uncounted [of ?s p env sha req target key ?c w] s(2) by (simp add: uncounted_def)
      ultimately show ?thesis
        by (cases "serveFileMiss p env sha req target key ?c w ?s") (simp add: run r1 None)
    qed
  qed
qed

definition zero_sha :: string where
  "zero_sha = replicate 64 CHR ''0''"

definition sample_download :: proxy_request where
  "sample_download = \<lparr>pr_method = ''GET'', pr_url = empty_url\<lparr>Path := ''/pypi/files/b.whl'',
     RawQuery := ''sha256='' @ zero_sha @ ''&url=https%3A%2F%2Ff.io%2Fa%2Fb.whl''\<rparr>, pr_header = [], pr_canceled = False\<rparr>"

lemma sample_download_ok:
  "fileTargetURL sample_pypi (pr_url sample_download) = Inr (sample_wheel, zero_sha)" "file_request sample_pypi sample_download"
  by code_simp+

text \<open>A download whose upstream answers other bytes than the link promises leaves no entry with them.\<close>

theorem file_hit_has_checksum_witness:
  "checked (pypi_cacheKey sample_pypi ''file'' sample_wheel [] zero_sha) zero_sha
     (ps_world (snd (pypi_ServeHTTP sample_pypi (sample_pypi_env sample_file) sample_download open_reply
        \<lparr>ps_world = sample_world, ps_stats = no_counts\<rparr>)))"
proof -
  let ?key = "pypi_cacheKey sample_pypi ''file'' sample_wheel [] zero_sha" and ?env = "sample_pypi_env sample_file"
  have get: "Get (pr_header sample_download) ''Accept'' = []" by code_simp
  have none: "entry_of (w_fs w) q = None" if "file_at (w_fs w) = file_at (w_fs sample_world)" for w q
    using that by (simp add: entry_of_def meta_at_file)
  have calm: "calm_wait ?env ?key zero_sha sample_world"
    unfolding calm_wait_def
  proof (intro allI impI)
    fix w1 assume s: "same_files w1 sample_world"
    have "new_numbers sample_env q (w_fs w1)" for q
      using new_numbers_files [of "w_fs w1" "w_fs sample_world"] s by (simp add: same_files_def new_numbers_def meta_at_def)
    then show "checked ?key zero_sha (pe_wait ?env w1) \<and> no_body_dirs (w_fs (pe_wait ?env w1)) \<and>
        new_numbers (pe_put ?env) (key_path (pe_wait ?env w1) ?key) (w_fs (pe_wait ?env w1))"
      using s none [of w1] by (simp add: sample_pypi_env_def checked_def same_files_def no_body_dirs_def)
  qed
  have "case pypi_ServeHTTP sample_pypi ?env sample_download open_reply \<lparr>ps_world = sample_world, ps_stats = no_counts\<rparr> of
      (w', st') \<Rightarrow> checked ?key zero_sha (ps_world st') \<and> (hits (ps_stats st') = hits (ps_stats \<lparr>ps_world = sample_world, ps_stats = no_counts\<rparr>) \<or>
        (\<exists>body. received (rp_body w') = received (rp_body open_reply) @ body \<and> hex_EncodeToString (sha256_Sum256 body) = zero_sha))"
    by (rule file_hit_has_checksum [OF sample_download_ok(2,1)])
      (use calm none [of sample_world] get in \<open>simp_all add: zero_sha_def open_reply_def checked_def no_body_dirs_def
        sample_pypi_env_def sample_file_def is_i64_def\<close>)
  then show ?thesis by (simp split: prod.splits)
qed

end
