(* ===== verification/Spec2Isabelle.thy ===== *)
theory Spec2Isabelle
  imports Keyed_Lock Server_Theorems Server_Books Config_Roundtrip Pypi_Files
begin

text \<open>
  n0ding is a pull-through cache for npm, PyPI and OCI registries, with private PyPI packages,
  written in Go. This development models the program and states what makes it correct. File and
  function names below are those of the repository, under \<^verbatim>\<open>src/\<close>.

  \<^bold>\<open>The program.\<close> One process (\<^verbatim>\<open>cmd/n0ding/main.go\<close>) reads a configuration
  (\<^verbatim>\<open>internal/config\<close>) and starts one HTTP server (\<^verbatim>\<open>internal/httpserver\<close>). The server has, for every
  configured repository, a cache store on disk (\<^verbatim>\<open>internal/cache\<close>) and a proxy in front of an upstream
  (\<^verbatim>\<open>internal/npmproxy\<close>, \<^verbatim>\<open>ociproxy\<close>, \<^verbatim>\<open>pypiproxy\<close>). The proxies share the policy for headers, redirects and
  cacheability (\<^verbatim>\<open>internal/httppolicy\<close>), a lock per cache key that lets one request fetch for all, and
  one byte budget (\<^verbatim>\<open>internal/storage\<close>). A coordinator (\<^verbatim>\<open>internal/maintenance\<close>) runs one collection at
  a time, at the start, on a schedule, under pressure or for the operator; collections remove expired
  or least recently used cache entries and give their bytes back to the budget.

  \<^bold>\<open>Layers.\<close> The theories follow the calls.

  \<^item> The Go runtime, as far as the program uses it. \<^verbatim>\<open>Prelude\<close>: 64-bit integers as integers with the
    wrap-around written out, the theorem collections, facts on association lists. \<^verbatim>\<open>Go_Strings\<close>,
    \<^verbatim>\<open>Go_Strconv\<close>, \<^verbatim>\<open>Go_Time\<close>, \<^verbatim>\<open>Go_Filepath\<close>, \<^verbatim>\<open>Go_Url\<close>, \<^verbatim>\<open>Go_Query\<close>, \<^verbatim>\<open>Go_Http\<close>, \<^verbatim>\<open>Go_Mime\<close>, \<^verbatim>\<open>Go_Json\<close>,
    \<^verbatim>\<open>Go_Base64\<close>, \<^verbatim>\<open>Go_Sha256\<close>, \<^verbatim>\<open>Go_Mux\<close>: the library functions, translated from their documented
    behaviour. \<^verbatim>\<open>Go_Os\<close>: a file system of paths with contents and times; every call first takes the
    next element of a list of faults, so a statement about any file system is a statement about every
    pattern of failing system calls.
  \<^item> \<^verbatim>\<open>Storage_Controller\<close> (\<^verbatim>\<open>storage/controller.go\<close>, \<^verbatim>\<open>free_unix.go\<close>): the controller and a reservation
    as records, \<open>Reserve\<close>, \<open>Commit\<close>, \<open>Release\<close>, \<open>Remove\<close>, \<open>Snapshot\<close>. The locale for a budget is
    interpreted on them; shown are the exact admission rule, and that no interleaving exceeds the budget.
  \<^item> \<^verbatim>\<open>Maintenance\<close> (\<^verbatim>\<open>maintenance/coordinator.go\<close>): a heap of runs, the two critical sections and the
    unlocked writes between them as steps of concurrent callers; single flight, consecutive numbers.
  \<^item> \<^verbatim>\<open>Keyed_Lock\<close> (\<^verbatim>\<open>keyedLocker\<close>): the critical sections as steps; mutual exclusion, no leak, and without new
    requests the lock drains in a bounded number of steps.
  \<^item> \<^verbatim>\<open>Http_Policy\<close> (\<^verbatim>\<open>httppolicy/policy.go\<close>): which headers are forwarded, answered and stored, redirects,
    cache directives, redaction of errors; exact characterisations and the safety of credentials.
  \<^item> The cache (\<^verbatim>\<open>cache/store.go\<close>): \<^verbatim>\<open>Cache_Metadata\<close> (metadata and its JSON text), \<^verbatim>\<open>Cache_Store\<close> (paths,
    lookup, candidates, reconciliation, retention, clean-up), \<^verbatim>\<open>Cache_Put\<close> (\<open>PutStreamVerified\<close> in its
    phases). \<^verbatim>\<open>Cache_Entries\<close> is the abstract view, the entry that a directory holds for a key;
    \<^verbatim>\<open>Cache_Collect\<close>, \<^verbatim>\<open>Cache_Laws\<close>, \<^verbatim>\<open>Cache_Atomic\<close>, \<^verbatim>\<open>Cache_Roundtrip\<close> and \<^verbatim>\<open>Cache_Trace\<close> relate every
    operation to it, and \<^verbatim>\<open>Cache_Theorems\<close> states the results: a put is atomic under every failure, an
    entry is what the last put of its key streamed, retention removes exactly the expired entries, the
    counters agree with the disk, and files that are not the cache's are never touched.
  \<^item> \<^verbatim>\<open>Proxy_Runtime\<close>, \<^verbatim>\<open>Repository_Handler\<close>, \<^verbatim>\<open>Repository_Status\<close>: the response writer, what the server
    relies on in a repository as a locale, and the status (\<^verbatim>\<open>repository/repository.go\<close>). The locale is
    interpreted on the three proxies.
  \<^item> \<^verbatim>\<open>Npm_Proxy\<close>, \<^verbatim>\<open>Npm_Theorems\<close>: rewriting of metadata, what a miss stores is what the next request
    gets, and the rule that keeps forwarded credentials out of the shared cache with its gap. \<^verbatim>\<open>Oci_Digest\<close>, \<^verbatim>\<open>Oci_Proxy\<close>, \<^verbatim>\<open>Oci_Theorems\<close>: stored
    bodies hash to their digests, a hit is confirmed by the upstream for the caller's credentials.
    \<^verbatim>\<open>Pypi_Links\<close>, \<^verbatim>\<open>Pypi_Link_Theorems\<close>: names and links. \<^verbatim>\<open>Pypi_Private\<close>, \<^verbatim>\<open>Pypi_Private_Theorems\<close>,
    \<^verbatim>\<open>Pypi_Release\<close>, \<^verbatim>\<open>Pypi_Publish\<close>: uploads, the index and downloads. \<^verbatim>\<open>Pypi_Proxy\<close>, \<^verbatim>\<open>Pypi_Theorems\<close>,
    \<^verbatim>\<open>Pypi_Files\<close>, \<^verbatim>\<open>Pypi_Survival\<close>: the handler; private projects hide the upstream's, cached files have
    the checksum of their link, and no request takes away a release.
  \<^item> \<^verbatim>\<open>Config\<close>, \<^verbatim>\<open>Config_Parse\<close>, \<^verbatim>\<open>Config_Theorems\<close>, \<^verbatim>\<open>Config_Roundtrip\<close> (\<^verbatim>\<open>config/config.go\<close>): validation, the
    reader of the file with comments, quoting, environment, durations and floating-point numbers; what
    a loaded configuration guarantees, and that a written one is read back.
  \<^item> The server (\<^verbatim>\<open>httpserver/server.go\<close>): \<^verbatim>\<open>Server_Collect\<close> (retention over all stores and eviction under
    pressure), \<^verbatim>\<open>Server_Http\<close> (operator endpoint, maintenance loop, small handlers, initial budget),
    \<^verbatim>\<open>Server_Status\<close> (status, metrics, dashboard), \<^verbatim>\<open>Server_New\<close> (the start), \<^verbatim>\<open>Server_Serve\<close> (a request, and
    everything that happens to a machine as events), \<^verbatim>\<open>Server_Dispatch\<close> (the routes stay well-formed,
    every request finds its handler, and which configurations the multiplexer refuses), \<^verbatim>\<open>Server_Books\<close> (after a start the counters and the budget are what
    is on disk), \<^verbatim>\<open>Command_Line\<close> (the process), and \<^verbatim>\<open>Server_Theorems\<close> (releases survive any sequence of
    processes).

  \<^bold>\<open>State and environment.\<close> A request works on a \<open>world\<close>: the counters of its store, the file system and
  the shared controller; the handler's counters are beside it. An \<open>application\<close> is the record of the
  server with its stores, handlers, routes and coordinator; a \<open>machine\<close> is a file system with or without a
  running application. What the program cannot decide is an argument: clock readings, random names,
  free space, the bytes and errors of a body, the answers of upstreams, the signals. What other
  requests do while one waits for a key's lock is a function on worlds in the environment of a
  request; theorems that need something of it say so. Two libraries that are not part of the
  repository are parameters: the HTML parser of \<^verbatim>\<open>golang.org/x/net/html\<close> and \<^verbatim>\<open>http.ServeContent\<close>.

  \<^bold>\<open>Bounds.\<close> All definitions are total, by structural recursion or a measure; no fuel is used. Where
  overflow is part of a guard or a published number, arithmetic wraps at 64 bits as in the code: the
  budget controller, durations and times, the request counters, sizes of private packages, parsed
  numbers. Other counters are unbounded integers although the fields are 64-bit: a store's bytes and
  objects, the bytes that a collection sums up as removed, and the references of a lock; they are sums
  of file sizes on one disk or numbers of concurrent requests. \<^verbatim>\<open>sort.Slice\<close>, which may permute equal
  elements, is a stable sort: candidates used at the same nanosecond keep the order of the walk.
  The watermark products of \<^verbatim>\<open>NewController\<close> are exact fractions. Case and white space are those of
  ASCII. A multiplexer pattern with a blank panics; one with a segment in braces, which validation lets
  through and \<^verbatim>\<open>ServeMux\<close> takes as a wildcard, is taken literally here, so the statements about routes are
  about patterns without braces. JSON answers of the server and the dashboard
  stand for their encoding as values; the metrics are text. The two zeros of \<^verbatim>\<open>float64\<close> are one.

  \<^bold>\<open>Not modelled.\<close> \<^verbatim>\<open>storage/free_windows.go\<close> is one system call. Logging has no effect on the state. The
  listener's timeouts and the network belong to \<^verbatim>\<open>net/http\<close>. The programs under \<^verbatim>\<open>testdata\<close> are test
  fixtures. The lock, \<^verbatim>\<open>fail\<close> and \<^verbatim>\<open>recordStreamError\<close> are the same code in the three proxies and are modelled
  once.
\<close>

section \<open>Properties that span components\<close>

text \<open>C30.
  
  The statistics that the server reports for a repository: after any run of requests to
  the npm, the OCI or the PyPI handler, whatever their order, environments and outcomes, the
  handler's request counter has grown by the number of its requests, and its hits and
  misses together never exceed it.
\<close>

theorem handlers_count_requests:
  assumes "roomy (length xs) (ps_stats st)" "roomy (length ys) (ps_stats su)" "roomy (length zs) (ps_stats sv)"
  shows "(let c = ps_stats (fold (\<lambda>(env, req, w) s. snd (npm_ServeHTTP p env req w s)) xs st)
     in requests c = requests (ps_stats st) + int (length xs) \<and> hits c + misses c \<le> requests c) \<and>
    (let c = ps_stats (fold (\<lambda>(env, req, w) s. snd (oci_ServeHTTP q env req w s)) ys su)
     in requests c = requests (ps_stats su) + int (length ys) \<and> hits c + misses c \<le> requests c) \<and>
    (let c = ps_stats (fold (\<lambda>(env, req, w) s. snd (pypi_ServeHTTP r env req w s)) zs sv)
     in requests c = requests (ps_stats sv) + int (length zs) \<and> hits c + misses c \<le> requests c)"
  using npm.run_counts [OF assms(1), of p] oci.run_counts [OF assms(2), of q] pypi.run_counts [OF assms(3), of r]
  by (simp add: roomy_def Let_def)

theorem handlers_count_requests_witness:
  "(let c = ps_stats (fold (\<lambda>(env, req, w) s. snd (npm_ServeHTTP sample_npm env req w s))
        [(sample_npm_env, sample_get, open_reply), (sample_npm_env, sample_get\<lparr>pr_method := ''PUT''\<rparr>, open_reply)]
        \<lparr>ps_world = sample_world, ps_stats = no_counts\<rparr>)
    in requests c = 2 \<and> hits c + misses c \<le> 2)"
  using handlers_count_requests [where p = sample_npm and ys = "[]" and q = sample_oci and zs = "[]" and r = sample_pypi
      and xs = "[(sample_npm_env, sample_get, open_reply), (sample_npm_env, sample_get\<lparr>pr_method := ''PUT''\<rparr>, open_reply)]"
      and st = "\<lparr>ps_world = sample_world, ps_stats = no_counts\<rparr>" and su = "\<lparr>ps_world = sample_world, ps_stats = no_counts\<rparr>"
      and sv = "\<lparr>ps_world = sample_world, ps_stats = no_counts\<rparr>"]
  by (simp add: roomy_def no_counts_def Let_def)

end
